(* ===== verification/Prelude.thy ===== *)
theory Prelude
  imports Main "HOL-Library.AList"
begin

section \<open>Prelude: Python values, dictionaries, results and the shared automation\<close>

text \<open>
  What every component of the development uses:

  \<^item> Python text as HOL strings. A HOL \<open>char\<close> is one of 256 values and is read here as
    the Unicode code point of that number, so a string of the model is a Python string
    whose code points are below 256; \<open>py_strip\<close>, \<open>py_isdigit\<close> and the UTF-8 length are the
    library's functions on those code points.
  \<^item> Python values (\<open>pyval\<close>) with truthiness, \<open>str\<close> and \<open>json.dumps\<close>. A float is
    carried by its \<open>repr\<close>.
  \<^item> Insertion-ordered dictionaries as association lists with distinct keys:
    \<open>map_of\<close> reads, \<open>AList.update\<close> stores in place or at the end, \<open>AList.delete\<close>
    removes.
  \<^item> Results: \<open>'e + 'a\<close> with \<open>Inl\<close> the exception.
  \<^item> The locales \<open>component\<close> and \<open>atomic_component\<close>, the contract every stateful
    component is proved against, and the collections \<open>dict_simps\<close> and \<open>py_simps\<close>.
\<close>

named_theorems dict_simps
named_theorems py_simps

subsection \<open>Text\<close>

abbreviation code_of :: "char \<Rightarrow> nat" where
  "code_of c \<equiv> of_char c"

definition py_space :: "char \<Rightarrow> bool" where
  "py_space c = (let n = code_of c in
     (9 \<le> n \<and> n \<le> 13) \<or> (28 \<le> n \<and> n \<le> 32) \<or> n = 133 \<or> n = 160)"

definition py_lstrip :: "string \<Rightarrow> string" where
  "py_lstrip s = dropWhile py_space s"

definition py_rstrip :: "string \<Rightarrow> string" where
  "py_rstrip s = rev (dropWhile py_space (rev s))"

definition py_strip :: "string \<Rightarrow> string" where
  "py_strip s = py_rstrip (py_lstrip s)"

definition ascii_digit :: "char \<Rightarrow> bool" where
  "ascii_digit c = (48 \<le> code_of c \<and> code_of c \<le> 57)"

text \<open>\<open>str.isdigit\<close>: the superscripts two, three and one count as digits, as in Python,
  although \<open>int\<close> refuses them.\<close>

definition py_isdigit :: "string \<Rightarrow> bool" where
  "py_isdigit s = (s \<noteq> [] \<and>
     list_all (\<lambda>c. ascii_digit c \<or> code_of c \<in> {178, 179, 185}) s)"

definition digit_char :: "nat \<Rightarrow> char" where
  "digit_char d = char_of (48 + d)"

fun nat_str :: "nat \<Rightarrow> string" where
  "nat_str n = (if n < 10 then [digit_char n] else nat_str (n div 10) @ [digit_char (n mod 10)])"

declare nat_str.simps [simp del]

definition int_str :: "int \<Rightarrow> string" where
  "int_str i = (if i < 0 then CHR ''-'' # nat_str (nat (- i)) else nat_str (nat i))"

text \<open>\<open>int(s)\<close> on a string that passed \<open>isdigit\<close>: \<open>None\<close> is the \<open>ValueError\<close>.\<close>

definition digits_val :: "string \<Rightarrow> nat" where
  "digits_val s = foldl (\<lambda>n c. 10 * n + (code_of c - 48)) 0 s"

definition py_int :: "string \<Rightarrow> nat option" where
  "py_int s = (if s \<noteq> [] \<and> list_all ascii_digit s then Some (digits_val s) else None)"

text \<open>\<open>str.lower\<close> on code points below 256.\<close>

definition py_lower_char :: "char \<Rightarrow> char" where
  "py_lower_char c = (let n = code_of c in
     if (65 \<le> n \<and> n \<le> 90) \<or> (192 \<le> n \<and> n \<le> 222 \<and> n \<noteq> 215) then char_of (n + 32) else c)"

definition py_lower :: "string \<Rightarrow> string" where
  "py_lower s = map py_lower_char s"

lemma code_of_digit_char: "d < 10 \<Longrightarrow> code_of (digit_char d) = 48 + d"
  by (simp add: digit_char_def)

lemma ascii_digit_char: "d < 10 \<Longrightarrow> ascii_digit (digit_char d)"
  by (simp add: ascii_digit_def code_of_digit_char)

lemma nat_str_nonempty [simp]: "nat_str n \<noteq> []"
  by (subst nat_str.simps) simp

lemma nat_str_digits: "list_all ascii_digit (nat_str n)"
proof (induction n rule: nat_str.induct)
  case (1 n)
  then show ?case
    by (subst nat_str.simps) (auto simp: ascii_digit_char)
qed

lemma digits_val_snoc: "digits_val (s @ [c]) = 10 * digits_val s + (code_of c - 48)"
  by (simp add: digits_val_def)

lemma digits_val_nat_str: "digits_val (nat_str n) = n"
proof (induction n rule: nat_str.induct)
  case (1 n)
  show ?case
  proof (cases "n < 10")
    case True
    then show ?thesis
      by (simp add: nat_str.simps [of n] digits_val_def code_of_digit_char)
  next
    case False
    with 1 have IH: "digits_val (nat_str (n div 10)) = n div 10" by simp
    have "digits_val (nat_str n) = 10 * (n div 10) + n mod 10"
      using False by (simp add: nat_str.simps [of n] digits_val_snoc IH code_of_digit_char)
    then show ?thesis by simp
  qed
qed

lemma py_int_nat_str [simp]: "py_int (nat_str n) = Some n"
  by (simp add: py_int_def nat_str_digits digits_val_nat_str)

lemma nat_str_inj [simp]: "nat_str m = nat_str n \<longleftrightarrow> m = n"
  by (metis digits_val_nat_str)

lemma py_isdigit_nat_str [simp]: "py_isdigit (nat_str n)"
  using nat_str_digits [of n] by (auto simp: py_isdigit_def list_all_iff)

lemma py_rstrip_all_space: "list_all py_space s \<Longrightarrow> py_rstrip s = []"
  by (simp add: py_rstrip_def list_all_iff dropWhile_eq_Nil_conv)

lemma py_lstrip_hd: "py_lstrip s = c # cs \<Longrightarrow> \<not> py_space c"
  by (metis dropWhile_eq_Cons_conv py_lstrip_def)

lemma py_rstrip_last: "py_rstrip s \<noteq> [] \<Longrightarrow> \<not> py_space (last (py_rstrip s))"
  by (simp add: py_rstrip_def last_rev hd_dropWhile)

lemma py_rstrip_prefix: "\<exists>t. s = py_rstrip s @ t \<and> list_all py_space t"
proof -
  have "rev s = takeWhile py_space (rev s) @ dropWhile py_space (rev s)" by simp
  then have "s = py_rstrip s @ rev (takeWhile py_space (rev s))"
    unfolding py_rstrip_def by (metis rev_append rev_rev_ident)
  moreover have "list_all py_space (rev (takeWhile py_space (rev s)))"
    by (auto simp: list_all_iff dest: set_takeWhileD)
  ultimately show ?thesis by blast
qed

lemma py_lstrip_id: "s = [] \<or> \<not> py_space (hd s) \<Longrightarrow> py_lstrip s = s"
  by (cases s) (auto simp: py_lstrip_def)

lemma py_rstrip_id: "s = [] \<or> \<not> py_space (last s) \<Longrightarrow> py_rstrip s = s"
  by (cases s rule: rev_cases) (auto simp: py_rstrip_def)

lemma py_strip_idem [simp]: "py_strip (py_strip s) = py_strip s"
proof (cases "py_strip s = []")
  case True
  have "py_strip [] = []" by (simp add: py_strip_def py_rstrip_def py_lstrip_def)
  with True show ?thesis by simp
next
  case False
  let ?r = "py_rstrip (py_lstrip s)"
  from False have ne: "?r \<noteq> []" by (simp add: py_strip_def)
  obtain t where t: "py_lstrip s = ?r @ t" using py_rstrip_prefix by blast
  with ne obtain c cs where c: "?r = c # cs" by (cases ?r) auto
  with t have "py_lstrip s = c # (cs @ t)" by simp
  then have "\<not> py_space c" by (rule py_lstrip_hd)
  with c have "py_lstrip ?r = ?r" by (intro py_lstrip_id) simp
  moreover have "py_rstrip ?r = ?r"
    using py_rstrip_last [OF ne] by (intro py_rstrip_id) simp
  ultimately show ?thesis by (simp add: py_strip_def)
qed

subsection \<open>Python values\<close>

datatype pyval =
    PNone
  | PBool bool
  | PInt int
  | PFloat string
  | PStr string
  | PList "pyval list"
  | PDict "(string \<times> pyval) list"

type_synonym pydict = "(string \<times> pyval) list"

fun truthy :: "pyval \<Rightarrow> bool" where
  "truthy PNone = False"
| "truthy (PBool b) = b"
| "truthy (PInt i) = (i \<noteq> 0)"
| "truthy (PFloat r) = (r \<noteq> ''0.0'' \<and> r \<noteq> ''-0.0'')"
| "truthy (PStr s) = (s \<noteq> [])"
| "truthy (PList xs) = (xs \<noteq> [])"
| "truthy (PDict d) = (d \<noteq> [])"

text \<open>\<open>d.get(k)\<close>, \<open>d.get(k, default)\<close> and \<open>a or b\<close>.\<close>

definition dget :: "pydict \<Rightarrow> string \<Rightarrow> pyval" where
  "dget d k = (case map_of d k of None \<Rightarrow> PNone | Some v \<Rightarrow> v)"

definition dget_or :: "pydict \<Rightarrow> string \<Rightarrow> pyval \<Rightarrow> pyval" where
  "dget_or d k v0 = (case map_of d k of None \<Rightarrow> v0 | Some v \<Rightarrow> v)"

definition py_or :: "pyval \<Rightarrow> pyval \<Rightarrow> pyval" where
  "py_or a b = (if truthy a then a else b)"

definition hex_digit :: "nat \<Rightarrow> char" where
  "hex_digit d = (if d < 10 then char_of (48 + d) else char_of (87 + d))"

definition hex2 :: "nat \<Rightarrow> string" where
  "hex2 n = [hex_digit (n div 16 mod 16), hex_digit (n mod 16)]"

text \<open>\<open>repr\<close> of a string: single quotes unless the text has one and no double quote.\<close>

definition repr_char :: "char \<Rightarrow> char \<Rightarrow> string" where
  "repr_char q c = (let n = code_of c in
     if c = q \<or> n = 92 then [char_of (92::nat), c]
     else if n = 10 then [char_of (92::nat), CHR ''n'']
     else if n = 13 then [char_of (92::nat), CHR ''r'']
     else if n = 9 then [char_of (92::nat), CHR ''t'']
     else if n < 32 \<or> (127 \<le> n \<and> n \<le> 160) \<or> n = 173
     then char_of (92::nat) # CHR ''x'' # hex2 n
     else [c])"

definition repr_str :: "string \<Rightarrow> string" where
  "repr_str s =
     (let q = (if char_of (39::nat) \<in> set s \<and> char_of (34::nat) \<notin> set s
               then char_of (34::nat) else char_of (39::nat))
      in q # concat (map (repr_char q) s) @ [q])"

fun intercalate :: "string \<Rightarrow> string list \<Rightarrow> string" where
  "intercalate sep [] = []"
| "intercalate sep [x] = x"
| "intercalate sep (x # y # ys) = x @ sep @ intercalate sep (y # ys)"

fun py_repr :: "pyval \<Rightarrow> string" where
  "py_repr PNone = ''None''"
| "py_repr (PBool b) = (if b then ''True'' else ''False'')"
| "py_repr (PInt i) = int_str i"
| "py_repr (PFloat r) = r"
| "py_repr (PStr s) = repr_str s"
| "py_repr (PList xs) = ''['' @ intercalate '', '' (map py_repr xs) @ '']''"
| "py_repr (PDict d) =
     ''{'' @ intercalate '', '' (map (\<lambda>(k, v). repr_str k @ '': '' @ py_repr v) d) @ ''}''"

fun py_str :: "pyval \<Rightarrow> string" where
  "py_str (PStr s) = s"
| "py_str v = py_repr v"

text \<open>\<open>json.dumps(v, ensure_ascii=False)\<close> with the default separators, and the number of
  bytes of its UTF-8 encoding.\<close>

definition json_char :: "char \<Rightarrow> string" where
  "json_char c = (let n = code_of c in
     if n = 34 \<or> n = 92 then [char_of (92::nat), c]
     else if n = 10 then [char_of (92::nat), CHR ''n'']
     else if n = 13 then [char_of (92::nat), CHR ''r'']
     else if n = 9 then [char_of (92::nat), CHR ''t'']
     else if n = 8 then [char_of (92::nat), CHR ''b'']
     else if n = 12 then [char_of (92::nat), CHR ''f'']
     else if n < 32 then char_of (92::nat) # ''u00'' @ hex2 n
     else [c])"

definition json_str :: "string \<Rightarrow> string" where
  "json_str s = char_of (34::nat) # concat (map json_char s) @ [char_of (34::nat)]"

fun json_dumps :: "pyval \<Rightarrow> string" where
  "json_dumps PNone = ''null''"
| "json_dumps (PBool b) = (if b then ''true'' else ''false'')"
| "json_dumps (PInt i) = int_str i"
| "json_dumps (PFloat r) = r"
| "json_dumps (PStr s) = json_str s"
| "json_dumps (PList xs) = ''['' @ intercalate '', '' (map json_dumps xs) @ '']''"
| "json_dumps (PDict d) =
     ''{'' @ intercalate '', '' (map (\<lambda>(k, v). json_str k @ '': '' @ json_dumps v) d) @ ''}''"

definition utf8_len :: "string \<Rightarrow> nat" where
  "utf8_len s = sum_list (map (\<lambda>c. if code_of c < 128 then 1 else 2) s)"

subsection \<open>Dictionaries\<close>

abbreviation keys :: "('k \<times> 'v) list \<Rightarrow> 'k list" where
  "keys d \<equiv> map fst d"

abbreviation vals :: "('k \<times> 'v) list \<Rightarrow> 'v list" where
  "vals d \<equiv> map snd d"

text \<open>\<open>{key(x): x for x in xs}\<close>: a later duplicate overwrites the value and keeps the place.\<close>

definition dict_by :: "('a \<Rightarrow> 'k) \<Rightarrow> 'a list \<Rightarrow> ('k \<times> 'a) list" where
  "dict_by key xs = foldl (\<lambda>d x. AList.update (key x) x d) [] xs"

lemma update_fresh: "k \<notin> set (keys d) \<Longrightarrow> AList.update k v d = d @ [(k, v)]"
  by (induction d) auto

lemma foldl_update_fresh:
  "distinct (map key xs) \<Longrightarrow> set (map key xs) \<inter> set (keys d) = {} \<Longrightarrow>
   foldl (\<lambda>d x. AList.update (key x) x d) d xs = d @ map (\<lambda>x. (key x, x)) xs"
proof (induction xs arbitrary: d)
  case (Cons x xs)
  then have "AList.update (key x) x d = d @ [(key x, x)]"
    by (intro update_fresh) auto
  with Cons show ?case by auto
qed simp

lemma dict_by_distinct [dict_simps]:
  "distinct (map key xs) \<Longrightarrow> dict_by key xs = map (\<lambda>x. (key x, x)) xs"
  by (simp add: dict_by_def foldl_update_fresh)

lemma dict_keys_update [dict_simps]:
  "keys (AList.update k v d) = (if k \<in> set (keys d) then keys d else keys d @ [k])"
  by (induction d) auto

lemma dict_keys_delete [dict_simps]: "keys (AList.delete k d) = removeAll k (keys d)"
  by (induction d) (auto simp: AList.delete_eq)

lemma dict_key_set_update [dict_simps]: "fst ` set (AList.update k v d) = insert k (fst ` set d)"
  by (induction d) auto

lemma dict_key_set_delete [dict_simps]: "fst ` set (AList.delete k d) = fst ` set d - {k}"
  by (induction d) (auto simp: AList.delete_eq)

lemma distinct_update [dict_simps, intro]:
  "distinct (keys d) \<Longrightarrow> distinct (keys (AList.update k v d))"
  by (rule AList.distinct_update)

lemma distinct_delete [dict_simps, intro]:
  "distinct (keys d) \<Longrightarrow> distinct (keys (AList.delete k d))"
  by (simp add: dict_keys_delete distinct_removeAll)

lemma map_of_update [dict_simps]: "map_of (AList.update k v d) = (map_of d)(k \<mapsto> v)"
  by (rule AList.update_conv')

lemma map_of_delete [dict_simps]: "map_of (AList.delete k d) = (map_of d)(k := None)"
  by (rule AList.delete_conv')

lemma map_of_filter_vals:
  "distinct (map fst d) \<Longrightarrow>
   map_of (filter (\<lambda>(_, v). P v) d) k = (case map_of d k of None \<Rightarrow> None | Some v \<Rightarrow> if P v then Some v else None)"
  by (induction d) (force simp: map_of_eq_None_iff image_iff split: option.splits)+

lemma map_of_self_keys:
  "distinct (map key xs) \<Longrightarrow> map_of (map (\<lambda>x. (key x, x)) xs) k = Some y \<longleftrightarrow> y \<in> set xs \<and> key y = k"
  by (induction xs) (auto simp: image_iff)

lemma map_of_self_None:
  "map_of (map (\<lambda>x. (key x, x)) xs) k = None \<longleftrightarrow> k \<notin> key ` set xs"
  by (auto simp: map_of_eq_None_iff image_iff)

subsection \<open>Lists\<close>

text \<open>\<open>tuple(dict.fromkeys(xs))\<close>: first occurrences, in order.\<close>

definition uniq :: "'a list \<Rightarrow> 'a list" where
  "uniq xs = rev (remdups (rev xs))"

lemma set_uniq [simp]: "set (uniq xs) = set xs"
  by (simp add: uniq_def)

lemma distinct_uniq [simp]: "distinct (uniq xs)"
  by (simp add: uniq_def)

lemma uniq_distinct [simp]: "distinct xs \<Longrightarrow> uniq xs = xs"
  by (simp add: uniq_def distinct_remdups_id)

lemma find_Some_split:
  "find P xs = Some x \<Longrightarrow> \<exists>ys zs. xs = ys @ x # zs \<and> P x \<and> (\<forall>y \<in> set ys. \<not> P y)"
  by (induction xs) (auto split: if_splits intro: exI [of _ "[]"] dest: Cons_eq_appendI, metis append_Cons set_ConsD)

lemma find_map_key:
  "distinct (map key xs) \<Longrightarrow> find (\<lambda>x. key x = k) xs = Some x \<longleftrightarrow> x \<in> set xs \<and> key x = k"
  by (induction xs) (auto simp: image_iff)

lemma find_key_in: "k \<in> key ` set xs \<Longrightarrow> \<exists>x. find (\<lambda>x. key x = k) xs = Some x"
  by (induction xs) auto

lemma length_filter_eq1_split:
  "length (filter P xs) = 1 \<Longrightarrow>
   \<exists>ys x zs. xs = ys @ x # zs \<and> P x \<and> (\<forall>y \<in> set ys. \<not> P y) \<and> (\<forall>z \<in> set zs. \<not> P z)"
proof (induction xs)
  case (Cons a xs)
  show ?case
  proof (cases "P a")
    case True
    with Cons.prems have "filter P xs = []" by simp
    with True have "a # xs = [] @ a # xs \<and> P a \<and> (\<forall>z \<in> set xs. \<not> P z)"
      by (simp add: filter_empty_conv)
    then show ?thesis by fastforce
  next
    case False
    with Cons obtain ys x zs where "xs = ys @ x # zs" "P x"
      "\<forall>y \<in> set ys. \<not> P y" "\<forall>z \<in> set zs. \<not> P z" by auto
    with False have "a # xs = (a # ys) @ x # zs \<and> P x \<and>
      (\<forall>y \<in> set (a # ys). \<not> P y) \<and> (\<forall>z \<in> set zs. \<not> P z)" by simp
    then show ?thesis by blast
  qed
qed simp

lemma length_filter_remove_key:
  "distinct (map key xs) \<Longrightarrow> x \<in> set xs \<Longrightarrow> Q x \<Longrightarrow>
   Suc (length (filter (\<lambda>y. Q y \<and> key y \<noteq> key x) xs)) = length (filter Q xs)"
proof (induction xs)
  case (Cons a xs)
  show ?case
  proof (cases "a = x")
    case True
    with Cons.prems have "\<forall>y \<in> set xs. key y \<noteq> key x" by (auto simp: image_iff)
    then have "filter (\<lambda>y. Q y \<and> key y \<noteq> key x) xs = filter Q xs"
      by (intro filter_cong) auto
    with True Cons.prems show ?thesis by simp
  next
    case False
    with Cons.prems have "x \<in> set xs" "key a \<noteq> key x" by (auto simp: image_iff)
    with Cons show ?thesis by auto
  qed
qed simp

lemma filter_key_single:
  "distinct (map key xs) \<Longrightarrow> x \<in> set xs \<Longrightarrow> filter (\<lambda>y. key y = key x) xs = [x]"
  by (induction xs) (force simp: filter_empty_conv image_iff)+

lemma find_map_pred: "find P (map f xs) = map_option f (find (P \<circ> f) xs)"
  by (induction xs) auto

lemma find_cong_set: "(\<And>x. x \<in> set xs \<Longrightarrow> P x = Q x) \<Longrightarrow> find P xs = find Q xs"
  by (induction xs) auto

lemma find_SomeD: "find P xs = Some x \<Longrightarrow> x \<in> set xs \<and> P x"
  by (induction xs) (auto split: if_splits)

subsection \<open>Stateful components\<close>

text \<open>
  The contract of a stateful component: an operation takes the state and returns an
  answer and the next state, and every operation keeps the component's invariant. A
  client of the component may then rely on the invariant after any history of calls.
\<close>

locale component =
  fixes exec :: "'s \<Rightarrow> 'op \<Rightarrow> 'r \<times> 's"
    and inv :: "'s \<Rightarrow> bool"
  assumes exec_inv: "inv s \<Longrightarrow> inv (snd (exec s op))"
begin

definition run :: "'s \<Rightarrow> 'op list \<Rightarrow> 's" where
  "run s ops = foldl (\<lambda>s op. snd (exec s op)) s ops"

lemma run_Nil [simp]: "run s [] = s"
  by (simp add: run_def)

lemma run_Cons [simp]: "run s (op # ops) = run (snd (exec s op)) ops"
  by (simp add: run_def)

lemma run_append: "run s (ops @ ops') = run (run s ops) ops'"
  by (simp add: run_def)

lemma run_inv: "inv s \<Longrightarrow> inv (run s ops)"
  by (induction ops arbitrary: s) (auto intro: exec_inv)

end

text \<open>
  A component whose failing operations have no effect on what its clients see
  (\<open>view\<close>): an exception leaves the view as it was.
\<close>

locale atomic_component = component exec inv
  for exec :: "'s \<Rightarrow> 'op \<Rightarrow> ('e + 'r) \<times> 's" and inv :: "'s \<Rightarrow> bool" +
  fixes view :: "'s \<Rightarrow> 'v"
  assumes failed_view: "fst (exec s op) = Inl e \<Longrightarrow> view (snd (exec s op)) = view s"
begin

fun all_failed :: "'s \<Rightarrow> 'op list \<Rightarrow> bool" where
  "all_failed s [] = True"
| "all_failed s (op # ops) =
     ((\<exists>e. fst (exec s op) = Inl e) \<and> all_failed (snd (exec s op)) ops)"

lemma all_failed_view: "all_failed s ops \<Longrightarrow> view (run s ops) = view s"
  by (induction s ops rule: all_failed.induct) (auto dest: failed_view)

end

text \<open>A source of notices each of which is handed out once: a notice handed out is spent
  from then on, and only unspent ones are handed out.\<close>

locale one_shot =
  fixes exec :: "'s \<Rightarrow> 'op \<Rightarrow> 'n list \<times> 's"
    and spent :: "'s \<Rightarrow> 'n \<Rightarrow> bool"
    and ok :: "'s \<Rightarrow> bool"
  assumes ok_kept: "ok s \<Longrightarrow> ok (snd (exec s op))"
    and spent_kept: "ok s \<Longrightarrow> spent s n \<Longrightarrow> spent (snd (exec s op)) n"
    and fresh_only: "ok s \<Longrightarrow> n \<in> set (fst (exec s op)) \<Longrightarrow> \<not> spent s n"
    and now_spent: "ok s \<Longrightarrow> n \<in> set (fst (exec s op)) \<Longrightarrow> spent (snd (exec s op)) n"
    and step_distinct: "ok s \<Longrightarrow> distinct (fst (exec s op))"
begin

fun given :: "'s \<Rightarrow> 'op list \<Rightarrow> 'n list" where
  "given s [] = []"
| "given s (op # ops) = fst (exec s op) @ given (snd (exec s op)) ops"

lemma given_unspent: "ok s \<Longrightarrow> n \<in> set (given s ops) \<Longrightarrow> \<not> spent s n"
  by (induction ops arbitrary: s) (auto dest: ok_kept spent_kept fresh_only)

lemma given_distinct: "ok s \<Longrightarrow> distinct (given s ops)"
  by (induction ops arbitrary: s) (auto simp: step_distinct ok_kept dest: given_unspent [OF ok_kept] now_spent)

end

end
