(* ===== verification/Budget.thy ===== *)
theory Budget
  imports Prelude
begin

section \<open>Tool budgets of one run (tools/engine/budget.py, tools/delegated\_budget.py,
  tools/web\_search\_policy.py, loop\_guards.py, tools/engine/engine.py)\<close>

text \<open>
  \<open>ToolBudgetState\<close> counts the direct calls of a run against the limit of the tool and the
  limit of the run, counts the calls its sub-agents report, and opens a circuit breaker after
  consecutive empty file searches; \<open>WebSearchPolicy\<close> adds the batching and the duplicate
  check of web searches; \<open>budget_guidance\<close> hands out each wrap-up notice once;
  \<open>BudgetCharge\<close> reserves one unit in every ancestor ledger of a sub-agent's call. Rejection
  texts are built by \<open>rejection_text\<close>. The wrap-up notices, which are written in Chinese,
  are identified by their builder and its arguments. The term extraction of the
  near-duplicate check (two regular expressions and a stop-word list) is the parameter
  \<open>query_terms\<close> and \<open>site_domain\<close>; the overlap test on the terms is the code's.
\<close>

subsection \<open>Rejections\<close>

datatype rejection =
    EmptySearches int
  | DelegatedExhausted int
  | TotalExhausted int
  | ToolExhausted string int
  | DuplicateQuery string
  | BatchDeferred int

definition tool_call_budget_message :: "string \<Rightarrow> int \<Rightarrow> string" where
  "tool_call_budget_message tool_name limit =
     ''Tool call budget reached for '' @ tool_name @ '' ('' @ int_str limit @ '' calls this turn). ''
     @ ''Do not call '' @ tool_name @ '' again; continue the current deliverable and ''
     @ ''final response from the evidence and tool results already collected. ''
     @ ''If anything is missing, briefly mark it as a gap instead of searching '' @ ''again.''"

definition total_tool_call_budget_message :: "int \<Rightarrow> string" where
  "total_tool_call_budget_message limit =
     ''Total tool call budget reached ('' @ int_str limit @ '' calls this task). ''
     @ ''Do not call any more tools; synthesize the final answer from the ''
     @ ''evidence and tool results already collected.''"

definition delegated_tool_call_budget_message :: "int \<Rightarrow> string" where
  "delegated_tool_call_budget_message limit =
     ''Delegated tool call budget reached ('' @ int_str limit @ '' child calls this task). ''
     @ ''Do not start another sub_agent. Continue with the parent tools to merge, ''
     @ ''verify, finalize, and deliver the artifacts already produced.''"

definition search_files_empty_result_message :: "int \<Rightarrow> string" where
  "search_files_empty_result_message limit =
     ''search_files circuit breaker is open after '' @ int_str limit @ '' consecutive empty results. ''
     @ ''Do not call search_files again this turn. Use known paths with read_file, ''
     @ ''inspect already collected evidence, or explain the missing file instead of ''
     @ ''trying more search patterns.''"

fun rejection_text :: "rejection \<Rightarrow> string" where
  "rejection_text (EmptySearches n) = search_files_empty_result_message n"
| "rejection_text (DelegatedExhausted n) = delegated_tool_call_budget_message n"
| "rejection_text (TotalExhausted n) = total_tool_call_budget_message n"
| "rejection_text (ToolExhausted t n) = tool_call_budget_message t n"
| "rejection_text (DuplicateQuery q) =
     ''Duplicate web_search query skipped by runtime batching '' @ ''(exact or near-duplicate). ''
     @ ''It substantially overlaps '' @ repr_str q @ ''. Use the evidence already ''
     @ ''returned and search a genuinely different evidence gap.''"
| "rejection_text (BatchDeferred n) =
     ''web_search deferred by runtime batching (batch size '' @ int_str n @ ''). ''
     @ ''Review the current batch results and re-issue only still-missing, non-duplicate queries.''"

subsection \<open>The counters of one run\<close>

record tool_budget =
  tool_call_limits :: "(string \<times> int) list"
  max_tool_calls :: "int option"
  max_delegated_tool_calls :: "int option"
  search_files_empty_result_limit :: int
  tool_call_counts :: "string \<Rightarrow> int"
  tool_call_total :: int
  delegated_tool_call_total :: int
  delegated_reports :: "string set"
  delegated_budget_guidance_injected :: bool
  tool_budget_wrapup_injected :: "string set"
  search_files_consecutive_empty_results :: int

definition new_budget ::
  "(string \<times> int) list \<Rightarrow> int option \<Rightarrow> int option \<Rightarrow> int \<Rightarrow> tool_budget" where
  "new_budget lims mx md empties =
     \<lparr>tool_call_limits = lims, max_tool_calls = mx, max_delegated_tool_calls = md,
      search_files_empty_result_limit = empties, tool_call_counts = (\<lambda>_. 0),
      tool_call_total = 0, delegated_tool_call_total = 0, delegated_reports = {},
      delegated_budget_guidance_injected = False, tool_budget_wrapup_injected = {},
      search_files_consecutive_empty_results = 0\<rparr>"

definition SEARCH_FILES :: string where "SEARCH_FILES = ''search_files''"

definition at_cap :: "int option \<Rightarrow> int \<Rightarrow> bool" where
  "at_cap limit n = (case limit of None \<Rightarrow> False | Some l \<Rightarrow> l \<le> n)"

definition reserve :: "tool_budget \<Rightarrow> string \<Rightarrow> rejection option \<times> tool_budget" where
  "reserve b tool =
     (if tool = SEARCH_FILES
         \<and> search_files_empty_result_limit b \<le> search_files_consecutive_empty_results b
      then (Some (EmptySearches (search_files_empty_result_limit b)), b)
      else if tool = ''sub_agent'' \<and> at_cap (max_delegated_tool_calls b) (delegated_tool_call_total b)
      then (Some (DelegatedExhausted (the (max_delegated_tool_calls b))), b)
      else if at_cap (max_tool_calls b) (tool_call_total b)
      then (Some (TotalExhausted (the (max_tool_calls b))), b)
      else if at_cap (map_of (tool_call_limits b) tool) (tool_call_counts b tool)
      then (Some (ToolExhausted tool (the (map_of (tool_call_limits b) tool))), b)
      else (None,
        b\<lparr>tool_call_counts := (if map_of (tool_call_limits b) tool = None then tool_call_counts b
            else (tool_call_counts b)(tool := tool_call_counts b tool + 1)),
          tool_call_total := tool_call_total b + 1\<rparr>))"

definition positive_int :: "pyval \<Rightarrow> int option" where
  "positive_int v = (case v of PInt n \<Rightarrow> if 0 < n then Some n else None | _ \<Rightarrow> None)"

definition delegated_count :: "string \<Rightarrow> pyval \<Rightarrow> int option" where
  "delegated_count tool raw =
     (if tool \<noteq> ''sub_agent'' then None
      else case raw of
        PDict d \<Rightarrow> if dget d ''type'' \<noteq> PStr ''sub_agent_delegation'' then None
                  else positive_int (dget d ''tool_calls'')
      | _ \<Rightarrow> None)"

definition record_delegated ::
  "tool_budget \<Rightarrow> string \<Rightarrow> pyval \<Rightarrow> string option \<Rightarrow> tool_budget" where
  "record_delegated b tool raw call_id =
     (case delegated_count tool raw of
        None \<Rightarrow> b
      | Some n \<Rightarrow>
          (case call_id of
             None \<Rightarrow> b\<lparr>delegated_tool_call_total := delegated_tool_call_total b + n\<rparr>
           | Some c \<Rightarrow>
               if c \<in> delegated_reports b then b
               else b\<lparr>delegated_reports := insert c (delegated_reports b),
                      delegated_tool_call_total := delegated_tool_call_total b + n\<rparr>))"

subsection \<open>Empty file searches\<close>

record search_outcome =
  so_success :: bool
  so_raw_output :: pyval
  so_content :: pyval

definition search_files_result_is_empty :: "search_outcome \<Rightarrow> bool" where
  "search_files_result_is_empty r =
     (if \<not> so_success r then False
      else (let fallback = (case so_content r of
                  PStr s \<Rightarrow> py_lower (py_strip s) = ''no matches found.'' | _ \<Rightarrow> False)
            in case so_raw_output r of
                 PDict d \<Rightarrow> (case dget d ''returned_matches'' of
                     PInt n \<Rightarrow> n = 0 \<and> dget d ''timed_out'' \<noteq> PBool True
                   | _ \<Rightarrow> fallback)
               | _ \<Rightarrow> fallback))"

definition record_search :: "tool_budget \<Rightarrow> search_outcome \<Rightarrow> tool_budget" where
  "record_search b r =
     (if search_files_result_is_empty r
      then b\<lparr>search_files_consecutive_empty_results := search_files_consecutive_empty_results b + 1\<rparr>
      else if so_success r then b\<lparr>search_files_consecutive_empty_results := 0\<rparr>
      else b)"

subsection \<open>One-shot guidance at the next request\<close>

datatype notice =
    ToolWrapup string int
  | DelegatedWrapup int
  | EmptySearchGuidance int
  | TotalWrapup int

record tool_run =
  run_budget :: tool_budget
  delegated_budget :: "(int \<times> int) option"  \<comment> \<open>limit and used\<close>
  empty_search_guidance :: bool

definition configure_run ::
  "(string \<times> int) list \<Rightarrow> int option \<Rightarrow> int option \<Rightarrow> int \<Rightarrow> tool_run" where
  "configure_run lims mx md empties =
     \<lparr>run_budget = new_budget lims mx None empties,
      delegated_budget = map_option (\<lambda>l. (l, 0)) md, empty_search_guidance = False\<rparr>"

definition tool_notices :: "tool_budget \<Rightarrow> (string \<times> int) list" where
  "tool_notices b = filter (\<lambda>(name, limit). limit \<le> tool_call_counts b name
     \<and> name \<notin> tool_budget_wrapup_injected b) (tool_call_limits b)"

definition tool_guidance :: "tool_run \<Rightarrow> notice list \<times> tool_run" where
  "tool_guidance r =
     (let b = run_budget r
      in (map (\<lambda>(name, limit). ToolWrapup name limit) (tool_notices b),
          r\<lparr>run_budget := b\<lparr>tool_budget_wrapup_injected :=
             tool_budget_wrapup_injected b \<union> set (keys (tool_notices b))\<rparr>\<rparr>))"

definition delegated_guidance :: "tool_run \<Rightarrow> notice list \<times> tool_run" where
  "delegated_guidance r = (case delegated_budget r of
     None \<Rightarrow> ([], r)
   | Some (limit, used) \<Rightarrow>
       if limit \<le> used \<and> \<not> delegated_budget_guidance_injected (run_budget r)
       then ([DelegatedWrapup limit],
             r\<lparr>run_budget := (run_budget r)\<lparr>delegated_budget_guidance_injected := True\<rparr>\<rparr>)
       else ([], r))"

definition search_files_guidance :: "tool_run \<Rightarrow> notice list \<times> tool_run" where
  "search_files_guidance r =
     (let b = run_budget r
      in if search_files_empty_result_limit b \<le> search_files_consecutive_empty_results b
            \<and> \<not> empty_search_guidance r
         then ([EmptySearchGuidance (search_files_empty_result_limit b)], r\<lparr>empty_search_guidance := True\<rparr>)
         else ([], r))"

definition TOTAL :: string where "TOTAL = ''__total__''"

definition total_guidance :: "tool_run \<Rightarrow> notice list \<times> tool_run" where
  "total_guidance r =
     (let b = run_budget r
      in if at_cap (max_tool_calls b) (tool_call_total b) \<and> TOTAL \<notin> tool_budget_wrapup_injected b
         then ([TotalWrapup (the (max_tool_calls b))],
               r\<lparr>run_budget := b\<lparr>tool_budget_wrapup_injected := insert TOTAL (tool_budget_wrapup_injected b)\<rparr>\<rparr>)
         else ([], r))"

definition andthen :: "('s \<Rightarrow> 'n list \<times> 's) \<Rightarrow> ('s \<Rightarrow> 'n list \<times> 's) \<Rightarrow> 's \<Rightarrow> 'n list \<times> 's" where
  "andthen f g s = (let (a, s1) = f s; (b, s2) = g s1 in (a @ b, s2))"

definition budget_guidance :: "tool_run \<Rightarrow> notice list \<times> tool_run" where
  "budget_guidance =
     andthen tool_guidance (andthen delegated_guidance (andthen search_files_guidance total_guidance))"

subsection \<open>Web search batching\<close>

record search_batch =
  seen :: bool
  executed :: int
  deferred :: int
  duplicate_queries :: int
  new_results :: int
  duplicate_results :: int
  structured_results :: int
  labels :: "string list"

definition new_batch :: search_batch where
  "new_batch = \<lparr>seen = False, executed = 0, deferred = 0, duplicate_queries = 0, new_results = 0,
     duplicate_results = 0, structured_results = 0, labels = []\<rparr>"

text \<open>The set of seen queries is kept in the order of its iteration.\<close>

record search_policy =
  batch_size :: int
  total_limit :: int
  seen_queries :: "string list"
  unique_results :: int
  total_duplicate_results :: int
  no_new_batches :: int

record query_lang =
  query_terms :: "string \<Rightarrow> string list"
  site_domain :: "string \<Rightarrow> string"

definition near_duplicates :: "query_lang \<Rightarrow> string \<Rightarrow> string \<Rightarrow> bool" where
  "near_duplicates L a b =
     (if a = [] \<or> b = [] then False
      else if a = b then True
      else if site_domain L a \<noteq> site_domain L b then False
      else (let ta = set (query_terms L a); tb = set (query_terms L b);
                lo = min (card ta) (card tb); hi = max (card ta) (card tb);
                overlap = card (ta \<inter> tb)
            in 3 \<le> lo \<and> 9 * lo \<le> 10 * overlap \<and> 65 * hi \<le> 100 * overlap))"

fun split_words :: "string \<Rightarrow> string \<Rightarrow> string list" where
  "split_words w [] = (if w = [] then [] else [rev w])"
| "split_words w (c # cs) =
     (if py_space c then (if w = [] then [] else [rev w]) @ split_words [] cs
      else split_words (c # w) cs)"

text \<open>\<open>_normalize_web_search_query\<close>: the value of the first accepted key that is present (a
  value that is \<open>None\<close> or the empty string counts as absent), then of the first whose lower
  case is a lower-cased key of the request; case-folded, with single blanks. \<open>casefold\<close> is
  given by the parameter.\<close>

definition blank :: "pyval \<Rightarrow> bool" where
  "blank v = (v = PNone \<or> v = PStr [])"

definition first_present :: "pydict \<Rightarrow> string list \<Rightarrow> pyval" where
  "first_present d ks = (case find (\<lambda>k. \<not> blank (dget d k)) ks of
     Some k \<Rightarrow> dget d k
   | None \<Rightarrow>
       (let low = rev (map (\<lambda>(k, v). (py_lower k, v)) d)
        in case find (\<lambda>k. \<not> blank (dget low (py_lower k))) ks of
             Some k \<Rightarrow> dget low (py_lower k)
           | None \<Rightarrow> PNone))"

definition query_keys :: "string list" where
  "query_keys = [''query'', ''Query'', ''q'', ''search_query'', ''searchQuery'', ''search_terms'', ''keywords'']"

definition normalize_query :: "(string \<Rightarrow> string) \<Rightarrow> pydict \<Rightarrow> string" where
  "normalize_query casefold d = (case first_present d query_keys of
     PNone \<Rightarrow> []
   | v \<Rightarrow> intercalate '' '' (split_words [] (casefold (py_str v))))"

definition search_reserve ::
  "query_lang \<Rightarrow> string \<Rightarrow> search_policy \<Rightarrow> search_batch \<Rightarrow> tool_budget \<Rightarrow>
   rejection option \<times> search_policy \<times> search_batch \<times> tool_budget" where
  "search_reserve L key p batch b =
     (let batch1 = batch\<lparr>seen := True\<rparr>
      in case find (\<lambda>q. near_duplicates L key q) (seen_queries p) of
           Some q \<Rightarrow> (Some (DuplicateQuery q), p,
             batch1\<lparr>duplicate_queries := duplicate_queries batch1 + 1\<rparr>, b)
         | None \<Rightarrow>
             if batch_size p \<le> executed batch1
             then (Some (BatchDeferred (batch_size p)), p, batch1\<lparr>deferred := deferred batch1 + 1\<rparr>, b)
             else (case reserve b ''web_search'' of
                 (Some r, b') \<Rightarrow> (Some r, p, batch1, b')
               | (None, b') \<Rightarrow>
                   (None,
                    if key \<noteq> [] \<and> key \<notin> set (seen_queries p)
                    then p\<lparr>seen_queries := seen_queries p @ [key]\<rparr> else p,
                    batch1\<lparr>executed := executed batch1 + 1\<rparr>, b')))"

record search_result =
  sr_new :: int
  sr_duplicate :: int
  sr_inspected :: bool
  sr_labels :: "string list"

definition record_result ::
  "search_policy \<Rightarrow> search_batch \<Rightarrow> search_result \<Rightarrow> search_policy \<times> search_batch" where
  "record_result p batch r =
     (p\<lparr>unique_results := unique_results p + sr_new r,
        total_duplicate_results := total_duplicate_results p + sr_duplicate r\<rparr>,
      batch\<lparr>new_results := new_results batch + sr_new r,
        duplicate_results := duplicate_results batch + sr_duplicate r,
        structured_results := structured_results batch + (if sr_inspected r then 1 else 0),
        labels := labels batch @ take 3 (sr_labels r)\<rparr>)"

definition newline :: string where "newline = [char_of (10 :: nat)]"

definition search_guidance ::
  "search_policy \<Rightarrow> search_batch \<Rightarrow> int \<Rightarrow> string option \<times> search_policy" where
  "search_guidance p batch total_calls =
     (if \<not> seen batch then (None, p)
      else (let p' = (if 0 < executed batch \<and> 0 < structured_results batch
                      then p\<lparr>no_new_batches := (if new_results batch = 0 then no_new_batches p + 1 else 0)\<rparr>
                      else p);
                lines =
                  [''Search batch controller update (internal; do not mention this controller to the user):'',
                   ''- Executed this batch: '' @ int_str (executed batch) @ ''; total executed this turn: ''
                   @ int_str total_calls @ ''/'' @ int_str (total_limit p') @ ''; batch size: ''
                   @ int_str (batch_size p') @ ''.'']
                  @ (if deferred batch \<noteq> 0
                     then [''- Deferred this batch: '' @ int_str (deferred batch) @ ''.''] else [])
                  @ (if duplicate_queries batch \<noteq> 0
                     then [''- Duplicate queries skipped this batch: ''
                           @ int_str (duplicate_queries batch) @ ''.''] else [])
                  @ (if structured_results batch \<noteq> 0
                     then [''- New structured results this batch: '' @ int_str (new_results batch) @ ''; ''
                           @ ''duplicate structured results this batch: ''
                           @ int_str (duplicate_results batch) @ ''; ''
                           @ ''unique structured results this turn: '' @ int_str (unique_results p') @ ''; ''
                           @ ''duplicates filtered this turn: ''
                           @ int_str (total_duplicate_results p') @ ''.''] else [])
                  @ (if labels batch \<noteq> []
                     then [''- New result examples: '' @ intercalate ''; '' (take 5 (labels batch)) @ ''.''] else [])
                  @ [if total_limit p' \<le> total_calls
                     then ''- The web_search total limit has been reached. Do not call web_search again; synthesize the final answer from gathered evidence and briefly mark gaps.''
                     else if 2 \<le> no_new_batches p'
                     then ''- Two consecutive structured search batches added no new results. Stop searching unless a critical first-party source is still missing.''
                     else ''- Before searching again, inspect the deduped evidence. If gaps remain, issue at most ''
                          @ int_str (batch_size p') @ '' new, specific, non-duplicate web_search queries.'']
            in (Some (intercalate newline lines), p')))"

subsection \<open>Shared ledgers of delegated calls\<close>

text \<open>Ledgers are mutable objects shared by every charge of the ancestors, so they live in a
  store from ledger names to limit and use; a charge holds the names it reserved.\<close>

record ledger =
  ledger_limit :: int
  used :: int

record charge =
  ledgers :: "nat list"
  charged :: bool

type_synonym ledger_store = "nat \<Rightarrow> ledger"

definition add_used :: "int \<Rightarrow> nat list \<Rightarrow> ledger_store \<Rightarrow> ledger_store" where
  "add_used k ls h = (\<lambda>l. if l \<in> set ls then (h l)\<lparr>used := used (h l) + k\<rparr> else h l)"

definition charge_reserve ::
  "charge \<Rightarrow> nat list \<Rightarrow> ledger_store \<Rightarrow> bool \<times> charge \<times> ledger_store" where
  "charge_reserve c ls h =
     (if charged c then (True, c, h)
      else (let unique = uniq ls
            in if list_ex (\<lambda>l. ledger_limit (h l) \<le> used (h l)) unique then (False, c, h)
               else (True, \<lparr>ledgers = unique, charged = True\<rparr>, add_used 1 unique h)))"

definition charge_release :: "charge \<Rightarrow> ledger_store \<Rightarrow> charge \<times> ledger_store" where
  "charge_release c h =
     (if charged c then (c\<lparr>charged := False\<rparr>, add_used (-1) (ledgers c) h) else (c, h))"

end
