(* ===== verification/Invocation.thy ===== *)
theory Invocation
  imports Budget "HOL-Library.List_Lexorder" "HOL-Library.Char_ord"
begin

section \<open>One tool invocation and its permission rounds (tools/engine/execution.py, tools/base.py)\<close>

text \<open>
  \<open>invoke_tool_once\<close> with its gates, argument validation, shared ledgers, admission check and
  approval hook, \<open>Tool.invoke\<close>, the negotiation of permission requests by
  \<open>stream_tool_permission_chain\<close>, and the index of call names of \<open>build_tool_name_index\<close>.

  The environment of a call is a state \<open>'s\<close> that the code's callbacks and the tool bodies
  change: a tool, a capability gate, the guard of referenced files, the permission negotiator
  and the hooks are functions on it, as they are objects handed in by the caller in the code.
  JSON Schema validation (the third-party package jsonschema) is the parameter \<open>issues_of\<close>.
  The shared ledgers are those of the theory \<open>Budget\<close>; a tool body may use them too, since a
  sub-agent's calls reserve in them while it runs.
\<close>

subsection \<open>Results and exceptions\<close>

record tool_result =
  tr_success :: bool
  tr_content :: string
  tr_error :: "string option"
  tr_permission_request :: "pydict option"
  tr_raw_output :: "pydict option"
  tr_rejected :: bool

definition failed :: "string \<Rightarrow> tool_result" where
  "failed e = \<lparr>tr_success = False, tr_content = [], tr_error = Some e, tr_permission_request = None,
     tr_raw_output = None, tr_rejected = False\<rparr>"

definition rejected :: "tool_result \<Rightarrow> tool_result" where
  "rejected r = r\<lparr>tr_rejected := True\<rparr>"

text \<open>What a call may raise: the structured rejection of a tool, the durability error of the
  session log, \<open>CancelledError\<close>, and any other exception with its class and text.\<close>

datatype exc =
    InvocationRejected string string
  | Durability
  | CancelledError
  | OtherError string string

definition to_result :: "string \<Rightarrow> string \<Rightarrow> tool_result" where
  "to_result code message = rejected ((failed (code @ '': '' @ message))
     \<lparr>tr_raw_output := Some [(''code'', PStr code)]\<rparr>)"

text \<open>\<open>result.permission_request\<close> as a condition: an empty dictionary is no request.\<close>

definition pending_request :: "tool_result \<Rightarrow> pydict option" where
  "pending_request r = (case tr_permission_request r of
     None \<Rightarrow> None
   | Some d \<Rightarrow> if d = [] then None else Some d)"

subsection \<open>Tools\<close>

record issue =
  is_path :: string
  is_keyword :: string
  is_message :: string

text \<open>What \<open>invoke\<close> passes on to the body: the arguments, whether it gets the context, and the
  deletions the guard allowed for the time of the call.\<close>

record tool_input =
  ti_arguments :: pydict
  ti_context :: bool
  ti_deletions :: "string list"

record 's tool =
  tl_name :: string
  tl_aliases :: "string list"
  tl_parameters :: pyval
  tl_event_emitting :: bool
  tl_uses_context :: bool
  tl_delegated_budget :: bool
  tl_body :: "tool_input \<Rightarrow> 's \<Rightarrow> ledger_store \<Rightarrow> (exc + tool_result) \<times> 's \<times> ledger_store"
  tl_approve :: "(pydict \<Rightarrow> 's \<Rightarrow> exc option \<times> 's) option"

definition schema_message :: string where
  "schema_message = ''tool parameter schema is invalid''"

definition issue_dict :: "issue \<Rightarrow> pyval" where
  "issue_dict i = PDict [(''path'', PStr (is_path i)), (''keyword'', PStr (is_keyword i)),
     (''message'', PStr (is_message i))]"

definition invalid_schema_result :: "'s tool \<Rightarrow> tool_result" where
  "invalid_schema_result t =
     (failed (''INVALID_TOOL_SCHEMA: '' @ tl_name t @ newline @ ''- /: '' @ schema_message))
       \<lparr>tr_raw_output := Some [(''code'', PStr ''INVALID_TOOL_SCHEMA''), (''tool'', PStr (tl_name t)),
          (''issues'', PList [issue_dict \<lparr>is_path = ''/'', is_keyword = ''schema'', is_message = schema_message\<rparr>])]\<rparr>"

definition invalid_arguments_result :: "'s tool \<Rightarrow> issue list \<Rightarrow> tool_result" where
  "invalid_arguments_result t iss =
     (failed (''INVALID_TOOL_ARGUMENTS: '' @ tl_name t @ newline
        @ intercalate newline (map (\<lambda>i. ''- '' @ is_path i @ '': '' @ is_message i) iss)))
       \<lparr>tr_raw_output := Some [(''code'', PStr ''INVALID_TOOL_ARGUMENTS''), (''tool'', PStr (tl_name t)),
          (''issues'', PList (map issue_dict iss))]\<rparr>"

text \<open>The answer of the validator: \<open>None\<close> is \<open>ToolSchemaValidationError\<close>.\<close>

type_synonym validator = "pyval \<Rightarrow> pydict \<Rightarrow> issue list option"

definition argument_failure :: "validator \<Rightarrow> 's tool \<Rightarrow> pydict \<Rightarrow> tool_result option" where
  "argument_failure issues_of t args = (case issues_of (tl_parameters t) args of
     None \<Rightarrow> Some (invalid_schema_result t)
   | Some [] \<Rightarrow> None
   | Some iss \<Rightarrow> Some (invalid_arguments_result t iss))"

definition tool_invoke :: "validator \<Rightarrow> 's tool \<Rightarrow> tool_input \<Rightarrow> 's \<Rightarrow> ledger_store
    \<Rightarrow> (exc + tool_result) \<times> 's \<times> ledger_store" where
  "tool_invoke issues_of t inp s h = (case argument_failure issues_of t (ti_arguments inp) of
     Some r \<Rightarrow> (Inr r, s, h)
   | None \<Rightarrow> (case tl_body t inp s h of
       (Inl (InvocationRejected code message), s', h') \<Rightarrow> (Inr (to_result code message), s', h')
     | out \<Rightarrow> out))"

subsection \<open>\<open>invoke_tool_once\<close>\<close>

datatype gate_reply = Passes | Issue string string | GateRaises string

record 's guard =
  gd_check :: "string \<Rightarrow> pydict \<Rightarrow> pydict option \<Rightarrow> 's \<Rightarrow> (tool_result option \<times> string list) \<times> 's"
  gd_deleted :: "string list \<Rightarrow> 's \<Rightarrow> 's"

text \<open>The invocation context: a capability gate without \<open>check_invocation\<close> is \<open>None\<close>.\<close>

record 's invocation_context =
  ic_gates :: "(string \<Rightarrow> pydict \<Rightarrow> 's \<Rightarrow> gate_reply \<times> 's) option list"
  ic_guard :: "'s guard option"
  ic_ancestors :: "nat list"
  ic_child_budgets :: "nat list"

text \<open>The state of one call: the environment, the ledgers, the call's charge and whether
  \<open>on_invoke\<close> has marked it as entered.\<close>

record 's world =
  w_env :: 's
  w_ledgers :: ledger_store
  w_charge :: charge
  w_invoked :: bool

definition release_unexecuted :: "'s world \<Rightarrow> 's world" where
  "release_unexecuted w = (let (c, h) = charge_release (w_charge w) (w_ledgers w)
     in w\<lparr>w_charge := c, w_ledgers := h\<rparr>)"

fun check_gates :: "(string \<Rightarrow> pydict \<Rightarrow> 's \<Rightarrow> gate_reply \<times> 's) option list \<Rightarrow> string \<Rightarrow> pydict \<Rightarrow> 's
    \<Rightarrow> tool_result option \<times> 's" where
  "check_gates [] name args s = (None, s)"
| "check_gates (None # gs) name args s = check_gates gs name args s"
| "check_gates (Some g # gs) name args s = (case g name args s of
     (Passes, s') \<Rightarrow> check_gates gs name args s'
   | (Issue code message, s') \<Rightarrow> (Some (rejected (failed (code @ '': '' @ message))), s')
   | (GateRaises text, s') \<Rightarrow> (Some (rejected (failed (''CAPABILITY_CHECK_FAILED: '' @ text))), s'))"

text \<open>A denied reference is marked as rejected and releases the charge; the two argument
  failures are not marked and leave it.\<close>

definition check_guard :: "validator \<Rightarrow> 's guard option \<Rightarrow> 's tool \<Rightarrow> pydict \<Rightarrow> pydict option \<Rightarrow> 's
    \<Rightarrow> (tool_result + string list) \<times> 's" where
  "check_guard issues_of guard t args approved s = (case guard of
     None \<Rightarrow> (Inr [], s)
   | Some g \<Rightarrow> (case argument_failure issues_of t args of
       Some r \<Rightarrow> (Inl r, s)
     | None \<Rightarrow> (case gd_check g (tl_name t) args approved s of
         ((Some denied, _), s') \<Rightarrow> (Inl (rejected denied), s')
       | ((None, dels), s') \<Rightarrow> (Inr dels, s'))))"

definition check_delegation :: "'s tool \<Rightarrow> 's invocation_context \<Rightarrow> ledger_store \<Rightarrow> tool_result option" where
  "check_delegation t ctx h =
     (if tl_name t = ''sub_agent'' \<and> (ic_ancestors ctx \<noteq> [] \<or> ic_child_budgets ctx \<noteq> []) then
        (if \<not> (tl_delegated_budget t \<and> (tl_event_emitting t \<or> tl_uses_context t))
         then Some (failed ''DELEGATED_BUDGET_UNSUPPORTED: sub_agent must honor invocation context budgets'')
         else if list_ex (\<lambda>l. ledger_limit (h l) \<le> used (h l)) (ic_child_budgets ctx)
         then Some (failed ''DELEGATED_BUDGET_EXHAUSTED: no child execution quota remains'')
         else None)
      else None)"

definition reserve_ancestors :: "validator \<Rightarrow> 's tool \<Rightarrow> pydict \<Rightarrow> 's invocation_context \<Rightarrow> 's world
    \<Rightarrow> tool_result option \<times> 's world" where
  "reserve_ancestors issues_of t args ctx w =
     (if ic_ancestors ctx = [] then (None, w)
      else case argument_failure issues_of t args of
          Some r \<Rightarrow> (Some r, w)
        | None \<Rightarrow>
            (let (ok, c, h) = charge_reserve (w_charge w) (ic_ancestors ctx) (w_ledgers w)
             in if ok then (None, w\<lparr>w_charge := c, w_ledgers := h\<rparr>)
                else (Some (failed ''DELEGATED_BUDGET_EXHAUSTED: ancestor execution quota exhausted''), w)))"

text \<open>\<open>_approve_tool_permission\<close>: only the durability error of the hook propagates, other
  exceptions are logged. (A \<open>CancelledError\<close> is not an \<open>Exception\<close> and propagates too.)\<close>

definition approve_tool :: "'s tool \<Rightarrow> pydict option \<Rightarrow> 's \<Rightarrow> exc option \<times> 's" where
  "approve_tool t approved s = (case (approved, tl_approve t) of
     (Some request, Some f) \<Rightarrow> (case f request s of
         (Some Durability, s') \<Rightarrow> (Some Durability, s')
       | (Some CancelledError, s') \<Rightarrow> (Some CancelledError, s')
       | (_, s') \<Rightarrow> (None, s'))
   | _ \<Rightarrow> (None, s))"

definition run_admitted :: "validator \<Rightarrow> 's tool \<Rightarrow> pydict \<Rightarrow> 's invocation_context \<Rightarrow> string list \<Rightarrow> 's world
    \<Rightarrow> (exc + tool_result) \<times> 's world" where
  "run_admitted issues_of t args ctx dels w =
     (let inp = \<lparr>ti_arguments = args, ti_context = tl_event_emitting t \<or> tl_uses_context t, ti_deletions = dels\<rparr>;
          (out, s, h) = tool_invoke issues_of t inp (w_env w) (w_ledgers w)
      in case out of
           Inl e \<Rightarrow> (Inl e, w\<lparr>w_env := s, w_ledgers := h\<rparr>)
         | Inr r \<Rightarrow>
             (let s' = (case ic_guard ctx of
                     Some g \<Rightarrow> if dels \<noteq> [] then gd_deleted g dels s else s
                   | None \<Rightarrow> s);
                  w' = w\<lparr>w_env := s', w_ledgers := h\<rparr>
              in (Inr r, if pending_request r \<noteq> None \<or> tr_rejected r then release_unexecuted w' else w')))"

definition admission_error :: "('s \<Rightarrow> string option) option \<Rightarrow> 's \<Rightarrow> string option" where
  "admission_error admission s = (case Option.bind admission (\<lambda>a. a s) of
     None \<Rightarrow> None
   | Some error \<Rightarrow> if error = [] then None else Some error)"

text \<open>The callback \<open>on_invoke\<close> of the engine marks the call as invoked and cannot raise.\<close>

definition invoke_tool_once :: "validator \<Rightarrow> 's tool \<Rightarrow> pydict \<Rightarrow> 's invocation_context \<Rightarrow> pydict option
    \<Rightarrow> ('s \<Rightarrow> string option) option \<Rightarrow> 's world \<Rightarrow> (exc + tool_result) \<times> 's world" where
  "invoke_tool_once issues_of t args ctx approved admission w =
     (let (gate, s1) = check_gates (ic_gates ctx) (tl_name t) args (w_env w); w1 = w\<lparr>w_env := s1\<rparr>
      in case gate of
           Some r \<Rightarrow> (Inr r, release_unexecuted w1)
         | None \<Rightarrow>
             (let (guarded, s2) = check_guard issues_of (ic_guard ctx) t args approved (w_env w1);
                  w2 = w1\<lparr>w_env := s2\<rparr>
              in case guarded of
                   Inl r \<Rightarrow> (Inr r, if tr_rejected r then release_unexecuted w2 else w2)
                 | Inr dels \<Rightarrow> (case check_delegation t ctx (w_ledgers w2) of
                     Some r \<Rightarrow> (Inr r, w2)
                   | None \<Rightarrow>
                       (let (exhausted, w3) = reserve_ancestors issues_of t args ctx w2
                        in case exhausted of
                             Some r \<Rightarrow> (Inr r, w3)
                           | None \<Rightarrow> (case admission_error admission (w_env w3) of
                               Some error \<Rightarrow> (Inr (failed error), release_unexecuted w3)
                             | None \<Rightarrow> (case approve_tool t approved (w_env w3) of
                                 (Some e, s4) \<Rightarrow> (Inl e, release_unexecuted (w3\<lparr>w_env := s4\<rparr>))
                               | (None, s4) \<Rightarrow> run_admitted issues_of t args ctx dels
                                   (w3\<lparr>w_env := s4, w_invoked := True\<rparr>)))))))"


subsection \<open>The permission rounds of one call\<close>

definition MAX_TOOL_PERMISSION_RETRIES :: nat where "MAX_TOOL_PERMISSION_RETRIES = 4"

text \<open>\<open>json.dumps(request, sort_keys=True, ensure_ascii=True)\<close>.\<close>

fun sort_keys :: "pyval \<Rightarrow> pyval" where
  "sort_keys (PList vs) = PList (map sort_keys vs)"
| "sort_keys (PDict d) = PDict (sort_key fst (map (\<lambda>(k, v). (k, sort_keys v)) d))"
| "sort_keys v = v"

definition ascii_char :: "char \<Rightarrow> string" where
  "ascii_char c = (if code_of c < 127 then [c] else char_of (92::nat) # ''u00'' @ hex2 (code_of c))"

definition request_key :: "pydict \<Rightarrow> string" where
  "request_key d = concat (map ascii_char (json_dumps (sort_keys (PDict d))))"

definition text_field :: "pydict \<Rightarrow> string \<Rightarrow> string \<times> pyval" where
  "text_field d k = (k, PStr (py_str (py_or (dget d k) (PStr []))))"

definition flag_field :: "pydict \<Rightarrow> string \<Rightarrow> string \<times> pyval" where
  "flag_field d k = (k, PBool (dget d k = PNone \<or> truthy (dget d k)))"

definition permission_event_kwargs :: "pydict \<Rightarrow> pydict" where
  "permission_event_kwargs d =
     [text_field d ''scope'', text_field d ''requested_scope'', text_field d ''reason'', text_field d ''path'',
      flag_field d ''temporary_supported'', flag_field d ''persistent_supported'',
      text_field d ''persistent_label'', text_field d ''command'', text_field d ''risk'']"

definition policy_decision_payload :: "string \<Rightarrow> pydict \<Rightarrow> string \<Rightarrow> nat \<Rightarrow> string \<Rightarrow> pydict" where
  "policy_decision_payload name request decision retry_count error =
     [(''type'', PStr ''policy_decision''), (''tool_name'', PStr name), (''decision'', PStr decision),
      (''retry_count'', PInt (int retry_count))] @ permission_event_kwargs request
     @ (if error = [] then [] else [(''error'', PStr error)])"

text \<open>What a chain uses: the negotiator (absent without a host), the check that the tool is
  still offered, and the retry of the invocation (absent when the tool is unknown).\<close>

record 's chain =
  ch_tool_name :: string
  ch_negotiate :: "(pydict \<Rightarrow> 's \<Rightarrow> (exc + bool) \<times> 's) option"
  ch_offer_error :: "'s \<Rightarrow> string option"
  ch_retry :: "(pydict \<Rightarrow> 's \<Rightarrow> (exc + tool_result) \<times> 's) option"

fun exc_text :: "exc \<Rightarrow> string" where
  "exc_text (InvocationRejected code message) = code @ '': '' @ message"
| "exc_text (OtherError _ text) = text"
| "exc_text _ = []"

definition propagates :: "exc \<Rightarrow> bool" where
  "propagates e = (e = Durability \<or> e = CancelledError)"

text \<open>The body of one granted round: the next result.\<close>

definition retry_result :: "'s chain \<Rightarrow> pydict \<Rightarrow> 's \<Rightarrow> (exc + tool_result) \<times> 's" where
  "retry_result ch request s = (case ch_offer_error ch s of
     Some e \<Rightarrow> (Inr (failed e), s)
   | None \<Rightarrow> (case ch_retry ch of
       None \<Rightarrow> (Inr (failed (''Unknown tool: '' @ ch_tool_name ch)), s)
     | Some retry \<Rightarrow> retry request s))"

text \<open>The loop, with the rounds it negotiated: each request with whether it was granted.\<close>

type_synonym rounds = "(pydict \<times> bool) list"

function permission_chain :: "'s chain \<Rightarrow> tool_result \<Rightarrow> pydict option \<Rightarrow> nat \<Rightarrow> string list \<Rightarrow> 's
    \<Rightarrow> ((exc + tool_result \<times> pydict option) \<times> rounds) \<times> 's" where
  "permission_chain ch result decision retry_count asked s =
     (case (ch_negotiate ch, if tr_success result then None else pending_request result) of
        (Some negotiate, Some request) \<Rightarrow>
          (let payload = policy_decision_payload (ch_tool_name ch) request
           in if request_key request \<in> set asked
              then ((Inr (result, Some (payload ''error'' retry_count ''Permission request repeated after approval'')), []), s)
              else if MAX_TOOL_PERMISSION_RETRIES \<le> retry_count
              then ((Inr (result, Some (payload ''error'' retry_count ''Permission retry limit reached'')), []), s)
              else (case negotiate request s of
                  (Inl e, s') \<Rightarrow>
                    ((if propagates e then Inl e
                      else Inr (result, Some (payload ''error'' retry_count (exc_text e))), []), s')
                | (Inr False, s') \<Rightarrow>
                    ((Inr (result, Some (payload ''denied'' retry_count [])), [(request, False)]), s')
                | (Inr True, s') \<Rightarrow>
                    (case retry_result ch request s' of
                       (Inl e, s'') \<Rightarrow> ((Inl e, [(request, True)]), s'')
                     | (Inr result', s'') \<Rightarrow>
                         (let ((out, rounds), s3) = permission_chain ch result'
                                (Some (payload ''approved'' (Suc retry_count) [])) (Suc retry_count)
                                (request_key request # asked) s''
                          in ((out, (request, True) # rounds), s3)))))
      | _ \<Rightarrow> ((Inr (result, decision), []), s))"
  by pat_completeness auto
termination
  by (relation "measure (\<lambda>(ch, result, decision, retry_count, asked, s). MAX_TOOL_PERMISSION_RETRIES - retry_count)") auto

declare permission_chain.simps [simp del]

definition stream_tool_permission_chain :: "'s chain \<Rightarrow> tool_result \<Rightarrow> 's
    \<Rightarrow> ((exc + tool_result \<times> pydict option) \<times> rounds) \<times> 's" where
  "stream_tool_permission_chain ch result s = permission_chain ch result None 0 [] s"

subsection \<open>The index of call names\<close>

definition call_name_variants :: "string \<Rightarrow> string list" where
  "call_name_variants name =
     (let hyphenated = map (\<lambda>c. if c = CHR ''_'' then CHR ''-'' else c) name
      in if hyphenated = name then [name] else [name, hyphenated])"

datatype index_error =
    EmptyAlias string
  | RepeatedAlias string string
  | ConflictingName string string string

text \<open>The aliases of a tool must be nonempty, different from its name and from each other.\<close>

fun check_aliases :: "string \<Rightarrow> string list \<Rightarrow> string list \<Rightarrow> index_error option" where
  "check_aliases name asked [] = None"
| "check_aliases name asked (a # as) =
     (if a = [] then Some (EmptyAlias name)
      else if a = name \<or> a \<in> set asked then Some (RepeatedAlias name a)
      else check_aliases name (a # asked) as)"

text \<open>Tools are objects; the index compares them by identity, here their position in the
  offered list.\<close>

fun index_names :: "(nat \<Rightarrow> string) \<Rightarrow> nat \<Rightarrow> string list \<Rightarrow> (string \<times> nat) list
    \<Rightarrow> index_error + (string \<times> nat) list" where
  "index_names name_of i [] index = Inr index"
| "index_names name_of i (n # ns) index = (case map_of index n of
     Some j \<Rightarrow> if j = i then index_names name_of i ns (AList.update n i index)
              else Inl (ConflictingName n (name_of i) (name_of j))
   | None \<Rightarrow> index_names name_of i ns (AList.update n i index))"

fun index_tools :: "(nat \<Rightarrow> string) \<Rightarrow> (nat \<times> string \<times> string list) list \<Rightarrow> (string \<times> nat) list
    \<Rightarrow> index_error + (string \<times> nat) list" where
  "index_tools name_of [] index = Inr index"
| "index_tools name_of ((i, name, aliases) # ts) index = (case check_aliases name [] aliases of
     Some e \<Rightarrow> Inl e
   | None \<Rightarrow> (case index_names name_of i (concat (map call_name_variants (name # aliases))) index of
       Inl e \<Rightarrow> Inl e
     | Inr index' \<Rightarrow> index_tools name_of ts index'))"

text \<open>A tool is offered with its name and aliases.\<close>

definition build_tool_name_index :: "(string \<times> string list) list \<Rightarrow> index_error + (string \<times> nat) list" where
  "build_tool_name_index offered =
     (let numbered = enumerate 0 offered
      in index_tools (\<lambda>i. fst (offered ! i)) numbered
           (foldl (\<lambda>d (i, name, _). AList.update name i d) [] numbered))"

end
