(* ===== verification/Scheduler.thy ===== *)
theory Scheduler
  imports Invocation
begin

section \<open>Running approved calls one by one or as a batch (tools/engine/scheduler.py)\<close>

text \<open>
  \<open>ToolEngine\<close>: \<open>invoke_serial\<close> runs one request, \<open>invoke_parallel\<close> a batch bounded by two
  semaphores, with a deadline and cooperative cancellation.

  The batch is a step relation. One step is what the event loop runs between two awaits: a task
  of the batch starts, gets a permit, enters its tool, reports progress or ends, the host
  cancels the run, or the batch's own loop polls, passes the deadline, notices the cancellation,
  drains the event queue or collects the outcomes. Time is abstracted to the order of the
  steps: the deadline may pass at any time when one is set, and a heartbeat may be due at any
  time. \<open>Task.cancel\<close> sets a flag: a task that has not entered its tool can then only end
  cancelled; a tool that is running sees a \<open>CancelledError\<close> at an await and may end in any way
  or go on. Semaphores hand out a free permit to any waiting task. What a tool does is left open:
  an entered call ends with any result or exception.
\<close>

subsection \<open>One invocation\<close>

record 's request =
  rq_call_id :: string
  rq_tool_name :: string
  rq_arguments :: pydict
  rq_immediate :: "tool_result option"
  rq_context :: "'s invocation_context"
  rq_approved :: "pydict option"
  rq_admission :: "('s \<Rightarrow> string option) option"

record 's engine =
  en_tools :: "string \<Rightarrow> 's tool option"
  en_is_cancelled :: "'s \<Rightarrow> bool"
  en_issues_of :: validator
  en_traceback :: "exc \<Rightarrow> string"
  en_max_parallel :: int
  en_web_concurrency :: nat
  en_web_search :: string
  en_timeout :: "string option"

definition exc_class :: "exc \<Rightarrow> string" where
  "exc_class e = (case e of
     InvocationRejected _ _ \<Rightarrow> ''ToolInvocationRejected''
   | Durability \<Rightarrow> ''SessionLogDurabilityError''
   | CancelledError \<Rightarrow> ''CancelledError''
   | OtherError c _ \<Rightarrow> c)"

definition passthrough :: "exc \<Rightarrow> bool" where "passthrough e = (e = Durability)"

definition failed_result :: "'s engine \<Rightarrow> exc \<Rightarrow> exc + tool_result" where
  "failed_result en e =
     (if passthrough e then Inl e
      else Inr (failed (''Tool execution failed: '' @ exc_class e @ '': '' @ exc_text e
        @ newline @ newline @ ''Traceback:'' @ newline @ en_traceback en e)))"

text \<open>\<open>_invoke_with_optional_events\<close>: what stops a call before \<open>invoke_tool_once\<close>, and the call.\<close>

definition refused_before :: "'s engine \<Rightarrow> 's request \<Rightarrow> 's \<Rightarrow> tool_result option" where
  "refused_before en rq s =
     (if en_is_cancelled en s then Some (failed ''Tool execution cancelled before invocation.'')
      else map_option failed (admission_error (rq_admission rq) s))"

definition invoke_request :: "'s engine \<Rightarrow> 's request \<Rightarrow> 's world \<Rightarrow> (exc + tool_result) \<times> 's world" where
  "invoke_request en rq w = (case refused_before en rq (w_env w) of
     Some r \<Rightarrow> (Inr r, w)
   | None \<Rightarrow> (case en_tools en (rq_tool_name rq) of
       None \<Rightarrow> (Inl (OtherError ''KeyError'' (repr_str (rq_tool_name rq))), w)
     | Some t \<Rightarrow> invoke_tool_once (en_issues_of en) t (rq_arguments rq) (rq_context rq)
                  (rq_approved rq) (rq_admission rq) w))"

text \<open>Exceptions of the task become failed results, except cancellation and the durability error.\<close>

definition settled :: "'s engine \<Rightarrow> exc + tool_result \<Rightarrow> exc + tool_result" where
  "settled en out = (case out of
     Inr r \<Rightarrow> Inr r
   | Inl e \<Rightarrow> if e = CancelledError then Inl e else failed_result en e)"

definition invoke_serial :: "'s engine \<Rightarrow> 's request \<Rightarrow> 's world \<Rightarrow> (exc + tool_result) \<times> 's world" where
  "invoke_serial en rq w = (case rq_immediate rq of
     Some r \<Rightarrow> (Inr r, w)
   | None \<Rightarrow>
       (if en_tools en (rq_tool_name rq) = None
        then (Inl (OtherError ''KeyError'' (repr_str (rq_tool_name rq))), w)
        else (let (out, w') = invoke_request en rq w in (settled en out, w'))))"

subsection \<open>The state of a batch\<close>

datatype task =
    Created
  | Waiting
  | Holding
  | Running
  | Ended tool_result
  | Raised exc
  | TaskCancelled

definition task_done :: "task \<Rightarrow> bool" where
  "task_done t = (case t of Ended _ \<Rightarrow> True | Raised _ \<Rightarrow> True | TaskCancelled \<Rightarrow> True | _ \<Rightarrow> False)"

record outcome =
  oc_call_id :: string
  oc_index :: nat
  oc_result :: tool_result

record batch_result =
  br_outcomes :: "outcome list"
  br_timed_out :: bool
  br_cancelled :: bool

datatype phase =
    Polling
  | Draining
  | Grace
  | LateDraining
  | Completed batch_result
  | BatchRaised exc

text \<open>What the batch hands to its consumer.\<close>

datatype 'e engine_record =
    Progress 'e
  | Activity string

record ('s, 'e) batch =
  bt_tasks :: "task list"
  bt_cancelling :: "bool list"
  bt_parallel :: nat
  bt_web :: nat
  bt_queue :: "'e list"
  bt_env :: 's
  bt_entered :: "nat list"
  bt_timed_out :: bool
  bt_observed :: bool
  bt_phase :: phase
  bt_records :: "'e engine_record list"

definition start_batch :: "'s engine \<Rightarrow> 's request list \<Rightarrow> 's \<Rightarrow> ('s, 'e) batch" where
  "start_batch en rqs s = \<lparr>bt_tasks = map (\<lambda>_. Created) rqs, bt_cancelling = map (\<lambda>_. False) rqs,
     bt_parallel = nat (max 1 (en_max_parallel en)), bt_web = en_web_concurrency en, bt_queue = [],
     bt_env = s, bt_entered = [], bt_timed_out = False, bt_observed = False, bt_phase = Polling,
     bt_records = []\<rparr>"

definition is_web :: "'s engine \<Rightarrow> 's request \<Rightarrow> bool" where
  "is_web en rq = (rq_tool_name rq = en_web_search en)"

definition all_done :: "('s, 'e) batch \<Rightarrow> bool" where
  "all_done b = list_all task_done (bt_tasks b)"

definition set_task :: "nat \<Rightarrow> task \<Rightarrow> ('s, 'e) batch \<Rightarrow> ('s, 'e) batch" where
  "set_task i t b = b\<lparr>bt_tasks := (bt_tasks b)[i := t]\<rparr>"

text \<open>Leaving the \<open>async with\<close> blocks gives the permits back.\<close>

definition release_permits :: "'s engine \<Rightarrow> 's request \<Rightarrow> task \<Rightarrow> ('s, 'e) batch \<Rightarrow> ('s, 'e) batch" where
  "release_permits en rq t b = (case t of
     Running \<Rightarrow> b\<lparr>bt_parallel := Suc (bt_parallel b), bt_web := (if is_web en rq then Suc (bt_web b) else bt_web b)\<rparr>
   | Holding \<Rightarrow> b\<lparr>bt_parallel := Suc (bt_parallel b)\<rparr>
   | _ \<Rightarrow> b)"

definition end_task :: "'s engine \<Rightarrow> 's request \<Rightarrow> nat \<Rightarrow> task \<Rightarrow> ('s, 'e) batch \<Rightarrow> ('s, 'e) batch" where
  "end_task en rq i t b = release_permits en rq (bt_tasks b ! i) (set_task i t b)"

definition task_of :: "'s engine \<Rightarrow> exc + tool_result \<Rightarrow> task" where
  "task_of en out = (case settled en out of
     Inr r \<Rightarrow> Ended r
   | Inl e \<Rightarrow> if e = CancelledError then TaskCancelled else Raised e)"

text \<open>\<open>task.cancel()\<close> on every task that is not done.\<close>

definition cancel_tasks :: "('s, 'e) batch \<Rightarrow> ('s, 'e) batch" where
  "cancel_tasks b = b\<lparr>bt_cancelling := map2 (\<lambda>c t. c \<or> \<not> task_done t) (bt_cancelling b) (bt_tasks b)\<rparr>"

subsection \<open>Collecting the outcomes\<close>

definition cancelled_result :: "'s engine \<Rightarrow> bool \<Rightarrow> tool_result" where
  "cancelled_result en timed_out = failed (case (timed_out, en_timeout en) of
     (True, Some seconds) \<Rightarrow> ''Tool execution timed out after '' @ seconds @ ''s; ''
        @ ''continuing with partial parallel results.''
   | _ \<Rightarrow> ''Tool execution cancelled before completion.'')"

text \<open>The text of the code, with its dash written as two hyphens.\<close>

definition interrupted_result :: tool_result where
  "interrupted_result = failed ''Tool execution interrupted -- no result returned.''"

definition missing_result :: "'s engine \<Rightarrow> bool \<Rightarrow> bool \<Rightarrow> tool_result" where
  "missing_result en timed_out observed =
     (if timed_out \<and> en_timeout en \<noteq> None then cancelled_result en True
      else if observed then cancelled_result en False
      else interrupted_result)"

definition task_result :: "'s engine \<Rightarrow> bool \<Rightarrow> bool \<Rightarrow> task \<Rightarrow> exc + tool_result" where
  "task_result en timed_out observed t = (case t of
     Ended r \<Rightarrow> Inr r
   | TaskCancelled \<Rightarrow> Inr (cancelled_result en timed_out)
   | Raised e \<Rightarrow> if passthrough e then Inl e
               else Inr (failed (''Tool execution failed: '' @ exc_class e @ '': '' @ exc_text e))
   | _ \<Rightarrow> Inr (missing_result en timed_out observed))"

text \<open>\<open>outcomes_by_id\<close>, in request order; the first passthrough exception ends the batch.\<close>

fun outcomes_by_id :: "'s engine \<Rightarrow> bool \<Rightarrow> bool \<Rightarrow> (nat \<times> 's request \<times> task) list \<Rightarrow> (string \<times> outcome) list
    \<Rightarrow> exc + (string \<times> outcome) list" where
  "outcomes_by_id en timed_out observed [] acc = Inr acc"
| "outcomes_by_id en timed_out observed ((i, rq, t) # ts) acc = (case task_result en timed_out observed t of
     Inl e \<Rightarrow> Inl e
   | Inr r \<Rightarrow> outcomes_by_id en timed_out observed ts (AList.update (rq_call_id rq)
       \<lparr>oc_call_id = rq_call_id rq, oc_index = i, oc_result = r\<rparr> acc))"

definition collect :: "'s engine \<Rightarrow> 's request list \<Rightarrow> ('s, 'e) batch \<Rightarrow> phase" where
  "collect en rqs b =
     (case outcomes_by_id en (bt_timed_out b) (bt_observed b) (enumerate 0 (zip rqs (bt_tasks b))) [] of
        Inl e \<Rightarrow> BatchRaised e
      | Inr by_id \<Rightarrow> Completed \<lparr>br_outcomes = map (\<lambda>rq. the (map_of by_id (rq_call_id rq))) rqs,
                      br_timed_out = bt_timed_out b, br_cancelled = bt_observed b\<rparr>)"

subsection \<open>The steps\<close>

abbreviation live :: "('s, 'e) batch \<Rightarrow> nat \<Rightarrow> bool" where
  "live b i \<equiv> i < length (bt_tasks b)"

text \<open>The steps of the tasks and of the host.\<close>

inductive task_step :: "'s engine \<Rightarrow> 's request list \<Rightarrow> ('s, 'e) batch \<Rightarrow> ('s, 'e) batch \<Rightarrow> bool"
  for en rqs where
  Immediate: "live b i \<Longrightarrow> bt_tasks b ! i = Created \<Longrightarrow> \<not> bt_cancelling b ! i \<Longrightarrow>
     rq_immediate (rqs ! i) = Some r \<Longrightarrow> task_step en rqs b (set_task i (Ended r) b)"
| Start: "live b i \<Longrightarrow> bt_tasks b ! i = Created \<Longrightarrow> \<not> bt_cancelling b ! i \<Longrightarrow>
     rq_immediate (rqs ! i) = None \<Longrightarrow> task_step en rqs b (set_task i Waiting b)"
| Acquire: "live b i \<Longrightarrow> bt_tasks b ! i = Waiting \<Longrightarrow> \<not> bt_cancelling b ! i \<Longrightarrow> bt_parallel b = Suc n \<Longrightarrow>
     task_step en rqs b (set_task i Holding (b\<lparr>bt_parallel := n\<rparr>))"
| Enter: "live b i \<Longrightarrow> bt_tasks b ! i = Holding \<Longrightarrow> \<not> bt_cancelling b ! i \<Longrightarrow>
     (if is_web en (rqs ! i) then bt_web b = Suc n else n = bt_web b) \<Longrightarrow>
     refused_before en (rqs ! i) (bt_env b) = None \<Longrightarrow>
     task_step en rqs b (set_task i Running (b\<lparr>bt_web := n, bt_entered := bt_entered b @ [i]\<rparr>))"
| Refuse: "live b i \<Longrightarrow> bt_tasks b ! i = Holding \<Longrightarrow> \<not> bt_cancelling b ! i \<Longrightarrow>
     (is_web en (rqs ! i) \<longrightarrow> 0 < bt_web b) \<Longrightarrow>
     refused_before en (rqs ! i) (bt_env b) = Some r \<Longrightarrow>
     task_step en rqs b (end_task en (rqs ! i) i (Ended r) b)"
| Emit: "live b i \<Longrightarrow> bt_tasks b ! i = Running \<Longrightarrow> task_step en rqs b (b\<lparr>bt_queue := bt_queue b @ [ev]\<rparr>)"
| Finish: "live b i \<Longrightarrow> bt_tasks b ! i = Running \<Longrightarrow>
     task_step en rqs b (end_task en (rqs ! i) i (task_of en out) (b\<lparr>bt_env := s\<rparr>))"
| Stop: "live b i \<Longrightarrow> \<not> task_done (bt_tasks b ! i) \<Longrightarrow> bt_cancelling b ! i \<Longrightarrow>
     task_step en rqs b (end_task en (rqs ! i) i TaskCancelled b)"
| Host: "task_step en rqs b (b\<lparr>bt_env := s\<rparr>)"

text \<open>The steps of the batch's own loop. A cancellation is noticed only before the batch has been
  stopped for another reason, and a batch without a deadline is never stopped by one.\<close>

inductive loop_step :: "'s engine \<Rightarrow> 's request list \<Rightarrow> ('s, 'e) batch \<Rightarrow> ('s, 'e) batch \<Rightarrow> bool"
  for en rqs where
  AllDone: "bt_phase b = Polling \<Longrightarrow> all_done b \<Longrightarrow> bt_queue b = [] \<Longrightarrow>
     loop_step en rqs b (b\<lparr>bt_phase := Draining\<rparr>)"
| Deadline: "bt_phase b = Polling \<Longrightarrow> \<not> all_done b \<Longrightarrow> en_timeout en \<noteq> None \<Longrightarrow>
     loop_step en rqs b ((cancel_tasks b)\<lparr>bt_timed_out := True, bt_phase := Draining\<rparr>)"
| Observe: "bt_phase b = Polling \<Longrightarrow> \<not> (all_done b \<and> bt_queue b = []) \<Longrightarrow> en_is_cancelled en (bt_env b) \<Longrightarrow>
     loop_step en rqs b ((cancel_tasks b)\<lparr>bt_observed := True, bt_phase := Draining\<rparr>)"
| Poll: "bt_phase b = Polling \<Longrightarrow> bt_queue b = ev # q \<Longrightarrow>
     loop_step en rqs b (b\<lparr>bt_queue := q, bt_records := bt_records b @ [Progress ev]\<rparr>)"
| Beat: "bt_phase b = Polling \<Longrightarrow>
     loop_step en rqs b (b\<lparr>bt_records := bt_records b @ [Activity ''parallel_tools'']\<rparr>)"
| Drain: "bt_phase b \<in> {Draining, LateDraining} \<Longrightarrow> bt_queue b = ev # q \<Longrightarrow>
     loop_step en rqs b (b\<lparr>bt_queue := q, bt_records := bt_records b @ [Progress ev]\<rparr>)"
| Wait: "bt_phase b = Draining \<Longrightarrow> bt_queue b = [] \<Longrightarrow> bt_timed_out b \<or> bt_observed b \<Longrightarrow>
     loop_step en rqs b (b\<lparr>bt_phase := Grace\<rparr>)"
| Detach: "bt_phase b = Grace \<Longrightarrow> loop_step en rqs b ((cancel_tasks b)\<lparr>bt_phase := LateDraining\<rparr>)"
| Collect: "bt_queue b = [] \<Longrightarrow>
     (bt_phase b = Draining \<and> \<not> bt_timed_out b \<and> \<not> bt_observed b) \<or> bt_phase b = LateDraining \<Longrightarrow>
     loop_step en rqs b (b\<lparr>bt_phase := collect en rqs b\<rparr>)"

definition batch_step :: "'s engine \<Rightarrow> 's request list \<Rightarrow> ('s, 'e) batch \<Rightarrow> ('s, 'e) batch \<Rightarrow> bool" where
  "batch_step en rqs b b' = (task_step en rqs b b' \<or> loop_step en rqs b b')"

inductive reachable :: "'s engine \<Rightarrow> 's request list \<Rightarrow> 's \<Rightarrow> ('s, 'e) batch \<Rightarrow> bool"
  for en rqs s where
  Begin: "reachable en rqs s (start_batch en rqs s)"
| Step: "reachable en rqs s b \<Longrightarrow> batch_step en rqs b b' \<Longrightarrow> reachable en rqs s b'"

inductive_cases task_stepE: "task_step en rqs b b'"
inductive_cases loop_stepE: "loop_step en rqs b b'"


subsection \<open>The permission rounds of a scheduled call (tools/engine/engine.py)\<close>

text \<open>The chain of \<open>_finish_call\<close>: the negotiator works on the environment, a retry is a serial
  invocation with the approved request and without an immediate result.\<close>

definition world_chain :: "'s engine \<Rightarrow> 's request \<Rightarrow> (pydict \<Rightarrow> 's \<Rightarrow> (exc + bool) \<times> 's) option
    \<Rightarrow> ('s \<Rightarrow> string option) \<Rightarrow> 's world chain" where
  "world_chain en rq negotiate offer_error =
     \<lparr>ch_tool_name = rq_tool_name rq,
      ch_negotiate = map_option (\<lambda>f q w. case f q (w_env w) of (x, s) \<Rightarrow> (x, w\<lparr>w_env := s\<rparr>)) negotiate,
      ch_offer_error = (\<lambda>w. offer_error (w_env w)),
      ch_retry = (if en_tools en (rq_tool_name rq) = None then None
        else Some (\<lambda>q. invoke_serial en (rq\<lparr>rq_immediate := None, rq_approved := Some q\<rparr>)))\<rparr>"

definition finish_permissions :: "'s engine \<Rightarrow> 's request \<Rightarrow> (pydict \<Rightarrow> 's \<Rightarrow> (exc + bool) \<times> 's) option
    \<Rightarrow> ('s \<Rightarrow> string option) \<Rightarrow> tool_result \<Rightarrow> 's world
    \<Rightarrow> ((exc + tool_result \<times> pydict option) \<times> rounds) \<times> 's world" where
  "finish_permissions en rq negotiate offer_error result w =
     (case (if tr_success result then None else pending_request result) of
        None \<Rightarrow> ((Inr (result, None), []), w)
      | Some q \<Rightarrow>
          (if negotiate = None
           then ((Inr (result, Some (policy_decision_payload (rq_tool_name rq) q ''requested'' 0 [])), []), w)
           else stream_tool_permission_chain (world_chain en rq negotiate offer_error) result w))"

definition run_call :: "'s engine \<Rightarrow> 's request \<Rightarrow> (pydict \<Rightarrow> 's \<Rightarrow> (exc + bool) \<times> 's) option
    \<Rightarrow> ('s \<Rightarrow> string option) \<Rightarrow> 's world \<Rightarrow> ((exc + tool_result \<times> pydict option) \<times> rounds) \<times> 's world" where
  "run_call en rq negotiate offer_error w = (case invoke_serial en rq w of
     (Inl e, w') \<Rightarrow> ((Inl e, []), w')
   | (Inr r, w') \<Rightarrow> finish_permissions en rq negotiate offer_error r w')"

end
