(* ===== verification/Prepared.thy ===== *)
theory Prepared
  imports Invocation
begin

section \<open>The tools offered to one model request (tools/engine/contracts.py)\<close>

text \<open>
  \<open>PreparedTools\<close>: the definitions offered in a request, frozen, with the live tool objects
  behind them. Before a call is admitted and again before it is invoked, the live object is
  compared with the frozen definition (name, routing identity, parameters, schemas without their
  descriptions) and asked for its generation.

  Tool objects are numbers; \<open>live\<close> reads the current attributes of an object from the
  environment \<open>'s\<close>. The exposure manager of discovered MCP tools (tools/mcp\_tool\_search.py) and the
  visibility policy are interfaces of the class and appear as its fields.
\<close>

subsection \<open>Frozen definitions and live tools\<close>

text \<open>The attributes that are compared. A schema that cannot be built is \<open>None\<close>.\<close>

record tool_view =
  tv_name :: string
  tv_description :: string
  tv_identity :: "pyval list"
  tv_parameters :: pyval
  tv_schema :: "pydict option"
  tv_openai_schema :: "pydict option"
  tv_generation :: pyval
  tv_deduplicate :: bool

type_synonym 's live = "nat \<Rightarrow> 's \<Rightarrow> tool_view"

definition without_description :: "pydict \<Rightarrow> pydict" where
  "without_description schema =
     (let result = AList.delete ''description'' schema
      in case map_of result ''function'' of
           Some (PDict f) \<Rightarrow> AList.update ''function'' (PDict (AList.delete ''description'' f)) result
         | _ \<Rightarrow> result)"

text \<open>\<open>matches_target\<close>, with an exception while reading the live schemas as a mismatch, as both
  callers treat it.\<close>

definition schema_matches :: "pydict option \<Rightarrow> pydict option \<Rightarrow> bool" where
  "schema_matches frozen current = (case (frozen, current) of
     (Some f, Some c) \<Rightarrow> without_description f = without_description c
   | _ \<Rightarrow> False)"

definition matches_target :: "tool_view \<Rightarrow> tool_view \<Rightarrow> bool" where
  "matches_target frozen current =
     (tv_identity frozen = tv_identity current \<and> tv_parameters frozen = tv_parameters current
      \<and> schema_matches (tv_schema frozen) (tv_schema current)
      \<and> schema_matches (tv_openai_schema frozen) (tv_openai_schema current))"

subsection \<open>The prepared request\<close>

record 's exposure =
  ex_stable_prefix :: bool
  ex_validate_call :: "string \<Rightarrow> int option \<Rightarrow> nat \<Rightarrow> 's \<Rightarrow> string option"
  ex_is_current :: "string \<Rightarrow> nat \<Rightarrow> 's \<Rightarrow> bool"

record 's prepared =
  pr_definitions :: "(string \<times> tool_view) list"
  pr_targets :: "(string \<times> nat) list"
  pr_call_names :: "(string \<times> string) list"
  pr_generations :: "(string \<times> int) list"
  pr_exposure :: "'s exposure option"
  pr_registered :: "string list"
  pr_routed_targets :: "(string \<times> nat) list"
  pr_routed_definitions :: "(string \<times> tool_view) list"
  pr_route_refs :: "(string \<times> string) list"
  pr_route_visible :: "(string \<Rightarrow> 's \<Rightarrow> bool) option"

definition canonical_name :: "'s prepared \<Rightarrow> string \<Rightarrow> string" where
  "canonical_name p name = (case map_of (pr_call_names p) name of None \<Rightarrow> name | Some n \<Rightarrow> n)"

definition stable_prefix :: "'s prepared \<Rightarrow> bool" where
  "stable_prefix p = (case pr_exposure p of None \<Rightarrow> False | Some ex \<Rightarrow> ex_stable_prefix ex)"

definition quoted :: "string \<Rightarrow> string" where
  "quoted s = [char_of (39::nat)] @ s @ [char_of (39::nat)]"

text \<open>\<open>if error:\<close> on an error text: the empty text is no error.\<close>

definition nonempty :: "string option \<Rightarrow> string option" where
  "nonempty e = (if e = Some [] then None else e)"

definition validate_routed_call :: "'s live \<Rightarrow> 's prepared \<Rightarrow> string \<Rightarrow> 's \<Rightarrow> string option" where
  "validate_routed_call live p name s =
     (case (map_of (pr_routed_targets p) name, map_of (pr_routed_definitions p) name) of
        (Some target, Some frozen) \<Rightarrow>
          (if (case pr_route_visible p of None \<Rightarrow> False | Some f \<Rightarrow> \<not> f name s)
           then Some (''Tool '' @ quoted name @ '' is not available in this conversation.'')
           else case nonempty (Option.bind (pr_exposure p) (\<lambda>ex. ex_validate_call ex name (map_of (pr_generations p) name) target s)) of
             Some error \<Rightarrow> Some error
           | None \<Rightarrow>
               (if (case pr_exposure p of None \<Rightarrow> False | Some ex \<Rightarrow> \<not> ex_is_current ex name target s)
                then Some (''Tool '' @ quoted name @ '' changed or is unavailable; search again.'')
                else if tv_description frozen = tv_description (live target s) \<and> matches_target frozen (live target s)
                then None
                else Some (''Tool '' @ quoted name @ '' definition changed; search again.'')))
      | _ \<Rightarrow> Some ''Unknown or expired tool_ref; search again.'')"

definition validate_call :: "'s live \<Rightarrow> 's prepared \<Rightarrow> string \<Rightarrow> 's \<Rightarrow> string option" where
  "validate_call live p called s =
     (let name = canonical_name p called
      in case map_of (pr_targets p) name of
           None \<Rightarrow> Some ((if pr_exposure p = None \<and> name \<notin> set (pr_registered p)
                          then ''Unknown tool: '' @ name @ ''. '' else [])
                     @ ''Tool '' @ quoted name @ '' was not offered in this model step. ''
                     @ ''Use tool_search and call an activated result on the next step.'')
         | Some target \<Rightarrow>
             (let generation = map_of (pr_generations p) name;
                  changed = (case pr_exposure p of
                     Some ex \<Rightarrow>
                       (if ex_stable_prefix ex \<and> \<not> ex_is_current ex name target s
                        then Some (''Tool '' @ quoted name @ '' is no longer available.'')
                        else ex_validate_call ex name generation target s)
                   | None \<Rightarrow>
                       (case generation of
                          Some g \<Rightarrow> if tv_generation (live target s) \<noteq> PInt g
                            then Some (''MCP tool '' @ quoted name @ '' execution target changed after it was offered; ''
                              @ ''prepare tools again.'') else None
                        | None \<Rightarrow> None))
              in case changed of
                   Some e \<Rightarrow> Some e
                 | None \<Rightarrow>
                     (if (case map_of (pr_definitions p) name of
                            None \<Rightarrow> False | Some frozen \<Rightarrow> matches_target frozen (live target s))
                      then None
                      else Some (''Tool '' @ quoted name @ '' definition or execution target changed after it was offered; ''
                        @ ''prepare tools again before calling it.''))))"

definition admission_check :: "'s live \<Rightarrow> 's prepared \<Rightarrow> string \<Rightarrow> 's \<Rightarrow> string option" where
  "admission_check live p name s =
     (if pr_exposure p = None \<and> name \<notin> set (pr_registered p) \<and> map_of (pr_call_names p) name = None
      then None else validate_call live p name s)"

definition definition_of :: "'s prepared \<Rightarrow> string \<Rightarrow> tool_view option" where
  "definition_of p name = (case map_of (pr_definitions p) (canonical_name p name) of
     Some d \<Rightarrow> Some d
   | None \<Rightarrow> map_of (pr_routed_definitions p) (canonical_name p name))"

definition allows_batch_deduplication :: "'s live \<Rightarrow> 's prepared \<Rightarrow> string \<Rightarrow> 's \<Rightarrow> bool" where
  "allows_batch_deduplication live p called s =
     (let name = canonical_name p called
      in case definition_of p called of
           None \<Rightarrow> False
         | Some d \<Rightarrow> tv_deduplicate d
             \<and> (if map_of (pr_routed_targets p) name \<noteq> None then validate_routed_call live p name s
                else validate_call live p name s) = None)"

subsection \<open>Resolving a routed call\<close>

text \<open>\<open>call_tool\<close> names a tool by a reference and carries the arguments as JSON text. The parser
  (\<open>json.loads\<close> with the duplicate-key and constant hooks) is the parameter \<open>loads\<close>: \<open>None\<close> is
  an exception.\<close>

record tool_call =
  tc_id :: string
  tc_name :: string
  tc_arguments :: pydict

definition resolve_call :: "(string \<Rightarrow> pyval option) \<Rightarrow> 's live \<Rightarrow> 's prepared \<Rightarrow> tool_call \<Rightarrow> 's
    \<Rightarrow> tool_call \<times> bool \<times> string option" where
  "resolve_call loads live p call s =
     (if tc_name call \<noteq> ''call_tool'' \<or> \<not> stable_prefix p then (call, False, None)
      else if \<not> (set (keys (tc_arguments call)) = {''tool_ref'', ''arguments_json''}
             \<and> list_all (\<lambda>v. case v of PStr _ \<Rightarrow> True | _ \<Rightarrow> False) (vals (tc_arguments call)))
      then (call, True, Some ''Invalid call_tool arguments: expected tool_ref and arguments_json strings.'')
      else case map_of (pr_route_refs p) (py_str (dget (tc_arguments call) ''tool_ref'')) of
          None \<Rightarrow> (call, True, Some ''Unknown or expired tool_ref; search again on a later model step.'')
        | Some name \<Rightarrow>
            (case loads (py_str (dget (tc_arguments call) ''arguments_json'')) of
               None \<Rightarrow> (call, True, Some ''Invalid arguments_json: expected a valid JSON object.'')
             | Some (PDict args) \<Rightarrow>
                 (call\<lparr>tc_name := name, tc_arguments := args\<rparr>, True, validate_routed_call live p name s)
             | Some _ \<Rightarrow> (call, True, Some ''Invalid arguments_json: expected a JSON object.'')))"

text \<open>\<open>canonicalize_calls\<close> of one call that is not routed.\<close>

definition canonicalize :: "(string \<Rightarrow> pyval option) \<Rightarrow> 's live \<Rightarrow> 's prepared \<Rightarrow> tool_call \<Rightarrow> 's \<Rightarrow> tool_call" where
  "canonicalize loads live p call s =
     (let (resolved, _, _) = resolve_call loads live p call s
      in resolved\<lparr>tc_name := canonical_name p (tc_name resolved)\<rparr>)"

subsection \<open>What an accepted call relies on\<close>

text \<open>An accepted call is bound to an offered tool whose current definition is the frozen one.\<close>

lemma validated_call_current:
  assumes "validate_call live p called s = None"
  shows "\<exists>target frozen. map_of (pr_targets p) (canonical_name p called) = Some target
    \<and> map_of (pr_definitions p) (canonical_name p called) = Some frozen \<and> matches_target frozen (live target s)"
  using assms by (auto simp: validate_call_def Let_def split: option.splits if_splits)

lemma validated_route_current:
  assumes "validate_routed_call live p name s = None"
  shows "\<exists>target frozen. map_of (pr_routed_targets p) name = Some target
    \<and> map_of (pr_routed_definitions p) name = Some frozen \<and> matches_target frozen (live target s)
    \<and> (\<forall>f. pr_route_visible p = Some f \<longrightarrow> f name s)"
  using assms by (auto simp: validate_routed_call_def split: option.splits if_splits)

end
