(* ===== verification/HookBus.thy ===== *)
theory HookBus
  imports Prelude "HOL-Library.Product_Lexorder"
begin

section \<open>The hook bus (box\_agent/hook\_bus.py, kernel/hook\_types.py, plugins/hooks.py)\<close>

text \<open>
  Registration, freezing, dispatch and closing of the hooks of one run. Matchers and handlers are
  plugin code: an environment gives what each call answers, on a state of its own. A deadline that
  passes is a call that raises \<open>TimeoutError\<close>; tasks that outlive their deadline are only seen by
  the durability errors they deliver late. Registrations are numbered in the order of their
  registration (the source also gives each a random id). Payloads are \<open>pydict\<close>s; copies of
  immutable values are the values.
\<close>

subsection \<open>Hook data\<close>

definition OBSERVER_EVENTS :: "string list" where
  "OBSERVER_EVENTS = [''run.started'', ''step.started'', ''llm.responded'', ''tool.finished'',
     ''step.finished'', ''run.error'', ''run.finished'']"

text \<open>The notice is Chinese text in the source; here a token stands for it.\<close>

definition SUPPRESSED_TEXT :: string where
  "SUPPRESSED_TEXT = ''<suppressed>''"

datatype exc = Err string | CancelledExc | DurabilityExc nat

datatype hook_error =
    HookConfigError string
  | HookStateError string
  | HookValueError
  | HookKeyError string
  | HookRaised exc

text \<open>\<open>freeze_data\<close>: JSON data pass, a float that is not finite does not.\<close>

fun json_finite :: "pyval \<Rightarrow> bool" where
  "json_finite (PFloat r) = (r \<notin> {''nan'', ''inf'', ''-inf''})"
| "json_finite (PList vs) = list_all json_finite vs"
| "json_finite (PDict d) = list_all (\<lambda>(_, v). json_finite v) d"
| "json_finite _ = True"

definition freeze_data :: "pyval \<Rightarrow> hook_error + pyval" where
  "freeze_data v = (if json_finite v then Inr v else Inl HookValueError)"

record result_text =
  rt_content :: string
  rt_error :: "string option"

text \<open>Decisions: their constructors reject contradictory fields, so only these exist.\<close>

datatype before_decision = Allow | Modify pydict | Deny string string

datatype text_decision = Keep | Replace result_text | Suppress string

datatype decision =
    NoDecision
  | BeforeDecision before_decision
  | TextDecision text_decision
  | OtherDecision pyval

datatype before_resolution = AllowWith pyval | DenyWith string string string string

record text_resolution =
  tr_text :: result_text
  tr_suppressed :: bool
  tr_reason :: "string option"
  tr_hook_id :: "string option"
  tr_source :: "string option"
  tr_modified :: bool

definition text_result :: "result_text \<Rightarrow> bool \<Rightarrow> text_resolution" where
  "text_result t modified = \<lparr>tr_text = t, tr_suppressed = False, tr_reason = None, tr_hook_id = None,
     tr_source = None, tr_modified = modified\<rparr>"

subsection \<open>Declarations\<close>

datatype handler = LegacyHookAdapter | Handler | UncallableHandler

datatype matcher = NoMatcher | Matcher | UncallableMatcher

datatype timeout = NoTimeout | Millis int | NotAnInt

record hook_spec =
  hs_id :: string
  hs_events :: "string list"
  hs_kind :: string
  hs_handler :: handler
  hs_priority :: "int option"   \<comment> \<open>\<open>None\<close>: not an int\<close>
  hs_matcher :: matcher
  hs_timeout :: timeout

record hook_owner =
  ho_plugin :: string
  ho_version :: string
  ho_source :: string
  ho_run :: string
  ho_scope :: string

record registration =
  re_id :: nat
  re_spec :: hook_spec
  re_owner :: hook_owner

datatype bus_state = Registering | Ready | Draining | Closed

record bus =
  bus_run :: string
  bus_session :: string
  bus_state :: bus_state
  bus_entries :: "registration list"
  bus_tokens :: "(nat \<times> bool) list"   \<comment> \<open>the registration and whether its token was disposed\<close>
  bus_index :: "((string \<times> string) \<times> registration list) list"
  bus_order :: nat
  bus_late :: "nat list"

definition new_bus :: "string \<Rightarrow> string \<Rightarrow> bus" where
  "new_bus run session = \<lparr>bus_run = run, bus_session = session, bus_state = Registering, bus_entries = [],
     bus_tokens = [], bus_index = [], bus_order = 0, bus_late = []\<rparr>"

definition valid_events :: "string \<Rightarrow> string list option" where
  "valid_events k = (if k = ''observer'' then Some OBSERVER_EVENTS
     else if k = ''before_tool'' then Some [''tool.before_execution'']
     else if k = ''result_text'' then Some [''tool.after_execution''] else None)"

text \<open>The checks of \<open>register\<close>, in their order.\<close>

definition register_error :: "hook_spec \<Rightarrow> hook_owner \<Rightarrow> bus \<Rightarrow> hook_error option" where
  "register_error s ow b =
     (if bus_state b \<noteq> Registering then Some (HookStateError ''not registering'')
      else if ho_scope ow \<noteq> ''run'' \<or> ho_run ow \<noteq> bus_run b then Some (HookConfigError ''another run'')
      else if \<not> list_all (\<lambda>x. x \<noteq> []) [hs_id s, ho_plugin ow, ho_version ow, ho_source ow]
      then Some (HookConfigError ''empty identifier or source'')
      else if list_ex (\<lambda>e. ho_plugin (re_owner e) = ho_plugin ow \<and> hs_id (re_spec e) = hs_id s) (bus_entries b)
      then Some (HookConfigError ''duplicate hook'')
      else if hs_events s = [] \<or> (case valid_events (hs_kind s) of
          None \<Rightarrow> True | Some es \<Rightarrow> \<not> list_all (\<lambda>e. e \<in> set es) (hs_events s))
      then Some (HookConfigError ''events do not fit the kind'')
      else if hs_priority s = None
        \<or> (case hs_timeout s of NoTimeout \<Rightarrow> False | Millis n \<Rightarrow> n \<le> 0 | NotAnInt \<Rightarrow> True)
      then Some (HookConfigError ''invalid priority or timeout'')
      else if hs_handler s \<noteq> LegacyHookAdapter \<and> (hs_handler s = UncallableHandler \<or> hs_matcher s = UncallableMatcher)
      then Some (HookConfigError ''not callable'')
      else None)"

definition register_hook :: "hook_spec \<Rightarrow> hook_owner \<Rightarrow> bus \<Rightarrow> (hook_error + nat) \<times> bus" where
  "register_hook s ow b = (case register_error s ow b of
     Some e \<Rightarrow> (Inl e, b)
   | None \<Rightarrow>
       (let n = bus_order b + 1
        in (Inr n, b\<lparr>bus_order := n,
              bus_entries := bus_entries b @ [\<lparr>re_id = n, re_spec = s, re_owner = ow\<rparr>],
              bus_tokens := bus_tokens b @ [(n, False)]\<rparr>)))"

text \<open>The dispatch order: by priority, then by registration.\<close>

definition entry_priority :: "registration \<Rightarrow> int" where
  "entry_priority e = (case hs_priority (re_spec e) of Some p \<Rightarrow> p | None \<Rightarrow> 0)"

definition sort_entries :: "registration list \<Rightarrow> registration list" where
  "sort_entries es = sort_key (\<lambda>e. (entry_priority e, re_id e)) es"

definition index_entry :: "((string \<times> string) \<times> registration list) list \<Rightarrow> registration
    \<Rightarrow> ((string \<times> string) \<times> registration list) list" where
  "index_entry ix e = foldl (\<lambda>ix ev. AList.update (ev, hs_kind (re_spec e))
     ((case map_of ix (ev, hs_kind (re_spec e)) of None \<Rightarrow> [] | Some es \<Rightarrow> es) @ [e]) ix)
     ix (remdups (hs_events (re_spec e)))"

definition freeze_bus :: "bus \<Rightarrow> (hook_error + unit) \<times> bus" where
  "freeze_bus b = (case bus_state b of
     Ready \<Rightarrow> (Inr (), b)
   | Registering \<Rightarrow> (Inr (), b\<lparr>bus_index := foldl index_entry [] (sort_entries (bus_entries b)), bus_state := Ready\<rparr>)
   | _ \<Rightarrow> (Inl (HookStateError ''closing''), b))"

subsection \<open>Dispatch\<close>

record hook_context =
  hc_event :: string
  hc_run :: string
  hc_session :: string
  hc_payload :: pydict

text \<open>An error that a finished background task left is raised once, the first one only.\<close>

definition raise_late :: "bus \<Rightarrow> (hook_error + unit) \<times> bus" where
  "raise_late b = (case bus_late b of
     [] \<Rightarrow> (Inr (), b)
   | n # _ \<Rightarrow> (Inl (HookRaised (DurabilityExc n)), b\<lparr>bus_late := []\<rparr>))"

definition remember_late :: "nat \<Rightarrow> bus \<Rightarrow> bus" where
  "remember_late n b = (if n \<in> set (bus_late b) then b else b\<lparr>bus_late := bus_late b @ [n]\<rparr>)"

definition begin_dispatch :: "hook_context \<Rightarrow> bus \<Rightarrow> (hook_error + unit) \<times> bus" where
  "begin_dispatch c b =
     (if bus_state b \<noteq> Ready \<or> hc_run c \<noteq> bus_run b then (Inl (HookStateError ''state or run''), b)
      else if hc_session c \<noteq> bus_session b then (Inl (HookStateError ''session''), b)
      else raise_late b)"

definition select_entries :: "string \<Rightarrow> string \<Rightarrow> bus \<Rightarrow> registration list" where
  "select_entries event kind b = (case map_of (bus_index b) (event, kind) of None \<Rightarrow> [] | Some es \<Rightarrow> es)"

datatype match_outcome = MatchBool bool | MatchOther | MatchRaises exc

datatype handle_outcome = Answers decision | Raises exc

record 's hook_env =
  env_matches :: "registration \<Rightarrow> pydict \<Rightarrow> 's \<Rightarrow> match_outcome \<times> 's"
  env_handle :: "registration \<Rightarrow> pydict \<Rightarrow> 's \<Rightarrow> handle_outcome \<times> 's"
  env_cancelled :: "'s \<Rightarrow> bool"

datatype execution = Skipped | Failed string | Completed decision

definition is_legacy :: "registration \<Rightarrow> bool" where
  "is_legacy e = (hs_handler (re_spec e) = LegacyHookAdapter)"

text \<open>An ordinary exception fails the one hook; cancellation and durability errors are raised on.\<close>

definition failed_by :: "exc \<Rightarrow> hook_error + execution" where
  "failed_by x = (case x of Err why \<Rightarrow> Inr (Failed why) | _ \<Rightarrow> Inl (HookRaised x))"

text \<open>Unpacking the answer of a legacy result callback into two values: a pair, but also a text of two
  characters or a dictionary of two keys.\<close>

definition unpack_text :: "pyval \<Rightarrow> result_text option" where
  "unpack_text v = (case v of
     PList [PStr c, PNone] \<Rightarrow> Some \<lparr>rt_content = c, rt_error = None\<rparr>
   | PList [PStr c, PStr e] \<Rightarrow> Some \<lparr>rt_content = c, rt_error = Some e\<rparr>
   | PStr [c, e] \<Rightarrow> Some \<lparr>rt_content = [c], rt_error = Some [e]\<rparr>
   | PDict [(c, _), (e, _)] \<Rightarrow> Some \<lparr>rt_content = c, rt_error = Some e\<rparr>
   | _ \<Rightarrow> None)"

definition legacy_execution :: "string \<Rightarrow> decision \<Rightarrow> execution" where
  "legacy_execution event d =
     (if event = ''tool.after_execution'' \<and> d \<noteq> NoDecision
      then (case d of
              OtherDecision v \<Rightarrow> (case unpack_text v of
                Some t \<Rightarrow> Completed (TextDecision (Replace t)) | None \<Rightarrow> Failed ''ValueError'')
            | _ \<Rightarrow> Failed ''ValueError'')
      else Completed d)"

definition expected_decision :: "string \<Rightarrow> decision \<Rightarrow> bool" where
  "expected_decision kind d =
     (if kind = ''observer'' then d = NoDecision
      else if kind = ''before_tool'' then (case d of BeforeDecision _ \<Rightarrow> True | _ \<Rightarrow> False)
      else (case d of TextDecision _ \<Rightarrow> True | _ \<Rightarrow> False))"

definition execute_entry :: "'s hook_env \<Rightarrow> string \<Rightarrow> registration \<Rightarrow> pydict \<Rightarrow> 's
    \<Rightarrow> (hook_error + execution) \<times> 's" where
  "execute_entry E event e payload s =
     (if is_legacy e
      then (case env_handle E e payload s of
              (Raises x, s1) \<Rightarrow> (failed_by x, s1)
            | (Answers d, s1) \<Rightarrow> (Inr (legacy_execution event d), s1))
      else if env_cancelled E s then (Inl (HookRaised CancelledExc), s)
      else (let (m, s1) = (if hs_matcher (re_spec e) = NoMatcher then (MatchBool True, s) else env_matches E e payload s)
            in case m of
                 MatchRaises x \<Rightarrow> (failed_by x, s1)
               | MatchOther \<Rightarrow> (Inr (Failed ''ValueError''), s1)
               | MatchBool False \<Rightarrow> (Inr Skipped, s1)
               | MatchBool True \<Rightarrow> (case env_handle E e payload s1 of
                   (Raises x, s2) \<Rightarrow> (failed_by x, s2)
                 | (Answers d, s2) \<Rightarrow> (Inr (if expected_decision (hs_kind (re_spec e)) d then Completed d
                                        else Failed ''ValueError''), s2))))"

subsection \<open>The chains\<close>

text \<open>Each chain also returns what happened, hook by hook: the hook, what it was shown, its execution.\<close>

definition apply_before_decision :: "pyval \<Rightarrow> before_decision \<Rightarrow> registration \<Rightarrow> hook_error + before_resolution" where
  "apply_before_decision current d e = (case d of
     Deny reason code \<Rightarrow> Inr (DenyWith reason code (hs_id (re_spec e)) (ho_source (re_owner e)))
   | Modify args \<Rightarrow> Inr (AllowWith (PDict args))
   | Allow \<Rightarrow> (case current of
       PDict _ \<Rightarrow> (if json_finite current then Inr (AllowWith current) else Inl HookValueError)
     | _ \<Rightarrow> Inl HookValueError))"

definition failure_denial :: "registration \<Rightarrow> string \<Rightarrow> before_decision" where
  "failure_denial e why = Deny (''Hook '' @ hs_id (re_spec e) @ '' failed: '' @ why) ''HOOK_EXECUTION_FAILED''"

text \<open>One hook of the chain: go on with these arguments, or stop with the resolution.\<close>

definition before_next :: "pyval \<Rightarrow> registration \<Rightarrow> execution \<Rightarrow> hook_error + (before_resolution + pyval)" where
  "before_next current e x =
     (if is_legacy e
      then (case x of
              Completed NoDecision \<Rightarrow> Inr (Inr current)
            | Completed (OtherDecision v) \<Rightarrow> Inr (Inr v)
            | Completed _ \<Rightarrow> Inl HookValueError
            | _ \<Rightarrow> Inr (Inr current))
      else (case x of
              Skipped \<Rightarrow> Inr (Inr current)
            | _ \<Rightarrow> (let d = (case x of Completed (BeforeDecision d) \<Rightarrow> d | Failed why \<Rightarrow> failure_denial e why
                            | _ \<Rightarrow> failure_denial e [])
                   in case apply_before_decision current d e of
                        Inl err \<Rightarrow> Inl err
                      | Inr (DenyWith r c h src) \<Rightarrow> Inr (Inl (DenyWith r c h src))
                      | Inr (AllowWith v) \<Rightarrow> Inr (Inr v))))"

definition resolve_allow :: "pyval \<Rightarrow> hook_error + before_resolution" where
  "resolve_allow current = (case current of
     PDict _ \<Rightarrow> (if json_finite current then Inr (AllowWith current) else Inl HookValueError)
   | _ \<Rightarrow> Inl HookValueError)"

fun before_chain :: "'s hook_env \<Rightarrow> hook_context \<Rightarrow> registration list \<Rightarrow> pyval \<Rightarrow> 's
    \<Rightarrow> (hook_error + before_resolution) \<times> 's \<times> (registration \<times> pyval \<times> execution) list" where
  "before_chain E c [] current s = (resolve_allow current, s, [])"
| "before_chain E c (e # es) current s =
     (let payload = AList.update ''arguments'' current (hc_payload c)
      in if \<not> json_finite (PDict payload) then (Inl HookValueError, s, [])
         else if ''tool_name'' \<notin> set (keys (hc_payload c)) then (Inl (HookKeyError ''tool_name''), s, [])
         else (let (r, s1) = execute_entry E (hc_event c) e payload s
               in case r of
                    Inl err \<Rightarrow> (Inl err, s1, [])
                  | Inr x \<Rightarrow> (case before_next current e x of
                      Inl err \<Rightarrow> (Inl err, s1, [(e, current, x)])
                    | Inr (Inl res) \<Rightarrow> (Inr res, s1, [(e, current, x)])
                    | Inr (Inr v) \<Rightarrow> (let (r', s2, tr) = before_chain E c es v s1 in (r', s2, (e, current, x) # tr)))))"

definition before_tool :: "'s hook_env \<Rightarrow> hook_context \<Rightarrow> pyval \<Rightarrow> bus \<Rightarrow> 's
    \<Rightarrow> (hook_error + before_resolution) \<times> (bus \<times> 's \<times> (registration \<times> pyval \<times> execution) list)" where
  "before_tool E c arguments b s = (case begin_dispatch c b of
     (Inl err, b1) \<Rightarrow> (Inl err, b1, s, [])
   | (Inr _, b1) \<Rightarrow>
       (if hc_event c \<noteq> ''tool.before_execution'' then (Inl (HookStateError ''wrong event''), b1, s, [])
        else if \<not> json_finite arguments then (Inl HookValueError, b1, s, [])
        else (let (r, s1, tr) = before_chain E c (select_entries (hc_event c) ''before_tool'' b1) arguments s
              in (r, b1, s1, tr))))"

definition flag_false :: "hook_context \<Rightarrow> string \<Rightarrow> bool" where
  "flag_false c k = (map_of (hc_payload c) k = Some (PBool False))"

definition suppressed :: "hook_context \<Rightarrow> string \<Rightarrow> registration \<Rightarrow> text_resolution" where
  "suppressed c reason e = \<lparr>tr_text = \<lparr>rt_content = SUPPRESSED_TEXT,
       rt_error = (if flag_false c ''success'' then Some SUPPRESSED_TEXT else None)\<rparr>,
     tr_suppressed = True, tr_reason = Some reason, tr_hook_id = Some (hs_id (re_spec e)),
     tr_source = Some (ho_source (re_owner e)), tr_modified = True\<rparr>"

definition text_next :: "hook_context \<Rightarrow> result_text \<Rightarrow> bool \<Rightarrow> registration \<Rightarrow> execution
    \<Rightarrow> text_resolution + (result_text \<times> bool)" where
  "text_next c current modified e x =
     (if is_legacy e
      then (case x of
              Completed (TextDecision (Replace t)) \<Rightarrow> Inr (t, modified)
            | _ \<Rightarrow> Inr (current, modified))
      else (case x of
              Skipped \<Rightarrow> Inr (current, modified)
            | Completed (TextDecision Keep) \<Rightarrow> Inr (current, modified)
            | Completed (TextDecision (Replace t)) \<Rightarrow> Inr (t, True)
            | Completed (TextDecision (Suppress reason)) \<Rightarrow> Inl (suppressed c reason e)
            | Failed why \<Rightarrow> Inl (suppressed c (''Hook '' @ hs_id (re_spec e) @ '' failed: '' @ why) e)
            | _ \<Rightarrow> Inl (suppressed c (''Hook '' @ hs_id (re_spec e) @ '' failed: '') e)))"

definition text_payload :: "hook_context \<Rightarrow> result_text \<Rightarrow> pydict" where
  "text_payload c t = AList.update ''error'' (case rt_error t of None \<Rightarrow> PNone | Some x \<Rightarrow> PStr x)
     (AList.update ''content'' (PStr (rt_content t)) (hc_payload c))"

text \<open>New hooks see only results of tools that ran, legacy ones only what the user sees.\<close>

definition text_applies :: "hook_context \<Rightarrow> registration \<Rightarrow> bool" where
  "text_applies c e = (if is_legacy e then \<not> flag_false c ''user_visible'' else \<not> flag_false c ''executed'')"

fun text_chain :: "'s hook_env \<Rightarrow> hook_context \<Rightarrow> registration list \<Rightarrow> result_text \<Rightarrow> bool \<Rightarrow> 's
    \<Rightarrow> (hook_error + text_resolution) \<times> 's \<times> (registration \<times> result_text \<times> execution) list" where
  "text_chain E c [] current modified s = (Inr (text_result current modified), s, [])"
| "text_chain E c (e # es) current modified s =
     (if \<not> text_applies c e then text_chain E c es current modified s
      else if \<not> json_finite (PDict (text_payload c current)) then (Inl HookValueError, s, [])
      else if \<not> list_all (\<lambda>k. k \<in> set (keys (hc_payload c))) [''tool_name'', ''success'']
      then (Inl (HookKeyError ''tool_name, success''), s, [])
      else (let (r, s1) = execute_entry E (hc_event c) e (text_payload c current) s
            in case r of
                 Inl err \<Rightarrow> (Inl err, s1, [])
               | Inr x \<Rightarrow> (case text_next c current modified e x of
                   Inl res \<Rightarrow> (Inr res, s1, [(e, current, x)])
                 | Inr (t, m) \<Rightarrow> (let (r', s2, tr) = text_chain E c es t m s1 in (r', s2, (e, current, x) # tr)))))"

definition after_tool :: "'s hook_env \<Rightarrow> hook_context \<Rightarrow> result_text \<Rightarrow> bus \<Rightarrow> 's
    \<Rightarrow> (hook_error + text_resolution) \<times> (bus \<times> 's \<times> (registration \<times> result_text \<times> execution) list)" where
  "after_tool E c t b s = (case begin_dispatch c b of
     (Inl err, b1) \<Rightarrow> (Inl err, b1, s, [])
   | (Inr _, b1) \<Rightarrow>
       (if hc_event c \<noteq> ''tool.after_execution'' then (Inl (HookStateError ''wrong event''), b1, s, [])
        else (let (r, s1, tr) = text_chain E c (select_entries (hc_event c) ''result_text'' b1) t False s
              in (r, b1, s1, tr))))"

text \<open>Observers: only control errors get out. \<open>from_run\<close> tells whether the run itself fired the event,
  so that legacy hooks have their arguments.\<close>

fun observe_all :: "'s hook_env \<Rightarrow> hook_context \<Rightarrow> bool \<Rightarrow> registration list \<Rightarrow> 's
    \<Rightarrow> (hook_error + unit) \<times> 's \<times> (registration \<times> execution) list" where
  "observe_all E c from_run [] s = (Inr (), s, [])"
| "observe_all E c from_run (e # es) s =
     (if is_legacy e \<and> \<not> from_run \<or> \<not> is_legacy e \<and> from_run \<and> env_cancelled E s
      then observe_all E c from_run es s
      else if \<not> is_legacy e \<and> \<not> json_finite (PDict (hc_payload c)) then (Inl HookValueError, s, [])
      else (let (r, s1) = execute_entry E (hc_event c) e (hc_payload c) s
            in case r of
                 Inl err \<Rightarrow> (Inl err, s1, [])
               | Inr x \<Rightarrow> (let (r', s2, tr) = observe_all E c from_run es s1 in (r', s2, (e, x) # tr))))"

definition observe :: "'s hook_env \<Rightarrow> hook_context \<Rightarrow> bool \<Rightarrow> bus \<Rightarrow> 's
    \<Rightarrow> (hook_error + unit) \<times> (bus \<times> 's \<times> (registration \<times> execution) list)" where
  "observe E c from_run b s = (case begin_dispatch c b of
     (Inl err, b1) \<Rightarrow> (Inl err, b1, s, [])
   | (Inr _, b1) \<Rightarrow>
       (if hc_event c \<notin> set OBSERVER_EVENTS then (Inl (HookStateError ''not an observer event''), b1, s, [])
        else if \<not> from_run \<and> env_cancelled E s then (Inl (HookRaised CancelledExc), b1, s, [])
        else (let (r, s1, tr) = observe_all E c from_run (select_entries (hc_event c) ''observer'' b1) s
              in (r, b1, s1, tr))))"

subsection \<open>Closing\<close>

definition unregister :: "nat \<Rightarrow> bus \<Rightarrow> (hook_error + unit) \<times> bus" where
  "unregister n b =
     (if n \<notin> set (map re_id (bus_entries b)) then (Inr (), b)
      else if bus_state b \<noteq> Registering \<and> bus_state b \<noteq> Draining then (Inl (HookStateError ''running''), b)
      else (Inr (), b\<lparr>bus_entries := filter (\<lambda>e. re_id e \<noteq> n) (bus_entries b), bus_index := []\<rparr>))"

definition dispose_token :: "nat \<Rightarrow> bus \<Rightarrow> (hook_error + unit) \<times> bus" where
  "dispose_token n b =
     (if map_of (bus_tokens b) n \<noteq> Some False then (Inr (), b)
      else (case unregister n b of
              (Inl err, b1) \<Rightarrow> (Inl err, b1)
            | (Inr _, b1) \<Rightarrow> (Inr (), b1\<lparr>bus_tokens := AList.update n True (bus_tokens b1)\<rparr>)))"

fun dispose_tokens :: "nat list \<Rightarrow> bus \<Rightarrow> (hook_error + unit) \<times> bus" where
  "dispose_tokens [] b = (Inr (), b)"
| "dispose_tokens (n # ns) b = (case dispose_token n b of
     (Inl err, b1) \<Rightarrow> (Inl err, b1) | (Inr _, b1) \<Rightarrow> dispose_tokens ns b1)"

text \<open>\<open>late\<close>: the durability errors that the drained tasks deliver.\<close>

definition close_bus :: "nat list \<Rightarrow> bus \<Rightarrow> (hook_error + unit) \<times> bus" where
  "close_bus late b =
     (if bus_state b = Closed then (Inr (), b)
      else (let b1 = foldl (\<lambda>b n. remember_late n b) (b\<lparr>bus_state := Draining\<rparr>) late
            in case dispose_tokens (rev (map fst (bus_tokens b1))) b1 of
                 (Inl err, b2) \<Rightarrow> (Inl err, b2)
               | (Inr _, b2) \<Rightarrow> raise_late (b2\<lparr>bus_tokens := [], bus_state := Closed\<rparr>)))"

subsection \<open>The entry points of the agent loop\<close>

text \<open>The older interface cannot express a denial: it raises instead of letting the call through.\<close>

definition fire_tool_start :: "'s hook_env \<Rightarrow> string \<Rightarrow> pyval \<Rightarrow> bus \<Rightarrow> 's
    \<Rightarrow> (hook_error + pyval) \<times> (bus \<times> 's \<times> (registration \<times> pyval \<times> execution) list)" where
  "fire_tool_start E tool_name arguments b s =
     (case before_tool E \<lparr>hc_event = ''tool.before_execution'', hc_run = bus_run b, hc_session = bus_session b,
             hc_payload = [(''tool_name'', PStr tool_name)]\<rparr> arguments b s of
        (Inl err, rest) \<Rightarrow> (Inl err, rest)
      | (Inr (DenyWith _ _ _ _), rest) \<Rightarrow> (Inl (HookStateError ''denied''), rest)
      | (Inr (AllowWith v), rest) \<Rightarrow> (Inr v, rest))"

definition fire_tool_result :: "'s hook_env \<Rightarrow> string \<Rightarrow> bool \<Rightarrow> result_text \<Rightarrow> bus \<Rightarrow> 's
    \<Rightarrow> (hook_error + result_text) \<times> (bus \<times> 's \<times> (registration \<times> result_text \<times> execution) list)" where
  "fire_tool_result E tool_name success t b s =
     (case after_tool E \<lparr>hc_event = ''tool.after_execution'', hc_run = bus_run b, hc_session = bus_session b,
             hc_payload = [(''tool_name'', PStr tool_name), (''success'', PBool success), (''executed'', PBool True)]\<rparr> t b s of
        (Inl err, rest) \<Rightarrow> (Inl err, rest)
      | (Inr res, rest) \<Rightarrow> (Inr (tr_text res), rest))"

end
