(* ===== verification/Dispatch.thy ===== *)
theory Dispatch
  imports Scheduler Prepared HookBus
begin

section \<open>The tool calls of one model step (tools/engine/engine.py)\<close>

text \<open>
  \<open>DefaultToolEngine.execute_calls\<close>: the calls of one model response are resolved against the
  offered tools, identical calls of tools that allow it are answered by one execution, and the
  others run first one by one, then as a batch. Each call is announced (\<open>_start_call\<close>), admitted
  or rejected by the gates in their order, shown to the hooks, checked again, recorded, executed
  through the scheduler with its permission rounds, and finished (\<open>_finish_call\<close>) with its
  budget accounting and exactly one committed result.

  The services of a run are callbacks in the code (\<open>ToolRunContext\<close>) and fields of \<open>services\<close>
  here; they work on the environment \<open>'s\<close>. The budgets are those of the theory \<open>Budget\<close>, a call
  is run by \<open>invoke_serial\<close> and \<open>finish_permissions\<close> of \<open>Scheduler\<close>, and a hook's answer is the
  resolution of \<open>HookBus\<close>. The detection of artifacts, traces and log lines, which only read the
  results, are left out; the adaptation of a result between its execution and its accounting
  (stored files, delivery policy, follow-up content) is the service \<open>sv_adapt\<close>.
\<close>

subsection \<open>Calls, services and the state of a step\<close>

record call =
  cl_id :: string
  cl_requested :: string
  cl_name :: string
  cl_arguments :: pydict
  cl_target :: "nat option"
  cl_routed :: bool
  cl_resolution_error :: "string option"
  cl_parallel :: bool
  cl_allowed :: bool
  cl_visible :: bool
  cl_rejection :: "string option"
  cl_hook_rejection :: "pydict option"
  cl_invoked :: bool
  cl_executed :: bool
  cl_charge :: charge
  cl_policy_decision :: "pydict option"

text \<open>The report of a parallel batch: the results by call id, the calls whose tool was entered,
  and their charges.\<close>

record batch_report =
  bp_results :: "string \<Rightarrow> tool_result option"
  bp_entered :: "string \<Rightarrow> bool"
  bp_charges :: "string \<Rightarrow> charge"

record 's services =
  sv_engine :: "'s engine"
  sv_live :: "'s live"
  sv_loads :: "string \<Rightarrow> pyval option"
  sv_parallel_safe :: "nat \<Rightarrow> bool"
  sv_ends_turn :: "nat \<Rightarrow> bool"
  sv_paths :: "string \<Rightarrow> pydict \<Rightarrow> 's \<Rightarrow> (string option \<times> pydict) \<times> 's"
  sv_policy_error :: "string \<Rightarrow> pydict \<Rightarrow> 's \<Rightarrow> string option"
  sv_placeholder :: "string \<Rightarrow> pydict \<Rightarrow> string option"
  sv_open_recovery :: "string \<Rightarrow> pydict \<Rightarrow> string \<Rightarrow> 's \<Rightarrow> 's"
  sv_recovery_error :: "string \<Rightarrow> pydict \<Rightarrow> 's \<Rightarrow> string option"
  sv_before_tool :: "(call \<Rightarrow> 's \<Rightarrow> (Invocation.exc + before_resolution) \<times> 's) option"
  sv_tool_start :: "(call \<Rightarrow> 's \<Rightarrow> (Invocation.exc + pydict) \<times> 's) option"
  sv_record_call :: "call \<Rightarrow> 's \<Rightarrow> (Invocation.exc + unit) \<times> 's"
  sv_flush_calls :: "'s \<Rightarrow> (Invocation.exc + unit) \<times> 's"
  sv_context :: "call \<Rightarrow> 's invocation_context"
  sv_negotiate :: "(pydict \<Rightarrow> 's \<Rightarrow> (Invocation.exc + bool) \<times> 's) option"
  sv_adapt :: "call \<Rightarrow> tool_result \<Rightarrow> 's \<Rightarrow> tool_result \<times> 's"
  sv_filter :: "call \<Rightarrow> tool_result \<Rightarrow> 's \<Rightarrow> (Invocation.exc + string \<times> string option) \<times> 's"
  sv_process :: "call \<Rightarrow> tool_result \<Rightarrow> string \<Rightarrow> string option \<Rightarrow> 's
    \<Rightarrow> (Invocation.exc + string \<times> string option \<times> search_result) \<times> 's"
  sv_commit_duplicate :: "call \<Rightarrow> string \<Rightarrow> 's \<Rightarrow> (Invocation.exc + unit) \<times> 's"
  sv_batch :: "'s request list \<Rightarrow> 's \<Rightarrow> ledger_store \<Rightarrow> (Invocation.exc + batch_report) \<times> 's \<times> ledger_store"
  sv_query_lang :: query_lang
  sv_casefold :: "string \<Rightarrow> string"

record control =
  ct_allowed_names :: "string list option"
  ct_blocked_reason :: string

record finished =
  fe_id :: string
  fe_name :: string
  fe_success :: bool
  fe_content :: string
  fe_error :: "string option"
  fe_executed :: bool
  fe_ends_turn :: bool

datatype step_event = Started string string bool | Finished finished

text \<open>The state: the environment and ledgers, the run's budgets, the repairs of placeholder
  arguments so far, the fields of \<open>ToolStepSummary\<close>, the outcomes by call id, and the events.\<close>

record 's step =
  st_env :: 's
  st_ledgers :: ledger_store
  st_budget :: tool_budget
  st_policy :: search_policy
  st_batch :: search_batch
  st_repairs :: int
  st_progress :: bool
  st_visible :: nat
  st_turn_ending :: "string option"
  st_successful :: "string list"
  st_repair :: bool
  st_outcomes :: "(string \<times> bool) list"
  st_log :: "step_event list"

type_synonym ('s, 'a) stage = "'s step \<Rightarrow> (Invocation.exc + 'a) \<times> 's step"

definition FINAL_SUMMARY_EXCLUDED_TOOLS :: "string list" where
  "FINAL_SUMMARY_EXCLUDED_TOOLS = [''get_skill'', ''plan_write'', ''todo_write'', ''todo_read'', ''memory_read'',
     ''memory_write'', ''memory_search'', ''memory_list_corrections'', ''memory_write_correction'',
     ''memory_supersede_correction'', ''memory_delete_correction'', ''request_user_input'', ''request_user_decision'']"

definition REPAIR_LIMIT :: int where "REPAIR_LIMIT = 1"

definition PLACEHOLDER_ERROR :: string where
  "PLACEHOLDER_ERROR = ''INTERNAL_MODEL_HISTORY_PLACEHOLDER: the requested tool argument is an internal ''
     @ ''history summary, not executable content. Regenerate the real argument. For static ''
     @ ''artifacts, use ordered write_file chunks instead of moving the body into execute_code.''"

text \<open>An effect of a service on the environment.\<close>

definition on_env :: "('s \<Rightarrow> (Invocation.exc + 'a) \<times> 's) \<Rightarrow> ('s, 'a) stage" where
  "on_env f st = (let (r, s) = f (st_env st) in (r, st\<lparr>st_env := s\<rparr>))"

definition emit_event :: "step_event \<Rightarrow> 's step \<Rightarrow> 's step" where
  "emit_event ev st = st\<lparr>st_log := st_log st @ [ev]\<rparr>"

subsection \<open>Admission\<close>

definition orelse :: "string option \<Rightarrow> string option \<Rightarrow> string option" where
  "orelse a b = (case nonempty a of None \<Rightarrow> nonempty b | Some e \<Rightarrow> Some e)"

definition call_error :: "'s services \<Rightarrow> 's prepared \<Rightarrow> call \<Rightarrow> 's \<Rightarrow> string option" where
  "call_error sv p c s = (if cl_routed c then validate_routed_call (sv_live sv) p (cl_name c) s
     else validate_call (sv_live sv) p (cl_name c) s)"

definition offer_error :: "'s services \<Rightarrow> 's prepared \<Rightarrow> call \<Rightarrow> 's \<Rightarrow> string option" where
  "offer_error sv p c s = (if cl_routed c then validate_routed_call (sv_live sv) p (cl_name c) s
     else admission_check (sv_live sv) p (cl_name c) s)"

definition prepare_paths :: "'s services \<Rightarrow> call \<Rightarrow> 's step \<Rightarrow> (string option \<times> call) \<times> 's step" where
  "prepare_paths sv c st = (let ((e, args), s) = sv_paths sv (cl_name c) (cl_arguments c) (st_env st)
     in ((e, c\<lparr>cl_arguments := args\<rparr>), st\<lparr>st_env := s\<rparr>))"

definition argument_error :: "'s services \<Rightarrow> call \<Rightarrow> 's step \<Rightarrow> string option \<times> 's step" where
  "argument_error sv c st = (case sv_placeholder sv (cl_name c) (cl_arguments c) of
     Some argument \<Rightarrow>
       (Some (PLACEHOLDER_ERROR @ '' Rejected argument: '' @ cl_name c @ ''.'' @ argument @ ''.''),
        st\<lparr>st_repair := st_repair st \<or> st_repairs st < REPAIR_LIMIT,
           st_env := sv_open_recovery sv (cl_name c) (cl_arguments c) argument (st_env st)\<rparr>)
   | None \<Rightarrow> (sv_recovery_error sv (cl_name c) (cl_arguments c) (st_env st), st))"

text \<open>The unit of the run's budgets: a web search through its batching, any other tool directly.\<close>

definition reserve_budget :: "'s services \<Rightarrow> call \<Rightarrow> 's step \<Rightarrow> rejection option \<times> 's step" where
  "reserve_budget sv c st =
     (if cl_name c = ''web_search''
      then (let (r, p, b, bg) = search_reserve (sv_query_lang sv) (normalize_query (sv_casefold sv) (cl_arguments c))
                (st_policy st) (st_batch st) (st_budget st)
            in (r, st\<lparr>st_policy := p, st_batch := b, st_budget := bg\<rparr>))
      else (let (r, bg) = reserve (st_budget st) (cl_name c) in (r, st\<lparr>st_budget := bg\<rparr>)))"

definition skipped_text :: "string \<Rightarrow> string" where
  "skipped_text tool = ''Skipped because interactive tool '' @ quoted tool @ '' ''
     @ ''already completed in this model step. Resume after the user responds.''"

definition refused_offer :: "'s services \<Rightarrow> 's prepared \<Rightarrow> call \<Rightarrow> 's \<Rightarrow> string option" where
  "refused_offer sv p c s =
     (let intent = nonempty (sv_policy_error sv (cl_name c) (cl_arguments c) s);
          offer = orelse (cl_resolution_error c) (offer_error sv p c s)
      in case (offer, intent) of
           (Some a, Some b) \<Rightarrow> Some (b @ newline @ a)
         | _ \<Rightarrow> orelse offer intent)"

text \<open>The first rejection, or the reservation; \<open>None\<close> admits the call.\<close>

definition admit :: "'s services \<Rightarrow> 's prepared \<Rightarrow> control \<Rightarrow> call \<Rightarrow> string option \<Rightarrow> 's step
    \<Rightarrow> string option \<times> 's step" where
  "admit sv p ctl c path_error st =
     (case st_turn_ending st of
        Some tool \<Rightarrow> (Some (skipped_text tool), st)
      | None \<Rightarrow> (case refused_offer sv p c (st_env st) of
          Some e \<Rightarrow> (Some e, st)
        | None \<Rightarrow>
            (let (ae, st1) = argument_error sv c st
             in case orelse ae path_error of
                  Some e \<Rightarrow> (Some e, st1)
                | None \<Rightarrow>
                    (if (case ct_allowed_names ctl of None \<Rightarrow> False | Some ns \<Rightarrow> cl_name c \<notin> set ns)
                     then (Some (ct_blocked_reason ctl), st1)
                     else (let (r, st2) = reserve_budget sv c st1 in (map_option rejection_text r, st2))))))"

subsection \<open>Starting a call\<close>

text \<open>The hooks see an admitted call. They may deny it or change its arguments.\<close>

definition run_hooks :: "'s services \<Rightarrow> call \<Rightarrow> ('s, call) stage" where
  "run_hooks sv c st = (case sv_before_tool sv of
     Some f \<Rightarrow> (case on_env (f c) st of
         (Inl e, st1) \<Rightarrow> (Inl e, st1)
       | (Inr (DenyWith reason code hook source), st1) \<Rightarrow>
           (Inr (c\<lparr>cl_allowed := False, cl_rejection := Some (code @ '': '' @ reason),
              cl_hook_rejection := Some [(''code'', PStr code), (''reason'', PStr reason),
                (''hook_id'', PStr hook), (''source'', PStr source)]\<rparr>), st1)
       | (Inr (AllowWith v), st1) \<Rightarrow>
           (Inr (c\<lparr>cl_arguments := (case v of PDict d \<Rightarrow> d | _ \<Rightarrow> cl_arguments c)\<rparr>), st1))
   | None \<Rightarrow> (case sv_tool_start sv of
         None \<Rightarrow> (Inr c, st)
       | Some f \<Rightarrow> (case on_env (f c) st of
             (Inl e, st1) \<Rightarrow> (Inl e, st1)
           | (Inr args, st1) \<Rightarrow> (Inr (c\<lparr>cl_arguments := args\<rparr>), st1))))"

text \<open>The checks after the hooks, on the final arguments.\<close>

definition recheck :: "'s services \<Rightarrow> 's prepared \<Rightarrow> call \<Rightarrow> 's step \<Rightarrow> call \<times> 's step" where
  "recheck sv p c st =
     (let ((path_error, c1), st1) = prepare_paths sv c st;
          early = orelse (offer_error sv p c1 (st_env st1)) (sv_policy_error sv (cl_name c1) (cl_arguments c1) (st_env st1));
          (error, st2) = (case early of
             Some e \<Rightarrow> (Some e, st1)
           | None \<Rightarrow> (let (ae, st') = argument_error sv c1 st1 in (orelse ae path_error, st')))
      in case error of
           None \<Rightarrow> (c1, st2)
         | Some e \<Rightarrow> (c1\<lparr>cl_allowed := False, cl_rejection := Some e\<rparr>, st2))"

definition visible_call :: "'s services \<Rightarrow> call \<Rightarrow> 's step \<Rightarrow> bool" where
  "visible_call sv c st = (cl_allowed c \<or> (sv_placeholder sv (cl_name c) (cl_arguments c) \<noteq> None \<and> REPAIR_LIMIT \<le> st_repairs st))"

definition hook_and_recheck :: "'s services \<Rightarrow> 's prepared \<Rightarrow> call \<Rightarrow> ('s, call) stage" where
  "hook_and_recheck sv p c st =
     (if \<not> cl_allowed c then (Inr c, st)
      else (case run_hooks sv c st of
          (Inl e, st1) \<Rightarrow> (Inl e, st1)
        | (Inr c1, st1) \<Rightarrow>
            (if cl_allowed c1 then (let (c2, st2) = recheck sv p c1 st1 in (Inr c2, st2)) else (Inr c1, st1))))"

definition start_call :: "'s services \<Rightarrow> 's prepared \<Rightarrow> control \<Rightarrow> call \<Rightarrow> ('s, call) stage" where
  "start_call sv p ctl c st =
     (let ((path_error, c1), st1) = prepare_paths sv c st;
          (rejection, st2) = admit sv p ctl c1 path_error st1;
          c2 = c1\<lparr>cl_allowed := (rejection = None), cl_rejection := rejection\<rparr>;
          c3 = c2\<lparr>cl_visible := visible_call sv c2 st2\<rparr>;
          st3 = (if cl_visible c3 \<and> cl_name c3 \<notin> set FINAL_SUMMARY_EXCLUDED_TOOLS
                 then st2\<lparr>st_visible := Suc (st_visible st2)\<rparr> else st2);
          st4 = emit_event (Started (cl_id c3) (cl_name c3) (cl_visible c3)) st3
      in case hook_and_recheck sv p c3 st4 of
           (Inl e, st5) \<Rightarrow> (Inl e, st5)
         | (Inr c4, st5) \<Rightarrow>
             (if cl_allowed c4 \<and> cl_target c4 \<noteq> None
              then (case on_env (sv_record_call sv c4) st5 of
                      (Inl e, st6) \<Rightarrow> (Inl e, st6)
                    | (Inr _, st6) \<Rightarrow> (Inr c4, st6))
              else (Inr c4, st5)))"

subsection \<open>The request of a call\<close>

definition immediate_result :: "'s services \<Rightarrow> 's prepared \<Rightarrow> call \<Rightarrow> 's \<Rightarrow> tool_result option" where
  "immediate_result sv p c s =
     (let error = (if \<not> cl_allowed c then cl_rejection c
                   else if cl_target c = None then Some (''Unknown tool: '' @ cl_name c)
                   else call_error sv p c s)
      in if \<not> cl_allowed c \<or> nonempty error \<noteq> None
         then Some ((failed (case error of None \<Rightarrow> [] | Some e \<Rightarrow> e))\<lparr>tr_raw_output := cl_hook_rejection c\<rparr>)
         else None)"

definition late_error :: "'s services \<Rightarrow> 's prepared \<Rightarrow> call \<Rightarrow> 's \<Rightarrow> string option" where
  "late_error sv p c s = orelse (call_error sv p c s) (sv_policy_error sv (cl_name c) (cl_arguments c) s)"

definition request_of :: "'s services \<Rightarrow> 's prepared \<Rightarrow> call \<Rightarrow> 's \<Rightarrow> 's request" where
  "request_of sv p c s = \<lparr>rq_call_id = cl_id c, rq_tool_name = cl_name c, rq_arguments = cl_arguments c,
     rq_immediate = immediate_result sv p c s, rq_context = sv_context sv c, rq_approved = None,
     rq_admission = (if cl_routed c \<or> stable_prefix p then Some (late_error sv p c) else None)\<rparr>"

definition to_world :: "call \<Rightarrow> 's step \<Rightarrow> 's world" where
  "to_world c st = \<lparr>w_env = st_env st, w_ledgers = st_ledgers st, w_charge = cl_charge c, w_invoked = cl_invoked c\<rparr>"

definition from_world :: "'s world \<Rightarrow> call \<Rightarrow> 's step \<Rightarrow> call \<times> 's step" where
  "from_world w c st = (c\<lparr>cl_charge := w_charge w, cl_invoked := w_invoked w\<rparr>,
     st\<lparr>st_env := w_env w, st_ledgers := w_ledgers w\<rparr>)"

definition run_serial :: "'s services \<Rightarrow> 's prepared \<Rightarrow> call \<Rightarrow> ('s, call \<times> tool_result) stage" where
  "run_serial sv p c st =
     (let (out, w) = invoke_serial (sv_engine sv) (request_of sv p c (st_env st)) (to_world c st);
          (c', st') = from_world w c st
      in case out of Inl e \<Rightarrow> (Inl e, st') | Inr r \<Rightarrow> (Inr (c', r), st'))"

subsection \<open>Finishing a call\<close>

definition result_code :: "tool_result \<Rightarrow> pyval" where
  "result_code r = (case tr_raw_output r of None \<Rightarrow> PNone | Some d \<Rightarrow> dget d ''code'')"

definition was_executed :: "call \<Rightarrow> tool_result \<Rightarrow> bool" where
  "was_executed c r = (cl_invoked c \<and> pending_request r = None \<and> \<not> tr_rejected r
     \<and> result_code r \<notin> {PStr ''INVALID_TOOL_SCHEMA'', PStr ''INVALID_TOOL_ARGUMENTS''})"

definition raw_value :: "tool_result \<Rightarrow> pyval" where
  "raw_value r = (case tr_raw_output r of None \<Rightarrow> PNone | Some d \<Rightarrow> PDict d)"

definition search_of :: "tool_result \<Rightarrow> search_outcome" where
  "search_of r = \<lparr>so_success = tr_success r, so_raw_output = raw_value r, so_content = PStr (tr_content r)\<rparr>"

definition ends_turn :: "'s services \<Rightarrow> call \<Rightarrow> bool" where
  "ends_turn sv c = (case cl_target c of None \<Rightarrow> False | Some t \<Rightarrow> sv_ends_turn sv t)"

text \<open>The accounting of a result: delegated calls, empty file searches, and the summary.\<close>

definition account :: "'s services \<Rightarrow> call \<Rightarrow> tool_result \<Rightarrow> 's step \<Rightarrow> 's step" where
  "account sv c r st =
     (let b1 = record_delegated (st_budget st) (cl_name c) (raw_value r) (Some (cl_id c));
          b2 = (if cl_name c = SEARCH_FILES then record_search b1 (search_of r) else b1);
          st1 = st\<lparr>st_budget := b2\<rparr>
      in if \<not> tr_success r then st1
         else st1\<lparr>st_successful := st_successful st1 @ [cl_name c],
                  st_progress := st_progress st1 \<or> (py_strip (tr_content r) \<noteq> [] \<and> \<not> search_files_result_is_empty (search_of r)),
                  st_turn_ending := (if cl_allowed c \<and> ends_turn sv c then Some (cl_name c) else st_turn_ending st1)\<rparr>)"

definition finish_call :: "'s services \<Rightarrow> 's prepared \<Rightarrow> call \<Rightarrow> tool_result \<Rightarrow> ('s, unit) stage" where
  "finish_call sv p c result st =
     (let ((out, rounds), w) = finish_permissions (sv_engine sv) (request_of sv p c (st_env st)) (sv_negotiate sv)
            (late_error sv p c) result (to_world c st);
          (c1, st1) = from_world w c st
      in case out of
           Inl e \<Rightarrow> (Inl e, st1)
         | Inr (r1, decision) \<Rightarrow>
             (let c2 = c1\<lparr>cl_policy_decision := decision, cl_executed := was_executed c1 r1\<rparr>;
                  (r2, s2) = sv_adapt sv c2 r1 (st_env st1);
                  st2 = account sv c2 r2 (st1\<lparr>st_env := s2\<rparr>)
              in case on_env (sv_filter sv c2 r2) st2 of
                   (Inl e, st3) \<Rightarrow> (Inl e, st3)
                 | (Inr (content, error), st3) \<Rightarrow>
                     (case on_env (sv_process sv c2 r2 content error) st3 of
                        (Inl e, st4) \<Rightarrow> (Inl e, st4)
                      | (Inr (content', error', sr), st4) \<Rightarrow>
                          (let (pol, b) = record_result (st_policy st4) (st_batch st4) sr;
                               st5 = st4\<lparr>st_policy := pol, st_batch := b,
                                         st_outcomes := AList.update (cl_id c2) (tr_success r2) (st_outcomes st4)\<rparr>
                           in (Inr (), emit_event (Finished \<lparr>fe_id = cl_id c2, fe_name = cl_name c2,
                                fe_success = tr_success r2, fe_content = content', fe_error = error',
                                fe_executed = cl_executed c2,
                                fe_ends_turn = (tr_success r2 \<and> cl_allowed c2 \<and> ends_turn sv c2)\<rparr>) st5)))))"

subsection \<open>Resolving the calls of a step\<close>

text \<open>The signature of a call for deduplication. The code writes the arguments without blanks;
  only equality of signatures matters.\<close>

definition signature :: "call \<Rightarrow> string \<times> string" where
  "signature c = (cl_name c, json_dumps (sort_keys (PDict (cl_arguments c))))"

definition resolve :: "'s services \<Rightarrow> 's prepared \<Rightarrow> tool_call \<Rightarrow> 's \<Rightarrow> call" where
  "resolve sv p original s =
     (let (normalized, routed, error) = resolve_call (sv_loads sv) (sv_live sv) p original s;
          n = (if routed then normalized else canonicalize (sv_loads sv) (sv_live sv) p original s);
          target = map_of (if routed then pr_routed_targets p else pr_targets p) (tc_name n)
      in \<lparr>cl_id = tc_id n, cl_requested = tc_name original, cl_name = tc_name n, cl_arguments = tc_arguments n,
          cl_target = target, cl_routed = routed, cl_resolution_error = error, cl_parallel = False,
          cl_allowed = False, cl_visible = False, cl_rejection = None, cl_hook_rejection = None,
          cl_invoked = False, cl_executed = False, cl_charge = \<lparr>ledgers = [], charged = False\<rparr>,
          cl_policy_decision = None\<rparr>)"

text \<open>The unique calls, and the duplicates with the id of the call that stands for them.\<close>

fun split_duplicates :: "'s services \<Rightarrow> 's prepared \<Rightarrow> 's \<Rightarrow> call list \<Rightarrow> ((string \<times> string) \<times> string) list
    \<Rightarrow> call list \<times> (call \<times> string) list" where
  "split_duplicates sv p s [] first = ([], [])"
| "split_duplicates sv p s (c # cs) first =
     (if allows_batch_deduplication (sv_live sv) p (cl_name c) s
      then (case map_of first (signature c) of
          Some source \<Rightarrow> (let (us, ds) = split_duplicates sv p s cs first in (us, (c, source) # ds))
        | None \<Rightarrow> (let (us, ds) = split_duplicates sv p s cs ((signature c, cl_id c) # first) in (c # us, ds)))
      else (let (us, ds) = split_duplicates sv p s cs first in (c # us, ds)))"

definition may_run_parallel :: "'s services \<Rightarrow> call list \<Rightarrow> call \<Rightarrow> bool" where
  "may_run_parallel sv unique c =
     (let turn_boundary = list_ex (ends_turn sv) unique;
          search_batch = 1 < en_web_concurrency (sv_engine sv) \<and> list_all (\<lambda>c. cl_name c = ''web_search'') unique
      in \<not> turn_boundary \<and> sv_placeholder sv (cl_name c) (cl_arguments c) = None
         \<and> (case cl_target c of None \<Rightarrow> False
            | Some t \<Rightarrow> (cl_name c = ''web_search'' \<and> search_batch) \<or> sv_parallel_safe sv t))"

subsection \<open>The step\<close>

text \<open>The serial calls: \<open>Inr True\<close> when the run was cancelled after one of them.\<close>

fun serial_calls :: "'s services \<Rightarrow> 's prepared \<Rightarrow> control \<Rightarrow> call list \<Rightarrow> ('s, bool) stage" where
  "serial_calls sv p ctl [] st = (Inr False, st)"
| "serial_calls sv p ctl (c # cs) st = (case start_call sv p ctl c st of
     (Inl e, st1) \<Rightarrow> (Inl e, st1)
   | (Inr c1, st1) \<Rightarrow> (case run_serial sv p c1 st1 of
       (Inl e, st2) \<Rightarrow> (Inl e, st2)
     | (Inr (c2, r), st2) \<Rightarrow> (case finish_call sv p c2 r st2 of
         (Inl e, st3) \<Rightarrow> (Inl e, st3)
       | (Inr _, st3) \<Rightarrow>
           (if en_is_cancelled (sv_engine sv) (st_env st3) then (Inr True, st3)
            else serial_calls sv p ctl cs st3))))"

fun start_calls :: "'s services \<Rightarrow> 's prepared \<Rightarrow> control \<Rightarrow> call list \<Rightarrow> ('s, call list) stage" where
  "start_calls sv p ctl [] st = (Inr [], st)"
| "start_calls sv p ctl (c # cs) st = (case start_call sv p ctl c st of
     (Inl e, st1) \<Rightarrow> (Inl e, st1)
   | (Inr c1, st1) \<Rightarrow> (case start_calls sv p ctl cs st1 of
       (Inl e, st2) \<Rightarrow> (Inl e, st2)
     | (Inr cs1, st2) \<Rightarrow> (Inr (c1 # cs1), st2)))"

definition reported :: "batch_report \<Rightarrow> call \<Rightarrow> call \<times> tool_result" where
  "reported rep c = (c\<lparr>cl_invoked := cl_invoked c \<or> bp_entered rep (cl_id c), cl_charge := bp_charges rep (cl_id c)\<rparr>,
     case bp_results rep (cl_id c) of None \<Rightarrow> interrupted_result | Some r \<Rightarrow> r)"

fun finish_calls :: "'s services \<Rightarrow> 's prepared \<Rightarrow> batch_report \<Rightarrow> call list \<Rightarrow> ('s, unit) stage" where
  "finish_calls sv p rep [] st = (Inr (), st)"
| "finish_calls sv p rep (c # cs) st =
     (let (c1, r) = reported rep c
      in case finish_call sv p c1 r st of
           (Inl e, st1) \<Rightarrow> (Inl e, st1)
         | (Inr _, st1) \<Rightarrow> finish_calls sv p rep cs st1)"

definition parallel_calls :: "'s services \<Rightarrow> 's prepared \<Rightarrow> control \<Rightarrow> call list \<Rightarrow> ('s, bool) stage" where
  "parallel_calls sv p ctl cs st =
     (if cs = [] then (Inr False, st)
      else (case start_calls sv p ctl cs st of
          (Inl e, st1) \<Rightarrow> (Inl e, st1)
        | (Inr cs1, st1) \<Rightarrow> (case on_env (sv_flush_calls sv) st1 of
            (Inl e, st2) \<Rightarrow> (Inl e, st2)
          | (Inr _, st2) \<Rightarrow>
              (let (out, s, h) = sv_batch sv (map (\<lambda>c. request_of sv p c (st_env st2)) cs1) (st_env st2) (st_ledgers st2);
                   st3 = st2\<lparr>st_env := s, st_ledgers := h\<rparr>
               in case out of
                    Inl e \<Rightarrow> (Inl e, st3)
                  | Inr rep \<Rightarrow> (case finish_calls sv p rep cs1 st3 of
                      (Inl e, st4) \<Rightarrow> (Inl e, st4)
                    | (Inr _, st4) \<Rightarrow> (Inr (en_is_cancelled (sv_engine sv) (st_env st4)), st4))))))"

definition duplicate_text :: "string \<Rightarrow> bool option \<Rightarrow> string \<times> string option" where
  "duplicate_text source succeeded = (case succeeded of
     Some True \<Rightarrow> (''Duplicate tool call skipped: identical call '' @ source
       @ '' already executed successfully in this response. Reuse its result.'', None)
   | Some False \<Rightarrow> ([], Some (''Duplicate tool call skipped: identical call '' @ source
       @ '' already failed in this response. Fix that failure before retrying.''))
   | None \<Rightarrow> ([], Some (''Duplicate tool call skipped because its identical source call '' @ source
       @ '' did not produce a result.'')))"

definition finish_duplicate :: "'s services \<Rightarrow> call \<times> string \<Rightarrow> ('s, unit) stage" where
  "finish_duplicate sv d st =
     (let (c, source) = d;
          succeeded = map_of (st_outcomes st) source;
          (content, error) = duplicate_text source succeeded
      in case on_env (sv_commit_duplicate sv c (if content \<noteq> [] then content else case error of None \<Rightarrow> [] | Some e \<Rightarrow> e)) st of
           (Inl e, st1) \<Rightarrow> (Inl e, st1)
         | (Inr _, st1) \<Rightarrow> (Inr (), emit_event (Finished \<lparr>fe_id = cl_id c, fe_name = cl_name c,
               fe_success = (succeeded = Some True), fe_content = content, fe_error = error,
               fe_executed = False, fe_ends_turn = False\<rparr>) (emit_event (Started (cl_id c) (cl_name c) False) st1)))"

fun duplicate_calls :: "'s services \<Rightarrow> (call \<times> string) list \<Rightarrow> ('s, unit) stage" where
  "duplicate_calls sv [] st = (Inr (), st)"
| "duplicate_calls sv (d # ds) st = (case finish_duplicate sv d st of
     (Inl e, st1) \<Rightarrow> (Inl e, st1)
   | (Inr _, st1) \<Rightarrow> duplicate_calls sv ds st1)"

text \<open>A new summary and search batch, and the outcome: the guidance of the searches, or \<open>None\<close> when
  the run was cancelled and no summary is given.\<close>

definition new_step :: "'s step \<Rightarrow> 's step" where
  "new_step st = st\<lparr>st_batch := new_batch, st_progress := False, st_visible := 0, st_turn_ending := None,
     st_successful := [], st_repair := False, st_outcomes := [], st_log := []\<rparr>"

definition close_step :: "('s, string option option) stage" where
  "close_step st =
     (let (guidance, pol) = search_guidance (st_policy st) (st_batch st) (tool_call_counts (st_budget st) ''web_search'')
      in (Inr (Some guidance), st\<lparr>st_policy := pol, st_repairs := (if st_repair st then st_repairs st + 1 else st_repairs st)\<rparr>))"

definition execute_calls :: "'s services \<Rightarrow> 's prepared \<Rightarrow> control \<Rightarrow> tool_call list \<Rightarrow> ('s, string option option) stage" where
  "execute_calls sv p ctl originals st0 =
     (let st = new_step st0;
          (unique, duplicates) = split_duplicates sv p (st_env st) (map (\<lambda>tc. resolve sv p tc (st_env st)) originals) [];
          par = may_run_parallel sv unique;
          serial = filter (\<lambda>c. \<not> par c) unique;
          parallel = map (\<lambda>c. c\<lparr>cl_parallel := True\<rparr>) (filter par unique)
      in case serial_calls sv p ctl serial st of
           (Inl e, st1) \<Rightarrow> (Inl e, st1)
         | (Inr True, st1) \<Rightarrow> (Inr None, st1)
         | (Inr False, st1) \<Rightarrow> (case parallel_calls sv p ctl parallel st1 of
             (Inl e, st2) \<Rightarrow> (Inl e, st2)
           | (Inr True, st2) \<Rightarrow> (Inr None, st2)
           | (Inr False, st2) \<Rightarrow> (case duplicate_calls sv duplicates st2 of
               (Inl e, st3) \<Rightarrow> (Inl e, st3)
             | (Inr _, st3) \<Rightarrow> close_step st3)))"

end
