(* ===== verification/SchedulerCorrect.thy ===== *)
theory SchedulerCorrect
  imports Scheduler
begin

section \<open>Batches stay within their bounds, lose no result and always end\<close>

text \<open>
  Invariants of the reachable states of a batch: the permits in use and the free ones add up to
  the semaphores' sizes, entered calls are entered once, and once the batch has stopped polling
  every task that is not done has been told to stop. From them: the bounds on running tools,
  one outcome per request with every result that arrived in time, no tool entered after the
  batch was stopped, and the batch's own loop reaching its end whatever the tools do.
\<close>

subsection \<open>Weights of lists\<close>

definition weigh :: "(nat \<Rightarrow> 'a \<Rightarrow> nat) \<Rightarrow> 'a list \<Rightarrow> nat" where
  "weigh w xs = (\<Sum>j<length xs. w j (xs ! j))"

lemma weigh_update:
  assumes "i < length xs"
  shows "weigh w (xs[i := x]) + w i (xs ! i) = weigh w xs + w i x"
proof -
  have "weigh w ys = w i (ys ! i) + (\<Sum>j\<in>{..<length ys} - {i}. w j (ys ! j))" if "length ys = length xs" for ys
    unfolding weigh_def using that assms by (intro sum.remove) auto
  from this [of xs] this [of "xs[i := x]"] assms show ?thesis
    by (simp add: nth_list_update)
qed

lemma weigh_map_0: "(\<And>i. w i c = 0) \<Longrightarrow> weigh w (map (\<lambda>_. c) xs) = 0"
  by (simp add: weigh_def)

subsection \<open>The invariant\<close>

definition holds_permit :: "task \<Rightarrow> nat" where
  "holds_permit t = (case t of Holding \<Rightarrow> 1 | Running \<Rightarrow> 1 | _ \<Rightarrow> 0)"

definition holds_web :: "'s engine \<Rightarrow> 's request list \<Rightarrow> nat \<Rightarrow> task \<Rightarrow> nat" where
  "holds_web en rqs i t = (if t = Running \<and> is_web en (rqs ! i) then 1 else 0)"

definition before_entry :: "task \<Rightarrow> bool" where
  "before_entry t = (t \<in> {Created, Waiting, Holding})"

definition permits_ok :: "'s engine \<Rightarrow> 's request list \<Rightarrow> ('s, 'e) batch \<Rightarrow> bool" where
  "permits_ok en rqs b = (length (bt_tasks b) = length rqs \<and> length (bt_cancelling b) = length rqs
     \<and> bt_parallel b + weigh (\<lambda>_. holds_permit) (bt_tasks b) = nat (max 1 (en_max_parallel en))
     \<and> bt_web b + weigh (holds_web en rqs) (bt_tasks b) = en_web_concurrency en)"

lemma set_task_simps [simp]:
  "bt_tasks (set_task i t b) = (bt_tasks b)[i := t]"
  "bt_cancelling (set_task i t b) = bt_cancelling b"
  "bt_parallel (set_task i t b) = bt_parallel b" "bt_web (set_task i t b) = bt_web b"
  "bt_entered (set_task i t b) = bt_entered b" "bt_phase (set_task i t b) = bt_phase b"
  "bt_queue (set_task i t b) = bt_queue b" "bt_timed_out (set_task i t b) = bt_timed_out b"
  "bt_observed (set_task i t b) = bt_observed b" "bt_env (set_task i t b) = bt_env b"
  by (simp_all add: set_task_def)

lemma end_task_simps [simp]:
  "bt_tasks (end_task en rq i t b) = (bt_tasks b)[i := t]"
  "bt_cancelling (end_task en rq i t b) = bt_cancelling b"
  "bt_entered (end_task en rq i t b) = bt_entered b" "bt_phase (end_task en rq i t b) = bt_phase b"
  "bt_queue (end_task en rq i t b) = bt_queue b" "bt_timed_out (end_task en rq i t b) = bt_timed_out b"
  "bt_observed (end_task en rq i t b) = bt_observed b" "bt_env (end_task en rq i t b) = bt_env b"
  "bt_parallel (end_task en rq i t b) = bt_parallel b + holds_permit (bt_tasks b ! i)"
  "bt_web (end_task en rq i t b) = bt_web b + (if bt_tasks b ! i = Running \<and> is_web en rq then 1 else 0)"
  by (cases "bt_tasks b ! i"; simp add: end_task_def release_permits_def holds_permit_def)+

lemma cancel_tasks_simps [simp]:
  "bt_tasks (cancel_tasks b) = bt_tasks b" "bt_parallel (cancel_tasks b) = bt_parallel b"
  "bt_web (cancel_tasks b) = bt_web b" "bt_entered (cancel_tasks b) = bt_entered b"
  "bt_phase (cancel_tasks b) = bt_phase b" "bt_queue (cancel_tasks b) = bt_queue b"
  "bt_timed_out (cancel_tasks b) = bt_timed_out b" "bt_observed (cancel_tasks b) = bt_observed b"
  "bt_env (cancel_tasks b) = bt_env b"
  by (simp_all add: cancel_tasks_def)

lemma cancel_tasks_nth:
  "length (bt_cancelling b) = length (bt_tasks b) \<Longrightarrow> i < length (bt_tasks b) \<Longrightarrow>
   bt_cancelling (cancel_tasks b) ! i = (bt_cancelling b ! i \<or> \<not> task_done (bt_tasks b ! i))"
  by (simp add: cancel_tasks_def)

lemma length_cancel_tasks [simp]:
  "length (bt_cancelling b) = length (bt_tasks b) \<Longrightarrow> length (bt_cancelling (cancel_tasks b)) = length (bt_tasks b)"
  by (simp add: cancel_tasks_def)

lemma task_done_permit: "task_done t \<Longrightarrow> holds_permit t = 0" "task_done t \<Longrightarrow> holds_web en rqs i t = 0"
  by (cases t; simp add: task_done_def holds_permit_def holds_web_def)+

lemma task_of_done [simp]: "task_done (task_of en out)"
  by (auto simp: task_of_def task_done_def split: sum.split)

lemma permits_end:
  assumes "permits_ok en rqs b" "i < length (bt_tasks b)" "task_done t"
  shows "permits_ok en rqs (end_task en (rqs ! i) i t b)"
proof -
  have web: "bt_web (end_task en (rqs ! i) i t b) = bt_web b + holds_web en rqs i (bt_tasks b ! i)"
    by (simp add: holds_web_def)
  have z: "holds_permit t = 0" "holds_web en rqs i t = 0"
    using assms(3) by (rule task_done_permit)+
  show ?thesis
    using assms(1,2) weigh_update [OF assms(2), of "\<lambda>_. holds_permit" t]
      weigh_update [OF assms(2), of "holds_web en rqs" t]
    unfolding permits_ok_def web z by (simp add: z)
qed

lemma permits_set:
  assumes "permits_ok en rqs b" "i < length (bt_tasks b)"
    and "bt_tasks b' = (bt_tasks b)[i := t]" "bt_cancelling b' = bt_cancelling b"
    and "bt_parallel b' + holds_permit t = bt_parallel b + holds_permit (bt_tasks b ! i)"
    and "bt_web b' + holds_web en rqs i t = bt_web b + holds_web en rqs i (bt_tasks b ! i)"
  shows "permits_ok en rqs b'"
proof -
  have "bt_parallel b' + weigh (\<lambda>_. holds_permit) ((bt_tasks b)[i := t])
      = bt_parallel b + weigh (\<lambda>_. holds_permit) (bt_tasks b)"
    using assms(5) weigh_update [OF assms(2), of "\<lambda>_. holds_permit" t] by linarith
  moreover have "bt_web b' + weigh (holds_web en rqs) ((bt_tasks b)[i := t])
      = bt_web b + weigh (holds_web en rqs) (bt_tasks b)"
    using assms(6) weigh_update [OF assms(2), of "holds_web en rqs" t] by linarith
  ultimately show ?thesis
    using assms(1) unfolding permits_ok_def assms(3,4) by simp
qed

lemma permits_same:
  assumes "permits_ok en rqs b" "bt_tasks b' = bt_tasks b" "length (bt_cancelling b') = length (bt_cancelling b)"
    and "bt_parallel b' = bt_parallel b" "bt_web b' = bt_web b"
  shows "permits_ok en rqs b'"
  using assms by (simp add: permits_ok_def)

lemma permits_task_step: "task_step en rqs b b' \<Longrightarrow> permits_ok en rqs b \<Longrightarrow> permits_ok en rqs b'"
proof (induction rule: task_step.induct)
  case (Immediate b i r)
  then show ?case
    by - (rule permits_set [where b = b and i = i and t = "Ended r"]; simp add: holds_permit_def holds_web_def)
next
  case (Start b i)
  then show ?case
    by - (rule permits_set [where b = b and i = i and t = Waiting]; simp add: holds_permit_def holds_web_def)
next
  case (Acquire b i n)
  then show ?case
    by - (rule permits_set [where b = b and i = i and t = Holding]; simp add: holds_permit_def holds_web_def)
next
  case (Enter b i n)
  then show ?case
    by - (rule permits_set [where b = b and i = i and t = Running]; auto simp: holds_permit_def holds_web_def split: if_splits)
next
  case (Emit b i ev)
  then show ?case by (auto intro: permits_same)
next
  case (Finish b i out s)
  have "permits_ok en rqs (b\<lparr>bt_env := s\<rparr>)"
    by (rule permits_same [OF Finish.prems]) simp_all
  then show ?case
    by (rule permits_end) (simp_all add: Finish.hyps)
next
  case (Host b s)
  then show ?case by (auto intro: permits_same)
qed (auto intro!: permits_end simp: task_done_def)

lemma permits_loop_step: "loop_step en rqs b b' \<Longrightarrow> permits_ok en rqs b \<Longrightarrow> permits_ok en rqs b'"
  by (induction rule: loop_step.induct) (auto intro!: permits_same simp: permits_ok_def)

lemma permits_reachable: "reachable en rqs s b \<Longrightarrow> permits_ok en rqs b"
proof (induction rule: reachable.induct)
  case Begin
  show ?case
    by (simp add: permits_ok_def start_batch_def weigh_map_0 holds_permit_def holds_web_def)
next
  case (Step b b')
  then show ?case by (auto simp: batch_step_def dest: permits_task_step permits_loop_step)
qed


text \<open>The number of tools that hold a permit of the batch, and of web searches that run.\<close>

definition permits_held :: "('s, 'e) batch \<Rightarrow> nat" where
  "permits_held b = weigh (\<lambda>_. holds_permit) (bt_tasks b)"

definition searches_running :: "'s engine \<Rightarrow> 's request list \<Rightarrow> ('s, 'e) batch \<Rightarrow> nat" where
  "searches_running en rqs b = weigh (holds_web en rqs) (bt_tasks b)"

subsection \<open>Entries and stops\<close>

definition told_to_stop :: "('s, 'e) batch \<Rightarrow> bool" where
  "told_to_stop b = (\<forall>i < length (bt_tasks b). task_done (bt_tasks b ! i) \<or> bt_cancelling b ! i)"

definition task_ok :: "'s engine \<Rightarrow> 's request list \<Rightarrow> nat list \<Rightarrow> nat \<Rightarrow> task \<Rightarrow> bool" where
  "task_ok en rqs entered i t = (case t of
     Running \<Rightarrow> i \<in> set entered
   | Ended r \<Rightarrow> i \<in> set entered \<or> rq_immediate (rqs ! i) = Some r
       \<or> (rq_immediate (rqs ! i) = None \<and> (\<exists>s. refused_before en (rqs ! i) s = Some r))
   | Raised e \<Rightarrow> i \<in> set entered \<and> e = Durability
   | TaskCancelled \<Rightarrow> True
   | Created \<Rightarrow> i \<notin> set entered
   | _ \<Rightarrow> i \<notin> set entered \<and> rq_immediate (rqs ! i) = None)"

definition entries_ok :: "'s engine \<Rightarrow> 's request list \<Rightarrow> ('s, 'e) batch \<Rightarrow> bool" where
  "entries_ok en rqs b = (distinct (bt_entered b)
     \<and> (\<forall>i \<in> set (bt_entered b). i < length rqs \<and> rq_immediate (rqs ! i) = None)
     \<and> (\<forall>i < length rqs. task_ok en rqs (bt_entered b) i (bt_tasks b ! i)))"

definition phase_ok :: "'s engine \<Rightarrow> ('s, 'e) batch \<Rightarrow> bool" where
  "phase_ok en b = ((bt_phase b \<noteq> Polling \<longrightarrow> told_to_stop b)
     \<and> (bt_timed_out b \<longrightarrow> en_timeout en \<noteq> None)
     \<and> (bt_phase b \<in> {Grace, LateDraining} \<longrightarrow> bt_timed_out b \<or> bt_observed b)
     \<and> (bt_phase b = Draining \<and> \<not> bt_timed_out b \<and> \<not> bt_observed b \<longrightarrow> all_done b)
     \<and> (bt_phase b = Polling \<longrightarrow> \<not> bt_timed_out b \<and> \<not> bt_observed b)
     \<and> \<not> (bt_timed_out b \<and> bt_observed b)
     \<and> (\<forall>e. bt_phase b = BatchRaised e \<longrightarrow> e = Durability))"

lemma outcomes_raise:
  "outcomes_by_id en timed_out observed ts acc = Inl e \<Longrightarrow> e = Durability"
  by (induction en timed_out observed ts acc rule: outcomes_by_id.induct)
    (auto simp: task_result_def passthrough_def split: sum.splits task.splits if_splits)

lemma task_of_ok: "i \<in> set entered \<Longrightarrow> task_ok en rqs entered i (task_of en out)"
  by (auto simp: task_ok_def task_of_def settled_def failed_result_def passthrough_def split: sum.split if_split)

lemma entries_update:
  assumes "entries_ok en rqs b" "length (bt_tasks b) = length rqs"
    and "bt_entered b' = bt_entered b" "bt_tasks b' = (bt_tasks b)[i := t]"
    and "i < length rqs \<Longrightarrow> task_ok en rqs (bt_entered b) i t"
  shows "entries_ok en rqs b'"
  using assms by (cases "i < length rqs") (auto simp: entries_ok_def nth_list_update list_update_beyond)

lemma entries_task_step:
  "task_step en rqs b b' \<Longrightarrow> length (bt_tasks b) = length rqs \<Longrightarrow> entries_ok en rqs b \<Longrightarrow> entries_ok en rqs b'"
proof (induction rule: task_step.induct)
  case (Immediate b i r)
  then show ?case
    by - (rule entries_update [of en rqs b _ i "Ended r"]; simp add: task_ok_def)
next
  case (Start b i)
  then have "task_ok en rqs (bt_entered b) i Created" by (auto simp: entries_ok_def)
  with Start(5,6) Start(4) show ?case
    by - (rule entries_update [of en rqs b _ i Waiting]; simp add: task_ok_def)
next
  case (Acquire b i n)
  then have "task_ok en rqs (bt_entered b) i Waiting" by (auto simp: entries_ok_def)
  with Acquire(5,6) show ?case
    by - (rule entries_update [of en rqs b _ i Holding]; simp add: task_ok_def)
next
  case (Enter b i n)
  then have ok: "task_ok en rqs (bt_entered b) i Holding" by (auto simp: entries_ok_def)
  have grow: "task_ok en rqs (bt_entered b @ [i]) j t" if "j \<noteq> i" "task_ok en rqs (bt_entered b) j t" for j t
    using that by (cases t) (auto simp: task_ok_def)
  from ok Enter show ?case
    by (auto simp: entries_ok_def nth_list_update grow) (auto simp: task_ok_def)
next
  case (Refuse b i r)
  then have "task_ok en rqs (bt_entered b) i Holding" by (auto simp: entries_ok_def)
  with Refuse(5-7) show ?case
    by - (rule entries_update [of en rqs b _ i "Ended r"]; auto simp: task_ok_def)
next
  case (Emit b i ev)
  then show ?case by (simp add: entries_ok_def)
next
  case (Finish b i out s)
  then have "task_ok en rqs (bt_entered b) i Running" by (auto simp: entries_ok_def)
  then have "task_ok en rqs (bt_entered b) i (task_of en out)"
    by (intro task_of_ok) (simp add: task_ok_def)
  with Finish(3,4) show ?case
    by - (rule entries_update [of en rqs b _ i "task_of en out"]; simp)
next
  case (Stop b i)
  from Stop(4,5) show ?case
    by - (rule entries_update [of en rqs b _ i TaskCancelled]; simp add: task_ok_def)
next
  case (Host b s)
  then show ?case by (simp add: entries_ok_def)
qed

lemma entries_loop_step: "loop_step en rqs b b' \<Longrightarrow> entries_ok en rqs b \<Longrightarrow> entries_ok en rqs b'"
  by (induction rule: loop_step.induct) (simp_all add: entries_ok_def)

lemma stopped_update:
  assumes "phase_ok en b" "i < length (bt_tasks b)" "task_done t \<or> \<not> bt_cancelling b ! i \<and> \<not> task_done (bt_tasks b ! i)"
    and "bt_tasks b' = (bt_tasks b)[i := t]" "bt_cancelling b' = bt_cancelling b" "bt_phase b' = bt_phase b"
    and "bt_timed_out b' = bt_timed_out b" "bt_observed b' = bt_observed b"
  shows "phase_ok en b'"
proof -
  have "told_to_stop b'" if "told_to_stop b"
    using that assms(2-5) by (auto simp: told_to_stop_def nth_list_update)
  moreover have "all_done b'" if "all_done b"
    using that assms(2-4) by (auto simp: all_done_def list_all_length nth_list_update)
  ultimately show ?thesis
    using assms(1,6-8) by (auto simp: phase_ok_def)
qed

lemma phase_same:
  assumes "phase_ok en b" "bt_tasks b' = bt_tasks b" "bt_cancelling b' = bt_cancelling b" "bt_phase b' = bt_phase b"
    and "bt_timed_out b' = bt_timed_out b" "bt_observed b' = bt_observed b"
  shows "phase_ok en b'"
  using assms by (simp add: phase_ok_def told_to_stop_def all_done_def)

lemma phase_task_step: "task_step en rqs b b' \<Longrightarrow> phase_ok en b \<Longrightarrow> phase_ok en b'"
proof (induction rule: task_step.induct)
  case (Emit b i ev)
  then show ?case by - (rule phase_same; simp)
next
  case (Host b s)
  then show ?case by - (rule phase_same; simp)
next
  case (Immediate b i r)
  then show ?case by - (rule stopped_update [of en b i "Ended r"]; simp add: task_done_def)
next
  case (Start b i)
  then show ?case by - (rule stopped_update [of en b i Waiting]; simp add: task_done_def)
next
  case (Acquire b i n)
  then show ?case by - (rule stopped_update [of en b i Holding]; simp add: task_done_def)
next
  case (Enter b i n)
  then show ?case by - (rule stopped_update [of en b i Running]; simp add: task_done_def)
next
  case (Refuse b i r)
  then show ?case by - (rule stopped_update [of en b i "Ended r"]; simp add: task_done_def)
next
  case (Finish b i out s)
  then show ?case by - (rule stopped_update [of en b i "task_of en out"]; simp)
next
  case (Stop b i)
  then show ?case by - (rule stopped_update [of en b i TaskCancelled]; simp add: task_done_def)
qed

lemma told_to_stop_cancel:
  "length (bt_cancelling b) = length (bt_tasks b) \<Longrightarrow> bt_tasks b' = bt_tasks b
   \<Longrightarrow> bt_cancelling b' = bt_cancelling (cancel_tasks b) \<Longrightarrow> told_to_stop b'"
  by (auto simp: told_to_stop_def cancel_tasks_nth)

lemma phase_loop_step:
  "loop_step en rqs b b' \<Longrightarrow> length (bt_cancelling b) = length (bt_tasks b) \<Longrightarrow> phase_ok en b \<Longrightarrow> phase_ok en b'"
proof (induction rule: loop_step.induct)
  case (AllDone b)
  then show ?case by (auto simp: phase_ok_def told_to_stop_def all_done_def list_all_length)
next
  case (Deadline b)
  have "told_to_stop ((cancel_tasks b)\<lparr>bt_timed_out := True, bt_phase := Draining\<rparr>)"
    by (rule told_to_stop_cancel [OF Deadline.prems(1)]) simp_all
  with Deadline show ?case by (auto simp: phase_ok_def)
next
  case (Observe b)
  have "told_to_stop ((cancel_tasks b)\<lparr>bt_observed := True, bt_phase := Draining\<rparr>)"
    by (rule told_to_stop_cancel [OF Observe.prems(1)]) simp_all
  with Observe show ?case by (auto simp: phase_ok_def)
next
  case (Poll b ev q)
  then show ?case by - (rule phase_same; simp)
next
  case (Beat b)
  then show ?case by - (rule phase_same; simp)
next
  case (Drain b ev q)
  then show ?case by - (rule phase_same; simp)
next
  case (Wait b)
  then show ?case by (auto simp: phase_ok_def told_to_stop_def)
next
  case (Detach b)
  have "told_to_stop ((cancel_tasks b)\<lparr>bt_phase := LateDraining\<rparr>)"
    by (rule told_to_stop_cancel [OF Detach.prems(1)]) simp_all
  with Detach show ?case by (auto simp: phase_ok_def)
next
  case (Collect b)
  then show ?case
    by (auto simp: phase_ok_def told_to_stop_def collect_def outcomes_raise split: sum.splits)
qed

definition batch_ok :: "'s engine \<Rightarrow> 's request list \<Rightarrow> ('s, 'e) batch \<Rightarrow> bool" where
  "batch_ok en rqs b = (permits_ok en rqs b \<and> entries_ok en rqs b \<and> phase_ok en b)"

lemma batch_ok_start: "batch_ok en rqs (start_batch en rqs s)"
  using permits_reachable [OF reachable.Begin, of en rqs s]
  by (simp add: batch_ok_def entries_ok_def phase_ok_def start_batch_def task_ok_def)

lemma batch_ok_step: "batch_step en rqs b b' \<Longrightarrow> batch_ok en rqs b \<Longrightarrow> batch_ok en rqs b'"
  by (auto simp: batch_step_def batch_ok_def permits_ok_def [of en rqs b]
    intro: permits_task_step permits_loop_step entries_task_step entries_loop_step phase_task_step phase_loop_step
    dest: permits_task_step permits_loop_step)

lemma batch_ok_reachable: "reachable en rqs s b \<Longrightarrow> batch_ok en rqs b"
  by (induction rule: reachable.induct) (auto intro: batch_ok_start batch_ok_step)


lemma batch_stopped_step:
  assumes "batch_step en rqs b b'" "batch_ok en rqs b" "bt_phase b \<noteq> Polling"
  shows "bt_entered b' = bt_entered b" "bt_phase b' \<noteq> Polling"
proof -
  have stop: "told_to_stop b" using assms by (simp add: batch_ok_def phase_ok_def)
  have "bt_entered b' = bt_entered b \<and> bt_phase b' = bt_phase b" if "task_step en rqs b b'"
    using that stop by (cases rule: task_step.cases) (auto simp: told_to_stop_def task_done_def)
  moreover have "bt_entered b' = bt_entered b \<and> bt_phase b' \<noteq> Polling" if "loop_step en rqs b b'"
    using that assms(3) by (cases rule: loop_step.cases) (auto simp: collect_def split: sum.split)
  ultimately show "bt_entered b' = bt_entered b" "bt_phase b' \<noteq> Polling"
    using assms(1,3) by (auto simp: batch_step_def)
qed

lemma batch_stopped_steps:
  "(batch_step en rqs)\<^sup>*\<^sup>* b b' \<Longrightarrow> batch_ok en rqs b \<Longrightarrow> bt_phase b \<noteq> Polling \<Longrightarrow>
   bt_entered b' = bt_entered b \<and> bt_phase b' \<noteq> Polling \<and> batch_ok en rqs b'"
  by (induction rule: rtranclp_induct) (auto simp: batch_stopped_step batch_ok_step)

subsection \<open>The outcomes\<close>

lemma outcomes_by_id_spec:
  "outcomes_by_id en timed_out observed ts acc = Inr d \<Longrightarrow> distinct (map (\<lambda>(i, rq, t). rq_call_id rq) ts) \<Longrightarrow>
   (\<forall>k. k \<notin> (\<lambda>(i, rq, t). rq_call_id rq) ` set ts \<longrightarrow> map_of d k = map_of acc k)
   \<and> (\<forall>(i, rq, t) \<in> set ts. \<exists>r. task_result en timed_out observed t = Inr r
        \<and> map_of d (rq_call_id rq) = Some \<lparr>oc_call_id = rq_call_id rq, oc_index = i, oc_result = r\<rparr>)"
proof (induction en timed_out observed ts acc rule: outcomes_by_id.induct)
  case (1 en timed_out observed acc)
  then show ?case by simp
next
  case (2 en timed_out observed i rq t ts acc)
  then obtain r where r: "task_result en timed_out observed t = Inr r" by (cases "task_result en timed_out observed t") auto
  have rest: "outcomes_by_id en timed_out observed ts (AList.update (rq_call_id rq)
      \<lparr>oc_call_id = rq_call_id rq, oc_index = i, oc_result = r\<rparr> acc) = Inr d"
    using 2(2) r by simp
  from 2(1) [OF r rest] 2(3) have IH:
    "\<And>k. k \<notin> (\<lambda>(i, rq, t). rq_call_id rq) ` set ts \<Longrightarrow> map_of d k = map_of (AList.update (rq_call_id rq)
      \<lparr>oc_call_id = rq_call_id rq, oc_index = i, oc_result = r\<rparr> acc) k"
    "\<forall>(i, rq, t) \<in> set ts. \<exists>r. task_result en timed_out observed t = Inr r
        \<and> map_of d (rq_call_id rq) = Some \<lparr>oc_call_id = rq_call_id rq, oc_index = i, oc_result = r\<rparr>"
    by simp_all
  have "rq_call_id rq \<notin> (\<lambda>(i, rq, t). rq_call_id rq) ` set ts" using 2(3) by simp
  from IH(1) [OF this] have "map_of d (rq_call_id rq) = Some \<lparr>oc_call_id = rq_call_id rq, oc_index = i, oc_result = r\<rparr>"
    by (simp add: update_conv)
  moreover have "map_of d k = map_of acc k" if "k \<notin> (\<lambda>(i, rq, t). rq_call_id rq) ` set ((i, rq, t) # ts)" for k
    using IH(1) [of k] that by (simp add: update_conv)
  ultimately show ?case using r IH(2) by simp
qed

lemma collect_outcomes:
  assumes "collect en rqs b = Completed br" "distinct (map rq_call_id rqs)" "length (bt_tasks b) = length rqs"
  shows "length (br_outcomes br) = length rqs \<and> br_timed_out br = bt_timed_out b \<and> br_cancelled br = bt_observed b
    \<and> (\<forall>i < length rqs. \<exists>r. task_result en (bt_timed_out b) (bt_observed b) (bt_tasks b ! i) = Inr r
        \<and> br_outcomes br ! i = \<lparr>oc_call_id = rq_call_id (rqs ! i), oc_index = i, oc_result = r\<rparr>)"
proof -
  let ?ts = "enumerate 0 (zip rqs (bt_tasks b))"
  obtain d where d: "outcomes_by_id en (bt_timed_out b) (bt_observed b) ?ts [] = Inr d"
    and br: "br = \<lparr>br_outcomes = map (\<lambda>rq. the (map_of d (rq_call_id rq))) rqs,
      br_timed_out = bt_timed_out b, br_cancelled = bt_observed b\<rparr>"
    using assms(1) by (auto simp: collect_def split: sum.splits)
  have "map (\<lambda>(i, rq, t). rq_call_id rq) ?ts = map rq_call_id rqs"
    using assms(3) by (intro nth_equalityI) (simp_all add: nth_enumerate_eq)
  with assms(2) have dist: "distinct (map (\<lambda>(i, rq, t). rq_call_id rq) ?ts)" by simp
  have "\<exists>r. task_result en (bt_timed_out b) (bt_observed b) (bt_tasks b ! i) = Inr r
      \<and> map_of d (rq_call_id (rqs ! i)) = Some \<lparr>oc_call_id = rq_call_id (rqs ! i), oc_index = i, oc_result = r\<rparr>"
    if "i < length rqs" for i
  proof -
    have "?ts ! i = (i, rqs ! i, bt_tasks b ! i)" using that assms(3) by (simp add: nth_enumerate_eq)
    then have "(i, rqs ! i, bt_tasks b ! i) \<in> set ?ts" using that assms(3) by (metis length_enumerate length_zip min.idem nth_mem)
    with outcomes_by_id_spec [OF d dist] show ?thesis by fastforce
  qed
  then have "\<exists>r. task_result en (bt_timed_out b) (bt_observed b) (bt_tasks b ! i) = Inr r
      \<and> the (map_of d (rq_call_id (rqs ! i))) = \<lparr>oc_call_id = rq_call_id (rqs ! i), oc_index = i, oc_result = r\<rparr>"
    if "i < length rqs" for i
    using that by fastforce
  then show ?thesis by (simp add: br)
qed

lemma late_result:
  assumes "phase_ok en b" "bt_phase b = LateDraining \<or> bt_phase b = Draining" "all_done b \<or> bt_timed_out b \<or> bt_observed b"
    and "i < length (bt_tasks b)" "task_result en (bt_timed_out b) (bt_observed b) (bt_tasks b ! i) = Inr r"
    and "\<And>r'. bt_tasks b ! i \<noteq> Ended r'" "\<And>e. bt_tasks b ! i = Raised e \<Longrightarrow> e = Durability"
  shows "r = cancelled_result en (bt_timed_out b)"
proof -
  have "task_done (bt_tasks b ! i) \<or> bt_timed_out b \<or> bt_observed b"
    using assms(3,4) by (auto simp: all_done_def list_all_length)
  moreover have "bt_timed_out b \<longrightarrow> en_timeout en \<noteq> None \<and> \<not> bt_observed b"
    using assms(1) by (auto simp: phase_ok_def)
  ultimately show ?thesis
    using assms(5-7) by (cases "bt_tasks b ! i")
      (auto simp: task_result_def missing_result_def task_done_def passthrough_def split: if_splits)
qed

lemma collecting:
  assumes "loop_step en rqs b b'" "bt_phase b' = Completed br"
  shows "collect en rqs b = Completed br" "bt_tasks b' = bt_tasks b" "bt_entered b' = bt_entered b"
    "(bt_phase b = Draining \<and> \<not> bt_timed_out b \<and> \<not> bt_observed b) \<or> bt_phase b = LateDraining"
  using assms by (cases rule: loop_step.cases; force)+


subsection \<open>Reaching the end\<close>

text \<open>A batch that has stopped polling is brought to its end by its own loop.\<close>

definition ended :: "('s, 'e) batch \<Rightarrow> bool" where
  "ended b = (case bt_phase b of Completed _ \<Rightarrow> True | BatchRaised e \<Rightarrow> e = Durability | _ \<Rightarrow> False)"

abbreviation loop_reaches :: "'s engine \<Rightarrow> 's request list \<Rightarrow> ('s, 'e) batch \<Rightarrow> ('s, 'e) batch \<Rightarrow> bool" where
  "loop_reaches en rqs \<equiv> (loop_step en rqs)\<^sup>*\<^sup>*"

lemma collect_ends: "ended (b\<lparr>bt_phase := collect en rqs b\<rparr>)"
  using outcomes_raise by (fastforce simp: ended_def collect_def split: sum.split)

lemma ends_by: "loop_step en rqs b b' \<Longrightarrow> \<exists>c. loop_reaches en rqs b' c \<and> ended c \<Longrightarrow> \<exists>c. loop_reaches en rqs b c \<and> ended c"
  by (meson converse_rtranclp_into_rtranclp)

lemma late_ends:
  "bt_phase b = LateDraining \<Longrightarrow> \<exists>c. loop_reaches en rqs b c \<and> ended c"
proof (induction "bt_queue b" arbitrary: b)
  case Nil
  show ?case
    by (rule ends_by [OF Collect]) (use Nil in \<open>auto intro!: exI collect_ends\<close>)
next
  case (Cons ev q)
  show ?case
    by (rule ends_by [OF Drain [of b ev q]]) (use Cons in \<open>auto intro: Cons.hyps(1)\<close>)
qed

lemma draining_ends:
  "bt_phase b = Draining \<Longrightarrow> \<exists>c. loop_reaches en rqs b c \<and> ended c"
proof (induction "bt_queue b" arbitrary: b)
  case Nil
  show ?case
  proof (cases "bt_timed_out b \<or> bt_observed b")
    case True
    have "\<exists>c. loop_reaches en rqs (b\<lparr>bt_phase := Grace\<rparr>) c \<and> ended c"
      by (rule ends_by [OF Detach late_ends]) simp_all
    with True Nil show ?thesis by (auto intro: ends_by [OF Wait])
  next
    case False
    show ?thesis
      by (rule ends_by [OF Collect]) (use Nil False in \<open>auto intro!: exI collect_ends\<close>)
  qed
next
  case (Cons ev q)
  show ?case
    by (rule ends_by [OF Drain [of b ev q]]) (use Cons in \<open>auto intro: Cons.hyps(1)\<close>)
qed

lemma all_done_ends:
  "bt_phase b = Polling \<Longrightarrow> all_done b \<Longrightarrow> \<exists>c. loop_reaches en rqs b c \<and> ended c"
proof (induction "bt_queue b" arbitrary: b)
  case Nil
  show ?case
    by (rule ends_by [OF AllDone draining_ends]) (use Nil in auto)
next
  case (Cons ev q)
  show ?case
    by (rule ends_by [OF Poll [of b ev q]]) (use Cons in \<open>auto intro: Cons.hyps(1) simp: all_done_def\<close>)
qed


text \<open>The outcomes of a batch that completes.\<close>

lemma completed_outcomes:
  assumes "reachable en rqs s b" "loop_step en rqs b b'" "bt_phase b' = Completed br"
    and "distinct (map rq_call_id rqs)"
  shows "length (br_outcomes br) = length rqs
    \<and> (br_timed_out br \<or> br_cancelled br \<or> all_done b)
    \<and> (\<forall>i < length rqs. \<exists>r. br_outcomes br ! i = \<lparr>oc_call_id = rq_call_id (rqs ! i), oc_index = i, oc_result = r\<rparr>
        \<and> (case bt_tasks b ! i of
             Ended r' \<Rightarrow> r = r' \<and> (i \<in> set (bt_entered b) \<or> rq_immediate (rqs ! i) = Some r
                 \<or> (rq_immediate (rqs ! i) = None \<and> (\<exists>s. refused_before en (rqs ! i) s = Some r)))
           | _ \<Rightarrow> r = cancelled_result en (br_timed_out br))
        \<and> (rq_immediate (rqs ! i) = None \<or> i \<notin> set (bt_entered b)))"
proof -
  note c = collecting [OF assms(2,3)]
  have ok: "batch_ok en rqs b" using assms(1) by (rule batch_ok_reachable)
  then have len: "length (bt_tasks b) = length rqs" and ph: "phase_ok en b"
    and ent: "entries_ok en rqs b" by (simp_all add: batch_ok_def permits_ok_def)
  have stop: "all_done b \<or> bt_timed_out b \<or> bt_observed b"
    using ph c(4) by (auto simp: phase_ok_def)
  note out = collect_outcomes [OF c(1) assms(4) len]
  have each: "\<exists>r. br_outcomes br ! i = \<lparr>oc_call_id = rq_call_id (rqs ! i), oc_index = i, oc_result = r\<rparr>
        \<and> (case bt_tasks b ! i of
             Ended r' \<Rightarrow> r = r' \<and> (i \<in> set (bt_entered b) \<or> rq_immediate (rqs ! i) = Some r
                 \<or> (rq_immediate (rqs ! i) = None \<and> (\<exists>s. refused_before en (rqs ! i) s = Some r)))
           | _ \<Rightarrow> r = cancelled_result en (br_timed_out br))
        \<and> (rq_immediate (rqs ! i) = None \<or> i \<notin> set (bt_entered b))" if i: "i < length rqs" for i
  proof -
    obtain r where r: "task_result en (bt_timed_out b) (bt_observed b) (bt_tasks b ! i) = Inr r"
      "br_outcomes br ! i = \<lparr>oc_call_id = rq_call_id (rqs ! i), oc_index = i, oc_result = r\<rparr>"
      using out i by blast
    have t: "task_ok en rqs (bt_entered b) i (bt_tasks b ! i)" using ent i by (simp add: entries_ok_def)
    have imm: "rq_immediate (rqs ! i) = None \<or> i \<notin> set (bt_entered b)"
      using ent by (auto simp: entries_ok_def)
    show ?thesis
    proof (cases "\<exists>r'. bt_tasks b ! i = Ended r'")
      case True
      with r t imm show ?thesis by (auto simp: task_result_def task_ok_def)
    next
      case False
      have "r = cancelled_result en (bt_timed_out b)"
        by (rule late_result [OF ph _ stop _ r(1)]) (use c(4) i len False t in \<open>auto simp: task_ok_def\<close>)
      with False r(2) imm out show ?thesis by (cases "bt_tasks b ! i") auto
    qed
  qed
  with out stop show ?thesis by auto
qed

subsection \<open>The properties\<close>

text \<open>C9. At every moment of a batch no more tools hold a permit than \<open>max_parallel_tools\<close> (at
  least one) and no more web searches run than their own limit; no call is entered twice; and
  once the batch has stopped polling (all done, deadline or cancellation) no further tool is
  entered, whatever the tasks and the host do.\<close>

theorem batch_bounded:
  assumes "reachable en rqs s b"
  shows "int (permits_held b) \<le> max 1 (en_max_parallel en)
    \<and> searches_running en rqs b \<le> en_web_concurrency en
    \<and> distinct (bt_entered b)
    \<and> (bt_phase b \<noteq> Polling \<longrightarrow> (\<forall>b'. (batch_step en rqs)\<^sup>*\<^sup>* b b' \<longrightarrow> bt_entered b' = bt_entered b))"
proof -
  have ok: "batch_ok en rqs b" using assms by (rule batch_ok_reachable)
  then have "bt_parallel b + permits_held b = nat (max 1 (en_max_parallel en))"
    "bt_web b + searches_running en rqs b = en_web_concurrency en"
    by (simp_all add: batch_ok_def permits_ok_def permits_held_def searches_running_def)
  then have "int (permits_held b) \<le> max 1 (en_max_parallel en)" "searches_running en rqs b \<le> en_web_concurrency en"
    by linarith+
  moreover have "distinct (bt_entered b)" using ok by (simp add: batch_ok_def entries_ok_def)
  moreover have "bt_phase b \<noteq> Polling \<longrightarrow> (\<forall>b'. (batch_step en rqs)\<^sup>*\<^sup>* b b' \<longrightarrow> bt_entered b' = bt_entered b)"
    using batch_stopped_steps [OF _ ok] by blast
  ultimately show ?thesis by blast
qed

text \<open>C23. A batch that completes reports one outcome per request, in request order and under
  the request's id. A result that a task had reached is reported as it is, whether the batch ran
  to its end, passed its deadline or was cancelled; every other call gets the text of the
  deadline or of the cancellation, and only after one of them or after its own task was
  cancelled. A request that carried its result is never entered, and a result that was neither
  carried nor given by an entered tool is the refusal before the call.\<close>

theorem batch_outcomes:
  assumes "reachable en rqs s b" "loop_step en rqs b b'" "bt_phase b' = Completed br"
    and "distinct (map rq_call_id rqs)"
  shows "length (br_outcomes br) = length rqs
    \<and> (br_timed_out br \<or> br_cancelled br \<or> all_done b)
    \<and> (\<forall>i < length rqs. \<exists>r. br_outcomes br ! i = \<lparr>oc_call_id = rq_call_id (rqs ! i), oc_index = i, oc_result = r\<rparr>
        \<and> (case bt_tasks b ! i of
             Ended r' \<Rightarrow> r = r' \<and> (i \<in> set (bt_entered b) \<or> rq_immediate (rqs ! i) = Some r
                 \<or> (rq_immediate (rqs ! i) = None \<and> (\<exists>s. refused_before en (rqs ! i) s = Some r)))
           | _ \<Rightarrow> r = cancelled_result en (br_timed_out br))
        \<and> (rq_immediate (rqs ! i) = None \<or> i \<notin> set (bt_entered b)))"
  using assms by (rule completed_outcomes)

text \<open>C27. A batch cannot be held up by its tools: from every state in which all tasks are done, a
  deadline is set, the run is cancelled or the batch has stopped polling, its own loop reaches the
  end (a complete report, or the durability error that it passes on) without another step of
  any task.\<close>

theorem batch_always_ends:
  assumes "reachable en rqs s b"
    and "all_done b \<or> en_timeout en \<noteq> None \<or> en_is_cancelled en (bt_env b) \<or> bt_phase b \<noteq> Polling"
  shows "\<exists>b'. loop_reaches en rqs b b' \<and> ended b'"
proof (cases "bt_phase b")
  case Polling
  show ?thesis
  proof (cases "all_done b")
    case True
    with Polling show ?thesis by (rule all_done_ends)
  next
    case False
    with assms(2) Polling consider "en_timeout en \<noteq> None" | "en_is_cancelled en (bt_env b)" by auto
    then show ?thesis
      by cases (auto intro: ends_by [OF Deadline [OF Polling False] draining_ends]
        ends_by [OF Observe [OF Polling] draining_ends] simp: False)
  qed
next
  case Grace
  then show ?thesis by (auto intro: ends_by [OF Detach late_ends])
next
  case (Completed br)
  then show ?thesis by (auto simp: ended_def intro!: exI [of _ b])
next
  case (BatchRaised e)
  have "e = Durability"
    using batch_ok_reachable [OF assms(1)] BatchRaised by (simp add: batch_ok_def phase_ok_def)
  with BatchRaised show ?thesis by (auto simp: ended_def intro!: exI [of _ b])
qed (auto intro: draining_ends late_ends)


subsection \<open>A batch with a deadline\<close>

definition demo_engine :: "unit engine" where
  "demo_engine = \<lparr>en_tools = (\<lambda>_. None), en_is_cancelled = (\<lambda>_. False), en_issues_of = (\<lambda>_ _. Some []),
     en_traceback = (\<lambda>_. []), en_max_parallel = 1, en_web_concurrency = 1, en_web_search = ''web_search'',
     en_timeout = Some ''60''\<rparr>"

definition demo_request :: "string \<Rightarrow> tool_result option \<Rightarrow> unit request" where
  "demo_request i r = \<lparr>rq_call_id = i, rq_tool_name = ''read_file'', rq_arguments = [], rq_immediate = r,
     rq_context = \<lparr>ic_gates = [], ic_guard = None, ic_ancestors = [], ic_child_budgets = []\<rparr>,
     rq_approved = None, rq_admission = None\<rparr>"

text \<open>A rejected call, one that runs and ends, and one that waits for its permit.\<close>

definition demo_requests :: "unit request list" where
  "demo_requests = [demo_request ''a'' (Some (failed ''no'')), demo_request ''b'' None, demo_request ''c'' None]"

definition ok_result :: tool_result where
  "ok_result = \<lparr>tr_success = True, tr_content = ''text'', tr_error = None, tr_permission_request = None,
     tr_raw_output = None, tr_rejected = False\<rparr>"

lemmas demo_defs = demo_engine_def demo_request_def demo_requests_def start_batch_def

text \<open>The batch after the deadline, when the second call has ended and the third still waits.\<close>

definition demo_late :: "(unit, unit) batch" where
  "demo_late = \<lparr>bt_tasks = [Ended (failed ''no''), Ended ok_result, Waiting],
     bt_cancelling = [False, False, True], bt_parallel = 1, bt_web = 1, bt_queue = [], bt_env = (),
     bt_entered = [1], bt_timed_out = True, bt_observed = False, bt_phase = LateDraining, bt_records = []\<rparr>"

lemma reach_task: "reachable en rqs s b \<Longrightarrow> task_step en rqs b b' \<Longrightarrow> reachable en rqs s b'"
  by (erule reachable.Step) (simp add: batch_step_def)

lemma reach_loop: "reachable en rqs s b \<Longrightarrow> loop_step en rqs b b' \<Longrightarrow> reachable en rqs s b'"
  by (erule reachable.Step) (simp add: batch_step_def)

lemma demo_reaches: "reachable demo_engine demo_requests () demo_late"
proof -
  let ?b0 = "start_batch demo_engine demo_requests () :: (unit, unit) batch"
  let ?b1 = "set_task 0 (Ended (failed ''no'')) ?b0"
  let ?b2 = "set_task 1 Waiting ?b1"
  let ?b3 = "set_task 1 Holding (?b2\<lparr>bt_parallel := 0\<rparr>)"
  let ?b4 = "set_task 1 Running (?b3\<lparr>bt_web := 1, bt_entered := bt_entered ?b3 @ [1]\<rparr>)"
  let ?b5 = "end_task demo_engine (demo_requests ! 1) 1 (task_of demo_engine (Inr ok_result)) (?b4\<lparr>bt_env := ()\<rparr>)"
  let ?b6 = "set_task 2 Waiting ?b5"
  let ?b7 = "(cancel_tasks ?b6)\<lparr>bt_timed_out := True, bt_phase := Draining\<rparr>"
  let ?b8 = "?b7\<lparr>bt_phase := Grace\<rparr>"
  let ?b9 = "(cancel_tasks ?b8)\<lparr>bt_phase := LateDraining\<rparr>"
  note step = demo_defs set_task_def is_web_def refused_before_def admission_error_def
  have "reachable demo_engine demo_requests () ?b1"
    by (rule reach_task [OF reachable.Begin Immediate]) (simp_all add: demo_defs)
  then have "reachable demo_engine demo_requests () ?b2"
    by (rule reach_task [OF _ Start]) (simp_all add: step)
  then have "reachable demo_engine demo_requests () ?b3"
    by (rule reach_task [OF _ Acquire]) (simp_all add: step)
  then have "reachable demo_engine demo_requests () ?b4"
    by (rule reach_task [OF _ Enter]) (simp_all add: step)
  then have "reachable demo_engine demo_requests () ?b5"
    by (rule reach_task [OF _ Finish]) (simp_all add: step)
  then have "reachable demo_engine demo_requests () ?b6"
    by (rule reach_task [OF _ Start]) (simp_all add: step)
  then have "reachable demo_engine demo_requests () ?b7"
    by (rule reach_loop [OF _ Deadline]) (simp_all add: step all_done_def task_done_def)
  then have "reachable demo_engine demo_requests () ?b8"
    by (rule reach_loop [OF _ Wait]) (simp_all add: step)
  then have "reachable demo_engine demo_requests () ?b9"
    by (rule reach_loop [OF _ Detach]) simp_all
  moreover have "?b9 = demo_late"
    by (simp add: step demo_late_def cancel_tasks_def end_task_def release_permits_def task_of_def settled_def
      task_done_def numeral_2_eq_2)
  ultimately show ?thesis by simp
qed

lemma demo_collects: "collect demo_engine demo_requests demo_late = Completed
  \<lparr>br_outcomes = [\<lparr>oc_call_id = ''a'', oc_index = 0, oc_result = failed ''no''\<rparr>,
     \<lparr>oc_call_id = ''b'', oc_index = 1, oc_result = ok_result\<rparr>,
     \<lparr>oc_call_id = ''c'', oc_index = 2, oc_result = cancelled_result demo_engine True\<rparr>],
   br_timed_out = True, br_cancelled = False\<rparr>"
  by (simp add: collect_def demo_late_def demo_requests_def demo_request_def enumerate_eq_zip task_result_def
    missing_result_def numeral_2_eq_2 upt_rec) (simp add: demo_engine_def)

theorem batch_bounded_witness:
  "int (permits_held demo_late) \<le> 1 \<and> searches_running demo_engine demo_requests demo_late \<le> 1
   \<and> distinct (bt_entered demo_late)
   \<and> {bt_entered b' |b'. (batch_step demo_engine demo_requests)\<^sup>*\<^sup>* demo_late b'} = {[1]}"
proof -
  have at: "bt_phase demo_late \<noteq> Polling" "bt_entered demo_late = [1]" by (simp_all add: demo_late_def)
  note b = batch_bounded [OF demo_reaches]
  have "{bt_entered b' |b'. (batch_step demo_engine demo_requests)\<^sup>*\<^sup>* demo_late b'} = {[1]}"
  proof (intro equalityI subsetI)
    fix xs :: "nat list" assume "xs \<in> {[1]}"
    then have "xs = bt_entered demo_late" using at by simp
    then show "xs \<in> {bt_entered b' |b'. (batch_step demo_engine demo_requests)\<^sup>*\<^sup>* demo_late b'}" by blast
  qed (use b at in auto)
  with b show ?thesis by (simp add: demo_engine_def)
qed

theorem batch_outcomes_witness:
  "let br = \<lparr>br_outcomes = [\<lparr>oc_call_id = ''a'', oc_index = 0, oc_result = failed ''no''\<rparr>,
       \<lparr>oc_call_id = ''b'', oc_index = 1, oc_result = ok_result\<rparr>,
       \<lparr>oc_call_id = ''c'', oc_index = 2, oc_result = cancelled_result demo_engine True\<rparr>],
     br_timed_out = True, br_cancelled = False\<rparr>
   in loop_step demo_engine demo_requests demo_late (demo_late\<lparr>bt_phase := Completed br\<rparr>)
      \<and> oc_result (br_outcomes br ! 2) = cancelled_result demo_engine (br_timed_out br)"
proof -
  have l: "loop_step demo_engine demo_requests demo_late
      (demo_late\<lparr>bt_phase := collect demo_engine demo_requests demo_late\<rparr>)"
    by (rule Collect) (simp_all add: demo_late_def)
  have "distinct (map rq_call_id demo_requests)" by (simp add: demo_requests_def demo_request_def)
  from batch_outcomes [OF demo_reaches l _ this] demo_collects l show ?thesis
    by (auto simp: demo_requests_def demo_late_def)
qed

theorem batch_always_ends_witness:
  "\<exists>b'. loop_reaches demo_engine demo_requests demo_late b' \<and> ended b'"
  using batch_always_ends [OF demo_reaches] by (simp add: demo_engine_def)

end
