(* ===== verification/DispatchCorrect.thy ===== *)
theory DispatchCorrect
  imports Dispatch SchedulerCorrect "HOL-Library.Multiset"
begin

section \<open>A step answers every call, within the budgets and gates\<close>

text \<open>
  One lemma per stage says what the stage adds to the events and to the count of admitted calls;
  \<open>grows\<close> collects what a whole part of a step guarantees and composes along the step. The
  parallel part relies on the contract \<open>fair_report\<close>, which every batch of the scheduler keeps.
\<close>

subsection \<open>Events\<close>

fun starts :: "step_event list \<Rightarrow> string list" where
  "starts [] = []"
| "starts (Started i n v # evs) = i # starts evs"
| "starts (Finished f # evs) = starts evs"

fun finishes :: "step_event list \<Rightarrow> finished list" where
  "finishes [] = []"
| "finishes (Started i n v # evs) = finishes evs"
| "finishes (Finished f # evs) = f # finishes evs"

lemma starts_append [simp]: "starts (xs @ ys) = starts xs @ starts ys"
  by (induction xs rule: starts.induct) simp_all

lemma finishes_append [simp]: "finishes (xs @ ys) = finishes xs @ finishes ys"
  by (induction xs rule: finishes.induct) simp_all

text \<open>The calls that were executed, and no execution after the end of the turn.\<close>

definition executions :: "step_event list \<Rightarrow> finished list" where
  "executions evs = filter fe_executed (finishes evs)"

fun quiet_after_end :: "finished list \<Rightarrow> bool" where
  "quiet_after_end [] = True"
| "quiet_after_end (f # fs) = ((fe_ends_turn f \<longrightarrow> list_all (\<lambda>g. \<not> fe_executed g) fs) \<and> quiet_after_end fs)"

lemma quiet_after_append:
  "quiet_after_end (xs @ ys) \<longleftrightarrow> quiet_after_end xs \<and> quiet_after_end ys
   \<and> (list_ex fe_ends_turn xs \<longrightarrow> list_all (\<lambda>g. \<not> fe_executed g) ys)"
  by (induction xs) auto

lemma quiet_no_end: "\<not> list_ex fe_ends_turn fs \<Longrightarrow> quiet_after_end fs"
  by (induction fs) simp_all

lemma executions_append [simp]: "executions (xs @ ys) = executions xs @ executions ys"
  by (simp add: executions_def)

lemma none_executed: "list_all (\<lambda>g. \<not> fe_executed g) (finishes evs) \<longleftrightarrow> executions evs = []"
  by (simp add: executions_def filter_empty_conv list_all_iff)

subsection \<open>Budgets\<close>

abbreviation total :: "'s step \<Rightarrow> int" where
  "total st \<equiv> tool_call_total (st_budget st)"

definition within :: "'s step \<Rightarrow> 's step \<Rightarrow> bool" where
  "within st st' = (max_tool_calls (st_budget st') = max_tool_calls (st_budget st) \<and> total st \<le> total st'
     \<and> (\<forall>m. max_tool_calls (st_budget st) = Some m \<longrightarrow> total st' \<le> max (total st) m))"

lemma within_refl [simp]: "within st st"
  by (simp add: within_def)

lemma within_trans: "within a b \<Longrightarrow> within b c \<Longrightarrow> within a c"
  by (fastforce simp: within_def)

lemma within_same: "st_budget st' = st_budget st \<Longrightarrow> within st st'"
  by (simp add: within_def)

lemma reserve_total:
  assumes "reserve b tool = (r, b')"
  shows "max_tool_calls b' = max_tool_calls b" "tool_call_total b' = tool_call_total b + (if r = None then 1 else 0)"
    "r = None \<Longrightarrow> max_tool_calls b = Some m \<Longrightarrow> tool_call_total b < m"
  using assms by (auto simp: reserve_def at_cap_def split: if_splits option.splits)

lemma search_reserve_total:
  assumes "search_reserve L key p batch b = (r, p', batch', b')"
  shows "max_tool_calls b' = max_tool_calls b" "tool_call_total b' = tool_call_total b + (if r = None then 1 else 0)"
    "r = None \<Longrightarrow> max_tool_calls b = Some m \<Longrightarrow> tool_call_total b < m"
  using assms
  by (auto simp: search_reserve_def Let_def dest: reserve_total split: option.splits if_splits prod.splits)

lemma reserve_budget_spec:
  assumes "reserve_budget sv c st = (r, st')"
  shows "within st st'" "total st' = total st + (if r = None then 1 else 0)"
    "st_log st' = st_log st" "st_turn_ending st' = st_turn_ending st" "st_outcomes st' = st_outcomes st"
proof -
  have *: "within st st'" if "max_tool_calls (st_budget st') = max_tool_calls (st_budget st)"
    "total st' = total st + (if r = None then 1 else 0)"
    "\<And>m. r = None \<Longrightarrow> max_tool_calls (st_budget st) = Some m \<Longrightarrow> total st < m"
    using that by (auto simp: within_def split: if_splits)
  have "max_tool_calls (st_budget st') = max_tool_calls (st_budget st)
    \<and> total st' = total st + (if r = None then 1 else 0)
    \<and> (\<forall>m. r = None \<longrightarrow> max_tool_calls (st_budget st) = Some m \<longrightarrow> total st < m)
    \<and> st_log st' = st_log st \<and> st_turn_ending st' = st_turn_ending st \<and> st_outcomes st' = st_outcomes st"
  proof (cases "cl_name c = ''web_search''")
    case True
    obtain r1 p b bg where s: "search_reserve (sv_query_lang sv) (normalize_query (sv_casefold sv) (cl_arguments c))
        (st_policy st) (st_batch st) (st_budget st) = (r1, p, b, bg)" by (metis prod.exhaust)
    with assms True have "r1 = r" "st' = st\<lparr>st_policy := p, st_batch := b, st_budget := bg\<rparr>"
      by (simp_all add: reserve_budget_def Let_def)
    with search_reserve_total [OF s] show ?thesis by simp
  next
    case False
    obtain r1 bg where s: "reserve (st_budget st) (cl_name c) = (r1, bg)" by fastforce
    with assms False have "r1 = r" "st' = st\<lparr>st_budget := bg\<rparr>" by (simp_all add: reserve_budget_def)
    with reserve_total [OF s] show ?thesis by simp
  qed
  with * show "within st st'" "total st' = total st + (if r = None then 1 else 0)"
    "st_log st' = st_log st" "st_turn_ending st' = st_turn_ending st" "st_outcomes st' = st_outcomes st"
    by blast+
qed

subsection \<open>Starting a call\<close>

text \<open>The names the control of the step lets through.\<close>

definition permitted :: "control \<Rightarrow> string \<Rightarrow> bool" where
  "permitted ctl name = (case ct_allowed_names ctl of None \<Rightarrow> True | Some ns \<Rightarrow> name \<in> set ns)"

lemma not_permitted: "(case ct_allowed_names ctl of None \<Rightarrow> False | Some ns \<Rightarrow> name \<notin> set ns) = (\<not> permitted ctl name)"
  by (simp add: permitted_def split: option.split)

text \<open>What no stage before the result changes.\<close>

definition same_step :: "'s step \<Rightarrow> 's step \<Rightarrow> bool" where
  "same_step st st' = (st_log st' = st_log st \<and> st_turn_ending st' = st_turn_ending st
     \<and> st_budget st' = st_budget st \<and> st_outcomes st' = st_outcomes st)"

definition same_call :: "call \<Rightarrow> call \<Rightarrow> bool" where
  "same_call c c' = (cl_id c' = cl_id c \<and> cl_name c' = cl_name c \<and> cl_target c' = cl_target c
     \<and> cl_routed c' = cl_routed c \<and> cl_invoked c' = cl_invoked c \<and> cl_charge c' = cl_charge c)"

lemma same_step_refl [simp]: "same_step st st"
  by (simp add: same_step_def)

lemma same_step_trans: "same_step a b \<Longrightarrow> same_step b c \<Longrightarrow> same_step a c"
  by (simp add: same_step_def)

lemma same_step_env [simp]: "same_step st (st\<lparr>st_env := s\<rparr>)"
  by (simp add: same_step_def)

lemma same_call_refl [simp]: "same_call c c"
  by (simp add: same_call_def)

lemma same_call_trans: "same_call a b \<Longrightarrow> same_call b c \<Longrightarrow> same_call a c"
  by (simp add: same_call_def)

lemma on_env_same: "on_env f st = (r, st') \<Longrightarrow> same_step st st'"
  by (auto simp: on_env_def split: prod.splits)

lemma prepare_paths_same: "prepare_paths sv c st = ((e, c'), st') \<Longrightarrow> same_step st st' \<and> same_call c c' \<and> cl_allowed c' = cl_allowed c"
  by (auto simp: prepare_paths_def same_call_def split: prod.splits)

lemma argument_error_same: "argument_error sv c st = (e, st') \<Longrightarrow> same_step st st'"
  by (auto simp: argument_error_def same_step_def split: option.splits)

lemma admit_spec:
  assumes "admit sv p ctl c path_error st = (r, st')"
  shows "within st st' \<and> st_log st' = st_log st \<and> st_turn_ending st' = st_turn_ending st \<and> st_outcomes st' = st_outcomes st
    \<and> (if r = None then total st' = total st + 1 else total st \<le> total st')
    \<and> (r = None \<longrightarrow> st_turn_ending st = None
        \<and> permitted ctl (cl_name c))"
proof -
  obtain ae st1 where arg: "argument_error sv c st = (ae, st1)" by fastforce
  note same = argument_error_same [OF arg]
  have w1: "within st st1" using same by (intro within_same) (simp add: same_step_def)
  note unfold = assms [unfolded admit_def arg Let_def not_permitted]
  consider (rejected) e where "r = Some e" "same_step st st'"
    | (reserved) q where "st_turn_ending st = None" "reserve_budget sv c st1 = (q, st')" "r = map_option rejection_text q"
        "permitted ctl (cl_name c)"
  proof (cases "st_turn_ending st")
    case (Some tool)
    then have "r = Some (skipped_text tool)" "same_step st st'" using unfold by auto
    then show ?thesis by (rule rejected)
  next
    case still: None
    show ?thesis
    proof (cases "refused_offer sv p c (st_env st)")
      case (Some e)
      then have "r = Some e" "same_step st st'" using unfold still by auto
      then show ?thesis by (rule rejected)
    next
      case offered: None
      show ?thesis
      proof (cases "orelse ae path_error")
        case (Some e)
        then have "r = Some e" "same_step st st'" using unfold still offered same by auto
        then show ?thesis by (rule rejected)
      next
        case fine: None
        obtain q st2 where q: "reserve_budget sv c st1 = (q, st2)" by fastforce
        show ?thesis
        proof (cases "permitted ctl (cl_name c)")
          case True
          then have "r = map_option rejection_text q" "reserve_budget sv c st1 = (q, st')"
            using unfold still offered fine q by simp_all
          then show ?thesis using still True reserved by blast
        next
          case False
          then have "r = Some (ct_blocked_reason ctl)" "same_step st st'"
            using unfold still offered fine same by auto
          then show ?thesis by (rule rejected)
        qed
      qed
    qed
  qed
  then show ?thesis
  proof cases
    case rejected
    then show ?thesis by (auto simp: same_step_def intro: within_same)
  next
    case reserved
    note R = reserve_budget_spec [OF reserved(2)]
    have "within st st'" using w1 R(1) by (rule within_trans)
    with R same reserved show ?thesis by (cases q) (auto simp: same_step_def)
  qed
qed

lemma run_hooks_spec:
  "run_hooks sv c st = (Inr c', st') \<Longrightarrow> same_step st st' \<and> same_call c c' \<and> (cl_allowed c' \<longrightarrow> cl_allowed c)"
  by (auto simp: run_hooks_def same_call_def dest: on_env_same
    split: option.splits sum.splits prod.splits before_resolution.splits)

lemma recheck_spec:
  "recheck sv p c st = (c', st') \<Longrightarrow> same_step st st' \<and> same_call c c' \<and> (cl_allowed c' \<longrightarrow> cl_allowed c)"
  by (auto simp: recheck_def Let_def same_call_def dest!: prepare_paths_same argument_error_same
    intro: same_step_trans split: option.splits prod.splits)

lemma hook_and_recheck_spec:
  "hook_and_recheck sv p c st = (Inr c', st') \<Longrightarrow> same_step st st' \<and> same_call c c' \<and> (cl_allowed c' \<longrightarrow> cl_allowed c)"
  by (auto simp: hook_and_recheck_def dest!: run_hooks_spec recheck_spec
    intro: same_step_trans same_call_trans split: if_splits sum.splits prod.splits)

lemma start_spec:
  assumes "start_call sv p ctl c st = (Inr c', st')"
  shows "within st st' \<and> same_call c c' \<and> st_turn_ending st' = st_turn_ending st \<and> st_outcomes st' = st_outcomes st
    \<and> (\<exists>v. st_log st' = st_log st @ [Started (cl_id c) (cl_name c) v])
    \<and> (if cl_allowed c' then total st' = total st + 1 else total st \<le> total st')
    \<and> (cl_allowed c' \<longrightarrow> st_turn_ending st = None
        \<and> permitted ctl (cl_name c))"
proof -
  obtain path_error c1 st1 where paths: "prepare_paths sv c st = ((path_error, c1), st1)" by (metis prod.exhaust)
  obtain rejection st2 where adm: "admit sv p ctl c1 path_error st1 = (rejection, st2)" by fastforce
  define c2 where "c2 = c1\<lparr>cl_allowed := (rejection = None), cl_rejection := rejection\<rparr>"
  define c3 where "c3 = c2\<lparr>cl_visible := visible_call sv c2 st2\<rparr>"
  define st3 where "st3 = (if cl_visible c3 \<and> cl_name c3 \<notin> set FINAL_SUMMARY_EXCLUDED_TOOLS
      then st2\<lparr>st_visible := Suc (st_visible st2)\<rparr> else st2)"
  define st4 where "st4 = emit_event (Started (cl_id c3) (cl_name c3) (cl_visible c3)) st3"
  have "\<exists>c4 st5. hook_and_recheck sv p c3 st4 = (Inr c4, st5) \<and> c' = c4 \<and> same_step st5 st'"
    using assms paths adm c2_def c3_def st3_def st4_def
    by (auto simp: start_call_def Let_def dest: on_env_same split: sum.splits prod.splits if_splits)
  then obtain st5 where hook: "hook_and_recheck sv p c3 st4 = (Inr c', st5)" "same_step st5 st'" by blast
  note P = prepare_paths_same [OF paths] and A = admit_spec [OF adm] and H = hook_and_recheck_spec [OF hook(1)]
  have c3: "same_call c c3" "cl_allowed c3 = (rejection = None)"
    using P by (auto simp: c3_def c2_def same_call_def)
  have st3: "same_step st2 st3" by (simp add: st3_def same_step_def)
  have st4: "st_log st4 = st_log st3 @ [Started (cl_id c) (cl_name c) (cl_visible c3)]" "st_budget st4 = st_budget st3"
    "st_turn_ending st4 = st_turn_ending st3" "st_outcomes st4 = st_outcomes st3"
    using c3 by (simp_all add: st4_def emit_event_def same_call_def)
  have same: "st_budget st' = st_budget st2" "st_turn_ending st' = st_turn_ending st2" "st_outcomes st' = st_outcomes st2"
    "st_log st' = st_log st2 @ [Started (cl_id c) (cl_name c) (cl_visible c3)]"
    using H hook(2) st3 st4 by (simp_all add: same_step_def)
  have before: "st_budget st1 = st_budget st" "st_log st1 = st_log st" "st_turn_ending st1 = st_turn_ending st"
    "st_outcomes st1 = st_outcomes st" "cl_name c1 = cl_name c"
    using P by (simp_all add: same_step_def same_call_def)
  have call: "same_call c c'" using c3(1) H by (blast intro: same_call_trans)
  have "within st st'" using A before same by (simp add: within_def)
  moreover have allowed: "cl_allowed c' \<longrightarrow> rejection = None" using H c3(2) by simp
  ultimately show ?thesis
  proof (cases "rejection = None")
    case True
    have "total st' = total st + 1" using A before same True by simp
    with \<open>within st st'\<close> A before same call True show ?thesis by simp
  next
    case False
    have "total st \<le> total st'" using A before same False by simp
    with \<open>within st st'\<close> A before same call allowed False show ?thesis by simp
  qed
qed

subsection \<open>Finishing a call\<close>

lemma account_spec:
  fixes st :: "'s step"
  assumes "account sv c r st = st'"
  shows "total st' = total st" "max_tool_calls (st_budget st') = max_tool_calls (st_budget st)" "st_log st' = st_log st"
    "st_turn_ending st' = (if tr_success r \<and> cl_allowed c \<and> ends_turn sv c then Some (cl_name c) else st_turn_ending st)"
proof -
  have d: "tool_call_total (record_delegated b n v i) = tool_call_total b \<and> max_tool_calls (record_delegated b n v i) = max_tool_calls b" for b n v i
    by (simp add: record_delegated_def split: option.split)
  have s: "tool_call_total (record_search b x) = tool_call_total b \<and> max_tool_calls (record_search b x) = max_tool_calls b" for b x
    by (simp add: record_search_def)
  show "total st' = total st" "max_tool_calls (st_budget st') = max_tool_calls (st_budget st)" "st_log st' = st_log st"
    "st_turn_ending st' = (if tr_success r \<and> cl_allowed c \<and> ends_turn sv c then Some (cl_name c) else st_turn_ending st)"
    unfolding assms [symmetric] by (simp_all add: account_def Let_def d s)
qed

lemma no_rounds: "pending_request r = None \<or> tr_success r \<Longrightarrow> finish_permissions en rq nf oe r w = ((Inr (r, None), []), w)"
  by (auto simp: finish_permissions_def)

lemma finish_spec:
  assumes "finish_call sv p c r st = (Inr (), st')"
  shows "within st st' \<and> total st' = total st
    \<and> (\<exists>f. st_log st' = st_log st @ [Finished f] \<and> fe_id f = cl_id c \<and> fe_name f = cl_name c
        \<and> (fe_executed f \<longrightarrow> cl_invoked c \<or> pending_request r \<noteq> None)
        \<and> (fe_ends_turn f \<longrightarrow> ends_turn sv c \<and> st_turn_ending st' \<noteq> None))
    \<and> (st_turn_ending st \<noteq> None \<longrightarrow> st_turn_ending st' \<noteq> None)
    \<and> (\<not> ends_turn sv c \<longrightarrow> st_turn_ending st' = st_turn_ending st)"
proof -
  obtain out rounds w where perm: "finish_permissions (sv_engine sv) (request_of sv p c (st_env st)) (sv_negotiate sv)
      (late_error sv p c) r (to_world c st) = ((out, rounds), w)" by (metis prod.exhaust)
  define c1 where "c1 = c\<lparr>cl_charge := w_charge w, cl_invoked := w_invoked w\<rparr>"
  define st1 where "st1 = st\<lparr>st_env := w_env w, st_ledgers := w_ledgers w\<rparr>"
  note step = assms [unfolded finish_call_def perm from_world_def Let_def prod.case, folded c1_def st1_def]
  obtain r1 decision where out: "out = Inr (r1, decision)" using step by (cases out) auto
  define c2 where "c2 = c1\<lparr>cl_policy_decision := decision, cl_executed := was_executed c1 r1\<rparr>"
  obtain r2 s2 where adapt: "sv_adapt sv c2 r1 (st_env st1) = (r2, s2)" by fastforce
  define st2 where "st2 = account sv c2 r2 (st1\<lparr>st_env := s2\<rparr>)"
  note step = step [unfolded out sum.case prod.case, folded c2_def, unfolded adapt prod.case, folded st2_def]
  obtain content error st3 where filt: "on_env (sv_filter sv c2 r2) st2 = (Inr (content, error), st3)"
    using step by (cases "on_env (sv_filter sv c2 r2) st2"; cases "fst (on_env (sv_filter sv c2 r2) st2)") auto
  note step = step [unfolded filt sum.case prod.case]
  obtain content' error' sr st4 where proc: "on_env (sv_process sv c2 r2 content error) st3 = (Inr (content', error', sr), st4)"
    using step by (cases "on_env (sv_process sv c2 r2 content error) st3";
      cases "fst (on_env (sv_process sv c2 r2 content error) st3)") auto
  note step = step [unfolded proc sum.case prod.case]
  obtain pol b where rec: "record_result (st_policy st4) (st_batch st4) sr = (pol, b)" by fastforce
  define f where "f = \<lparr>fe_id = cl_id c2, fe_name = cl_name c2, fe_success = tr_success r2, fe_content = content',
     fe_error = error', fe_executed = cl_executed c2,
     fe_ends_turn = (tr_success r2 \<and> cl_allowed c2 \<and> ends_turn sv c2)\<rparr>"
  have st': "st_log st' = st_log st4 @ [Finished f]" "st_budget st' = st_budget st4" "st_turn_ending st' = st_turn_ending st4"
    using step by (auto simp: rec emit_event_def f_def)
  have st4: "same_step st2 st4"
    using on_env_same [OF filt] on_env_same [OF proc] by (rule same_step_trans)
  note A = account_spec [OF st2_def [symmetric]]
  have c2: "cl_id c2 = cl_id c" "cl_name c2 = cl_name c" "cl_allowed c2 = cl_allowed c" "ends_turn sv c2 = ends_turn sv c"
    "cl_executed c2 = was_executed c1 r1"
    by (simp_all add: c2_def c1_def ends_turn_def)
  have exec: "cl_invoked c \<or> pending_request r \<noteq> None" if "was_executed c1 r1"
  proof (rule ccontr)
    assume none: "\<not> ?thesis"
    then have "((out, rounds), w) = ((Inr (r, None), []), to_world c st)" using perm by (simp add: no_rounds)
    then have "w = to_world c st" by simp
    with none that show False by (simp add: was_executed_def c1_def to_world_def)
  qed
  have "total st' = total st" "max_tool_calls (st_budget st') = max_tool_calls (st_budget st)"
    using A(1,2) st4 st'(2) by (simp_all add: same_step_def st1_def)
  moreover have "st_log st' = st_log st @ [Finished f]" "st_turn_ending st' = (if tr_success r2 \<and> cl_allowed c \<and> ends_turn sv c
      then Some (cl_name c) else st_turn_ending st)"
    using A(3,4) st4 st'(1,3) c2 by (simp_all add: same_step_def st1_def)
  ultimately show ?thesis
    using c2 exec by (auto simp: within_def f_def)
qed

lemma run_serial_spec:
  assumes "run_serial sv p c st = (Inr (c', r), st')"
  shows "st_log st' = st_log st" "st_budget st' = st_budget st" "st_turn_ending st' = st_turn_ending st"
    "cl_id c' = cl_id c" "cl_name c' = cl_name c" "cl_target c' = cl_target c"
    "\<not> cl_allowed c \<Longrightarrow> cl_invoked c' = cl_invoked c \<and> pending_request r = None"
  using assms
  by (auto simp: run_serial_def from_world_def to_world_def Let_def invoke_serial_def request_of_def
    immediate_result_def pending_request_def failed_def split: prod.splits sum.splits)

subsection \<open>Parts of a step\<close>

text \<open>What a part of a step guarantees: it only adds events; each execution is paid by an admitted
  call and permitted by the control; after a result that ends the turn nothing is executed.\<close>

definition grows :: "control \<Rightarrow> 's step \<Rightarrow> step_event list \<Rightarrow> 's step \<Rightarrow> bool" where
  "grows ctl st evs st' = (st_log st' = st_log st @ evs \<and> within st st'
     \<and> int (length (executions evs)) \<le> total st' - total st
     \<and> (\<forall>f \<in> set (executions evs). permitted ctl (fe_name f))
     \<and> quiet_after_end (finishes evs)
     \<and> (st_turn_ending st \<noteq> None \<longrightarrow> executions evs = [] \<and> st_turn_ending st' \<noteq> None)
     \<and> (list_ex fe_ends_turn (finishes evs) \<longrightarrow> st_turn_ending st' \<noteq> None))"

lemma grows_refl: "same_step st st' \<Longrightarrow> grows ctl st [] st'"
  by (simp add: grows_def same_step_def within_same executions_def)

lemma grows_trans:
  assumes "grows ctl a xs b" "grows ctl b ys c"
  shows "grows ctl a (xs @ ys) c"
proof -
  have "list_ex fe_ends_turn (finishes xs) \<longrightarrow> list_all (\<lambda>g. \<not> fe_executed g) (finishes ys)"
    using assms by (auto simp: grows_def none_executed)
  with assms show ?thesis
    by (auto simp: grows_def quiet_after_append intro: within_trans)
qed

text \<open>A call that has not been entered yet, as \<open>resolve\<close> makes it.\<close>

definition fresh :: "call \<Rightarrow> bool" where
  "fresh c = (\<not> cl_invoked c)"

text \<open>One serial call.\<close>

lemma serial_call_grows:
  assumes "start_call sv p ctl c st = (Inr c1, st1)" "run_serial sv p c1 st1 = (Inr (c2, r), st2)"
    "finish_call sv p c2 r st2 = (Inr (), st3)" "fresh c"
  shows "\<exists>v f. grows ctl st [Started (cl_id c) (cl_name c) v, Finished f] st3 \<and> fe_id f = cl_id c"
proof -
  note S = start_spec [OF assms(1)] and R = run_serial_spec [OF assms(2)] and F = finish_spec [OF assms(3)]
  obtain v where v: "st_log st1 = st_log st @ [Started (cl_id c) (cl_name c) v]" using S by blast
  obtain f where f: "st_log st3 = st_log st2 @ [Finished f]" "fe_id f = cl_id c2" "fe_name f = cl_name c2"
    "fe_executed f \<longrightarrow> cl_invoked c2 \<or> pending_request r \<noteq> None" "fe_ends_turn f \<longrightarrow> st_turn_ending st3 \<noteq> None"
    using F by blast
  have same: "cl_id c2 = cl_id c" "cl_name c2 = cl_name c" "cl_invoked c1 = cl_invoked c"
    using S R by (simp_all add: same_call_def)
  have exec: "fe_executed f \<longrightarrow> cl_allowed c1"
    using f(4) R(7) same(3) assms(4) by (cases "cl_allowed c1") (auto simp: fresh_def)
  have w: "within st st3"
  proof (rule within_trans)
    show "within st st1" using S by blast
    have "within st1 st2" using R by (intro within_same) simp
    with F show "within st1 st3" by (blast intro: within_trans)
  qed
  have "total st1 = total st2" "total st2 = total st3" using R F by simp_all
  then have tot: "total st + (if cl_allowed c1 then 1 else 0) \<le> total st3" using S by (auto split: if_splits)
  have te: "st_turn_ending st1 = st_turn_ending st" "st_turn_ending st2 = st_turn_ending st1"
    "st_turn_ending st2 \<noteq> None \<longrightarrow> st_turn_ending st3 \<noteq> None" using S R F by simp_all
  have allowed: "cl_allowed c1 \<longrightarrow> st_turn_ending st = None \<and> permitted ctl (cl_name c)" using S by blast
  have "total st \<le> total st3" "fe_executed f \<longrightarrow> total st + 1 \<le> total st3"
    using tot exec by (simp_all split: if_splits)
  then have paid: "int (length (executions [Started (cl_id c) (cl_name c) v, Finished f])) \<le> total st3 - total st"
    by (cases "fe_executed f") (simp_all add: executions_def)
  have log: "st_log st3 = st_log st @ [Started (cl_id c) (cl_name c) v, Finished f]"
    using v f(1) R(1) by simp
  have "grows ctl st [Started (cl_id c) (cl_name c) v, Finished f] st3"
    unfolding grows_def using log w paid te allowed exec f(3,5) same(2) by (simp add: executions_def)
  with f same show ?thesis by auto
qed

text \<open>The events of a part that answers the calls \<open>cs\<close> in order.\<close>

definition answers :: "call list \<Rightarrow> step_event list \<Rightarrow> bool" where
  "answers cs evs = (starts evs = map cl_id cs \<and> map fe_id (finishes evs) = map cl_id cs)"

lemma serial_calls_grow:
  assumes "serial_calls sv p ctl cs st = (Inr cancelled, st')" "list_all fresh cs"
  shows "\<exists>n evs. grows ctl st evs st' \<and> answers (take n cs) evs \<and> (\<not> cancelled \<longrightarrow> n = length cs)"
  using assms
proof (induction cs arbitrary: st)
  case Nil
  then show ?case by (auto simp: answers_def intro!: exI [of _ "[]"] grows_refl)
next
  case (Cons c cs)
  obtain c1 st1 where s: "start_call sv p ctl c st = (Inr c1, st1)"
    using Cons.prems by (auto split: sum.splits prod.splits)
  obtain c2 r st2 where r: "run_serial sv p c1 st1 = (Inr (c2, r), st2)"
    using Cons.prems s by (auto split: sum.splits prod.splits)
  obtain st3 where f: "finish_call sv p c2 r st2 = (Inr (), st3)"
    using Cons.prems s r by (auto split: sum.splits prod.splits)
  obtain v fe where g: "grows ctl st [Started (cl_id c) (cl_name c) v, Finished fe] st3" "fe_id fe = cl_id c"
    using serial_call_grows [OF s r f] Cons.prems by auto
  show ?case
  proof (cases "en_is_cancelled (sv_engine sv) (st_env st3)")
    case True
    then have "cancelled" "st' = st3" using Cons.prems s r f by auto
    then show ?thesis using g
      by (intro exI [of _ 1] exI [of _ "[Started (cl_id c) (cl_name c) v, Finished fe]"]) (simp add: answers_def)
  next
    case False
    then have "serial_calls sv p ctl cs st3 = (Inr cancelled, st')" using Cons.prems s r f by simp
    from Cons.IH [OF this] Cons.prems obtain n evs where
      n: "grows ctl st3 evs st'" "answers (take n cs) evs" "\<not> cancelled \<longrightarrow> n = length cs" by auto
    have "grows ctl st ([Started (cl_id c) (cl_name c) v, Finished fe] @ evs) st'"
      using g(1) n(1) by (rule grows_trans)
    then show ?thesis using g(2) n
      by (intro exI [of _ "Suc n"] exI [of _ "[Started (cl_id c) (cl_name c) v, Finished fe] @ evs"]) (simp add: answers_def)
  qed
qed

subsection \<open>The parallel calls\<close>

lemma start_calls_spec:
  assumes "start_calls sv p ctl cs st = (Inr cs1, st')"
  shows "\<exists>evs. st_log st' = st_log st @ evs \<and> starts evs = map cl_id cs \<and> finishes evs = []
    \<and> within st st' \<and> st_turn_ending st' = st_turn_ending st \<and> list_all2 same_call cs cs1
    \<and> int (length (filter cl_allowed cs1)) \<le> total st' - total st
    \<and> (\<forall>c \<in> set cs1. cl_allowed c \<longrightarrow> st_turn_ending st = None \<and> permitted ctl (cl_name c))"
  using assms
proof (induction cs arbitrary: st cs1)
  case Nil
  then show ?case by simp
next
  case (Cons c cs)
  obtain c1 st1 where s: "start_call sv p ctl c st = (Inr c1, st1)"
    using Cons.prems by (auto split: sum.splits prod.splits)
  obtain cs2 where r: "start_calls sv p ctl cs st1 = (Inr cs2, st')" "cs1 = c1 # cs2"
    using Cons.prems s by (auto split: sum.splits prod.splits)
  note S = start_spec [OF s]
  obtain v where v: "st_log st1 = st_log st @ [Started (cl_id c) (cl_name c) v]" using S by blast
  obtain evs where I: "st_log st' = st_log st1 @ evs" "starts evs = map cl_id cs" "finishes evs = []"
    "within st1 st'" "st_turn_ending st' = st_turn_ending st1" "list_all2 same_call cs cs2"
    "int (length (filter cl_allowed cs2)) \<le> total st' - total st1"
    "\<forall>c \<in> set cs2. cl_allowed c \<longrightarrow> st_turn_ending st1 = None \<and> permitted ctl (cl_name c)"
    using Cons.IH [OF r(1)] by blast
  have "within st st'" using S I(4) by (blast intro: within_trans)
  moreover have "int (length (filter cl_allowed cs1)) \<le> total st' - total st"
    using S I(7) r(2) by (cases "cl_allowed c1") simp_all
  moreover have "cl_allowed c1 \<longrightarrow> st_turn_ending st = None \<and> permitted ctl (cl_name c1)"
    using S by (simp add: same_call_def)
  ultimately show ?case
    using S v I r(2) by (intro exI [of _ "Started (cl_id c) (cl_name c) v # evs"]) simp
qed

text \<open>A report is fair to a call: a call that was not admitted is not entered and asks for nothing.\<close>

definition fair_to :: "batch_report \<Rightarrow> call \<Rightarrow> bool" where
  "fair_to rep c = (cl_allowed c \<or> (\<not> bp_entered rep (cl_id c) \<and> pending_request (snd (reported rep c)) = None))"

lemma finish_calls_spec:
  assumes "finish_calls sv p rep cs st = (Inr (), st')" "list_all (\<lambda>c. fresh c \<and> \<not> ends_turn sv c) cs"
  shows "\<exists>evs. st_log st' = st_log st @ evs \<and> starts evs = [] \<and> map fe_id (finishes evs) = map cl_id cs
    \<and> within st st' \<and> total st' = total st \<and> st_turn_ending st' = st_turn_ending st
    \<and> \<not> list_ex fe_ends_turn (finishes evs)
    \<and> (list_all (fair_to rep) cs \<longrightarrow> length (executions evs) \<le> length (filter cl_allowed cs)
        \<and> fe_name ` set (executions evs) \<subseteq> cl_name ` {c \<in> set cs. cl_allowed c})"
  using assms
proof (induction cs arbitrary: st)
  case Nil
  then show ?case by (simp add: executions_def)
next
  case (Cons c cs)
  obtain c1 r where rep: "reported rep c = (c1, r)" by fastforce
  obtain st1 where s: "finish_call sv p c1 r st = (Inr (), st1)" "finish_calls sv p rep cs st1 = (Inr (), st')"
    using Cons.prems rep by (auto split: sum.splits prod.splits)
  have c1: "cl_id c1 = cl_id c" "cl_name c1 = cl_name c" "ends_turn sv c1 = ends_turn sv c"
    "cl_invoked c1 = (cl_invoked c \<or> bp_entered rep (cl_id c))"
    using rep by (auto simp: reported_def ends_turn_def)
  note F = finish_spec [OF s(1)]
  obtain f where f: "st_log st1 = st_log st @ [Finished f]" "fe_id f = cl_id c1" "fe_name f = cl_name c1"
    "fe_executed f \<longrightarrow> cl_invoked c1 \<or> pending_request r \<noteq> None" "fe_ends_turn f \<longrightarrow> ends_turn sv c1"
    using F by blast
  obtain evs where I: "st_log st' = st_log st1 @ evs" "starts evs = []" "map fe_id (finishes evs) = map cl_id cs"
    "within st1 st'" "total st' = total st1" "st_turn_ending st' = st_turn_ending st1"
    "\<not> list_ex fe_ends_turn (finishes evs)"
    "list_all (fair_to rep) cs \<longrightarrow> length (executions evs) \<le> length (filter cl_allowed cs)
        \<and> fe_name ` set (executions evs) \<subseteq> cl_name ` {c \<in> set cs. cl_allowed c}"
    using Cons.IH [OF s(2)] Cons.prems(2) by auto
  have quiet: "\<not> ends_turn sv c1" "\<not> cl_invoked c" using c1 Cons.prems(2) by (simp_all add: fresh_def)
  have exec: "fair_to rep c \<longrightarrow> fe_executed f \<longrightarrow> cl_allowed c"
    using f(4) c1(4) quiet(2) rep by (auto simp: fair_to_def)
  have add: "executions (Finished f # evs) = (if fe_executed f then [f] else []) @ executions evs"
    by (simp add: executions_def)
  have w: "within st st'" using F I(4) by (blast intro: within_trans)
  have fair: "list_all (fair_to rep) (c # cs) \<longrightarrow>
        length (executions (Finished f # evs)) \<le> length (filter cl_allowed (c # cs))
        \<and> fe_name ` set (executions (Finished f # evs)) \<subseteq> cl_name ` {d \<in> set (c # cs). cl_allowed d}"
    using exec I(8) f(3) c1(2) unfolding add by (cases "fe_executed f") auto
  show ?case
    using f I F w fair quiet c1(1) by (intro exI [of _ "Finished f # evs"]) auto
qed

lemma list_all2_same_call:
  assumes "list_all2 same_call cs cs1"
  shows "map cl_id cs1 = map cl_id cs" "map (ends_turn sv) cs1 = map (ends_turn sv) cs" "map fresh cs1 = map fresh cs"
  using assms by (induction rule: list_all2_induct) (simp_all add: same_call_def ends_turn_def fresh_def)

text \<open>Every batch of the step is a completed run of the scheduler: its results are the outcomes of
  that run, and a call counts as entered only when its task was.\<close>

definition scheduled :: "'s services \<Rightarrow> bool" where
  "scheduled sv = (\<forall>rqs s h rep s' h'. sv_batch sv rqs s h = (Inr rep, s', h') \<longrightarrow>
     (\<exists>(b :: ('s, unit) batch) b' br. reachable (sv_engine sv) rqs s b \<and> loop_step (sv_engine sv) rqs b b'
        \<and> bt_phase b' = phase.Completed br
        \<and> bp_results rep = map_of (map (\<lambda>x. (oc_call_id x, oc_result x)) (br_outcomes br))
        \<and> (\<forall>id. bp_entered rep id \<longrightarrow> (\<exists>i < length rqs. rq_call_id (rqs ! i) = id \<and> i \<in> set (bt_entered b)))))"

lemma failed_not_pending [simp]: "pending_request (failed e) = None" "pending_request ((failed e)\<lparr>tr_raw_output := d\<rparr>) = None"
  by (simp_all add: pending_request_def failed_def)

lemma immediate_not_pending:
  assumes "\<not> cl_allowed c"
  shows "\<exists>r. immediate_result sv p c s = Some r \<and> pending_request r = None"
  using assms by (simp add: immediate_result_def)

lemma scheduled_fair:
  assumes "scheduled sv" "sv_batch sv (map (\<lambda>c. request_of sv p c s) cs) s h = (Inr rep, s', h')" "distinct (map cl_id cs)"
  shows "list_all (fair_to rep) cs"
proof -
  let ?rqs = "map (\<lambda>c. request_of sv p c s) cs"
  obtain b :: "('a, unit) batch" and b' br where B: "reachable (sv_engine sv) ?rqs s b" "loop_step (sv_engine sv) ?rqs b b'"
    "bt_phase b' = phase.Completed br" "bp_results rep = map_of (map (\<lambda>x. (oc_call_id x, oc_result x)) (br_outcomes br))"
    and ent: "\<forall>id. bp_entered rep id \<longrightarrow> (\<exists>i < length ?rqs. rq_call_id (?rqs ! i) = id \<and> i \<in> set (bt_entered b))"
    using assms(1) [unfolded scheduled_def, rule_format, OF assms(2)] by blast
  have B5: "\<exists>i < length cs. cl_id (cs ! i) = id \<and> i \<in> set (bt_entered b)" if entered: "bp_entered rep id" for id
  proof -
    obtain j where j: "j < length cs" "rq_call_id (?rqs ! j) = id" "j \<in> set (bt_entered b)" using ent entered by auto
    then have "cl_id (cs ! j) = id" by (simp add: request_of_def)
    with j show ?thesis by blast
  qed
  have ids: "map rq_call_id ?rqs = map cl_id cs" by (simp add: request_of_def)
  note C = completed_outcomes [OF B(1-3), unfolded ids, OF assms(3)]
  have same: "i = j" if "i < length cs" "j < length cs" "cl_id (cs ! i) = cl_id (cs ! j)" for i j
    using that assms(3) by (metis length_map nth_eq_iff_index_eq nth_map)
  have "fair_to rep (cs ! i)" if i: "i < length cs" and out: "\<not> cl_allowed (cs ! i)" for i
  proof -
    obtain r where r: "rq_immediate (?rqs ! i) = Some r" "pending_request r = None"
      using immediate_not_pending [OF out, of sv p s] i by (auto simp: request_of_def)
    obtain r' where r': "br_outcomes br ! i = \<lparr>oc_call_id = rq_call_id (?rqs ! i), oc_index = i, oc_result = r'\<rparr>"
      "case bt_tasks b ! i of Ended q \<Rightarrow> r' = q \<and> (i \<in> set (bt_entered b) \<or> rq_immediate (?rqs ! i) = Some r'
           \<or> (rq_immediate (?rqs ! i) = None \<and> (\<exists>s. refused_before (sv_engine sv) (?rqs ! i) s = Some r')))
       | _ \<Rightarrow> r' = cancelled_result (sv_engine sv) (br_timed_out br)"
      "rq_immediate (?rqs ! i) = None \<or> i \<notin> set (bt_entered b)"
      using C i unfolding length_map by blast
    have quiet: "pending_request r' = None"
      using r'(2,3) r by (auto simp: cancelled_result_def split: task.splits)
    have len: "length (br_outcomes br) = length cs" using C by simp
    have "map oc_call_id (br_outcomes br) = map cl_id cs"
    proof (rule nth_equalityI)
      fix j assume "j < length (map oc_call_id (br_outcomes br))"
      then have j: "j < length ?rqs" using len by simp
      then obtain q where "br_outcomes br ! j = \<lparr>oc_call_id = rq_call_id (?rqs ! j), oc_index = j, oc_result = q\<rparr>"
        using C by blast
      then show "map oc_call_id (br_outcomes br) ! j = map cl_id cs ! j"
        using j len by (simp add: request_of_def)
    qed (simp add: len)
    then have "distinct (map fst (map (\<lambda>x. (oc_call_id x, oc_result x)) (br_outcomes br)))"
      using assms(3) by (simp add: comp_def)
    moreover have "(cl_id (cs ! i), r') \<in> set (map (\<lambda>x. (oc_call_id x, oc_result x)) (br_outcomes br))"
    proof -
      have "br_outcomes br ! i \<in> set (br_outcomes br)" using i len by simp
      then show ?thesis using r'(1) i by (auto simp: request_of_def intro!: image_eqI)
    qed
    ultimately have "bp_results rep (cl_id (cs ! i)) = Some r'"
      unfolding B(4) by (rule map_of_is_SomeI)
    moreover have "\<not> bp_entered rep (cl_id (cs ! i))"
    proof
      assume "bp_entered rep (cl_id (cs ! i))"
      then obtain j where "j < length cs" "cl_id (cs ! j) = cl_id (cs ! i)" "j \<in> set (bt_entered b)"
        using B5 by blast
      then have "i \<in> set (bt_entered b)" using same i by blast
      then show False using r'(3) r(1) by simp
    qed
    ultimately show ?thesis using quiet by (simp add: fair_to_def reported_def)
  qed
  moreover have "fair_to rep c" if "cl_allowed c" for c using that by (simp add: fair_to_def)
  ultimately show ?thesis by (metis list_all_length)
qed

lemma parallel_calls_grow:
  assumes "parallel_calls sv p ctl cs st = (Inr cancelled, st')" "list_all (\<lambda>c. fresh c \<and> \<not> ends_turn sv c) cs"
  shows "\<exists>evs. st_log st' = st_log st @ evs \<and> answers cs evs
     \<and> (scheduled sv \<longrightarrow> distinct (map cl_id cs) \<longrightarrow> grows ctl st evs st')"
proof (cases "cs = []")
  case True
  then show ?thesis using assms by (auto simp: parallel_calls_def answers_def intro!: exI [of _ "[]"] grows_refl)
next
  case False
  obtain cs1 st1 where s: "start_calls sv p ctl cs st = (Inr cs1, st1)"
    using assms False by (auto simp: parallel_calls_def split: sum.splits prod.splits)
  obtain st2 where fl: "on_env (sv_flush_calls sv) st1 = (Inr (), st2)"
    using assms False s by (auto simp: parallel_calls_def split: sum.splits prod.splits)
  obtain rep s2 h2 where b: "sv_batch sv (map (\<lambda>c. request_of sv p c (st_env st2)) cs1) (st_env st2) (st_ledgers st2)
      = (Inr rep, s2, h2)"
    using assms False s fl by (auto simp: parallel_calls_def Let_def split: sum.splits prod.splits)
  define st3 where "st3 = st2\<lparr>st_env := s2, st_ledgers := h2\<rparr>"
  have f: "finish_calls sv p rep cs1 st3 = (Inr (), st')"
    using assms False s fl b by (auto simp: parallel_calls_def Let_def st3_def split: sum.splits prod.splits)
  have same: "same_step st1 st3"
    using on_env_same [OF fl] by (rule same_step_trans) (simp add: st3_def same_step_def)
  obtain ev1 where S: "st_log st1 = st_log st @ ev1" "starts ev1 = map cl_id cs" "finishes ev1 = []" "within st st1"
    "st_turn_ending st1 = st_turn_ending st" "list_all2 same_call cs cs1"
    "int (length (filter cl_allowed cs1)) \<le> total st1 - total st"
    "\<forall>c \<in> set cs1. cl_allowed c \<longrightarrow> st_turn_ending st = None \<and> permitted ctl (cl_name c)"
    using start_calls_spec [OF s] by blast
  note L = list_all2_same_call [OF S(6)]
  have fresh: "list_all (\<lambda>c. fresh c \<and> \<not> ends_turn sv c) cs1"
  proof -
    have "list_all id (map fresh cs) \<and> list_all Not (map (ends_turn sv) cs)"
      using assms(2) by (auto simp: list_all_iff)
    then have "list_all id (map fresh cs1) \<and> list_all Not (map (ends_turn sv) cs1)" by (simp only: L)
    then show ?thesis by (auto simp: list_all_iff)
  qed
  obtain ev2 where F: "st_log st' = st_log st3 @ ev2" "starts ev2 = []" "map fe_id (finishes ev2) = map cl_id cs1"
    "within st3 st'" "total st' = total st3" "st_turn_ending st' = st_turn_ending st3"
    "\<not> list_ex fe_ends_turn (finishes ev2)"
    "list_all (fair_to rep) cs1 \<longrightarrow> length (executions ev2) \<le> length (filter cl_allowed cs1)
        \<and> fe_name ` set (executions ev2) \<subseteq> cl_name ` {c \<in> set cs1. cl_allowed c}"
    using finish_calls_spec [OF f fresh] by blast
  have log: "st_log st' = st_log st @ (ev1 @ ev2)" using S(1) F(1) same by (simp add: same_step_def)
  have ans: "answers cs (ev1 @ ev2)" using S(2,3) F(2,3) L(1) by (simp add: answers_def)
  have "grows ctl st (ev1 @ ev2) st'" if "scheduled sv" "distinct (map cl_id cs)"
  proof -
    have "list_all (fair_to rep) cs1" using that L(1) b by (metis scheduled_fair)
    with F(8) have X: "length (executions ev2) \<le> length (filter cl_allowed cs1)"
      "fe_name ` set (executions ev2) \<subseteq> cl_name ` {c \<in> set cs1. cl_allowed c}" by blast+
    have none: "executions ev1 = []" using S(3) by (simp add: executions_def)
    have w: "within st st'"
    proof (rule within_trans [OF S(4)])
      have "within st1 st3" using same by (intro within_same) (simp add: same_step_def)
      then show "within st1 st'" using F(4) by (rule within_trans)
    qed
    have paid: "int (length (executions (ev1 @ ev2))) \<le> total st' - total st"
      using X(1) S(7) F(5) same none by (simp add: same_step_def)
    have quiet: "\<not> list_ex fe_ends_turn (finishes (ev1 @ ev2))" using F(7) S(3) by simp
    then have quiet2: "quiet_after_end (finishes (ev1 @ ev2))" by (rule quiet_no_end)
    have allowed: "\<forall>f \<in> set (executions (ev1 @ ev2)). permitted ctl (fe_name f)"
      using X(2) S(8) none by fastforce
    have ended: "executions (ev1 @ ev2) = []" if "st_turn_ending st \<noteq> None"
    proof -
      have "filter cl_allowed cs1 = []" using S(8) that by (auto simp: filter_empty_conv)
      then show ?thesis using X(1) none by simp
    qed
    show ?thesis
      unfolding grows_def using log w paid allowed quiet quiet2 ended S(5) F(6) same by (simp add: same_step_def)
  qed
  with log ans show ?thesis by blast
qed

subsection \<open>Duplicates and the division of the calls\<close>

lemma duplicate_calls_grow:
  assumes "duplicate_calls sv ds st = (Inr (), st')"
  shows "\<exists>evs. grows ctl st evs st' \<and> answers (map fst ds) evs"
  using assms
proof (induction ds arbitrary: st)
  case Nil
  then show ?case by (auto simp: answers_def intro!: exI [of _ "[]"] grows_refl)
next
  case (Cons d ds)
  obtain c source where d: "d = (c, source)" by fastforce
  obtain st1 where s: "finish_duplicate sv d st = (Inr (), st1)" "duplicate_calls sv ds st1 = (Inr (), st')"
    using Cons.prems by (auto split: sum.splits prod.splits)
  obtain f where f: "fe_id f = cl_id c" "\<not> fe_executed f" "\<not> fe_ends_turn f"
    "st_log st1 = st_log st @ [Started (cl_id c) (cl_name c) False, Finished f]"
    "st_budget st1 = st_budget st" "st_turn_ending st1 = st_turn_ending st"
    using s(1) unfolding d finish_duplicate_def
    by (auto simp: Let_def emit_event_def same_step_def dest!: on_env_same split: prod.splits sum.splits)
  have "grows ctl st [Started (cl_id c) (cl_name c) False, Finished f] st1"
    using f by (simp add: grows_def executions_def within_same)
  moreover obtain evs where "grows ctl st1 evs st'" "answers (map fst ds) evs"
    using Cons.IH [OF s(2)] by blast
  ultimately show ?case
    using f(1) d
    by (intro exI [of _ "[Started (cl_id c) (cl_name c) False, Finished f] @ evs"])
      (auto simp: answers_def intro: grows_trans [where xs = "[Started (cl_id c) (cl_name c) False, Finished f]", simplified])
qed

lemma split_duplicates_mset:
  assumes "split_duplicates sv p s cs first = (us, ds)"
  shows "mset us + mset (map fst ds) = mset cs"
  using assms
  by (induction cs arbitrary: first us ds) (auto split: if_splits option.splits prod.splits)

lemma resolve_fresh: "fresh (resolve sv p tc s)" "cl_id (resolve sv p tc s) = tc_id tc"
proof -
  have shape: "tc_id (fst (if A then (tc, False, None) else if B then (tc, True, x)
      else case r of None \<Rightarrow> (tc, True, y)
        | Some name \<Rightarrow> (case j of None \<Rightarrow> (tc, True, z)
           | Some (PDict args) \<Rightarrow> (tc\<lparr>tc_name := name, tc_arguments := args\<rparr>, True, e name)
           | Some _ \<Rightarrow> (tc, True, w)))) = tc_id tc"
    for A B and x y z w :: "string option" and r :: "string option" and j :: "pyval option" and e
    by (simp split: option.split pyval.split)
  have "tc_id (fst (resolve_call l v p tc s)) = tc_id tc" for l v
    unfolding resolve_call_def by (rule shape)
  then have id: "resolve_call l v p tc s = (n, b, e) \<Longrightarrow> tc_id n = tc_id tc" for l v n b e
    by (metis fst_conv)
  have canon: "tc_id (canonicalize l v p tc s) = tc_id tc" for l v
    by (cases "resolve_call l v p tc s") (simp add: canonicalize_def id)
  show "fresh (resolve sv p tc s)"
    by (simp add: resolve_def fresh_def Let_def split: prod.split)
  show "cl_id (resolve sv p tc s) = tc_id tc"
    by (cases "resolve_call (sv_loads sv) (sv_live sv) p tc s") (simp add: resolve_def canon id Let_def)
qed

lemma parallel_never_ends:
  "list_all (\<lambda>c. \<not> ends_turn sv c) (filter (may_run_parallel sv us) us)"
  by (auto simp: list_all_iff may_run_parallel_def Let_def list_ex_iff)

text \<open>The calls in the order in which a step answers them.\<close>

definition answer_order :: "'s services \<Rightarrow> 's prepared \<Rightarrow> tool_call list \<Rightarrow> 's \<Rightarrow> call list" where
  "answer_order sv p originals s =
     (let (us, ds) = split_duplicates sv p s (map (\<lambda>tc. resolve sv p tc s) originals) []
      in filter (\<lambda>c. \<not> may_run_parallel sv us c) us
         @ map (\<lambda>c. c\<lparr>cl_parallel := True\<rparr>) (filter (may_run_parallel sv us) us) @ map fst ds)"

lemma answer_order_ids:
  "mset (map cl_id (answer_order sv p originals s)) = mset (map tc_id originals)"
proof -
  obtain us ds where split: "split_duplicates sv p s (map (\<lambda>tc. resolve sv p tc s) originals) [] = (us, ds)" by fastforce
  let ?P = "may_run_parallel sv us"
  have par: "map cl_id (map (\<lambda>c. c\<lparr>cl_parallel := True\<rparr>) xs) = map cl_id xs" for xs by simp
  have "mset (filter (\<lambda>c. \<not> ?P c) us) + mset (filter ?P us) = mset us"
    by (simp add: add.commute [of "filter_mset (\<lambda>c. \<not> ?P c) _"])
  then have "image_mset cl_id (mset (filter (\<lambda>c. \<not> ?P c) us)) + image_mset cl_id (mset (filter ?P us))
      + image_mset cl_id (mset (map fst ds)) = image_mset cl_id (mset us + mset (map fst ds))"
    by (simp flip: image_mset_union)
  also have "\<dots> = image_mset cl_id (mset (map (\<lambda>tc. resolve sv p tc s) originals))"
    using split_duplicates_mset [OF split] by simp
  also have "\<dots> = mset (map tc_id originals)"
    by (simp add: image_mset.compositionality comp_def resolve_fresh)
  finally show ?thesis
    unfolding answer_order_def split Let_def prod.case map_append par mset_append
    by (simp add: add.assoc image_mset.compositionality)
qed

text \<open>The whole step: a prefix of the calls is answered, all of them unless the run was cancelled.\<close>

lemma execute_calls_grow:
  assumes "execute_calls sv p ctl originals st = (Inr out, st')"
  shows "\<exists>n. answers (take n (answer_order sv p originals (st_env st))) (st_log st')
     \<and> (out \<noteq> None \<longrightarrow> n = length (answer_order sv p originals (st_env st)))
     \<and> (scheduled sv \<longrightarrow> distinct (map tc_id originals) \<longrightarrow> grows ctl (new_step st) (st_log st') st')"
proof -
  obtain us ds where split: "split_duplicates sv p (st_env st) (map (\<lambda>tc. resolve sv p tc (st_env st)) originals) [] = (us, ds)"
    by fastforce
  let ?P = "may_run_parallel sv us"
  define serial where "serial = filter (\<lambda>c. \<not> ?P c) us"
  define parallel where "parallel = map (\<lambda>c. c\<lparr>cl_parallel := True\<rparr>) (filter ?P us)"
  define order where "order = serial @ parallel @ map fst ds"
  have order: "answer_order sv p originals (st_env st) = order"
    by (simp add: answer_order_def split order_def serial_def parallel_def)
  have env: "st_env (new_step st) = st_env st" "st_log (new_step st) = []" by (simp_all add: new_step_def)
  note step = assms [unfolded execute_calls_def Let_def env(1) split prod.case, folded serial_def parallel_def]
  have all: "mset us + mset (map fst ds) = mset (map (\<lambda>tc. resolve sv p tc (st_env st)) originals)"
    using split_duplicates_mset [OF split] .
  have "fresh c" if "c \<in> set us" for c
  proof -
    have "c \<in># mset us + mset (map fst ds)" using that by simp
    then show ?thesis unfolding all by (auto simp: resolve_fresh)
  qed
  then have fresh: "list_all fresh serial" "list_all (\<lambda>c. fresh c \<and> \<not> ends_turn sv c) parallel"
    using parallel_never_ends [of sv us]
    by (auto simp: serial_def parallel_def list_all_iff fresh_def ends_turn_def)
  obtain c1 st1 where s: "serial_calls sv p ctl serial (new_step st) = (Inr c1, st1)"
    using step by (auto split: sum.splits prod.splits)
  obtain n ev1 where S: "grows ctl (new_step st) ev1 st1" "answers (take n serial) ev1" "\<not> c1 \<longrightarrow> n = length serial"
    using serial_calls_grow [OF s fresh(1)] by blast
  have log1: "st_log st1 = ev1" using S(1) env by (simp add: grows_def)
  show ?thesis
  proof (cases c1)
    case True
    then have "out = None" "st' = st1" using step s by auto
    moreover have "answers (take (min n (length serial)) order) ev1"
      using S(2) by (cases "n \<le> length serial") (simp_all add: order_def min_def)
    ultimately show ?thesis using S log1 order by auto
  next
    case False
    obtain c2 st2 where p: "parallel_calls sv p ctl parallel st1 = (Inr c2, st2)"
      using step s False by (auto split: sum.splits prod.splits)
    obtain ev2 where P: "st_log st2 = st_log st1 @ ev2" "answers parallel ev2"
      "scheduled sv \<longrightarrow> distinct (map cl_id parallel) \<longrightarrow> grows ctl st1 ev2 st2"
      using parallel_calls_grow [OF p fresh(2)] by blast
    have two: "answers (serial @ parallel) (ev1 @ ev2)" using S P(2) False by (simp add: answers_def)
    have distinct: "distinct (map cl_id parallel)" if "distinct (map tc_id originals)"
    proof -
      have "distinct (map cl_id order)"
        using that answer_order_ids [of sv p originals "st_env st"] unfolding order by (metis mset_eq_imp_distinct_iff)
      then show ?thesis by (simp add: order_def)
    qed
    have g2: "scheduled sv \<longrightarrow> distinct (map tc_id originals) \<longrightarrow> grows ctl (new_step st) (ev1 @ ev2) st2"
      using S(1) P(3) distinct by (blast intro: grows_trans)
    show ?thesis
    proof (cases c2)
      case True
      then have "out = None" "st' = st2" using step s p False by auto
      moreover have "answers (take (length (serial @ parallel)) order) (ev1 @ ev2)"
        using two by (simp add: order_def)
      ultimately show ?thesis using g2 P(1) log1 order by auto
    next
      case no: False
      obtain st3 where d: "duplicate_calls sv ds st2 = (Inr (), st3)" "close_step st3 = (Inr out, st')"
        using step s p False no by (auto split: sum.splits prod.splits)
      obtain ev3 where D: "grows ctl st2 ev3 st3" "answers (map fst ds) ev3"
        using duplicate_calls_grow [OF d(1)] by blast
      have "same_step st3 st'" using d(2) by (auto simp: close_step_def same_step_def split: prod.splits)
      then have close: "grows ctl st3 [] st'" by (rule grows_refl)
      have log: "st_log st' = ev1 @ ev2 @ ev3"
        using log1 P(1) D(1) close by (simp add: grows_def)
      have "answers order (ev1 @ ev2 @ ev3)" using two D(2) by (simp add: answers_def order_def)
      moreover have "scheduled sv \<longrightarrow> distinct (map tc_id originals) \<longrightarrow> grows ctl (new_step st) (ev1 @ ev2 @ ev3) st'"
      proof (intro impI)
        assume "scheduled sv" "distinct (map tc_id originals)"
        with g2 have "grows ctl (new_step st) (ev1 @ ev2) st2" by blast
        from grows_trans [OF grows_trans [OF this D(1)] close]
        show "grows ctl (new_step st) (ev1 @ ev2 @ ev3) st'" by simp
      qed
      ultimately show ?thesis using log order by (intro exI [of _ "length order"]) simp
    qed
  qed
qed

subsection \<open>The properties\<close>


text \<open>C26. When the batches of a step are runs of the scheduler and its calls have distinct ids, a
  step executes at most as many calls as its budget admitted, the budget stays within its cap (or
  where it was), every executed call bears a name the control permits, and after the success of a
  tool that ends the turn nothing more is executed.\<close>

theorem step_executes_admitted:
  assumes "execute_calls sv p ctl originals st = (Inr out, st')" "scheduled sv" "distinct (map tc_id originals)"
  shows "int (length (executions (st_log st'))) \<le> tool_call_total (st_budget st') - tool_call_total (st_budget st)
    \<and> (case max_tool_calls (st_budget st) of None \<Rightarrow> True
        | Some m \<Rightarrow> tool_call_total (st_budget st') \<le> max (tool_call_total (st_budget st)) m)
    \<and> (\<forall>f \<in> set (executions (st_log st')). permitted ctl (fe_name f))
    \<and> quiet_after_end (finishes (st_log st'))"
proof -
  have "grows ctl (new_step st) (st_log st') st'"
    using execute_calls_grow [OF assms(1)] assms(2,3) by blast
  moreover have "st_budget (new_step st) = st_budget st" by (simp add: new_step_def)
  ultimately show ?thesis by (simp add: grows_def within_def split: option.split)
qed

subsection \<open>A step with a parallel call, its duplicate and a blocked call\<close>

definition echo_view :: tool_view where
  "echo_view = \<lparr>tv_name = ''echo'', tv_description = [], tv_identity = [], tv_parameters = PDict [], tv_schema = Some [],
     tv_openai_schema = Some [], tv_generation = PNone, tv_deduplicate = True\<rparr>"

definition echo_prepared :: "unit prepared" where
  "echo_prepared = \<lparr>pr_definitions = [(''echo'', echo_view)], pr_targets = [(''echo'', 0)], pr_call_names = [],
     pr_generations = [], pr_exposure = None, pr_registered = [''echo''], pr_routed_targets = [],
     pr_routed_definitions = [], pr_route_refs = [], pr_route_visible = None\<rparr>"

text \<open>A batch of one call that is not rejected runs to its end; no other batch is run.\<close>

definition single_report :: "unit request \<Rightarrow> batch_report" where
  "single_report rq = \<lparr>bp_results = (\<lambda>i. if i = rq_call_id rq then Some ok_result else None),
     bp_entered = (\<lambda>i. i = rq_call_id rq), bp_charges = (\<lambda>_. \<lparr>ledgers = [], charged = False\<rparr>)\<rparr>"

definition single_batch :: "unit request list \<Rightarrow> unit \<Rightarrow> ledger_store
    \<Rightarrow> (Invocation.exc + batch_report) \<times> unit \<times> ledger_store" where
  "single_batch rqs s h = (case rqs of
     [rq] \<Rightarrow> if rq_immediate rq = None \<and> rq_admission rq = None \<and> \<not> is_web demo_engine rq
             then (Inr (single_report rq), s, h) else (Inl CancelledError, s, h)
   | _ \<Rightarrow> (Inl CancelledError, s, h))"

definition echo_services :: "unit services" where
  "echo_services = \<lparr>sv_engine = demo_engine, sv_live = (\<lambda>_ _. echo_view), sv_loads = (\<lambda>_. None), sv_parallel_safe = (\<lambda>_. True),
     sv_ends_turn = (\<lambda>_. False), sv_paths = (\<lambda>_ args s. ((None, args), s)), sv_policy_error = (\<lambda>_ _ _. None),
     sv_placeholder = (\<lambda>_ _. None), sv_open_recovery = (\<lambda>_ _ _ s. s), sv_recovery_error = (\<lambda>_ _ _. None),
     sv_before_tool = None, sv_tool_start = None, sv_record_call = (\<lambda>_ s. (Inr (), s)), sv_flush_calls = (\<lambda>s. (Inr (), s)),
     sv_context = (\<lambda>_. \<lparr>ic_gates = [], ic_guard = None, ic_ancestors = [], ic_child_budgets = []\<rparr>),
     sv_negotiate = None, sv_adapt = (\<lambda>_ r s. (r, s)), sv_filter = (\<lambda>_ r s. (Inr (tr_content r, tr_error r), s)),
     sv_process = (\<lambda>_ _ content error s. (Inr (content, error, \<lparr>sr_new = 0, sr_duplicate = 0, sr_inspected = False, sr_labels = []\<rparr>), s)),
     sv_commit_duplicate = (\<lambda>_ _ s. (Inr (), s)), sv_batch = single_batch,
     sv_query_lang = \<lparr>query_terms = (\<lambda>_. []), site_domain = (\<lambda>_. [])\<rparr>, sv_casefold = id\<rparr>"

definition echo_control :: control where
  "echo_control = \<lparr>ct_allowed_names = Some [''echo''], ct_blocked_reason = ''Only echo is allowed.''\<rparr>"

definition echo_calls :: "tool_call list" where
  "echo_calls = [\<lparr>tc_id = ''a'', tc_name = ''echo'', tc_arguments = []\<rparr>, \<lparr>tc_id = ''b'', tc_name = ''echo'', tc_arguments = []\<rparr>,
     \<lparr>tc_id = ''c'', tc_name = ''note'', tc_arguments = []\<rparr>]"

definition echo_step :: "unit step" where
  "echo_step = \<lparr>st_env = (), st_ledgers = (\<lambda>_. \<lparr>ledger_limit = 1, used = 0\<rparr>), st_budget = new_budget [] (Some 3) None 2,
     st_policy = \<lparr>batch_size = 3, total_limit = 9, seen_queries = [], unique_results = 0,
       total_duplicate_results = 0, no_new_batches = 0\<rparr>, st_batch = new_batch, st_repairs = 0, st_progress = False, st_visible = 0, st_turn_ending = None,
     st_successful = [], st_repair = False, st_outcomes = [], st_log = []\<rparr>"

text \<open>The blocked call is answered first, then the executed one, then its duplicate.\<close>

lemmas echo_defs = echo_view_def echo_prepared_def echo_services_def echo_control_def echo_calls_def echo_step_def

definition echo_call :: "string \<Rightarrow> string \<Rightarrow> nat option \<Rightarrow> call" where
  "echo_call i n t = \<lparr>cl_id = i, cl_requested = n, cl_name = n, cl_arguments = [], cl_target = t, cl_routed = False,
     cl_resolution_error = None, cl_parallel = False, cl_allowed = False, cl_visible = False, cl_rejection = None,
     cl_hook_rejection = None, cl_invoked = False, cl_executed = False, cl_charge = \<lparr>ledgers = [], charged = False\<rparr>,
     cl_policy_decision = None\<rparr>"

lemma echo_resolved: "map (\<lambda>tc. resolve echo_services echo_prepared tc ()) echo_calls
    = [echo_call ''a'' ''echo'' (Some 0), echo_call ''b'' ''echo'' (Some 0), echo_call ''c'' ''note'' None]"
  by (simp add: echo_calls_def resolve_def resolve_call_def canonicalize_def canonical_name_def stable_prefix_def
      echo_prepared_def echo_call_def Let_def)

lemma echo_valid: "validate_call (\<lambda>_ _. echo_view) echo_prepared ''echo'' () = None"
  by (simp add: validate_call_def canonical_name_def echo_prepared_def echo_view_def matches_target_def schema_matches_def Let_def)

lemma echo_split: "split_duplicates echo_services echo_prepared ()
     [echo_call ''a'' ''echo'' (Some 0), echo_call ''b'' ''echo'' (Some 0), echo_call ''c'' ''note'' None] []
   = ([echo_call ''a'' ''echo'' (Some 0), echo_call ''c'' ''note'' None], [(echo_call ''b'' ''echo'' (Some 0), ''a'')])"
proof -
  have "allows_batch_deduplication (sv_live echo_services) echo_prepared ''echo'' ()"
    using echo_valid
    by (simp add: allows_batch_deduplication_def definition_of_def canonical_name_def echo_services_def Let_def)
      (simp add: echo_prepared_def echo_view_def)
  moreover have "\<not> allows_batch_deduplication (sv_live echo_services) echo_prepared ''note'' ()"
    by (simp add: allows_batch_deduplication_def definition_of_def canonical_name_def echo_prepared_def Let_def)
  ultimately show ?thesis by (simp add: echo_call_def signature_def)
qed

lemma echo_unknown: "validate_call (\<lambda>_ _. echo_view) echo_prepared ''note'' () \<noteq> None"
  by (simp add: validate_call_def canonical_name_def echo_prepared_def Let_def)

lemma echo_admission: "admission_check (\<lambda>_ _. echo_view) echo_prepared ''echo'' () = None"
   "admission_check (\<lambda>_ _. echo_view) echo_prepared ''note'' () = None"
  by (simp_all add: admission_check_def echo_valid) (simp add: echo_prepared_def)

lemmas echo_start = start_call_def prepare_paths_def admit_def refused_offer_def offer_error_def orelse_def nonempty_def
  argument_error_def reserve_budget_def reserve_def at_cap_def visible_call_def emit_event_def hook_and_recheck_def
  run_hooks_def recheck_def on_env_def

lemma echo_blocked:
  "start_call echo_services echo_prepared echo_control (echo_call ''c'' ''note'' None) (new_step echo_step)
   = (Inr ((echo_call ''c'' ''note'' None)\<lparr>cl_rejection := Some ''Only echo is allowed.''\<rparr>),
      (new_step echo_step)\<lparr>st_log := [Started ''c'' ''note'' False]\<rparr>)"
  by (simp add: echo_start echo_services_def echo_control_def echo_call_def echo_admission new_step_def echo_step_def Let_def)

definition echo_one :: "unit step" where
  "echo_one = (new_step echo_step)\<lparr>st_outcomes := [(''c'', False)], st_log := [Started ''c'' ''note'' False,
     Finished \<lparr>fe_id = ''c'', fe_name = ''note'', fe_success = False, fe_content = [],
       fe_error = Some ''Only echo is allowed.'', fe_executed = False, fe_ends_turn = False\<rparr>]\<rparr>"

lemmas echo_finish = run_serial_def request_of_def immediate_result_def invoke_serial_def to_world_def from_world_def
  finish_call_def no_rounds account_def record_delegated_def record_search_def record_result_def was_executed_def

lemma echo_serial:
  "serial_calls echo_services echo_prepared echo_control [echo_call ''c'' ''note'' None] (new_step echo_step) = (Inr False, echo_one)"
  unfolding serial_calls.simps echo_blocked
  by (simp add: echo_finish echo_services_def echo_call_def failed_def pending_request_def nonempty_def on_env_def
      emit_event_def delegated_count_def SEARCH_FILES_def demo_engine_def Let_def)
    (simp add: echo_one_def new_step_def echo_step_def new_batch_def)

lemma echo_starts:
  "start_calls echo_services echo_prepared echo_control [(echo_call ''a'' ''echo'' (Some 0))\<lparr>cl_parallel := True\<rparr>] echo_one
   = (Inr [(echo_call ''a'' ''echo'' (Some 0))\<lparr>cl_parallel := True, cl_allowed := True, cl_visible := True\<rparr>],
      echo_one\<lparr>st_visible := 1, st_log := st_log echo_one @ [Started ''a'' ''echo'' True],
        st_budget := snd (reserve (st_budget echo_one) ''echo'')\<rparr>)"
  by (simp add: echo_start echo_services_def echo_control_def echo_call_def echo_admission new_step_def echo_step_def
      echo_one_def new_budget_def FINAL_SUMMARY_EXCLUDED_TOOLS_def Let_def)

lemma echo_parallel:
  "\<exists>st'. parallel_calls echo_services echo_prepared echo_control
     [(echo_call ''a'' ''echo'' (Some 0))\<lparr>cl_parallel := True\<rparr>] echo_one = (Inr False, st')
   \<and> map fe_name (executions (st_log st')) = [''echo''] \<and> \<not> seen (st_batch st')"
proof -
  have flush: "on_env (sv_flush_calls echo_services) st = (Inr (), st)" for st
    by (simp add: on_env_def echo_services_def)
  have calls: "sv_batch echo_services = single_batch" "sv_live echo_services = (\<lambda>_ _. echo_view)"
    "sv_context echo_services = (\<lambda>_. \<lparr>ic_gates = [], ic_guard = None, ic_ancestors = [], ic_child_budgets = []\<rparr>)"
    by (simp_all add: echo_services_def)
  have prefix: "\<not> stable_prefix echo_prepared" by (simp add: stable_prefix_def echo_prepared_def)
  show ?thesis
    unfolding parallel_calls_def echo_starts
    by (simp add: flush calls prefix request_of_def immediate_result_def call_error_def nonempty_def echo_call_def echo_valid
        single_batch_def is_web_def single_report_def reported_def Let_def)
      (simp add: echo_finish echo_services_def ok_result_def pending_request_def nonempty_def on_env_def result_code_def
        emit_event_def delegated_count_def SEARCH_FILES_def demo_engine_def executions_def echo_one_def new_step_def
        echo_step_def new_batch_def call_error_def echo_valid Let_def)
qed

lemma echo_runs:
  "\<exists>st'. execute_calls echo_services echo_prepared echo_control echo_calls echo_step = (Inr (Some None), st')
     \<and> map fe_name (executions (st_log st')) = [''echo'']"
proof -
  let ?a = "echo_call ''a'' ''echo'' (Some 0)" and ?c = "echo_call ''c'' ''note'' None"
  have env: "st_env (new_step echo_step) = ()" by simp
  have par: "may_run_parallel echo_services [?a, ?c] ?a" "\<not> may_run_parallel echo_services [?a, ?c] ?c"
    by (simp_all add: may_run_parallel_def ends_turn_def echo_services_def echo_call_def)
  obtain st2 where two: "parallel_calls echo_services echo_prepared echo_control [?a\<lparr>cl_parallel := True\<rparr>] echo_one = (Inr False, st2)"
    "map fe_name (executions (st_log st2)) = [''echo'']" "\<not> seen (st_batch st2)"
    using echo_parallel by (elim exE conjE) (rule that)
  have commit: "on_env (sv_commit_duplicate echo_services c m) st = (Inr (), st)" for c m st
    by (simp add: on_env_def echo_services_def)
  obtain st3 where three: "duplicate_calls echo_services [(echo_call ''b'' ''echo'' (Some 0), ''a'')] st2 = (Inr (), st3)"
    "executions (st_log st3) = executions (st_log st2)" "st_batch st3 = st_batch st2"
  proof -
    obtain content error where dup: "duplicate_text ''a'' (map_of (st_outcomes st2) ''a'') = (content, error)" by fastforce
    let ?f = "\<lparr>fe_id = ''b'', fe_name = ''echo'', fe_success = (map_of (st_outcomes st2) ''a'' = Some True), fe_content = content,
        fe_error = error, fe_executed = False, fe_ends_turn = False\<rparr>"
    have "finish_duplicate echo_services (echo_call ''b'' ''echo'' (Some 0), ''a'') st2
        = (Inr (), emit_event (Finished ?f) (emit_event (Started ''b'' ''echo'' False) st2))"
      unfolding finish_duplicate_def Let_def prod.case dup commit sum.case by (simp add: echo_call_def)
    then have "duplicate_calls echo_services [(echo_call ''b'' ''echo'' (Some 0), ''a'')] st2
        = (Inr (), emit_event (Finished ?f) (emit_event (Started ''b'' ''echo'' False) st2))"
      by (simp only: duplicate_calls.simps prod.case sum.case)
    then show ?thesis by (rule that) (simp_all add: emit_event_def executions_def)
  qed
  have "execute_calls echo_services echo_prepared echo_control echo_calls echo_step = close_step st3"
    unfolding execute_calls_def Let_def env echo_resolved echo_split
    using par echo_serial two(1) three(1) by simp
  then show ?thesis
    using two(2,3) three(2,3) by (simp add: close_step_def search_guidance_def)
qed

lemma echo_scheduled: "scheduled echo_services"
proof -
  have run: "\<exists>(b :: (unit, unit) batch) b' br. reachable demo_engine [rq] () b \<and> loop_step demo_engine [rq] b b'
        \<and> bt_phase b' = phase.Completed br
        \<and> br_outcomes br = [\<lparr>oc_call_id = rq_call_id rq, oc_index = 0, oc_result = ok_result\<rparr>] \<and> bt_entered b = [0]"
    if rq: "rq_immediate rq = None" "rq_admission rq = None" "\<not> is_web demo_engine rq" for rq :: "unit request"
  proof -
    let ?b0 = "start_batch demo_engine [rq] () :: (unit, unit) batch"
    let ?b1 = "set_task 0 Waiting ?b0"
    let ?b2 = "set_task 0 Holding (?b1\<lparr>bt_parallel := 0\<rparr>)"
    let ?b3 = "set_task 0 Running (?b2\<lparr>bt_web := 1, bt_entered := bt_entered ?b2 @ [0]\<rparr>)"
    let ?b4 = "end_task demo_engine ([rq] ! 0) 0 (task_of demo_engine (Inr ok_result)) (?b3\<lparr>bt_env := ()\<rparr>)"
    let ?b5 = "?b4\<lparr>bt_phase := phase.Draining\<rparr>"
    note step = demo_engine_def start_batch_def set_task_def refused_before_def admission_error_def rq
    have "reachable demo_engine [rq] () ?b1"
      by (rule reach_task [OF reachable.Begin Start]) (simp_all add: step)
    then have "reachable demo_engine [rq] () ?b2"
      by (rule reach_task [OF _ Acquire]) (simp_all add: step)
    then have "reachable demo_engine [rq] () ?b3"
      by (rule reach_task [OF _ Enter]) (simp_all add: rq, simp_all add: step)
    then have "reachable demo_engine [rq] () ?b4"
      by (rule reach_task [OF _ Finish]) (simp_all add: step)
    then have r5: "reachable demo_engine [rq] () ?b5"
      by (rule reach_loop [OF _ AllDone]) (simp_all add: step all_done_def task_of_def settled_def end_task_def release_permits_def task_done_def)
    have l: "loop_step demo_engine [rq] ?b5 (?b5\<lparr>bt_phase := collect demo_engine [rq] ?b5\<rparr>)"
      by (rule Collect) (simp_all add: step end_task_def release_permits_def rq)
    have c: "collect demo_engine [rq] ?b5 = phase.Completed \<lparr>br_outcomes = [\<lparr>oc_call_id = rq_call_id rq, oc_index = 0, oc_result = ok_result\<rparr>],
        br_timed_out = False, br_cancelled = False\<rparr>"
      by (simp add: collect_def enumerate_eq_zip task_result_def task_of_def settled_def end_task_def release_permits_def step)
    have e: "bt_entered ?b5 = [0]" by (simp add: step end_task_def release_permits_def)
    show ?thesis using r5 l c e by fastforce
  qed
  show ?thesis
    unfolding scheduled_def
  proof (intro allI impI)
    fix rqs s h rep s' h'
    assume "sv_batch echo_services rqs s h = (Inr rep, s', h')"
    then obtain rq where rq: "rqs = [rq]" "rq_immediate rq = None" "rq_admission rq = None" "\<not> is_web demo_engine rq"
      "rep = single_report rq"
      by (auto simp: echo_services_def single_batch_def split: list.splits if_splits)
    have sv: "sv_engine echo_services = demo_engine" by (simp add: echo_services_def)
    obtain b :: "(unit, unit) batch" and b' br where run: "reachable demo_engine [rq] () b" "loop_step demo_engine [rq] b b'"
      "bt_phase b' = phase.Completed br"
      "br_outcomes br = [\<lparr>oc_call_id = rq_call_id rq, oc_index = 0, oc_result = ok_result\<rparr>]" "bt_entered b = [0]"
      using run [OF rq(2-4)] by blast
    show "\<exists>(b :: (unit, unit) batch) b' br. reachable (sv_engine echo_services) rqs s b \<and> loop_step (sv_engine echo_services) rqs b b'
        \<and> bt_phase b' = phase.Completed br
        \<and> bp_results rep = map_of (map (\<lambda>x. (oc_call_id x, oc_result x)) (br_outcomes br))
        \<and> (\<forall>id. bp_entered rep id \<longrightarrow> (\<exists>i < length rqs. rq_call_id (rqs ! i) = id \<and> i \<in> set (bt_entered b)))"
      by (rule exI [of _ b], rule exI [of _ b'], rule exI [of _ br])
        (use run in \<open>simp add: sv rq single_report_def fun_eq_iff\<close>)
  qed
qed


theorem step_executes_admitted_witness:
  "\<exists>st'. execute_calls echo_services echo_prepared echo_control echo_calls echo_step = (Inr (Some None), st')
     \<and> map fe_name (executions (st_log st')) = [''echo''] \<and> 1 \<le> tool_call_total (st_budget st') \<and> tool_call_total (st_budget st') \<le> 3
     \<and> quiet_after_end (finishes (st_log st'))"
proof -
  obtain st' where run: "execute_calls echo_services echo_prepared echo_control echo_calls echo_step = (Inr (Some None), st')"
    "map fe_name (executions (st_log st')) = [''echo'']"
    using echo_runs by (elim exE conjE) (rule that)
  have "distinct (map tc_id echo_calls)" by (simp add: echo_calls_def)
  from step_executes_admitted [OF run(1) echo_scheduled this] run(2)
  have "int (length (executions (st_log st'))) \<le> tool_call_total (st_budget st')" "tool_call_total (st_budget st') \<le> 3"
    "quiet_after_end (finishes (st_log st'))"
    by (simp_all add: echo_step_def new_budget_def)
  moreover have "length (executions (st_log st')) = 1" using run(2) by (metis length_map length_Cons list.size(3) One_nat_def)
  ultimately show ?thesis using run by auto
qed

end
