(* ===== verification/Messages.thy ===== *)
theory Messages
  imports Prelude
begin

section \<open>Conversation messages (box_agent/schema/schema.py)\<close>

text \<open>
  \<open>Message\<close> with the fields the session log and the tool protocol read. \<open>m_usage\<close> stands for
  the remaining serialised fields (usage, host status and the request-only token count);
  \<open>m_source\<close>, \<open>m_redact\<close> and the private measured-context snapshot \<open>m_context\<close> are excluded from
  serialisation. \<open>dump\<close> is \<open>model_dump(mode="json", exclude_none=True)\<close> and \<open>validate\<close> is
  \<open>Message.model_validate\<close> of such a dump with an optional \<open>source\<close> key: serialising and
  validating again gives the excluded fields their defaults.
\<close>

record tool_call =
  call_id :: string
  call_name :: string
  call_arguments :: pydict

datatype source = UserSource | RuntimeSource

record msg =
  m_role :: string
  m_content :: pyval
  m_thinking :: "string option"
  m_tool_calls :: "tool_call list option"
  m_tool_call_id :: "string option"
  m_name :: "string option"
  m_usage :: pydict
  m_input_facts :: "pydict option"
  m_source :: source
  m_redact :: bool
  m_context :: "pyval option"

definition dump :: "msg \<Rightarrow> msg" where
  "dump m = m\<lparr>m_source := UserSource, m_redact := False, m_context := None\<rparr>"

definition validate :: "msg \<Rightarrow> source option \<Rightarrow> msg" where
  "validate m src = m\<lparr>m_source := (case src of None \<Rightarrow> UserSource | Some s \<Rightarrow> s)\<rparr>"

definition plain_message :: "string \<Rightarrow> pyval \<Rightarrow> msg" where
  "plain_message role content = \<lparr>m_role = role, m_content = content, m_thinking = None,
     m_tool_calls = None, m_tool_call_id = None, m_name = None, m_usage = [], m_input_facts = None,
     m_source = UserSource, m_redact = False, m_context = None\<rparr>"

definition tool_reply :: "string \<Rightarrow> string \<Rightarrow> string \<Rightarrow> msg" where
  "tool_reply text i name = (plain_message ''tool'' (PStr text))\<lparr>m_tool_call_id := Some i, m_name := Some name\<rparr>"

text \<open>\<open>message.tool_calls or []\<close>\<close>

definition calls_of :: "msg \<Rightarrow> tool_call list" where
  "calls_of m = (case m_tool_calls m of None \<Rightarrow> [] | Some tcs \<Rightarrow> tcs)"

lemma dump_idem [simp]: "dump (dump m) = dump m"
  by (simp add: dump_def)

lemma dump_validate [simp]: "dump (validate m s) = dump m"
  by (simp add: dump_def validate_def)

lemma dump_fields [simp]:
  "m_role (dump m) = m_role m" "m_content (dump m) = m_content m"
  "m_tool_calls (dump m) = m_tool_calls m" "m_tool_call_id (dump m) = m_tool_call_id m"
  "calls_of (dump m) = calls_of m"
  by (simp_all add: dump_def calls_of_def)

lemma validate_fields [simp]:
  "m_role (validate m s) = m_role m" "m_content (validate m s) = m_content m"
  "m_tool_calls (validate m s) = m_tool_calls m" "m_tool_call_id (validate m s) = m_tool_call_id m"
  "calls_of (validate m s) = calls_of m"
  by (simp_all add: validate_def calls_of_def)

lemma tool_reply_fields [simp]:
  "m_role (tool_reply t i n) = ''tool''" "m_tool_call_id (tool_reply t i n) = Some i"
  "m_tool_calls (tool_reply t i n) = None" "m_content (tool_reply t i n) = PStr t"
  "calls_of (tool_reply t i n) = []"
  by (simp_all add: tool_reply_def plain_message_def calls_of_def)

end
