(* ===== verification/Permissions.thy ===== *)
theory Permissions
  imports Prelude
begin

section \<open>Capability permissions (box_agent/tools/permissions.py)\<close>

text \<open>
  \<open>CapabilityPolicy\<close>, \<open>PermissionEngine\<close> and \<open>GrantStore\<close>. A path of \<open>pathlib\<close> is its root
  (empty, one slash or two) and its list of parts; joining, parents, names and containment
  are computed on the parts as \<open>PurePosixPath\<close> does. The file system is a parameter, the
  record \<open>fs\<close>: which paths exist, which are directories, what \<open>Path.resolve\<close> returns
  (\<open>None\<close> when it raises) and the home directories. A result \<open>None\<close> of a check is an exception
  that leaves the engine. The label of the persistent option, written in Chinese in the
  source, is the constant \<open>always_allow_label\<close>; logging is omitted.
\<close>

subsection \<open>Paths\<close>

record lpath =
  root :: string
  parts :: "string list"

definition slash :: char where "slash = CHR ''/''"

fun split_on :: "char \<Rightarrow> string \<Rightarrow> string list" where
  "split_on c [] = [[]]"
| "split_on c (x # xs) =
     (if x = c then [] # split_on c xs
      else (case split_on c xs of [] \<Rightarrow> [[x]] | w # ws \<Rightarrow> (x # w) # ws))"

definition parse_path :: "string \<Rightarrow> lpath" where
  "parse_path s =
     (let lead = length (takeWhile (\<lambda>c. c = slash) s)
      in \<lparr>root = (if lead = 0 then [] else if lead = 2 then [slash, slash] else [slash]),
          parts = filter (\<lambda>p. p \<noteq> [] \<and> p \<noteq> ''.'') (split_on slash s)\<rparr>)"

definition path_str :: "lpath \<Rightarrow> string" where
  "path_str p = (if root p = [] \<and> parts p = [] then ''.''
     else root p @ intercalate [slash] (parts p))"

definition parent :: "lpath \<Rightarrow> lpath" where
  "parent p = p\<lparr>parts := butlast (parts p)\<rparr>"

definition name_of :: "lpath \<Rightarrow> string" where
  "name_of p = (if parts p = [] then [] else last (parts p))"

definition child :: "lpath \<Rightarrow> string \<Rightarrow> lpath" where
  "child p n = (if n = [] then p else p\<lparr>parts := parts p @ [n]\<rparr>)"

definition all_parts :: "lpath \<Rightarrow> string list" where
  "all_parts p = (if root p = [] then [] else [root p]) @ parts p"

definition is_inside :: "lpath \<Rightarrow> lpath \<Rightarrow> bool" where
  "is_inside target dir = (take (length (all_parts dir)) (all_parts target) = all_parts dir)"

record fs =
  fs_exists :: "lpath \<Rightarrow> bool"
  fs_is_dir :: "lpath \<Rightarrow> bool"
  fs_resolve :: "lpath \<Rightarrow> lpath option"
  fs_user_home :: "string \<Rightarrow> lpath option"

definition expanduser :: "fs \<Rightarrow> lpath \<Rightarrow> lpath option" where
  "expanduser F p =
     (if root p = [] \<and> parts p \<noteq> [] \<and> take 1 (hd (parts p)) = ''~''
      then map_option (\<lambda>h. h\<lparr>parts := parts h @ tl (parts p)\<rparr>) (fs_user_home F (hd (parts p)))
      else Some p)"

definition expand_resolve :: "fs \<Rightarrow> lpath \<Rightarrow> lpath option" where
  "expand_resolve F p = Option.bind (expanduser F p) (fs_resolve F)"

subsection \<open>Policy\<close>

record capability_policy =
  filesystem_scope :: pyval
  allowed_directories :: "string list"
  openclaw_import_enabled :: pyval
  session_workspace_root :: string

definition default_policy :: capability_policy where
  "default_policy = \<lparr>filesystem_scope = PStr ''session_workspace'', allowed_directories = [],
     openclaw_import_enabled = PBool True, session_workspace_root = []\<rparr>"

definition with_overrides :: "capability_policy \<Rightarrow> pydict \<Rightarrow> capability_policy" where
  "with_overrides p overrides =
     (let p1 = (case dget_or overrides ''filesystem'' (PDict []) of
            PDict f \<Rightarrow> (case map_of f ''scope'' of Some v \<Rightarrow> p\<lparr>filesystem_scope := v\<rparr> | None \<Rightarrow> p)
          | _ \<Rightarrow> p)
      in case dget_or overrides ''memory'' (PDict []) of
           PDict m \<Rightarrow> (case map_of m ''openclaw_import'' of
               Some v \<Rightarrow> p1\<lparr>openclaw_import_enabled := v\<rparr> | None \<Rightarrow> p1)
         | _ \<Rightarrow> p1)"

definition with_filesystem_overrides ::
  "capability_policy \<Rightarrow> string option \<Rightarrow> string list option \<Rightarrow> string option \<Rightarrow> bool \<Rightarrow> capability_policy" where
  "with_filesystem_overrides p sroot dirs scope replace_dirs =
     (let p1 = (case sroot of None \<Rightarrow> p | Some r \<Rightarrow> p\<lparr>session_workspace_root := r\<rparr>);
          p2 = (case dirs of None \<Rightarrow> p1
                | Some ds \<Rightarrow> p1\<lparr>allowed_directories :=
                    (if replace_dirs then uniq ds
                     else allowed_directories p @ filter (\<lambda>d. d \<notin> set (allowed_directories p)) ds)\<rparr>)
      in case scope of None \<Rightarrow> p2 | Some s \<Rightarrow> p2\<lparr>filesystem_scope := PStr s\<rparr>)"

subsection \<open>Grants\<close>

record grant_store =
  session_grants :: "(string \<times> string) set"
  prompt_grants :: "(string \<times> string) set"
  session_dirs :: "lpath set"
  prompt_dirs :: "lpath set"

definition new_grants :: grant_store where
  "new_grants = \<lparr>session_grants = {}, prompt_grants = {}, session_dirs = {}, prompt_dirs = {}\<rparr>"

definition has_grant :: "grant_store \<Rightarrow> string \<Rightarrow> string \<Rightarrow> bool" where
  "has_grant g scope requested =
     ((scope, requested) \<in> session_grants g \<or> (scope, requested) \<in> prompt_grants g)"

definition add_grant :: "grant_store \<Rightarrow> string \<Rightarrow> string \<Rightarrow> string \<Rightarrow> grant_store" where
  "add_grant g scope requested grant_scope =
     (if grant_scope = ''session''
      then g\<lparr>session_grants := insert (scope, requested) (session_grants g)\<rparr>
      else g\<lparr>prompt_grants := insert (scope, requested) (prompt_grants g)\<rparr>)"

definition add_filesystem_dir_grant :: "fs \<Rightarrow> grant_store \<Rightarrow> lpath \<Rightarrow> string \<Rightarrow> grant_store option" where
  "add_filesystem_dir_grant F g dir grant_scope =
     map_option (\<lambda>d. if grant_scope = ''session'' then g\<lparr>session_dirs := insert d (session_dirs g)\<rparr>
                     else g\<lparr>prompt_dirs := insert d (prompt_dirs g)\<rparr>)
       (expand_resolve F dir)"

definition has_filesystem_dir_grant :: "grant_store \<Rightarrow> lpath \<Rightarrow> bool" where
  "has_filesystem_dir_grant g target =
     ((\<exists>d \<in> session_dirs g. target = d \<or> is_inside target d)
      \<or> (\<exists>d \<in> prompt_dirs g. target = d \<or> is_inside target d))"

definition clear_prompt_grants :: "grant_store \<Rightarrow> grant_store" where
  "clear_prompt_grants g = g\<lparr>prompt_grants := {}, prompt_dirs := {}\<rparr>"

definition str_field :: "pydict \<Rightarrow> string \<Rightarrow> string" where
  "str_field d k = py_str (py_or (dget d k) (PStr []))"

definition supported :: "pydict \<Rightarrow> string \<Rightarrow> bool" where
  "supported request grant_scope =
     (dget_or request (if grant_scope = ''prompt'' then ''temporary_supported'' else ''persistent_supported'')
        (PBool True) \<noteq> PBool False)"

definition apply_permission_grant ::
  "fs \<Rightarrow> grant_store \<Rightarrow> pydict \<Rightarrow> string \<Rightarrow> bool \<times> grant_store" where
  "apply_permission_grant F g request grant_scope =
     (let scope = str_field request ''scope''; requested = str_field request ''requested_scope'';
          path = str_field request ''path''
      in if grant_scope \<noteq> ''prompt'' \<and> grant_scope \<noteq> ''session'' then (False, g)
         else if \<not> supported request grant_scope then (False, g)
         else if scope = ''safety'' then (True, g)
         else if scope = ''filesystem'' \<and> path \<noteq> [] then
           (case expand_resolve F (parse_path path) of
              None \<Rightarrow> (False, g)
            | Some q \<Rightarrow>
                (case add_filesystem_dir_grant F g (if fs_is_dir F q then q else parent q) grant_scope of
                   None \<Rightarrow> (False, g)
                 | Some g' \<Rightarrow> (True, g')))
         else if scope = [] \<or> requested = [] then (False, g)
         else (True, add_grant g scope requested grant_scope))"

subsection \<open>The engine\<close>

record perm_engine =
  policy :: capability_policy
  workspace_dir :: lpath
  session_root :: lpath
  home_dir :: lpath
  allowed_dirs :: "lpath list"
  box_agent_dir :: "lpath option"
  builtin_skills_dir :: "lpath option"
  app_read_dirs :: "lpath list"

text \<open>What the process environment gives the constructor: the home directory, the agent's
  state directory and the bundled skills directory (\<open>None\<close> when the lookup raises), and the
  set environment variables that name program directories.\<close>

record env =
  env_home :: lpath
  env_state_dir :: "lpath option"
  env_skills_dir :: "lpath option"
  env_program_dirs :: "string list"

definition app_candidates :: "string list" where
  "app_candidates = [''/Applications'', ''/System/Applications'', ''/usr/bin'', ''/usr/local/bin'',
     ''/opt'', ''/snap/bin'']"

definition mk_engine :: "fs \<Rightarrow> env \<Rightarrow> capability_policy \<Rightarrow> lpath \<Rightarrow> perm_engine option" where
  "mk_engine F E p ws =
     Option.bind (fs_resolve F ws) (\<lambda>w.
     Option.bind (if session_workspace_root p \<noteq> []
                  then expand_resolve F (parse_path (session_workspace_root p)) else Some w) (\<lambda>sr.
     Option.bind (fs_resolve F (env_home E)) (\<lambda>h.
       Some \<lparr>policy = p, workspace_dir = w, session_root = sr, home_dir = h,
         allowed_dirs = List.map_filter (\<lambda>d. expand_resolve F (parse_path d)) (allowed_directories p),
         box_agent_dir = Option.bind (env_state_dir E) (fs_resolve F),
         builtin_skills_dir = Option.bind (env_skills_dir E) (fs_resolve F),
         app_read_dirs = uniq (List.map_filter (\<lambda>d. expand_resolve F (parse_path d))
            (app_candidates @ env_program_dirs E))\<rparr>)))"

datatype operation = Read | Write

text \<open>The walk up to the nearest ancestor that exists, on the reversed parts; the names below
  it are appended to its resolution as they are.\<close>

fun existing_ancestor :: "fs \<Rightarrow> string \<Rightarrow> string list \<Rightarrow> string list \<Rightarrow> lpath \<times> string list" where
  "existing_ancestor F r [] below = (\<lparr>root = r, parts = []\<rparr>, below)"
| "existing_ancestor F r (n # up) below =
     (if fs_exists F \<lparr>root = r, parts = rev (n # up)\<rparr> then (\<lparr>root = r, parts = rev (n # up)\<rparr>, below)
      else existing_ancestor F r up (n # below))"

definition resolve_for_check :: "fs \<Rightarrow> lpath \<Rightarrow> lpath option" where
  "resolve_for_check F p =
     (if fs_exists F p then fs_resolve F p
      else (let (cursor, below) = existing_ancestor F (root p) (rev (parts p)) []
            in map_option (\<lambda>q. foldl child q below) (fs_resolve F cursor)))"

definition inside_opt :: "lpath \<Rightarrow> lpath option \<Rightarrow> bool" where
  "inside_opt q d = (case d of None \<Rightarrow> False | Some d \<Rightarrow> is_inside q d)"

definition is_scratch :: "fs \<Rightarrow> lpath \<Rightarrow> bool" where
  "is_scratch F q = (take 10 (name_of q) = ''box_agent_''
     \<and> list_ex (\<lambda>d. inside_opt q (fs_resolve F (parse_path d))) [''/tmp'', ''/var/tmp''])"

definition path_allowed_by_scope ::
  "fs \<Rightarrow> perm_engine \<Rightarrow> lpath \<Rightarrow> pyval \<Rightarrow> operation \<Rightarrow> string option \<Rightarrow> bool" where
  "path_allowed_by_scope F e q scope operation tool =
     (if is_inside q (workspace_dir e) then True
      else if inside_opt q (box_agent_dir e) then True
      else if operation = Read \<and> inside_opt q (builtin_skills_dir e) then True
      else if is_scratch F q then True
      else if operation = Read \<and> tool \<noteq> Some ''bash'' \<and> list_ex (is_inside q) (app_read_dirs e) then True
      else if scope = PStr ''user_home''
      then is_inside q (home_dir e) \<or> list_ex (is_inside q) (allowed_dirs e)
      else if scope = PStr ''session_workspace'' \<or> scope = PStr ''custom''
      then is_inside q (session_root e) \<or> list_ex (is_inside q) (allowed_dirs e)
      else False)"

definition ascii_letter :: "char \<Rightarrow> bool" where
  "ascii_letter c = (let n = code_of c in (65 \<le> n \<and> n \<le> 90) \<or> (97 \<le> n \<and> n \<le> 122))"

definition backslash :: char where "backslash = char_of (92 :: nat)"

fun windows_path :: "string \<Rightarrow> bool" where
  "windows_path (a # b # c # cs) =
     ((ascii_letter a \<and> b = CHR '':'' \<and> (c = backslash \<or> c = slash)) \<or> (a = backslash \<and> b = backslash))"
| "windows_path [a, b] = (a = backslash \<and> b = backslash)"
| "windows_path _ = False"

definition compute_escalation :: "perm_engine \<Rightarrow> lpath \<Rightarrow> pyval \<Rightarrow> lpath \<Rightarrow> string option" where
  "compute_escalation e q scope requested =
     (if scope \<notin> {PStr ''session_workspace'', PStr ''custom'', PStr ''user_home''} then None
      else if scope \<in> {PStr ''session_workspace'', PStr ''custom''} \<and> is_inside q (home_dir e)
      then Some ''user_home''
      else if windows_path (path_str requested) then Some ''user_home''
      else None)"

record decision =
  allowed :: bool
  reason :: "string option"
  permission_request :: "pydict option"

definition allow :: decision where
  "allow = \<lparr>allowed = True, reason = None, permission_request = None\<rparr>"

definition deny :: "string \<Rightarrow> pydict option \<Rightarrow> decision" where
  "deny r req = \<lparr>allowed = False, reason = Some r, permission_request = req\<rparr>"

fun op_str :: "operation \<Rightarrow> string" where
  "op_str Read = ''read''"
| "op_str Write = ''write''"

definition always_allow_label :: string where
  "always_allow_label = ''always allow this directory''"

definition skill_read_only_error :: string where
  "skill_read_only_error =
     ''BUILTIN_SKILL_READ_ONLY: bundled Skill files cannot be changed by task tools. ''
     @ ''Write presentation artifacts in the task workspace. If a bundled script fails, ''
     @ ''report the error; do not patch the script or bypass its validator.''"

text \<open>\<open>builtin_skill_write_error\<close> resolves both its arguments again.\<close>

definition builtin_skill_write_error :: "fs \<Rightarrow> lpath \<Rightarrow> lpath \<Rightarrow> string option option" where
  "builtin_skill_write_error F q dir =
     Option.bind (fs_resolve F q) (\<lambda>q'. Option.bind (fs_resolve F dir) (\<lambda>d'.
       Some (if is_inside q' d' then Some skill_read_only_error else None)))"

definition filesystem_request :: "pyval \<Rightarrow> string \<Rightarrow> lpath \<Rightarrow> pydict" where
  "filesystem_request scope escalation path =
     [(''type'', PStr ''permission_request''), (''scope'', PStr ''filesystem''),
      (''requested_scope'', PStr escalation), (''path'', PStr (path_str path)),
      (''reason'', PStr (''Path is outside '' @ py_str scope)),
      (''temporary_supported'', PBool True), (''persistent_supported'', PBool True),
      (''persistent_label'', PStr always_allow_label)]"

definition effective_scope :: "grant_store option \<Rightarrow> pyval \<Rightarrow> pyval" where
  "effective_scope g scope =
     (case g of
        Some gs \<Rightarrow> if scope = PStr ''session_workspace'' \<and> has_grant gs ''filesystem'' ''user_home''
                  then PStr ''user_home'' else scope
      | None \<Rightarrow> scope)"

definition check_filesystem ::
  "fs \<Rightarrow> perm_engine \<Rightarrow> grant_store option \<Rightarrow> lpath \<Rightarrow> operation \<Rightarrow> string option \<Rightarrow> decision option" where
  "check_filesystem F e g path operation tool =
     Option.bind (resolve_for_check F path) (\<lambda>q.
     Option.bind (case builtin_skills_dir e of
                    Some d \<Rightarrow> if operation = Write then builtin_skill_write_error F q d else Some None
                  | None \<Rightarrow> Some None) (\<lambda>err.
       case err of
         Some m \<Rightarrow> Some (deny m None)
       | None \<Rightarrow>
           if (case g of Some gs \<Rightarrow> has_filesystem_dir_grant gs q | None \<Rightarrow> False) then Some allow
           else (let scope = effective_scope g (filesystem_scope (policy e))
                 in if path_allowed_by_scope F e q scope operation tool then Some allow
                    else (case compute_escalation e q scope path of
                      None \<Rightarrow> Some (deny (''Access denied: '' @ op_str operation @ '' to '' @ path_str path
                          @ '' (resolved: '' @ path_str q @ '') '' @ ''is outside all allowed scopes (active scope: ''
                          @ py_str scope @ '').'') None)
                    | Some esc \<Rightarrow> Some (deny (''Access denied: '' @ op_str operation @ '' to '' @ path_str path
                          @ '' is outside '' @ py_str scope @ ''.'') (Some (filesystem_request scope esc path)))))))"

definition memory_request :: pydict where
  "memory_request =
     [(''type'', PStr ''permission_request''), (''scope'', PStr ''memory''),
      (''requested_scope'', PStr ''openclaw_import''),
      (''reason'', PStr ''OpenClaw memory import is disabled''),
      (''temporary_supported'', PBool True), (''persistent_supported'', PBool True)]"

definition check_memory_openclaw :: "perm_engine \<Rightarrow> grant_store option \<Rightarrow> decision" where
  "check_memory_openclaw e g =
     (if truthy (openclaw_import_enabled (policy e)) then allow
      else if (case g of Some gs \<Rightarrow> has_grant gs ''memory'' ''openclaw_import'' | None \<Rightarrow> False) then allow
      else deny ''OpenClaw memory import is disabled by officev3 policy.''
        (Some memory_request))"

definition check ::
  "fs \<Rightarrow> perm_engine \<Rightarrow> grant_store option \<Rightarrow> string \<Rightarrow> string \<Rightarrow> string option \<Rightarrow> decision option" where
  "check F e g capability path tool =
     (if capability = ''filesystem.read'' then check_filesystem F e g (parse_path path) Read tool
      else if capability = ''filesystem.write'' then check_filesystem F e g (parse_path path) Write tool
      else if capability = ''memory.openclaw_import'' then Some (check_memory_openclaw e g)
      else Some (deny (''Unknown capability: '' @ capability) None))"

end
