(* ===== verification/ThinkTags.thy ===== *)
theory ThinkTags
  imports Prelude
begin

section \<open>Splitting inline think tags (box_agent/llm/think\_tag\_splitter.py)\<close>

text \<open>
  The streaming splitter keeps whether it is inside a think block and a held-back tail; the
  loop over \<open>pending\<close> is written on the remaining suffix \<open>pending[i:]\<close>. The whole-text
  splitter \<open>split_inline_think\<close> removes complete blocks (the non-greedy regular expression
  matches from the first open tag to the first close tag after it) and then cuts at an
  unterminated open tag. \<open>whole_split\<close> is the specification of the streaming splitter: the
  same scan over the whole text at once, with nothing held back.
\<close>

subsection \<open>Searching\<close>

definition occurs_at :: "string \<Rightarrow> string \<Rightarrow> nat \<Rightarrow> bool" where
  "occurs_at p s j = (take (length p) (drop j s) = p)"

fun find_sub :: "string \<Rightarrow> string \<Rightarrow> nat option" where
  "find_sub p [] = (if p = [] then Some 0 else None)"
| "find_sub p (c # cs) =
     (if take (length p) (c # cs) = p then Some 0 else map_option Suc (find_sub p cs))"

lemma find_sub_None: "find_sub p s = None \<longleftrightarrow> (\<forall>j \<le> length s. \<not> occurs_at p s j)"
proof (induction s)
  case (Cons c cs)
  have "(\<forall>j \<le> length (c # cs). \<not> occurs_at p (c # cs) j) \<longleftrightarrow>
      \<not> occurs_at p (c # cs) 0 \<and> (\<forall>j \<le> length cs. \<not> occurs_at p (c # cs) (Suc j))"
    by (intro iffI conjI allI impI) (auto, case_tac j, auto)
  with Cons show ?case by (auto simp: occurs_at_def)
qed (simp add: occurs_at_def)

lemma find_sub_Some:
  "find_sub p s = Some i \<longleftrightarrow> i \<le> length s \<and> occurs_at p s i \<and> (\<forall>j < i. \<not> occurs_at p s j)"
proof (induction s arbitrary: i)
  case (Cons c cs)
  show ?case
  proof (cases i)
    case 0
    then show ?thesis by (auto simp: occurs_at_def)
  next
    case (Suc k)
    have "(\<forall>j < Suc k. \<not> occurs_at p (c # cs) j) \<longleftrightarrow>
        \<not> occurs_at p (c # cs) 0 \<and> (\<forall>j < k. \<not> occurs_at p (c # cs) (Suc j))"
      by (auto simp: less_Suc_eq_0_disj)
    with Suc Cons show ?thesis by (auto simp: occurs_at_def)
  qed
qed (auto simp: occurs_at_def)

lemma occurs_at_bound: "occurs_at p s j \<Longrightarrow> p \<noteq> [] \<Longrightarrow> j + length p \<le> length s"
proof -
  assume o: "occurs_at p s j" and ne: "p \<noteq> []"
  then have "length (take (length p) (drop j s)) = length p" by (simp add: occurs_at_def)
  with ne show ?thesis by (cases "j \<le> length s") (auto simp: min_def split: if_splits)
qed

lemma occurs_at_nth: "occurs_at p s j \<Longrightarrow> m < length p \<Longrightarrow> s ! (j + m) = p ! m"
proof -
  assume o: "occurs_at p s j" and m: "m < length p"
  then have "j + length p \<le> length s" by (intro occurs_at_bound) auto
  then have "take (length p) (drop j s) ! m = s ! (j + m)" using m by simp
  with o show ?thesis by (simp add: occurs_at_def)
qed

lemma occurs_at_append: "j + length p \<le> length s \<Longrightarrow> occurs_at p (s @ t) j \<longleftrightarrow> occurs_at p s j"
  by (simp add: occurs_at_def)

lemma occurs_at_drop: "occurs_at p (drop k s) j \<longleftrightarrow> occurs_at p s (k + j)"
  by (simp add: occurs_at_def add.commute)

lemma find_sub_bound: "find_sub p s = Some i \<Longrightarrow> p \<noteq> [] \<Longrightarrow> i + length p \<le> length s"
  by (simp add: find_sub_Some occurs_at_bound)

lemma find_sub_append: "find_sub p s = Some i \<Longrightarrow> p \<noteq> [] \<Longrightarrow> find_sub p (s @ t) = Some i"
  using find_sub_bound [of p s i] by (auto simp: find_sub_Some occurs_at_append)

text \<open>Text before which no occurrence starts can be cut off.\<close>

lemma find_sub_cut:
  assumes "\<forall>j < k. \<not> occurs_at p u j" "k \<le> length u"
  shows "find_sub p u = map_option (\<lambda>i. k + i) (find_sub p (drop k u))"
proof (cases "find_sub p (drop k u)")
  case None
  then have "\<not> occurs_at p u j" if "j \<le> length u" for j
    using assms(1) that by (cases "j < k") (auto simp: find_sub_None occurs_at_drop dest: spec [of _ "j - k"])
  then have "find_sub p u = None" by (simp add: find_sub_None)
  with None show ?thesis by simp
next
  case (Some i)
  then have i: "i \<le> length u - k" "occurs_at p u (k + i)" "\<forall>j < i. \<not> occurs_at p u (k + j)"
    by (auto simp: find_sub_Some occurs_at_drop)
  have "\<not> occurs_at p u j" if "j < k + i" for j
    using assms(1) i(3) that by (cases "j < k") (auto dest: spec [of _ "j - k"])
  with i assms(2) have "find_sub p u = Some (k + i)" by (simp add: find_sub_Some)
  with Some show ?thesis by simp
qed

subsection \<open>The streaming splitter\<close>

definition OPEN_TAG :: string where "OPEN_TAG = ''<think>''"

definition CLOSE_TAG :: string where "CLOSE_TAG = ''</think>''"

definition max_tag_len :: nat where "max_tag_len = max (length OPEN_TAG) (length CLOSE_TAG)"

definition tag_of :: "bool \<Rightarrow> string" where
  "tag_of inside = (if inside then CLOSE_TAG else OPEN_TAG)"

record splitter =
  inside_think :: bool
  buffer :: string

text \<open>\<open>pending.rfind("<", tail_start, n)\<close>, with the position counted from \<open>i\<close>.\<close>

definition last_lt :: "string \<Rightarrow> nat option" where
  "last_lt s = (let r = takeWhile (\<lambda>c. c \<noteq> CHR ''<'') (rev s)
     in if length r = length s then None else Some (length s - 1 - length r))"

definition hold_from :: "string \<Rightarrow> nat option" where
  "hold_from rest = (let tail_start = length rest - (max_tag_len - 1)
     in case last_lt rest of
          None \<Rightarrow> None
        | Some lt \<Rightarrow> if tail_start \<le> lt then Some lt else None)"

type_synonym pieces = "string \<times> string"

definition emit :: "bool \<Rightarrow> string \<Rightarrow> pieces" where
  "emit inside piece = (if inside then ([], piece) else (piece, []))"

definition join :: "pieces \<Rightarrow> pieces \<Rightarrow> pieces" where
  "join a b = (fst a @ fst b, snd a @ snd b)"

lemma tag_nonempty [simp]: "tag_of b \<noteq> []"
  by (simp add: tag_of_def OPEN_TAG_def CLOSE_TAG_def)

lemma length_tag: "0 < length (tag_of b)" "length (tag_of b) \<le> max_tag_len" "max_tag_len = 8"
  by (simp_all add: tag_of_def OPEN_TAG_def CLOSE_TAG_def max_tag_len_def)

function process_loop :: "bool \<Rightarrow> string \<Rightarrow> pieces \<times> splitter" where
  "process_loop inside rest =
     (if rest = [] then (([], []), \<lparr>inside_think = inside, buffer = []\<rparr>)
      else case find_sub (tag_of inside) rest of
        None \<Rightarrow> (case hold_from rest of
            Some lt \<Rightarrow> (emit inside (take lt rest), \<lparr>inside_think = inside, buffer = drop lt rest\<rparr>)
          | None \<Rightarrow> (emit inside rest, \<lparr>inside_think = inside, buffer = []\<rparr>))
      | Some idx \<Rightarrow>
          (let (out, st) = process_loop (\<not> inside) (drop (idx + length (tag_of inside)) rest)
           in (join (emit inside (take idx rest)) out, st)))"
  by pat_completeness auto
termination
  using length_tag by (relation "measure (\<lambda>(inside, rest). length rest)") auto

declare process_loop.simps [simp del]

definition process_text :: "splitter \<Rightarrow> string \<Rightarrow> pieces \<times> splitter" where
  "process_text st text = process_loop (inside_think st) (buffer st @ text)"

definition flush :: "splitter \<Rightarrow> pieces \<times> splitter" where
  "flush st = (if buffer st = [] then (([], []), st)
     else (emit (inside_think st) (buffer st), st\<lparr>buffer := []\<rparr>))"

subsection \<open>The stream of events\<close>

datatype stream_event = TextEv "string option" | ThinkEv string | OtherEv string

definition out_events :: "pieces \<Rightarrow> stream_event list" where
  "out_events p = (if snd p \<noteq> [] then [ThinkEv (snd p)] else [])
     @ (if fst p \<noteq> [] then [TextEv (Some (fst p))] else [])"

fun unwrap_from :: "splitter \<Rightarrow> stream_event list \<Rightarrow> stream_event list" where
  "unwrap_from st [] = out_events (fst (flush st))"
| "unwrap_from st (TextEv d # es) =
     (let (p, st') = process_text st (case d of None \<Rightarrow> [] | Some x \<Rightarrow> x)
      in out_events p @ unwrap_from st' es)"
| "unwrap_from st (e # es) = e # unwrap_from st es"

definition unwrap_think_tags :: "stream_event list \<Rightarrow> stream_event list" where
  "unwrap_think_tags es = unwrap_from \<lparr>inside_think = False, buffer = []\<rparr> es"

subsection \<open>The whole-text splitter\<close>

function sub_blocks :: "string \<Rightarrow> string \<times> string list" where
  "sub_blocks s = (case find_sub OPEN_TAG s of
     None \<Rightarrow> (s, [])
   | Some i \<Rightarrow> (case find_sub CLOSE_TAG (drop (i + length OPEN_TAG) s) of
        None \<Rightarrow> (s, [])
      | Some j \<Rightarrow>
          (let r = drop (i + length OPEN_TAG) s;
               (t, hs) = sub_blocks (drop (j + length CLOSE_TAG) r)
           in (take i s @ t, take j r # hs))))"
  by pat_completeness auto
termination
  by (relation "measure length") (auto simp: OPEN_TAG_def dest: find_sub_bound)

declare sub_blocks.simps [simp del]

definition split_inline_think :: "string \<Rightarrow> pieces" where
  "split_inline_think content =
     (if find_sub OPEN_TAG content = None then (content, [])
      else (let (cleaned, parts) = sub_blocks content
            in case find_sub OPEN_TAG cleaned of
                 None \<Rightarrow> (cleaned, concat parts)
               | Some k \<Rightarrow> (take k cleaned, concat parts @ drop (k + length OPEN_TAG) cleaned)))"

subsection \<open>The specification: one scan over the whole text\<close>

function whole_split :: "bool \<Rightarrow> string \<Rightarrow> pieces" where
  "whole_split inside s = (case find_sub (tag_of inside) s of
     None \<Rightarrow> emit inside s
   | Some idx \<Rightarrow> join (emit inside (take idx s))
       (whole_split (\<not> inside) (drop (idx + length (tag_of inside)) s)))"
  by pat_completeness auto
termination
proof (relation "measure (\<lambda>(inside, s). length s)", goal_cases)
  case (2 inside s i)
  then have "i + length (tag_of inside) \<le> length s" by (simp add: find_sub_bound)
  with length_tag(1) [of inside] have "length s - (i + length (tag_of inside)) < length s"
    by linarith
  then show ?case by simp
qed simp

declare whole_split.simps [simp del]

lemma join_assoc: "join (join a b) c = join a (join b c)"
  by (simp add: join_def)

lemma join_empty [simp]: "join ([], []) p = p" "join p ([], []) = p"
  by (simp_all add: join_def)

lemma emit_append: "emit b (s @ t) = join (emit b s) (emit b t)"
  by (simp add: emit_def join_def)

lemma emit_Nil [simp]: "emit b [] = ([], [])"
  by (simp add: emit_def)

text \<open>A prefix in which no tag starts is emitted as it is.\<close>

lemma whole_split_cut:
  assumes "\<forall>j < length a. \<not> occurs_at (tag_of b) (a @ u) j"
  shows "whole_split b (a @ u) = join (emit b a) (whole_split b u)"
proof -
  have f: "find_sub (tag_of b) (a @ u) = map_option (\<lambda>i. length a + i) (find_sub (tag_of b) u)"
    using find_sub_cut [OF assms] by simp
  show ?thesis
  proof (cases "find_sub (tag_of b) u")
    case None
    with f show ?thesis by (simp add: whole_split.simps emit_append)
  next
    case (Some i)
    with f show ?thesis
      by (subst (1 2) whole_split.simps)
         (simp add: emit_append join_assoc add.assoc del: join_empty)
  qed
qed

subsection \<open>Holding back the last angle bracket is enough\<close>

lemma last_lt_None: "last_lt s = None \<longleftrightarrow> CHR ''<'' \<notin> set s"
proof -
  have "length (takeWhile (\<lambda>c. c \<noteq> CHR ''<'') (rev s)) = length s \<longleftrightarrow>
      takeWhile (\<lambda>c. c \<noteq> CHR ''<'') (rev s) = rev s"
    by (metis length_rev takeWhile_eq_take take_all_iff order_refl)
  also have "\<dots> \<longleftrightarrow> CHR ''<'' \<notin> set s"
    by (auto simp: takeWhile_eq_all_conv)
  finally show ?thesis by (simp add: last_lt_def Let_def)
qed

lemma last_lt_Some:
  assumes "last_lt s = Some k"
  shows "k < length s" "s ! k = CHR ''<''" "\<forall>j. k < j \<and> j < length s \<longrightarrow> s ! j \<noteq> CHR ''<''"
proof -
  let ?r = "takeWhile (\<lambda>c. c \<noteq> CHR ''<'') (rev s)"
  from assms have ne: "length ?r \<noteq> length s" and k: "k = length s - 1 - length ?r"
    by (auto simp: last_lt_def Let_def split: if_splits)
  have le: "length ?r \<le> length s" by (metis length_rev length_takeWhile_le)
  with ne have lt: "length ?r < length s" by simp
  with k show "k < length s" by simp
  have "rev s ! length ?r = CHR ''<''"
    using nth_length_takeWhile [of "\<lambda>c. c \<noteq> CHR ''<''" "rev s"] lt by simp
  with lt k show "s ! k = CHR ''<''" by (simp add: rev_nth)
  show "\<forall>j. k < j \<and> j < length s \<longrightarrow> s ! j \<noteq> CHR ''<''"
  proof (intro allI impI)
    fix j assume j: "k < j \<and> j < length s"
    let ?m = "length s - 1 - j"
    from j k lt have m: "?m < length ?r" by linarith
    then have "?r ! ?m = rev s ! ?m" by (rule takeWhile_nth)
    also have "\<dots> = s ! j"
    proof -
      have "rev s ! ?m = s ! (length s - Suc ?m)" using j by (intro rev_nth) linarith
      moreover have "length s - Suc ?m = j" using j by linarith
      ultimately show ?thesis by simp
    qed
    finally have eq: "?r ! ?m = s ! j" .
    have "?r ! ?m \<in> set ?r" using m by (rule nth_mem)
    from set_takeWhileD [OF this] have "?r ! ?m \<noteq> CHR ''<''" by (rule conjunct2)
    with eq show "s ! j \<noteq> CHR ''<''" by simp
  qed
qed

lemma tag_lt: "m < length (tag_of b) \<Longrightarrow> tag_of b ! m = CHR ''<'' \<longleftrightarrow> m = 0"
proof -
  assume m: "m < length (tag_of b)"
  obtain r where r: "tag_of b = CHR ''<'' # r" "CHR ''<'' \<notin> set r"
    by (cases b) (simp_all add: tag_of_def OPEN_TAG_def CLOSE_TAG_def)
  show ?thesis
  proof (cases m)
    case (Suc k)
    with m r have "r ! k \<in> set r" by simp
    with r Suc show ?thesis by (metis nat.distinct(1) nth_Cons_Suc)
  qed (simp add: r)
qed

text \<open>Where no tag lies in \<open>rest\<close>, none starts before the held position in any extension.\<close>

lemma no_tag_before_hold:
  assumes none: "find_sub (tag_of b) rest = None"
    and k: "k = (case hold_from rest of Some lt \<Rightarrow> lt | None \<Rightarrow> length rest)" and j: "j < k"
  shows "\<not> occurs_at (tag_of b) (rest @ t) j"
proof
  assume o: "occurs_at (tag_of b) (rest @ t) j"
  have k_le: "k \<le> length rest"
    using k last_lt_Some(1) by (auto simp: hold_from_def Let_def split: option.splits if_splits) fastforce
  from none k_le j have "\<not> occurs_at (tag_of b) rest j" by (simp add: find_sub_None)
  with o have over: "length rest < j + length (tag_of b)" by (metis occurs_at_append not_less)
  have lt_at: "rest ! j = CHR ''<''"
    using occurs_at_nth [OF o, of 0] length_tag tag_lt [of 0 b] j k_le by (simp add: nth_append)
  then have "CHR ''<'' \<in> set rest" using j k_le by (metis nth_mem order_less_le_trans)
  then obtain q where q: "last_lt rest = Some q" by (metis last_lt_None not_None_eq)
  note q' = last_lt_Some [OF q]
  from q'(3) lt_at j k_le have "j \<le> q" by (metis leI order_less_le_trans)
  moreover have "length rest - (max_tag_len - 1) \<le> j" using over length_tag(2) [of b] by linarith
  ultimately have "hold_from rest = Some q" by (simp add: hold_from_def q)
  with k have "k = q" by simp
  have "q - j < length (tag_of b)" using q'(1) over j \<open>k = q\<close> by linarith
  from occurs_at_nth [OF o this] have "tag_of b ! (q - j) = CHR ''<''"
    using q'(1,2) \<open>j \<le> q\<close> by (simp add: nth_append)
  with tag_lt [OF \<open>q - j < length (tag_of b)\<close>] j \<open>k = q\<close> show False by simp
qed

subsection \<open>Feeding chunks is scanning the whole text\<close>

lemma process_loop_whole:
  "process_loop b rest = (out, st) \<Longrightarrow>
   whole_split b (rest @ t) = join out (whole_split (inside_think st) (buffer st @ t))
   \<and> find_sub (tag_of (inside_think st)) (buffer st) = None \<and> length (buffer st) < max_tag_len"
proof (induction b rest arbitrary: out st rule: process_loop.induct)
  case (1 b rest)
  show ?case
  proof (cases "rest = []")
    case True
    with "1.prems" show ?thesis by (auto simp: process_loop.simps length_tag)
  next
    case False
    show ?thesis
    proof (cases "find_sub (tag_of b) rest")
      case None
      define k where k: "k = (case hold_from rest of Some lt \<Rightarrow> lt | None \<Rightarrow> length rest)"
      from None False "1.prems" have eq: "out = emit b (take k rest)" "inside_think st = b"
        "buffer st = drop k rest"
        by (auto simp: process_loop.simps [of b rest] k split: option.splits)
      have "whole_split b (take k rest @ (drop k rest @ t)) =
          join (emit b (take k rest)) (whole_split b (drop k rest @ t))"
        using no_tag_before_hold [OF None k, of _ t]
        by (intro whole_split_cut) (simp add: append_assoc [symmetric] del: append_assoc)
      moreover have "find_sub (tag_of b) (drop k rest) = None"
        using None by (auto simp: find_sub_None occurs_at_drop) (metis add_le_imp_le_diff le_add_diff_inverse nat_le_linear occurs_at_bound tag_nonempty add.commute le_trans le_add1)
      moreover have "length (drop k rest) < max_tag_len"
        using k length_tag(3) by (auto simp: hold_from_def Let_def split: option.splits if_splits)
      ultimately show ?thesis
        using eq by (simp only: append_assoc [symmetric] append_take_drop_id)
    next
      case (Some idx)
      let ?r = "drop (idx + length (tag_of b)) rest"
      obtain out' st' where rec: "process_loop (\<not> b) ?r = (out', st')" by fastforce
      with Some False "1.prems" have eq: "out = join (emit b (take idx rest)) out'" "st = st'"
        by (auto simp: process_loop.simps [of b rest])
      note IH = "1.IH" [OF False Some rec]
      from Some have bound: "idx + length (tag_of b) \<le> length rest"
        by (simp add: find_sub_bound)
      have "find_sub (tag_of b) (rest @ t) = Some idx" using Some by (simp add: find_sub_append)
      then have "whole_split b (rest @ t) = join (emit b (take idx rest)) (whole_split (\<not> b) (?r @ t))"
        using bound by (simp add: whole_split.simps [of b "rest @ t"])
      with IH eq show ?thesis by (simp add: join_assoc)
    qed
  qed
qed

text \<open>The contract of a splitter fed chunk by chunk: every chunk emits a prefix of what the
  whole text gives, and the final flush emits the rest.\<close>

locale chunk_feeder =
  fixes feed :: "'s \<Rightarrow> 'a list \<Rightarrow> pieces \<times> 's"
    and finish :: "'s \<Rightarrow> pieces"
    and whole :: "'s \<Rightarrow> 'a list \<Rightarrow> pieces"
    and ready :: "'s \<Rightarrow> bool"
  assumes feed_whole: "ready s \<Longrightarrow> whole s (xs @ ys) = join (fst (feed s xs)) (whole (snd (feed s xs)) ys)"
    and feed_ready: "ready s \<Longrightarrow> ready (snd (feed s xs))"
    and finish_whole: "ready s \<Longrightarrow> whole s [] = finish s"
begin

fun feed_all :: "'s \<Rightarrow> 'a list list \<Rightarrow> pieces" where
  "feed_all s [] = finish s"
| "feed_all s (xs # xss) = join (fst (feed s xs)) (feed_all (snd (feed s xs)) xss)"

lemma feed_all_whole: "ready s \<Longrightarrow> feed_all s xss = whole s (concat xss)"
  by (induction xss arbitrary: s) (simp_all add: finish_whole feed_ready feed_whole)

lemma chunking_irrelevant: "ready s \<Longrightarrow> concat xss = concat yss \<Longrightarrow> feed_all s xss = feed_all s yss"
  by (simp add: feed_all_whole)

end

definition held_ok :: "splitter \<Rightarrow> bool" where
  "held_ok st = (find_sub (tag_of (inside_think st)) (buffer st) = None)"

definition whole_from :: "splitter \<Rightarrow> string \<Rightarrow> pieces" where
  "whole_from st s = whole_split (inside_think st) (buffer st @ s)"

interpretation think: chunk_feeder process_text "\<lambda>st. fst (flush st)" whole_from held_ok
proof
  fix s :: splitter and xs ys :: string
  obtain out st where p: "process_text s xs = (out, st)" by fastforce
  then have "process_loop (inside_think s) (buffer s @ xs) = (out, st)" by (simp add: process_text_def)
  note w = process_loop_whole [OF this]
  from w p show "whole_from s (xs @ ys) = join (fst (process_text s xs)) (whole_from (snd (process_text s xs)) ys)"
    by (simp add: whole_from_def)
  from w p show "held_ok (snd (process_text s xs))" by (simp add: held_ok_def)
  show "held_ok s \<Longrightarrow> whole_from s [] = fst (flush s)"
    by (simp add: whole_from_def held_ok_def flush_def whole_split.simps)
qed

subsection \<open>The event stream\<close>

fun texts_of :: "stream_event list \<Rightarrow> string" where
  "texts_of [] = []"
| "texts_of (TextEv d # es) = (case d of None \<Rightarrow> [] | Some x \<Rightarrow> x) @ texts_of es"
| "texts_of (ThinkEv d # es) = texts_of es"
| "texts_of (OtherEv d # es) = texts_of es"

fun thinks_of :: "stream_event list \<Rightarrow> string" where
  "thinks_of [] = []"
| "thinks_of (TextEv d # es) = thinks_of es"
| "thinks_of (ThinkEv d # es) = d @ thinks_of es"
| "thinks_of (OtherEv d # es) = thinks_of es"

fun is_think :: "stream_event \<Rightarrow> bool" where
  "is_think (ThinkEv d) = True"
| "is_think _ = False"

fun is_other :: "stream_event \<Rightarrow> bool" where
  "is_other (OtherEv d) = True"
| "is_other _ = False"

lemma texts_of_append [simp]: "texts_of (a @ b) = texts_of a @ texts_of b"
  by (induction a rule: texts_of.induct) simp_all

lemma thinks_of_append [simp]: "thinks_of (a @ b) = thinks_of a @ thinks_of b"
  by (induction a rule: thinks_of.induct) simp_all

lemma out_events_texts [simp]: "texts_of (out_events p) = fst p" "thinks_of (out_events p) = snd p"
  "filter is_other (out_events p) = []"
  by (simp_all add: out_events_def)

lemma unwrap_texts:
  "held_ok st \<Longrightarrow> texts_of (unwrap_from st es) = fst (whole_from st (texts_of es))"
proof (induction st es rule: unwrap_from.induct)
  case (1 st)
  then show ?case by (simp add: think.finish_whole)
next
  case (2 st d es)
  let ?x = "case d of None \<Rightarrow> [] | Some x \<Rightarrow> x"
  obtain p st' where p: "process_text st ?x = (p, st')" by fastforce
  have "texts_of (unwrap_from st' es) = fst (whole_from st' (texts_of es))"
    using "2.IH" p think.feed_ready [OF "2.prems", of ?x] by fastforce
  then show ?case
    using think.feed_whole [OF "2.prems", of ?x "texts_of es"] p by (simp add: join_def)
qed auto

lemma unwrap_thinks:
  "held_ok st \<Longrightarrow> list_all (\<lambda>e. \<not> is_think e) es \<Longrightarrow>
   thinks_of (unwrap_from st es) = snd (whole_from st (texts_of es))"
proof (induction st es rule: unwrap_from.induct)
  case (1 st)
  then show ?case by (simp add: think.finish_whole)
next
  case (2 st d es)
  let ?x = "case d of None \<Rightarrow> [] | Some x \<Rightarrow> x"
  obtain p st' where p: "process_text st ?x = (p, st')" by fastforce
  have "thinks_of (unwrap_from st' es) = snd (whole_from st' (texts_of es))"
    using "2.IH" p think.feed_ready [OF "2.prems"(1), of ?x] "2.prems"(2) by fastforce
  then show ?case
    using think.feed_whole [OF "2.prems"(1), of ?x "texts_of es"] p by (simp add: join_def)
qed auto

lemma unwrap_others: "filter is_other (unwrap_from st es) = filter is_other es"
  by (induction st es rule: unwrap_from.induct) (auto split: prod.splits)

lemma held_ok_init [simp]: "held_ok \<lparr>inside_think = b, buffer = []\<rparr>"
  by (simp add: held_ok_def find_sub.simps)

subsection \<open>The regular-expression pass and the scan\<close>

lemma find_sub_after:
  assumes "find_sub (tag_of b) a = None"
  shows "find_sub (tag_of b) (a @ tag_of b @ u) = Some (length a)"
proof -
  have "\<not> occurs_at (tag_of b) (a @ tag_of b @ u) j" if j: "j < length a" for j
  proof
    assume o: "occurs_at (tag_of b) (a @ tag_of b @ u) j"
    from assms j have "\<not> occurs_at (tag_of b) a j" by (simp add: find_sub_None)
    with o have over: "length a < j + length (tag_of b)" by (metis occurs_at_append not_less)
    then have m: "length a - j < length (tag_of b)" using j by linarith
    from occurs_at_nth [OF o m] j have "tag_of b ! (length a - j) = tag_of b ! 0"
      by (simp add: nth_append)
    with tag_lt [OF m] tag_lt [of 0 b] length_tag(1) [of b] j show False by simp
  qed
  moreover have "occurs_at (tag_of b) (a @ tag_of b @ u) (length a)" by (simp add: occurs_at_def)
  ultimately show ?thesis by (simp add: find_sub_Some)
qed

lemma find_sub_decomp: "find_sub p s = Some i \<Longrightarrow> s = take i s @ p @ drop (i + length p) s"
  by (metis add.commute append_take_drop_id drop_drop find_sub_Some occurs_at_def)

lemma sub_blocks_scan:
  "sub_blocks s = (cl, ps) \<Longrightarrow> W = whole_split False s \<Longrightarrow>
   W = (cl, concat ps) \<or> (\<exists>u. cl = fst W @ OPEN_TAG @ u \<and> snd W = concat ps @ u)"
proof (induction s arbitrary: cl ps W rule: sub_blocks.induct)
  case (1 s)
  show ?case
  proof (cases "find_sub OPEN_TAG s")
    case None
    then have "whole_split False s = (s, [])" "sub_blocks s = (s, [])"
      by (simp_all add: sub_blocks.simps [of s] whole_split.simps [of False s] tag_of_def emit_def)
    with "1.prems" show ?thesis by simp
  next
    case open_at: (Some i)
    let ?r = "drop (i + length OPEN_TAG) s"
    have W: "W = join (take i s, []) (whole_split True ?r)"
      using "1.prems"(2) open_at by (simp add: whole_split.simps [of False s] tag_of_def emit_def)
    show ?thesis
    proof (cases "find_sub CLOSE_TAG ?r")
      case None
      then have "W = (take i s, ?r)"
        using W by (simp add: whole_split.simps [of True ?r] tag_of_def emit_def join_def)
      moreover have "cl = s" "ps = []"
        using "1.prems"(1) open_at None by (simp_all add: sub_blocks.simps [of s])
      ultimately show ?thesis using find_sub_decomp [OF open_at] by simp
    next
      case close_at: (Some j)
      let ?t = "drop (j + length CLOSE_TAG) ?r"
      obtain t hs where t: "sub_blocks ?t = (t, hs)" by fastforce
      have eq: "cl = take i s @ t" "ps = take j ?r # hs"
        using "1.prems"(1) open_at close_at t
        by (simp_all add: sub_blocks.simps [of s] del: drop_drop)
      have "whole_split True ?r = join ([], take j ?r) (whole_split False ?t)"
        using close_at by (simp add: whole_split.simps [of True ?r] tag_of_def emit_def del: drop_drop)
      with W have "W = (take i s @ fst (whole_split False ?t), take j ?r @ snd (whole_split False ?t))"
        by (simp add: join_def)
      with "1.IH" [OF open_at close_at refl t refl] eq
      show ?thesis by (auto simp: prod_eq_iff simp del: drop_drop)
    qed
  qed
qed

subsection \<open>Properties\<close>

text \<open>C8. However a provider cuts its text into deltas, the text events that
  \<open>unwrap_think_tags\<close> yields concatenate to the visible part of the whole text, and, when
  the provider sends no thinking events of its own, the thinking events to the text
  inside the think blocks; every other event passes through once and in order.\<close>

theorem think_stream_is_whole_scan:
  "texts_of (unwrap_think_tags es) = fst (whole_split False (texts_of es))
   \<and> filter is_other (unwrap_think_tags es) = filter is_other es
   \<and> (list_all (\<lambda>e. \<not> is_think e) es \<longrightarrow>
       thinks_of (unwrap_think_tags es) = snd (whole_split False (texts_of es)))"
  by (simp add: unwrap_think_tags_def unwrap_texts unwrap_thinks unwrap_others whole_from_def)

theorem think_stream_is_whole_scan_witness:
  "(let es = [TextEv (Some ''a<thi''), OtherEv ''usage'', TextEv None, TextEv (Some ''nk>b</th''),
             TextEv (Some ''ink>c'')]
   in thinks_of (unwrap_think_tags es) = ''b'' \<and> texts_of (unwrap_think_tags es) = ''ac'')"
proof -
  let ?es = "[TextEv (Some ''a<thi''), OtherEv ''usage'', TextEv None, TextEv (Some ''nk>b</th''),
             TextEv (Some ''ink>c'')]"
  have ok: "list_all (\<lambda>e. \<not> is_think e) ?es" by simp
  have "whole_split False (texts_of ?es) = (''ac'', ''b'')" by code_simp
  with ok show ?thesis using think_stream_is_whole_scan [of ?es] by (simp only: Let_def) simp
qed

text \<open>The splitter never withholds more than seven characters between two chunks, and
  withholds nothing in which its next tag is complete.\<close>

theorem think_held_tail_bounded:
  "length (buffer (snd (process_text st text))) \<le> 7
   \<and> held_ok (snd (process_text st text))"
proof -
  obtain out st' where p: "process_loop (inside_think st) (buffer st @ text) = (out, st')" by fastforce
  from process_loop_whole [OF p] have "length (buffer st') < 8" "held_ok st'"
    by (simp_all add: held_ok_def length_tag(3))
  with p show ?thesis by (simp add: process_text_def)
qed

text \<open>C10. The whole-text splitter \<open>split_inline_think\<close> gives what the streaming splitter
  gives on the same text, for every content whose visible part spells no open tag.\<close>

theorem think_whole_text_agrees:
  assumes "find_sub OPEN_TAG (fst (whole_split False content)) = None"
  shows "split_inline_think content =
    (let out = unwrap_think_tags [TextEv (Some content)] in (texts_of out, thinks_of out))"
proof -
  let ?W = "whole_split False content"
  have stream: "(let out = unwrap_think_tags [TextEv (Some content)] in (texts_of out, thinks_of out)) = ?W"
    by (simp add: unwrap_think_tags_def unwrap_texts unwrap_thinks whole_from_def prod_eq_iff
        Let_def del: unwrap_from.simps)
  obtain cl ps where b: "sub_blocks content = (cl, ps)" by fastforce
  consider "?W = (cl, concat ps)"
    | u where "cl = fst ?W @ OPEN_TAG @ u" "snd ?W = concat ps @ u"
    using sub_blocks_scan [OF b refl] by blast
  then have "split_inline_think content = ?W"
  proof cases
    case 1
    with assms b show ?thesis
      by (auto simp: split_inline_think_def whole_split.simps [of False content] tag_of_def emit_def)
  next
    case 2
    have "find_sub OPEN_TAG cl = Some (length (fst ?W))"
      using find_sub_after [of False "fst ?W" u] assms 2 by (simp add: tag_of_def)
    moreover from this b have "find_sub OPEN_TAG content \<noteq> None"
      by (cases "find_sub OPEN_TAG content") (simp_all add: sub_blocks.simps [of content])
    ultimately have "split_inline_think content = (fst ?W, concat ps @ u)"
      using 2 by (auto simp: split_inline_think_def b)
    with 2 show ?thesis by (simp add: prod_eq_iff)
  qed
  with stream show ?thesis by simp
qed

theorem think_whole_text_agrees_witness:
  "split_inline_think ''a<think>b</think>c<think>d'' = (''ac'', ''bd'')"
proof -
  have "find_sub OPEN_TAG (fst (whole_split False ''a<think>b</think>c<think>d'')) = None" by code_simp
  from think_whole_text_agrees [OF this] show ?thesis
    by (rule trans) code_simp
qed

text \<open>Without that condition they differ: text that joins across a removed block into an
  open tag is visible to the user while streaming, and becomes thinking when the same
  response is not streamed.\<close>

lemma think_paths_diverge:
  "split_inline_think ''<thi<think>x</think>nk>rest'' = ([], ''xrest'')"
  "(let out = unwrap_think_tags [TextEv (Some ''<thi<think>x</think>nk>rest'')]
    in (texts_of out, thinks_of out)) = (''<think>rest'', ''x'')"
  by code_simp+

end
