(* ===== verification/ContextResources.thy ===== *)
theory ContextResources
  imports Messages Invocation Permissions ThinkTags "HOL-Library.Product_Lexorder"
begin

section \<open>Read files in the model's context (context_resources.py, tools/file_result_adapter.py)\<close>

text \<open>
  A \<open>read_file\<close> result whose lines are already in the conversation is replaced by a short
  receipt. \<open>ContextResourceLedger\<close> remembers which tool messages hold complete file pages; before
  it is asked for a cover it drops every source whose message no longer stands unchanged in the
  conversation. \<open>_context_resource_history_decision\<close> chooses between the page and the receipt and
  \<open>_record_context_resource_history\<close> updates the ledger after the message was committed.

  The SHA-256 digest is the parameter \<open>sha\<close>; \<open>int()\<close> of a float is the parameter \<open>float_int\<close> on its
  \<open>repr\<close>. The insertion-ordered dictionaries are association lists, the set of refreshed versions
  is a list without duplicates.
\<close>

subsection \<open>Descriptors\<close>

datatype resource_class = InstructionPinned | Reconstructable | NonReconstructable

definition class_value :: "resource_class \<Rightarrow> string" where
  "class_value c = (case c of InstructionPinned \<Rightarrow> ''instruction_pinned''
     | Reconstructable \<Rightarrow> ''reconstructable'' | NonReconstructable \<Rightarrow> ''non_reconstructable'')"

definition class_of :: "string \<Rightarrow> resource_class option" where
  "class_of s = (if s = ''instruction_pinned'' then Some InstructionPinned
     else if s = ''reconstructable'' then Some Reconstructable
     else if s = ''non_reconstructable'' then Some NonReconstructable else None)"

record resource =
  rd_id :: string
  rd_version :: string
  rd_start :: int
  rd_end :: int
  rd_total :: int
  rd_class :: resource_class

definition has_content :: "resource \<Rightarrow> bool" where
  "has_content d = (0 < rd_start d \<and> rd_start d \<le> rd_end d)"

definition as_raw_output :: "resource \<Rightarrow> pydict" where
  "as_raw_output d = [(''resource_id'', PStr (rd_id d)), (''content_version'', PStr (rd_version d)),
     (''start_line'', PInt (rd_start d)), (''end_line'', PInt (rd_end d)), (''total_lines'', PInt (rd_total d)),
     (''resource_class'', PStr (class_value (rd_class d)))]"

text \<open>\<open>int(v)\<close>: \<open>Inr None\<close> is \<open>TypeError\<close> or \<open>ValueError\<close>, which the caller catches; the
  \<open>OverflowError\<close> of an infinite float is not caught. Text may hold single underscores between
  digits, a sign and surrounding blanks, and at most 4300 digits.\<close>

datatype float_reply = Whole int | NotANumber | Infinite

fun digit_groups :: "bool \<Rightarrow> string \<Rightarrow> bool" where
  "digit_groups after_digit [] = after_digit"
| "digit_groups after_digit (c # cs) = (if ascii_digit c then digit_groups True cs
     else c = CHR ''_'' \<and> after_digit \<and> digit_groups False cs)"

definition int_of_text :: "string \<Rightarrow> int option" where
  "int_of_text s =
     (let t = py_strip s;
          negative = (take 1 t = ''-'');
          body = (if take 1 t \<in> {''-'', ''+''} then drop 1 t else t);
          digits = filter ascii_digit body
      in if digit_groups False body \<and> length digits \<le> 4300
         then Some (if negative then - int (digits_val digits) else int (digits_val digits)) else None)"

definition to_int :: "(string \<Rightarrow> float_reply) \<Rightarrow> pyval \<Rightarrow> exc + int option" where
  "to_int float_int v = (case v of
     PBool b \<Rightarrow> Inr (Some (if b then 1 else 0))
   | PInt i \<Rightarrow> Inr (Some i)
   | PFloat r \<Rightarrow> (case float_int r of
       Whole i \<Rightarrow> Inr (Some i)
     | NotANumber \<Rightarrow> Inr None
     | Infinite \<Rightarrow> Inl (OtherError ''OverflowError'' ''cannot convert float infinity to integer''))
   | PStr s \<Rightarrow> Inr (int_of_text s)
   | _ \<Rightarrow> Inr None)"

definition field_int :: "(string \<Rightarrow> float_reply) \<Rightarrow> pydict \<Rightarrow> string \<Rightarrow> exc + int option" where
  "field_int float_int d k = (case map_of d k of None \<Rightarrow> Inr None | Some v \<Rightarrow> to_int float_int v)"

definition bind_field :: "exc + 'a option \<Rightarrow> ('a \<Rightarrow> exc + 'b option) \<Rightarrow> exc + 'b option" where
  "bind_field r f = (case r of Inl e \<Rightarrow> Inl e | Inr None \<Rightarrow> Inr None | Inr (Some a) \<Rightarrow> f a)"

definition payload_of :: "pydict option \<Rightarrow> pydict option" where
  "payload_of raw = (case raw of None \<Rightarrow> None
     | Some d \<Rightarrow> (case dget d ''context_resource'' of PDict p \<Rightarrow> Some p | _ \<Rightarrow> None))"

definition from_raw_output :: "(string \<Rightarrow> float_reply) \<Rightarrow> pydict option \<Rightarrow> exc + resource option" where
  "from_raw_output float_int raw = (case payload_of raw of
     None \<Rightarrow> Inr None
   | Some p \<Rightarrow>
       bind_field (Inr (map_option py_str (map_of p ''resource_id''))) (\<lambda>rid.
       bind_field (Inr (map_option py_str (map_of p ''content_version''))) (\<lambda>version.
       bind_field (field_int float_int p ''start_line'') (\<lambda>start.
       bind_field (field_int float_int p ''end_line'') (\<lambda>stop.
       bind_field (field_int float_int p ''total_lines'') (\<lambda>total.
       bind_field (Inr (Option.bind (map_of p ''resource_class'') (\<lambda>v. class_of (py_str v)))) (\<lambda>c.
         Inr (if rid = [] \<or> length version \<noteq> 64 \<or> total < 0 then None
              else Some \<lparr>rd_id = rid, rd_version = version, rd_start = start, rd_end = stop,
                     rd_total = total, rd_class = c\<rparr>))))))))"

text \<open>\<open>is_model_instruction_source_path\<close> on a path of text; \<open>casefold\<close> agrees with \<open>lower\<close> on
  the names compared here.\<close>

definition instruction_path :: "string \<Rightarrow> bool" where
  "instruction_path s =
     (let p = parse_path s; names = map py_lower (parts p)
      in ''skills'' \<in> set names
         \<and> ((parts p \<noteq> [] \<and> py_lower (last (parts p)) = ''skill.md'')
            \<or> ''references'' \<in> set names \<or> ''workflows'' \<in> set names))"

definition classify_read_resource :: "string \<Rightarrow> string option \<Rightarrow> resource_class" where
  "classify_read_resource path requested =
     (if instruction_path path \<or> (case requested of None \<Rightarrow> False | Some r \<Rightarrow> instruction_path r)
      then InstructionPinned else Reconstructable)"

subsection \<open>The ledger\<close>

record source_entry =
  se_call_id :: string
  se_resource :: resource
  se_hash :: string

record resource_ledger =
  lg_epoch :: int
  lg_sources :: "(string \<times> source_entry) list"
  lg_receipts :: "(string \<times> string list) list"
  lg_refreshed :: "(string \<times> string) list"

definition new_ledger :: resource_ledger where
  "new_ledger = \<lparr>lg_epoch = 0, lg_sources = [], lg_receipts = [], lg_refreshed = []\<rparr>"

definition source_ids :: "resource_ledger \<Rightarrow> string list" where
  "source_ids g = map fst (lg_sources g)"

definition receipt_ids :: "resource_ledger \<Rightarrow> string list" where
  "receipt_ids g = map fst (lg_receipts g)"

definition source_of :: "resource_ledger \<Rightarrow> string \<Rightarrow> source_entry option" where
  "source_of g i = map_of (lg_sources g) i"

definition register_full_source :: "(string \<Rightarrow> string) \<Rightarrow> string \<Rightarrow> resource \<Rightarrow> string \<Rightarrow> resource_ledger \<Rightarrow> resource_ledger" where
  "register_full_source sha i d content g =
     (if i = [] \<or> \<not> has_content d then g
      else g\<lparr>lg_receipts := AList.delete i (lg_receipts g),
             lg_sources := AList.update i \<lparr>se_call_id = i, se_resource = d, se_hash = sha content\<rparr> (lg_sources g)\<rparr>)"

definition register_receipt :: "string \<Rightarrow> string list \<Rightarrow> resource_ledger \<Rightarrow> resource_ledger" where
  "register_receipt i ids g =
     (let sources = uniq ids
      in if i = [] \<or> sources = [] then g
         else g\<lparr>lg_sources := AList.delete i (lg_sources g), lg_receipts := AList.update i sources (lg_receipts g)\<rparr>)"

definition invalidate_source_ids :: "string list \<Rightarrow> resource_ledger \<Rightarrow> string list \<times> resource_ledger" where
  "invalidate_source_ids ids g =
     (filter (\<lambda>i. map_of (lg_sources g) i \<noteq> None) (uniq ids),
      g\<lparr>lg_sources := filter (\<lambda>(i, _). i \<notin> set ids) (lg_sources g)\<rparr>)"

text \<open>The tool messages by call id, the last one for each id.\<close>

definition tool_messages :: "msg list \<Rightarrow> (string \<times> msg) list" where
  "tool_messages ms = foldl (\<lambda>d m. case m_tool_call_id m of
       Some i \<Rightarrow> if m_role m = ''tool'' \<and> i \<noteq> [] then AList.update i m d else d
     | None \<Rightarrow> d) [] ms"

definition stands :: "(string \<Rightarrow> string) \<Rightarrow> (string \<times> msg) list \<Rightarrow> string \<Rightarrow> source_entry \<Rightarrow> bool" where
  "stands sha tms i s = (case map_of tms i of
     None \<Rightarrow> False
   | Some m \<Rightarrow> m_name m = Some ''read_file'' \<and> (case m_content m of PStr c \<Rightarrow> sha c = se_hash s | _ \<Rightarrow> False))"

definition reconcile :: "(string \<Rightarrow> string) \<Rightarrow> msg list \<Rightarrow> resource_ledger \<Rightarrow> string list \<times> resource_ledger" where
  "reconcile sha ms g =
     (let tms = tool_messages ms;
          stale = map fst (filter (\<lambda>(i, s). \<not> stands sha tms i s) (lg_sources g));
          (gone, g1) = invalidate_source_ids stale g
      in (gone, g1\<lparr>lg_receipts := filter (\<lambda>(i, _). map_of tms i \<noteq> None) (lg_receipts g1)\<rparr>))"

definition candidates :: "resource \<Rightarrow> resource_ledger \<Rightarrow> source_entry list" where
  "candidates d g = sort_key (\<lambda>s. (rd_start (se_resource s), - rd_end (se_resource s), se_call_id s))
     (filter (\<lambda>s. rd_id (se_resource s) = rd_id d \<and> rd_version (se_resource s) = rd_version d) (map snd (lg_sources g)))"

fun cover_from :: "int \<Rightarrow> int \<Rightarrow> source_entry list \<Rightarrow> string list \<Rightarrow> string list" where
  "cover_from stop cursor [] selected = []"
| "cover_from stop cursor (s # ss) selected =
     (if rd_end (se_resource s) < cursor then cover_from stop cursor ss selected
      else if cursor < rd_start (se_resource s) then []
      else (let selected' = selected @ [se_call_id s]; cursor' = rd_end (se_resource s) + 1
            in if stop < cursor' then selected' else cover_from stop cursor' ss selected'))"

definition covering_source_ids :: "(string \<Rightarrow> string) \<Rightarrow> resource \<Rightarrow> msg list \<Rightarrow> resource_ledger \<Rightarrow> string list \<times> resource_ledger" where
  "covering_source_ids sha d ms g =
     (let g1 = snd (reconcile sha ms g)
      in (if \<not> has_content d then [] else cover_from (rd_end d) (rd_start d) (candidates d g1) [], g1))"

definition claim_refresh_reload :: "resource \<Rightarrow> resource_ledger \<Rightarrow> bool \<times> resource_ledger" where
  "claim_refresh_reload d g =
     (let key = (rd_id d, rd_version d)
      in if key \<in> set (lg_refreshed g) then (False, g) else (True, g\<lparr>lg_refreshed := lg_refreshed g @ [key]\<rparr>))"

definition rotate_epoch :: "resource_ledger \<Rightarrow> resource_ledger" where
  "rotate_epoch g = \<lparr>lg_epoch = lg_epoch g + 1, lg_sources = [], lg_receipts = [], lg_refreshed = []\<rparr>"

subsection \<open>Receipts and placeholders\<close>

definition MAX_RESOURCE_RECEIPT_CHARS :: nat where "MAX_RESOURCE_RECEIPT_CHARS = 300"

definition escape_char :: "char \<Rightarrow> string" where
  "escape_char c = (if code_of c = 13 then [char_of (92::nat), CHR ''r''] else if code_of c = 10 then [char_of (92::nat), CHR ''n'']
     else [c])"

definition safe_resource_label :: "string \<Rightarrow> string" where
  "safe_resource_label rid =
     (let normalized = concat (map escape_char rid)
      in if length normalized \<le> 112 then normalized
         else ''...'' @ drop (length normalized - 109) normalized)"

definition place_lines :: "resource \<Rightarrow> string" where
  "place_lines d = ''Path: '' @ safe_resource_label (rd_id d) @ newline
     @ ''Version: '' @ take 12 (rd_version d) @ '' Lines: '' @ int_str (rd_start d) @ ''-'' @ int_str (rd_end d) @ newline"

definition build_resource_receipt :: "resource \<Rightarrow> string list \<Rightarrow> bool \<Rightarrow> string" where
  "build_resource_receipt d ids refresh_unchanged =
     take MAX_RESOURCE_RECEIPT_CHARS (''[Resource already available in current model context]'' @ newline @ place_lines d
       @ ''Sources: '' @ intercalate '','' (take 3 ids) @ newline
       @ (if refresh_unchanged
          then ''Refresh checked the file and its content version is unchanged. ''
            @ ''Reuse the sources above; reread only after the file changes.''
          else ''Use refresh=true once if exact content must be reloaded.''))"

definition build_resource_shedding_placeholder :: "source_entry \<Rightarrow> string" where
  "build_resource_shedding_placeholder s =
     take MAX_RESOURCE_RECEIPT_CHARS (''[Reconstructable read_file content shed from model history]'' @ newline
       @ place_lines (se_resource s) @ ''Call read_file again to restore exact content.'')"

subsection \<open>The history of a read\<close>

record history_decision =
  hd_resource :: "resource option"
  hd_sources :: "string list"
  hd_receipt :: "string option"

definition no_receipt :: "resource option \<Rightarrow> history_decision" where
  "no_receipt d = \<lparr>hd_resource = d, hd_sources = [], hd_receipt = None\<rparr>"

definition history_decision_of :: "(string \<Rightarrow> string) \<Rightarrow> (string \<Rightarrow> float_reply) \<Rightarrow> string \<Rightarrow> pydict \<Rightarrow> tool_result \<Rightarrow> msg list
    \<Rightarrow> resource_ledger option \<Rightarrow> (exc + history_decision) \<times> resource_ledger option" where
  "history_decision_of sha float_int tool args r ms ledger = (case ledger of
     None \<Rightarrow> (Inr (no_receipt None), None)
   | Some g \<Rightarrow>
       if tool \<noteq> ''read_file'' \<or> \<not> tr_success r then (Inr (no_receipt None), Some g)
       else (case from_raw_output float_int (tr_raw_output r) of
           Inl e \<Rightarrow> (Inl e, Some g)
         | Inr None \<Rightarrow> (Inr (no_receipt None), Some g)
         | Inr (Some d) \<Rightarrow>
             if \<not> has_content d then (Inr (no_receipt (Some d)), Some g)
             else (let (ids, g1) = covering_source_ids sha d ms g
                   in if ids = [] then (Inr (no_receipt (Some d)), Some g1)
                      else (let refresh = (dget args ''refresh'' = PBool True);
                                (reload, g2) = (if refresh then claim_refresh_reload d g1 else (False, g1))
                            in if reload then (Inr (no_receipt (Some d)), Some g2)
                               else (Inr \<lparr>hd_resource = Some d, hd_sources = ids,
                                         hd_receipt = Some (build_resource_receipt d ids refresh)\<rparr>, Some g2)))))"

definition record_history :: "(string \<Rightarrow> string) \<Rightarrow> string \<Rightarrow> history_decision \<Rightarrow> tool_result \<Rightarrow> string \<Rightarrow> string
    \<Rightarrow> resource_ledger option \<Rightarrow> resource_ledger option" where
  "record_history sha i dec r visible content ledger = (case (ledger, hd_resource dec) of
     (Some g, Some d) \<Rightarrow>
       if \<not> tr_success r then Some g
       else if hd_receipt dec \<noteq> None then Some (register_receipt i (hd_sources dec) g)
       else if content \<noteq> visible \<or> visible \<noteq> tr_content r then Some g
       else Some (register_full_source sha i d content g)
   | _ \<Rightarrow> ledger)"

text \<open>\<open>_strip_plot_data\<close>: markers with at least one character between the brackets are removed. The
  text that replaces an empty rest is given in English here.\<close>

definition PLOT_OPEN :: string where "PLOT_OPEN = ''<!--PLOT_DATA:''"
definition PLOT_CLOSE :: string where "PLOT_CLOSE = ''-->''"

function without_plots :: "string \<Rightarrow> string" where
  "without_plots [] = []"
| "without_plots (c # cs) =
     (if take (length PLOT_OPEN) (c # cs) = PLOT_OPEN
      then (case find_sub PLOT_CLOSE (drop (Suc (length PLOT_OPEN)) (c # cs)) of
          None \<Rightarrow> c # without_plots cs
        | Some k \<Rightarrow> without_plots (drop (Suc (length PLOT_OPEN) + k + length PLOT_CLOSE) (c # cs)))
      else c # without_plots cs)"
  by pat_completeness auto
termination by (relation "measure length") (auto simp: PLOT_OPEN_def PLOT_CLOSE_def)

definition strip_plot_data :: "string \<Rightarrow> string" where
  "strip_plot_data t = (let cleaned = py_strip (without_plots t) in if cleaned \<noteq> [] then cleaned else ''Chart generated'')"

definition content_for_model :: "string \<Rightarrow> tool_result \<Rightarrow> string option \<Rightarrow> string \<Rightarrow> string option \<Rightarrow> string option \<Rightarrow> string" where
  "content_for_model tool r model_context visible visible_error receipt =
     (if \<not> tr_success r then ''Error: '' @ (case visible_error of None \<Rightarrow> ''None'' | Some e \<Rightarrow> e)
      else case receipt of Some t \<Rightarrow> t
      | None \<Rightarrow>
          if tool = ''read_file'' \<and> (case tr_raw_output r of None \<Rightarrow> False | Some d \<Rightarrow> dget d ''truncated'' = PBool False) then visible
          else if tool \<noteq> ''read_file'' \<and> model_context \<noteq> None \<and> visible = tr_content r
          then (case model_context of None \<Rightarrow> [] | Some c \<Rightarrow> c)
          else strip_plot_data visible)"

end
