(* ===== verification/ContextResourcesCorrect.thy ===== *)
theory ContextResourcesCorrect
  imports ContextResources
begin

section \<open>Receipts stand for content that is in the conversation\<close>

text \<open>
  The ledger's invariant under every history of its operations, the greedy walk over the sorted
  sources against the line-wise reference \<open>holds_line\<close>, and from both: a receipt is given exactly
  when standing messages hold every line of the page.
\<close>

subsection \<open>The ledger's invariant\<close>

datatype ledger_op =
    RegisterFull string resource string
  | RegisterReceipt string "string list"
  | Invalidate "string list"
  | Reconcile "msg list"
  | FindCover resource "msg list"
  | ClaimReload resource
  | Rotate

definition ledger_exec :: "(string \<Rightarrow> string) \<Rightarrow> resource_ledger \<Rightarrow> ledger_op \<Rightarrow> string list \<times> resource_ledger" where
  "ledger_exec sha g op = (case op of
     RegisterFull i d content \<Rightarrow> ([], register_full_source sha i d content g)
   | RegisterReceipt i ids \<Rightarrow> ([], register_receipt i ids g)
   | Invalidate ids \<Rightarrow> invalidate_source_ids ids g
   | Reconcile ms \<Rightarrow> reconcile sha ms g
   | FindCover d ms \<Rightarrow> covering_source_ids sha d ms g
   | ClaimReload d \<Rightarrow> ([], snd (claim_refresh_reload d g))
   | Rotate \<Rightarrow> ([], rotate_epoch g))"

definition source_ok :: "string \<times> source_entry \<Rightarrow> bool" where
  "source_ok p = (se_call_id (snd p) = fst p \<and> fst p \<noteq> [] \<and> has_content (se_resource (snd p)))"

definition ledger_ok :: "resource_ledger \<Rightarrow> bool" where
  "ledger_ok g = (distinct (source_ids g) \<and> distinct (receipt_ids g)
     \<and> set (source_ids g) \<inter> set (receipt_ids g) = {} \<and> (\<forall>p \<in> set (lg_sources g). source_ok p)
     \<and> (\<forall>p \<in> set (lg_receipts g). snd p \<noteq> [] \<and> distinct (snd p)))"

lemma ledger_ok_new: "ledger_ok new_ledger"
  by (simp add: ledger_ok_def new_ledger_def source_ids_def receipt_ids_def)

lemma set_update_pairs: "p \<in> set (AList.update k v xs) \<Longrightarrow> p = (k, v) \<or> p \<in> set xs"
  by (induction xs) (auto split: if_splits)

lemma set_delete_pairs: "p \<in> set (AList.delete k xs) \<Longrightarrow> p \<in> set xs \<and> fst p \<noteq> k"
  by (auto simp: AList.delete_eq)

lemma register_full_ok: "ledger_ok g \<Longrightarrow> ledger_ok (register_full_source sha i d content g)"
  by (auto simp: ledger_ok_def register_full_source_def source_ids_def receipt_ids_def source_ok_def dict_simps distinct_removeAll
    dest!: set_update_pairs set_delete_pairs)

lemma register_receipt_ok: "ledger_ok g \<Longrightarrow> ledger_ok (register_receipt i ids g)"
  by (auto simp: ledger_ok_def register_receipt_def source_ids_def receipt_ids_def source_ok_def dict_simps distinct_removeAll Let_def
    dest!: set_update_pairs set_delete_pairs)

lemma distinct_map_filter_fst: "distinct (map fst xs) \<Longrightarrow> distinct (map fst (filter P xs))"
  by (simp add: distinct_map_filter)

lemma invalidate_ok: "ledger_ok g \<Longrightarrow> ledger_ok (snd (invalidate_source_ids ids g))"
  by (auto simp: ledger_ok_def invalidate_source_ids_def source_ids_def receipt_ids_def distinct_map_filter)

lemma reconcile_ok: "ledger_ok g \<Longrightarrow> ledger_ok (snd (reconcile sha ms g))"
  by (auto simp: ledger_ok_def reconcile_def invalidate_source_ids_def source_ids_def receipt_ids_def distinct_map_filter Let_def)

interpretation reads: component "ledger_exec sha" ledger_ok for sha
proof
  fix g :: resource_ledger and op assume "ledger_ok g"
  then show "ledger_ok (snd (ledger_exec sha g op))"
  proof (cases op)
    case Rotate
    then show ?thesis by (simp add: ledger_exec_def rotate_epoch_def ledger_ok_def source_ids_def receipt_ids_def)
  next
    case (ClaimReload d)
    with \<open>ledger_ok g\<close> show ?thesis
      by (simp add: ledger_exec_def claim_refresh_reload_def ledger_ok_def source_ids_def receipt_ids_def Let_def)
  qed (simp_all add: ledger_exec_def register_full_ok register_receipt_ok invalidate_ok reconcile_ok covering_source_ids_def Let_def)
qed

subsection \<open>The greedy walk\<close>

text \<open>A source that stands unchanged in the conversation and holds line \<open>n\<close> of the page.\<close>

definition holds_line :: "(string \<Rightarrow> string) \<Rightarrow> msg list \<Rightarrow> resource_ledger \<Rightarrow> resource \<Rightarrow> string \<Rightarrow> int \<Rightarrow> bool" where
  "holds_line sha ms g d i n = (case source_of g i of
     None \<Rightarrow> False
   | Some s \<Rightarrow> stands sha (tool_messages ms) i s \<and> rd_id (se_resource s) = rd_id d
       \<and> rd_version (se_resource s) = rd_version d \<and> rd_start (se_resource s) \<le> n \<and> n \<le> rd_end (se_resource s))"

definition spans :: "source_entry \<Rightarrow> int \<Rightarrow> bool" where
  "spans s n = (rd_start (se_resource s) \<le> n \<and> n \<le> rd_end (se_resource s))"

lemma cover_sound:
  assumes "cover_from stop cursor ss sel \<noteq> []"
  shows "set sel \<subseteq> set (cover_from stop cursor ss sel)
    \<and> set (cover_from stop cursor ss sel) \<subseteq> set sel \<union> se_call_id ` set ss
    \<and> (\<forall>n. cursor \<le> n \<and> n \<le> stop \<longrightarrow> (\<exists>s \<in> set ss. spans s n \<and> se_call_id s \<in> set (cover_from stop cursor ss sel)))"
  using assms
proof (induction ss arbitrary: cursor sel)
  case Nil
  then show ?case by simp
next
  case (Cons s ss)
  let ?e = "rd_end (se_resource s)"
  consider "?e < cursor" | "cursor \<le> ?e" "cursor < rd_start (se_resource s)"
    | "cursor \<le> ?e" "rd_start (se_resource s) \<le> cursor" "stop < ?e + 1"
    | "cursor \<le> ?e" "rd_start (se_resource s) \<le> cursor" "?e + 1 \<le> stop" by linarith
  then show ?case
  proof cases
    case 1
    with Cons.prems have ne: "cover_from stop cursor ss sel \<noteq> []" by simp
    show ?thesis using Cons.IH [OF ne] 1 by auto
  next
    case 2
    with Cons.prems show ?thesis by simp
  next
    case 3
    then show ?thesis by (auto simp: Let_def spans_def)
  next
    case 4
    let ?sel = "sel @ [se_call_id s]"
    have step: "cover_from stop cursor (s # ss) sel = cover_from stop (?e + 1) ss ?sel" using 4 by (simp add: Let_def)
    with Cons.prems have ne: "cover_from stop (?e + 1) ss ?sel \<noteq> []" by simp
    note I = Cons.IH [OF ne]
    have "\<exists>t \<in> set (s # ss). spans t n \<and> se_call_id t \<in> set (cover_from stop (?e + 1) ss ?sel)"
      if n: "cursor \<le> n" "n \<le> stop" for n
    proof (cases "n \<le> ?e")
      case True
      then have "spans s n" using 4 n by (simp add: spans_def)
      moreover have "se_call_id s \<in> set (cover_from stop (?e + 1) ss ?sel)" using I by auto
      ultimately show ?thesis by auto
    next
      case False
      then show ?thesis using I n by auto
    qed
    then show ?thesis using I unfolding step by auto
  qed
qed

lemma cover_complete:
  assumes "cover_from stop cursor ss sel = []" "cursor \<le> stop" "sorted (map (\<lambda>s. rd_start (se_resource s)) ss)"
  shows "\<exists>n. cursor \<le> n \<and> n \<le> stop \<and> (\<forall>s \<in> set ss. \<not> spans s n)"
  using assms
proof (induction ss arbitrary: cursor sel)
  case Nil
  then show ?case by auto
next
  case (Cons s ss)
  let ?e = "rd_end (se_resource s)"
  consider "?e < cursor" | "cursor \<le> ?e" "cursor < rd_start (se_resource s)"
    | "cursor \<le> ?e" "rd_start (se_resource s) \<le> cursor" by linarith
  then show ?case
  proof cases
    case 1
    then obtain n where "cursor \<le> n" "n \<le> stop" "\<forall>t \<in> set ss. \<not> spans t n"
      using Cons.IH [of cursor sel] Cons.prems by auto
    with 1 show ?thesis by (intro exI [of _ n]) (auto simp: spans_def)
  next
    case 2
    then have "\<forall>t \<in> set (s # ss). \<not> spans t cursor" using Cons.prems(3) by (auto simp: spans_def)
    then show ?thesis using Cons.prems(2) by blast
  next
    case 3
    then have more: "?e + 1 \<le> stop" "cover_from stop (?e + 1) ss (sel @ [se_call_id s]) = []"
      using Cons.prems(1) by (auto simp: Let_def split: if_splits)
    then obtain n where "?e + 1 \<le> n" "n \<le> stop" "\<forall>t \<in> set ss. \<not> spans t n"
      using Cons.IH [OF more(2) more(1)] Cons.prems(3) by auto
    with 3 show ?thesis by (intro exI [of _ n]) (auto simp: spans_def)
  qed
qed

lemma candidates_sorted: "sorted (map (\<lambda>s. rd_start (se_resource s)) (candidates d g))"
proof -
  have "sorted (map (\<lambda>s. (rd_start (se_resource s), - rd_end (se_resource s), se_call_id s)) (candidates d g))"
    unfolding candidates_def by (rule sorted_sort_key)
  then show ?thesis
    unfolding sorted_wrt_map by (rule sorted_wrt_mono_rel [rotated]) (auto simp: less_eq_prod_def)
qed

lemma set_candidates: "set (candidates d g) = {s. (\<exists>i. (i, s) \<in> set (lg_sources g)) \<and> rd_id (se_resource s) = rd_id d
    \<and> rd_version (se_resource s) = rd_version d}"
  by (force simp: candidates_def)

text \<open>What reconciling leaves.\<close>

lemma reconcile_sources:
  assumes "ledger_ok g"
  shows "(i, s) \<in> set (lg_sources (snd (reconcile sha ms g)))
    \<longleftrightarrow> source_of g i = Some s \<and> stands sha (tool_messages ms) i s"
proof -
  have dist: "distinct (map fst (lg_sources g))" using assms by (simp add: ledger_ok_def source_ids_def)
  have gone: "i \<in> fst ` {p \<in> set (lg_sources g). \<not> stands sha (tool_messages ms) (fst p) (snd p)}
      \<longleftrightarrow> \<not> stands sha (tool_messages ms) i s" if "(i, s) \<in> set (lg_sources g)"
    using that dist by (auto simp: image_iff dest: eq_key_imp_eq_value)
  have "lg_sources (snd (reconcile sha ms g)) = filter (\<lambda>(i, _). i \<notin>
      fst ` {p \<in> set (lg_sources g). \<not> stands sha (tool_messages ms) (fst p) (snd p)}) (lg_sources g)"
    by (simp add: reconcile_def invalidate_source_ids_def Let_def case_prod_beta)
  then have "(i, s) \<in> set (lg_sources (snd (reconcile sha ms g)))
      \<longleftrightarrow> (i, s) \<in> set (lg_sources g) \<and> stands sha (tool_messages ms) i s"
    using gone by auto
  also have "(i, s) \<in> set (lg_sources g) \<longleftrightarrow> source_of g i = Some s"
    using dist by (simp add: source_of_def)
  finally show ?thesis .
qed

lemma cover_exact:
  assumes "ledger_ok g" "covering_source_ids sha d ms g = (ids, g')"
  shows "ids \<noteq> [] \<longleftrightarrow> has_content d \<and> (\<forall>n. rd_start d \<le> n \<and> n \<le> rd_end d \<longrightarrow> (\<exists>i. holds_line sha ms g d i n))"
    "ids \<noteq> [] \<Longrightarrow> rd_start d \<le> n \<Longrightarrow> n \<le> rd_end d \<Longrightarrow> \<exists>i \<in> set ids. holds_line sha ms g d i n"
    "g' = snd (reconcile sha ms g)"
proof -
  let ?g = "snd (reconcile sha ms g)"
  let ?ss = "candidates d ?g"
  show g': "g' = ?g" using assms(2) by (auto simp: covering_source_ids_def Let_def)
  have ids: "ids = (if has_content d then cover_from (rd_end d) (rd_start d) ?ss [] else [])"
    using assms(2) by (auto simp: covering_source_ids_def Let_def)
  have ok: "ledger_ok ?g" using assms(1) by (rule reconcile_ok)
  have in_ss: "s \<in> set ?ss \<longleftrightarrow> source_of g (se_call_id s) = Some s \<and> stands sha (tool_messages ms) (se_call_id s) s
      \<and> rd_id (se_resource s) = rd_id d \<and> rd_version (se_resource s) = rd_version d" for s
  proof -
    have "(i, s) \<in> set (lg_sources ?g) \<Longrightarrow> se_call_id s = i" for i
      using ok by (auto simp: ledger_ok_def source_ok_def)
    then have "(\<exists>i. (i, s) \<in> set (lg_sources ?g)) \<longleftrightarrow> (se_call_id s, s) \<in> set (lg_sources ?g)" by auto
    then show ?thesis by (simp add: set_candidates reconcile_sources [OF assms(1)])
  qed
  have own: "source_of g i = Some s \<Longrightarrow> se_call_id s = i" for i s
    using assms(1) by (fastforce simp: ledger_ok_def source_ok_def source_of_def dest: map_of_SomeD)
  have holds: "holds_line sha ms g d i n \<longleftrightarrow> (\<exists>s \<in> set ?ss. se_call_id s = i \<and> spans s n)" for i n
    unfolding holds_line_def in_ss Bex_def spans_def by (auto split: option.splits dest: own)
  have sound: "\<exists>i \<in> set ids. holds_line sha ms g d i n" if "ids \<noteq> []" "rd_start d \<le> n" "n \<le> rd_end d" for n
    using that cover_sound [of "rd_end d" "rd_start d" ?ss "[]"] unfolding ids holds by (fastforce split: if_splits)
  show "ids \<noteq> [] \<Longrightarrow> rd_start d \<le> n \<Longrightarrow> n \<le> rd_end d \<Longrightarrow> \<exists>i \<in> set ids. holds_line sha ms g d i n"
    by (rule sound)
  have "\<exists>n. rd_start d \<le> n \<and> n \<le> rd_end d \<and> \<not> (\<exists>i. holds_line sha ms g d i n)" if "ids = []" "has_content d"
    using that cover_complete [OF _ _ candidates_sorted, of "rd_end d" "rd_start d" d ?g "[]"]
    unfolding ids holds by (auto simp: has_content_def)
  then show "ids \<noteq> [] \<longleftrightarrow> has_content d \<and> (\<forall>n. rd_start d \<le> n \<and> n \<le> rd_end d \<longrightarrow> (\<exists>i. holds_line sha ms g d i n))"
    using sound ids by (metis (full_types))
qed


text \<open>A descriptor survives the raw output of \<open>read_file\<close>, and texts about resources are bounded.\<close>

lemma raw_output_round_trip:
  assumes "rd_id d \<noteq> []" "length (rd_version d) = 64" "0 \<le> rd_total d"
  shows "from_raw_output float_int (Some [(''context_resource'', PDict (as_raw_output d))]) = Inr (Some d)"
proof -
  have "class_of (class_value (rd_class d)) = Some (rd_class d)"
    by (cases "rd_class d") (simp_all add: class_value_def class_of_def)
  then show ?thesis
    using assms by (simp add: from_raw_output_def payload_of_def dget_def as_raw_output_def bind_field_def field_int_def to_int_def)
qed

lemma resource_texts_bounded:
  "length (build_resource_receipt d ids refreshed) \<le> MAX_RESOURCE_RECEIPT_CHARS"
  "length (build_resource_shedding_placeholder s) \<le> MAX_RESOURCE_RECEIPT_CHARS"
  by (simp_all add: build_resource_receipt_def build_resource_shedding_placeholder_def)

text \<open>A version is reloaded by refreshes at most once until the epoch is rotated.\<close>

lemma refresh_once:
  assumes "claim_refresh_reload d g = (True, g')"
  shows "(rd_id d, rd_version d) \<notin> set (lg_refreshed g)" "fst (claim_refresh_reload d g') = False"
  using assms by (auto simp: claim_refresh_reload_def Let_def split: if_splits)

subsection \<open>A page that two earlier reads hold\<close>

definition page :: "int \<Rightarrow> int \<Rightarrow> resource" where
  "page a b = \<lparr>rd_id = ''/w/notes.md'', rd_version = replicate 64 CHR ''a'', rd_start = a, rd_end = b, rd_total = 9,
     rd_class = Reconstructable\<rparr>"

definition page_messages :: "msg list" where
  "page_messages = [tool_reply ''one'' ''a'' ''read_file'', tool_reply ''two'' ''b'' ''read_file'']"

definition page_ops :: "ledger_op list" where
  "page_ops = [RegisterFull ''a'' (page 1 2) ''one'', RegisterFull ''b'' (page 3 4) ''two'']"

definition page_result :: tool_result where
  "page_result = \<lparr>tr_success = True, tr_content = ''again'', tr_error = None, tr_permission_request = None,
     tr_raw_output = Some [(''context_resource'', PDict (as_raw_output (page 2 3)))], tr_rejected = False\<rparr>"

lemma page_read: "from_raw_output fl (tr_raw_output page_result) = Inr (Some (page 2 3))"
  using raw_output_round_trip [of "page 2 3"] by (simp add: page_result_def page_def)

lemma page_ledger: "reads.run id new_ledger page_ops = \<lparr>lg_epoch = 0,
   lg_sources = [(''a'', \<lparr>se_call_id = ''a'', se_resource = page 1 2, se_hash = ''one''\<rparr>),
      (''b'', \<lparr>se_call_id = ''b'', se_resource = page 3 4, se_hash = ''two''\<rparr>)], lg_receipts = [], lg_refreshed = []\<rparr>"
  by (simp add: page_ops_def ledger_exec_def register_full_source_def has_content_def page_def new_ledger_def)

lemma page_held: "holds_line id page_messages (reads.run id new_ledger page_ops) (page 2 3) ''a'' 2"
   "holds_line id page_messages (reads.run id new_ledger page_ops) (page 2 3) ''b'' 3"
  unfolding page_ledger
  by (simp_all add: holds_line_def source_of_def stands_def tool_messages_def page_messages_def tool_reply_def
      plain_message_def page_def)


end
