(* ===== verification/Recovery.thy ===== *)
theory Recovery
  imports Invocation
begin

section \<open>Recovery from history placeholders (tools/file_result_adapter.py, tools/engine/engine.py)\<close>

text \<open>
  Long tool arguments and results are replaced in the model's history by placeholders. When the
  model copies one into a mutation argument the call is refused and a recovery opens
  (\<open>_argument_error\<close>): until the mutation was done with real content, other tools are refused
  (\<open>_model_history_placeholder_recovery_error\<close>); a successful result advances or closes the
  recovery (\<open>_record_model_history_placeholder_recovery_result\<close>).

  Paths are resolved by \<open>pathlib\<close> and the file system: \<open>locate\<close> is the resolution of the text of a
  path against the workspace, \<open>path_text\<close> is \<open>str\<close> of a path.
\<close>

definition MODEL_HISTORY_PLACEHOLDER_PREFIXES :: "string list" where
  "MODEL_HISTORY_PLACEHOLDER_PREFIXES = [''[Full tool-call argument omitted from model history]'',
     ''[Full file content omitted from model history]'', ''[Full tool output omitted from model history]'']"

definition starts_with :: "string \<Rightarrow> string \<Rightarrow> bool" where
  "starts_with s p = (take (length p) s = p)"

definition is_model_history_placeholder :: "pyval \<Rightarrow> bool" where
  "is_model_history_placeholder v = (case v of
     PStr s \<Rightarrow> list_ex (starts_with s) MODEL_HISTORY_PLACEHOLDER_PREFIXES | _ \<Rightarrow> False)"

definition placeholder_arguments :: "string \<Rightarrow> string list" where
  "placeholder_arguments tool =
     (if tool = ''write_file'' \<or> tool = ''append_file'' \<or> tool = ''staged_file_write'' then [''content'']
      else if tool = ''edit_file'' then [''old_str'', ''new_str'']
      else if tool = ''execute_code'' then [''code''] else [])"

definition FILE_MUTATION_TOOLS :: "string list" where
  "FILE_MUTATION_TOOLS = [''write_file'', ''append_file'', ''edit_file'']"

definition placeholder_argument :: "string \<Rightarrow> pydict \<Rightarrow> string option" where
  "placeholder_argument tool args =
     find (\<lambda>a. is_model_history_placeholder (dget args a)) (placeholder_arguments tool)"

record 'p recovery =
  rv_tool :: string
  rv_argument :: string
  rv_target :: "'p option"
  rv_action :: "string option"
  rv_staged_id :: "string option"

definition recovery_target :: "(string \<Rightarrow> 'p) \<Rightarrow> string \<Rightarrow> pydict \<Rightarrow> 'p option" where
  "recovery_target locate tool args =
     (if tool \<notin> set FILE_MUTATION_TOOLS then None
      else case dget args ''path'' of
        PStr s \<Rightarrow> if py_strip s = [] then None else Some (locate s)
      | _ \<Rightarrow> None)"

text \<open>Membership in a set hashes its operand: lists and dictionaries raise \<open>TypeError\<close>.\<close>

definition hashable :: "pyval \<Rightarrow> bool" where
  "hashable v = (case v of PList _ \<Rightarrow> False | PDict _ \<Rightarrow> False | _ \<Rightarrow> True)"

definition unhashable :: exc where
  "unhashable = OtherError ''TypeError'' ''unhashable type''"

definition RECOVERY_REQUIRED :: string where
  "RECOVERY_REQUIRED = ''INTERNAL_MODEL_HISTORY_PLACEHOLDER_RECOVERY_REQUIRED: a mutation argument was ''
     @ ''replaced by an internal history placeholder, so the intended update did not ''
     @ ''happen. Complete that exact mutation with regenerated real content before ''
     @ ''calling any downstream tool; do not validate, apply, render, or otherwise reuse ''
     @ ''the unchanged target. For a rejected file mutation, either retry a file mutation ''
     @ ''with real content for the same target, using ordered write_file chunks when needed.''"

definition pending_text :: "('p \<Rightarrow> string) \<Rightarrow> 'p recovery \<Rightarrow> string" where
  "pending_text path_text r = RECOVERY_REQUIRED @ '' Pending mutation: '' @ rv_tool r @ ''.'' @ rv_argument r
     @ ''; target: '' @ (case rv_target r of None \<Rightarrow> ''not file-backed'' | Some p \<Rightarrow> path_text p) @ ''.''"

definition same_action :: "'p recovery \<Rightarrow> string \<Rightarrow> pydict \<Rightarrow> bool" where
  "same_action r tool args = (tool = ''staged_file_write'' \<and> dget args ''action'' = (case rv_action r of
     None \<Rightarrow> PNone | Some a \<Rightarrow> PStr a))"

text \<open>The staged write that may stand in for a rejected file mutation.\<close>

definition staged_passes :: "(string \<Rightarrow> 'p) \<Rightarrow> 'p recovery \<Rightarrow> pydict \<Rightarrow> exc + bool" where
  "staged_passes locate r args =
     (let action = dget args ''action'' in
      if action = PStr ''begin''
      then Inr (case dget args ''path'' of
          PStr s \<Rightarrow> recovery_target locate ''write_file'' [(''path'', PStr s)] = rv_target r
        | _ \<Rightarrow> False)
      else if \<not> hashable action then Inl unhashable
      else if action \<in> PStr ` {''append_text'', ''append_file'', ''commit'', ''abort''}
      then (case rv_staged_id r of
          None \<Rightarrow> Inr False
        | Some i \<Rightarrow> if \<not> hashable (dget args ''write_id'') then Inl unhashable
                    else Inr (dget args ''write_id'' \<in> {PNone, PStr i}))
      else Inr False)"

definition recovery_error :: "(string \<Rightarrow> 'p) \<Rightarrow> ('p \<Rightarrow> string) \<Rightarrow> 'p recovery option \<Rightarrow> string \<Rightarrow> pydict
    \<Rightarrow> exc + string option" where
  "recovery_error locate path_text rec tool args = (case rec of
     None \<Rightarrow> Inr None
   | Some r \<Rightarrow>
       if rv_tool r = ''staged_file_write'' \<and> same_action r tool args then Inr None
       else if rv_tool r \<noteq> ''staged_file_write'' \<and> tool \<in> set FILE_MUTATION_TOOLS
         \<and> (rv_target r = None \<or> recovery_target locate tool args = rv_target r) then Inr None
       else if rv_tool r \<in> set FILE_MUTATION_TOOLS \<and> tool = ''staged_file_write''
       then (case staged_passes locate r args of
           Inl e \<Rightarrow> Inl e
         | Inr True \<Rightarrow> Inr None
         | Inr False \<Rightarrow> Inr (Some (pending_text path_text r)))
       else Inr (Some (pending_text path_text r)))"

definition issued_id :: "tool_result \<Rightarrow> string option" where
  "issued_id r = (case tr_raw_output r of
     None \<Rightarrow> None
   | Some d \<Rightarrow> (case dget d ''write_id'' of PStr i \<Rightarrow> if i = [] then None else Some i | _ \<Rightarrow> None))"

definition record_recovery :: "'p recovery option \<Rightarrow> string \<Rightarrow> pydict \<Rightarrow> tool_result \<Rightarrow> 'p recovery option" where
  "record_recovery rec tool args result = (case rec of
     None \<Rightarrow> None
   | Some r \<Rightarrow>
       if \<not> tr_success result then Some r
       else if rv_tool r = ''staged_file_write'' then (if same_action r tool args then None else Some r)
       else if tool \<in> set FILE_MUTATION_TOOLS
       then (if tool = ''write_file'' \<and> dget_or args ''final'' (PBool True) = PBool False then Some r else None)
       else if tool \<noteq> ''staged_file_write'' then Some r
       else if dget args ''action'' = PStr ''begin''
       then (case issued_id result of None \<Rightarrow> Some r | Some i \<Rightarrow> Some (r\<lparr>rv_staged_id := Some i\<rparr>))
       else if dget args ''action'' = PStr ''commit'' then None
       else if dget args ''action'' = PStr ''abort'' then Some (r\<lparr>rv_staged_id := None\<rparr>)
       else Some r)"

subsection \<open>The gate in the engine\<close>

definition open_recovery :: "(string \<Rightarrow> 'p) \<Rightarrow> string \<Rightarrow> pydict \<Rightarrow> string \<Rightarrow> 'p recovery option \<Rightarrow> 'p recovery option" where
  "open_recovery locate tool args argument rec = (case rec of
     Some r \<Rightarrow> Some r
   | None \<Rightarrow> Some \<lparr>rv_tool = tool, rv_argument = argument, rv_target = recovery_target locate tool args,
       rv_action = (if tool = ''staged_file_write'' then Some (py_str (dget args ''action'')) else None),
       rv_staged_id = None\<rparr>)"

datatype gate_answer = GateRefuses | GateAdmits | GateFails exc

text \<open>One call: refused with a placeholder or by an open recovery, or admitted and recorded with
  its result.\<close>

definition recovery_step :: "(string \<Rightarrow> 'p) \<Rightarrow> ('p \<Rightarrow> string) \<Rightarrow> 'p recovery option \<Rightarrow> string \<times> pydict \<times> tool_result
    \<Rightarrow> gate_answer \<times> 'p recovery option" where
  "recovery_step locate path_text rec step = (case step of (tool, args, result) \<Rightarrow>
     (case placeholder_argument tool args of
        Some a \<Rightarrow> (GateRefuses, open_recovery locate tool args a rec)
      | None \<Rightarrow> (case recovery_error locate path_text rec tool args of
            Inl e \<Rightarrow> (GateFails e, rec)
          | Inr (Some e) \<Rightarrow> (GateRefuses, rec)
          | Inr None \<Rightarrow> (GateAdmits, record_recovery rec tool args result))))"

fun recovery_run :: "(string \<Rightarrow> 'p) \<Rightarrow> ('p \<Rightarrow> string) \<Rightarrow> 'p recovery option \<Rightarrow> (string \<times> pydict \<times> tool_result) list
    \<Rightarrow> 'p recovery option" where
  "recovery_run locate path_text rec [] = rec"
| "recovery_run locate path_text rec (step # steps) =
     recovery_run locate path_text (snd (recovery_step locate path_text rec step)) steps"

subsection \<open>What closes a recovery\<close>

text \<open>A successful call with real content that mutates the target, or begins or commits a staged
  write.\<close>

definition done_ok :: "string \<times> pydict \<times> tool_result \<Rightarrow> bool" where
  "done_ok step = (case step of (tool, args, result) \<Rightarrow> tr_success result \<and> placeholder_argument tool args = None)"

definition mutates :: "(string \<Rightarrow> 'p) \<Rightarrow> 'p \<Rightarrow> string \<times> pydict \<times> tool_result \<Rightarrow> bool" where
  "mutates locate t step = (case step of (tool, args, result) \<Rightarrow> done_ok step \<and> tool \<in> set FILE_MUTATION_TOOLS
     \<and> recovery_target locate tool args = Some t
     \<and> \<not> (tool = ''write_file'' \<and> dget_or args ''final'' (PBool True) = PBool False))"

definition stages :: "(string \<Rightarrow> 'p) \<Rightarrow> 'p \<Rightarrow> string \<Rightarrow> string \<times> pydict \<times> tool_result \<Rightarrow> bool" where
  "stages locate t i step = (case step of (tool, args, result) \<Rightarrow> done_ok step \<and> tool = ''staged_file_write''
     \<and> dget args ''action'' = PStr ''begin'' \<and> issued_id result = Some i
     \<and> (\<exists>s. dget args ''path'' = PStr s \<and> recovery_target locate ''write_file'' [(''path'', PStr s)] = Some t))"

definition commits :: "string \<Rightarrow> string \<times> pydict \<times> tool_result \<Rightarrow> bool" where
  "commits i step = (case step of (tool, args, result) \<Rightarrow> done_ok step \<and> tool = ''staged_file_write''
     \<and> dget args ''action'' = PStr ''commit'' \<and> dget args ''write_id'' \<in> {PNone, PStr i})"

definition awaiting :: "'p \<Rightarrow> 'p recovery \<Rightarrow> bool" where
  "awaiting t r = (rv_tool r \<in> set FILE_MUTATION_TOOLS \<and> rv_target r = Some t)"

lemma mutation_tools_not_staged: "tool \<in> set FILE_MUTATION_TOOLS \<Longrightarrow> tool \<noteq> ''staged_file_write''"
  by (auto simp: FILE_MUTATION_TOOLS_def)

lemma admitted_step:
  assumes "awaiting t r" "recovery_step locate path_text (Some r) (tool, args, result) = (GateAdmits, rec)"
  shows "placeholder_argument tool args = None" "rec = record_recovery (Some r) tool args result"
    "(tool \<in> set FILE_MUTATION_TOOLS \<and> recovery_target locate tool args = Some t)
     \<or> (tool = ''staged_file_write'' \<and> staged_passes locate r args = Inr True)"
proof -
  show "placeholder_argument tool args = None" "rec = record_recovery (Some r) tool args result"
    using assms(2) by (auto simp: recovery_step_def split: option.splits sum.splits)
  have "recovery_error locate path_text (Some r) tool args = Inr None"
    using assms(2) by (auto simp: recovery_step_def split: option.splits sum.splits)
  then show "(tool \<in> set FILE_MUTATION_TOOLS \<and> recovery_target locate tool args = Some t)
     \<or> (tool = ''staged_file_write'' \<and> staged_passes locate r args = Inr True)"
    using assms(1) by (auto simp: recovery_error_def awaiting_def mutation_tools_not_staged
      split: if_splits sum.splits bool.splits)
qed

text \<open>One step of an open recovery: nothing changes, it closes by a mutation or by committing the
  staged write, or the staged write changes.\<close>

lemma recovery_step_cases:
  assumes "awaiting t r"
  obtains "snd (recovery_step locate path_text (Some r) step) = Some r"
  | "snd (recovery_step locate path_text (Some r) step) = None" "mutates locate t step"
  | i where "snd (recovery_step locate path_text (Some r) step) = None" "rv_staged_id r = Some i" "commits i step"
  | i where "snd (recovery_step locate path_text (Some r) step) = Some (r\<lparr>rv_staged_id := Some i\<rparr>)" "stages locate t i step"
  | "snd (recovery_step locate path_text (Some r) step) = Some (r\<lparr>rv_staged_id := None\<rparr>)"
proof -
  obtain tool args result where step: "step = (tool, args, result)" by (cases step)
  obtain g rec where run: "recovery_step locate path_text (Some r) step = (g, rec)" by fastforce
  show thesis
  proof (cases "g = GateAdmits \<and> tr_success result")
    case False
    then have "rec = Some r"
      using run unfolding step
      by (auto simp: recovery_step_def open_recovery_def record_recovery_def split: option.splits sum.splits)
    then show thesis using that(1) run by simp
  next
    case True
    note A = admitted_step [OF assms, of locate path_text tool args result rec]
    have adm: "recovery_step locate path_text (Some r) (tool, args, result) = (GateAdmits, rec)" using run step True by simp
    have ok: "done_ok step" using A(1) [OF adm] True by (simp add: done_ok_def step)
    have kind: "rv_tool r \<noteq> ''staged_file_write''" using assms by (simp add: awaiting_def mutation_tools_not_staged)
    note rec = A(2) [OF adm]
    from A(3) [OF adm] show thesis
    proof (elim disjE conjE)
      assume m: "tool \<in> set FILE_MUTATION_TOOLS" "recovery_target locate tool args = Some t"
      show thesis
      proof (cases "tool = ''write_file'' \<and> dget_or args ''final'' (PBool True) = PBool False")
        case True
        then have "rec = Some r" using rec m kind \<open>g = GateAdmits \<and> tr_success result\<close> by (simp add: record_recovery_def)
        then show thesis using that(1) run by simp
      next
        case False
        then have "rec = None" "mutates locate t step"
          using rec m kind ok True by (auto simp: record_recovery_def mutates_def step)
        then show thesis using that(2) run by simp
      qed
    next
      assume s: "tool = ''staged_file_write''" "staged_passes locate r args = Inr True"
      have other: "tool \<notin> set FILE_MUTATION_TOOLS" using s(1) mutation_tools_not_staged by blast
      let ?action = "dget args ''action''"
      consider (begin_it) "?action = PStr ''begin''" | (commit_it) "?action = PStr ''commit''" | (abort_it) "?action = PStr ''abort''"
        | (rest) "?action \<noteq> PStr ''begin''" "?action \<noteq> PStr ''commit''" "?action \<noteq> PStr ''abort''" by blast
      then show thesis
      proof cases
        case begin_it
        then obtain p where p: "dget args ''path'' = PStr p" "recovery_target locate ''write_file'' [(''path'', PStr p)] = Some t"
          using s(2) assms by (auto simp: staged_passes_def awaiting_def split: pyval.splits)
        show thesis
        proof (cases "issued_id result")
          case None
          then have "rec = Some r" using rec other s kind True begin_it by (simp add: record_recovery_def)
          then show thesis using that(1) run by simp
        next
          case (Some i)
          then have "rec = Some (r\<lparr>rv_staged_id := Some i\<rparr>)" using rec other s kind True begin_it by (simp add: record_recovery_def)
          moreover have "stages locate t i step" using ok s begin_it Some p by (simp add: stages_def step)
          ultimately show thesis using that(4) run by simp
        qed
      next
        case commit_it
        then obtain i where i: "rv_staged_id r = Some i" "dget args ''write_id'' \<in> {PNone, PStr i}"
          using s(2) by (auto simp: staged_passes_def hashable_def split: option.splits if_splits)
        have "rec = None" using rec other s kind True commit_it by (simp add: record_recovery_def)
        moreover have "commits i step" using ok s commit_it i by (simp add: commits_def step)
        ultimately show thesis using that(3) i run by simp
      next
        case abort_it
        then have "rec = Some (r\<lparr>rv_staged_id := None\<rparr>)" using rec other s kind True by (simp add: record_recovery_def)
        then show thesis using that(5) run by simp
      next
        case rest
        then have "rec = Some r" using rec other s kind True by (simp add: record_recovery_def)
        then show thesis using that(1) run by simp
      qed
    qed
  qed
qed

lemma awaiting_staged [simp]: "awaiting t (r\<lparr>rv_staged_id := i\<rparr>) = awaiting t r"
  by (simp add: awaiting_def)

lemma closing_step:
  assumes "awaiting t r" "recovery_run locate path_text (Some r) steps = None"
  shows "(\<exists>k < length steps. mutates locate t (steps ! k))
    \<or> (\<exists>k < length steps. \<exists>j < k. \<exists>i. stages locate t i (steps ! j) \<and> commits i (steps ! k))
    \<or> (\<exists>k < length steps. \<exists>i. rv_staged_id r = Some i \<and> commits i (steps ! k))"
  using assms
proof (induction steps arbitrary: r)
  case Nil
  then show ?case by simp
next
  case (Cons s steps)
  have shift: "(\<exists>k < length steps. P (steps ! k)) \<Longrightarrow> \<exists>k < length (s # steps). P ((s # steps) ! k)" for P
    by (metis Suc_less_eq length_Cons nth_Cons_Suc)
  have shift2: "(\<exists>k < length steps. \<exists>j < k. Q (steps ! j) (steps ! k)) \<Longrightarrow>
      \<exists>k < length (s # steps). \<exists>j < k. Q ((s # steps) ! j) ((s # steps) ! k)" for Q
    by (metis Suc_less_eq length_Cons nth_Cons_Suc)
  have rest: "recovery_run locate path_text (snd (recovery_step locate path_text (Some r) s)) steps = None"
    using Cons.prems(2) by simp
  from Cons.prems(1) show ?case
  proof (cases rule: recovery_step_cases [where locate = locate and path_text = path_text and step = s])
    case 1
    from Cons.IH [OF Cons.prems(1)] rest 1 shift [of "mutates locate t"] shift [of "\<lambda>x. \<exists>i. rv_staged_id r = Some i \<and> commits i x"]
      shift2 [of "\<lambda>x y. \<exists>i. stages locate t i x \<and> commits i y"]
    show ?thesis by simp blast
  next
    case 2
    then show ?thesis by (intro disjI1 exI [of _ 0]) simp
  next
    case (3 i)
    then show ?thesis by (intro disjI2 exI [of _ 0]) simp
  next
    case (4 i)
    have "awaiting t (r\<lparr>rv_staged_id := Some i\<rparr>)" using Cons.prems(1) by simp
    from Cons.IH [OF this] rest 4(1)
    have "(\<exists>k < length steps. mutates locate t (steps ! k))
      \<or> (\<exists>k < length steps. \<exists>j < k. \<exists>i. stages locate t i (steps ! j) \<and> commits i (steps ! k))
      \<or> (\<exists>k < length steps. commits i (steps ! k))" by simp
    then show ?thesis
    proof (elim disjE)
      assume "\<exists>k < length steps. commits i (steps ! k)"
      then obtain k where "k < length steps" "commits i (steps ! k)" by blast
      with 4(2) have "Suc k < length (s # steps)" "0 < Suc k" "stages locate t i ((s # steps) ! 0)" "commits i ((s # steps) ! Suc k)"
        by simp_all
      then show ?thesis by blast
    qed (use shift [of "mutates locate t"] shift2 [of "\<lambda>x y. \<exists>i. stages locate t i x \<and> commits i y"] in blast)+
  next
    case 5
    have "awaiting t (r\<lparr>rv_staged_id := None\<rparr>)" using Cons.prems(1) by simp
    from Cons.IH [OF this] rest 5 shift [of "mutates locate t"] shift2 [of "\<lambda>x y. \<exists>i. stages locate t i x \<and> commits i y"]
    show ?thesis by simp blast
  qed
qed

text \<open>While the recovery stays open only mutations of its target and staged writes are admitted.\<close>

lemma admitted_while_open:
  assumes "awaiting t r" "k < length steps" "\<forall>j \<le> k. recovery_run locate path_text (Some r) (take j steps) \<noteq> None"
    and "fst (recovery_step locate path_text (recovery_run locate path_text (Some r) (take k steps)) (steps ! k)) = GateAdmits"
  shows "case steps ! k of (tool, args, _) \<Rightarrow> (tool \<in> set FILE_MUTATION_TOOLS \<and> recovery_target locate tool args = Some t)
      \<or> tool = ''staged_file_write''"
  using assms
proof (induction steps arbitrary: r k)
  case Nil
  then show ?case by simp
next
  case (Cons s steps)
  show ?case
  proof (cases k)
    case 0
    obtain tool args result where s: "s = (tool, args, result)" by (cases s)
    obtain rec where "recovery_step locate path_text (Some r) (tool, args, result) = (GateAdmits, rec)"
      using Cons.prems(4) 0 s by (cases "recovery_step locate path_text (Some r) s") auto
    from admitted_step(3) [OF Cons.prems(1) this] show ?thesis using 0 s by auto
  next
    case (Suc m)
    have "recovery_run locate path_text (Some r) (take 1 (s # steps)) \<noteq> None" using Cons.prems(3) Suc by auto
    then have open_after: "snd (recovery_step locate path_text (Some r) s) \<noteq> None" by simp
    from Cons.prems(1) obtain r' where r': "snd (recovery_step locate path_text (Some r) s) = Some r'" "awaiting t r'"
      by (cases rule: recovery_step_cases [where locate = locate and path_text = path_text and step = s])
        (use open_after Cons.prems(1) in auto)
    have "\<forall>j \<le> m. recovery_run locate path_text (Some r') (take j steps) \<noteq> None"
    proof (intro allI impI)
      fix j assume "j \<le> m"
      then have "recovery_run locate path_text (Some r) (take (Suc j) (s # steps)) \<noteq> None" using Cons.prems(3) Suc by auto
      then show "recovery_run locate path_text (Some r') (take j steps) \<noteq> None" using r'(1) by simp
    qed
    from Cons.IH [OF r'(2) _ this] show ?thesis using Cons.prems(2,4) Suc r'(1) by simp
  qed
qed

text \<open>C7. A placeholder written into a file mutation is never forgotten: after the call was refused,
  as long as its recovery is open only mutations of the same file and staged writes are admitted,
  and the recovery closes only after a later successful call with real content that mutated that
  file, or after the commit of a staged write that a later successful call began for that file.\<close>

theorem recovery_closes_by_mutation:
  assumes "recovery_step locate path_text None (tool, args, result) = (GateRefuses, Some r)"
    and "recovery_target locate tool args = Some t"
  shows "(recovery_run locate path_text (Some r) steps = None \<longrightarrow>
      (\<exists>k < length steps. mutates locate t (steps ! k)
         \<or> (\<exists>j < k. \<exists>i. stages locate t i (steps ! j) \<and> commits i (steps ! k))))
    \<and> (\<forall>k < length steps. (\<forall>j \<le> k. recovery_run locate path_text (Some r) (take j steps) \<noteq> None)
        \<and> fst (recovery_step locate path_text (recovery_run locate path_text (Some r) (take k steps)) (steps ! k)) = GateAdmits
        \<longrightarrow> fst (steps ! k) = ''staged_file_write''
          \<or> recovery_target locate (fst (steps ! k)) (fst (snd (steps ! k))) = Some t)"
proof -
  have kind: "tool \<in> set FILE_MUTATION_TOOLS" using assms(2) by (auto simp: recovery_target_def split: if_splits)
  have r: "rv_tool r = tool" "rv_target r = Some t" "rv_staged_id r = None"
    using assms by (auto simp: recovery_step_def open_recovery_def recovery_error_def split: option.splits)
  then have open_now: "awaiting t r" using kind by (simp add: awaiting_def)
  have "\<exists>k < length steps. mutates locate t (steps ! k)
         \<or> (\<exists>j < k. \<exists>i. stages locate t i (steps ! j) \<and> commits i (steps ! k))"
    if closed: "recovery_run locate path_text (Some r) steps = None"
    using closing_step [OF open_now closed] r(3) by auto
  moreover have "fst (steps ! k) = ''staged_file_write'' \<or> recovery_target locate (fst (steps ! k)) (fst (snd (steps ! k))) = Some t"
    if "k < length steps" "\<forall>j \<le> k. recovery_run locate path_text (Some r) (take j steps) \<noteq> None"
      "fst (recovery_step locate path_text (recovery_run locate path_text (Some r) (take k steps)) (steps ! k)) = GateAdmits" for k
    using admitted_while_open [OF open_now that] by (cases "steps ! k") auto
  ultimately show ?thesis by blast
qed

text \<open>The mutation of \<open>notes.md\<close> is retried after an unrelated call was refused.\<close>

definition notes_steps :: "(string \<times> pydict \<times> tool_result) list" where
  "notes_steps = [(''bash'', [], failed []),
     (''write_file'', [(''path'', PStr ''notes.md''), (''content'', PStr ''text'')], (failed [])\<lparr>tr_success := True\<rparr>)]"

definition notes_recovery :: "string recovery" where
  "notes_recovery = \<lparr>rv_tool = ''edit_file'', rv_argument = ''new_str'', rv_target = Some ''notes.md'', rv_action = None,
     rv_staged_id = None\<rparr>"

lemma notes_refused: "recovery_step id id None (''edit_file'', [(''path'', PStr ''notes.md''), (''old_str'', PStr ''a''),
     (''new_str'', PStr ''[Full file content omitted from model history]'')], failed []) = (GateRefuses, Some notes_recovery)"
  by (simp add: recovery_step_def placeholder_argument_def placeholder_arguments_def is_model_history_placeholder_def
      MODEL_HISTORY_PLACEHOLDER_PREFIXES_def starts_with_def dget_def open_recovery_def recovery_target_def
      FILE_MUTATION_TOOLS_def py_strip_def py_lstrip_def py_rstrip_def py_space_def notes_recovery_def)

lemma notes_closed: "recovery_run id id (Some notes_recovery) notes_steps = None"
  by (simp add: notes_steps_def notes_recovery_def recovery_step_def placeholder_argument_def placeholder_arguments_def
      is_model_history_placeholder_def MODEL_HISTORY_PLACEHOLDER_PREFIXES_def starts_with_def dget_def dget_or_def recovery_error_def
      recovery_target_def FILE_MUTATION_TOOLS_def py_strip_def py_lstrip_def py_rstrip_def py_space_def same_action_def
      record_recovery_def failed_def)

theorem recovery_closes_by_mutation_witness:
  "recovery_run id id (Some notes_recovery) notes_steps = None
   \<and> (\<exists>k < 2. mutates id ''notes.md'' (notes_steps ! k)
        \<or> (\<exists>j < k. \<exists>i. stages id ''notes.md'' i (notes_steps ! j) \<and> commits i (notes_steps ! k)))"
proof -
  have "recovery_target id ''edit_file'' [(''path'', PStr ''notes.md''), (''old_str'', PStr ''a''),
      (''new_str'', PStr ''[Full file content omitted from model history]'')] = Some ''notes.md''"
    by (simp add: recovery_target_def FILE_MUTATION_TOOLS_def dget_def py_strip_def py_lstrip_def py_rstrip_def py_space_def)
  from recovery_closes_by_mutation [OF notes_refused this, of notes_steps] notes_closed
  have "\<exists>k < length notes_steps. mutates id ''notes.md'' (notes_steps ! k)
      \<or> (\<exists>j < k. \<exists>i. stages id ''notes.md'' i (notes_steps ! j) \<and> commits i (notes_steps ! k))" by blast
  moreover have "length notes_steps = 2" by (simp add: notes_steps_def)
  ultimately show ?thesis using notes_closed by (simp only:)
qed

subsection \<open>Where the gate departs from its messages\<close>

text \<open>After a placeholder in \<open>execute_code\<close> the repaired call is refused; any file mutation closes
  the recovery instead.\<close>

lemma repaired_code_refused:
  assumes "recovery_step locate path_text None (''execute_code'', args, result) = (GateRefuses, Some r)"
    and "placeholder_argument ''execute_code'' args' = None"
  shows "recovery_step locate path_text (Some r) (''execute_code'', args', result') = (GateRefuses, Some r)"
proof -
  have "rv_tool r = ''execute_code''" "rv_target r = None"
    using assms(1) by (auto simp: recovery_step_def open_recovery_def recovery_error_def recovery_target_def
      FILE_MUTATION_TOOLS_def split: option.splits)
  then show ?thesis
    using assms(2) by (simp add: recovery_step_def recovery_error_def FILE_MUTATION_TOOLS_def)
qed

text \<open>An action that is a list raises \<open>TypeError\<close> in the gate instead of being refused.\<close>

lemma list_action_raises:
  assumes "awaiting t r" "dget args ''action'' = PList xs" "placeholder_argument ''staged_file_write'' args = None"
  shows "recovery_step locate path_text (Some r) (''staged_file_write'', args, result) = (GateFails unhashable, Some r)"
  using assms by (auto simp: recovery_step_def recovery_error_def staged_passes_def hashable_def awaiting_def
    mutation_tools_not_staged FILE_MUTATION_TOOLS_def Let_def)

end
