(* ===== verification/Continuation.thy ===== *)
theory Continuation
  imports Messages Invocation ThinkTags
begin

section \<open>Continuing an unfinished turn (turn_continuation.py, kernel/stream_controller.py)\<close>

text \<open>
  Before a text-only answer ends the turn, \<open>TurnContinuationController.evaluate\<close> asks a judge
  model whether announced work is missing. \<open>model_says_continue\<close> builds an isolated transcript,
  waits for the judge while it polls for interruption and its deadline, and reads only the exact
  verdict; the controller turns it into a bounded number of continuation requests. The two
  recoveries of \<open>stream_controller.py\<close> are the same kind of budget for broken streams.

  The judge is the environment: \<open>judge\<close> gives what a call on a transcript ends with, after how many
  polls. \<open>loads\<close> is \<open>json.loads\<close> of text with \<open>None\<close> for its exception.
\<close>

definition DEFAULT_MAX_CONTINUATIONS :: int where "DEFAULT_MAX_CONTINUATIONS = 2"
definition MAX_REQUEST_CHARS :: nat where "MAX_REQUEST_CHARS = 2000"
definition MAX_RESPONSE_CHARS :: nat where "MAX_RESPONSE_CHARS = 4000"

definition normal_finish :: "string option \<Rightarrow> bool" where
  "normal_finish r = (r = None \<or> r = Some ''stop'' \<or> r = Some ''end_turn'')"

record judge_facts =
  jf_user_request :: string
  jf_decision_tool :: bool

subsection \<open>The transcript of the judge\<close>

definition contains :: "string \<Rightarrow> string \<Rightarrow> bool" where
  "contains s p = (find_sub p s \<noteq> None)"

definition block_type :: "pydict \<Rightarrow> string" where
  "block_type b = py_lower (py_strip (py_str (py_or (dget b ''type'') (PStr []))))"

definition block_text :: "pydict \<Rightarrow> string option" where
  "block_text b = (case py_or (dget b ''text'') (dget b ''content'') of PStr s \<Rightarrow> Some s | _ \<Rightarrow> None)"

definition is_image_block :: "pydict \<Rightarrow> bool" where
  "is_image_block b = (contains (block_type b) ''image'' \<or> map_of b ''image_url'' \<noteq> None)"

definition blocks_of :: "pyval list \<Rightarrow> pydict list" where
  "blocks_of vs = concat (map (\<lambda>v. case v of PDict b \<Rightarrow> [b] | _ \<Rightarrow> []) vs)"

definition text_part :: "pydict \<Rightarrow> string list" where
  "text_part b = (if is_image_block b \<or> contains (block_type b) ''thinking'' then []
     else case block_text b of Some s \<Rightarrow> [s] | None \<Rightarrow> [])"

definition content_text :: "pyval \<Rightarrow> string" where
  "content_text c = (case c of
     PStr s \<Rightarrow> s
   | PList vs \<Rightarrow> intercalate newline (concat (map text_part (blocks_of vs)))
   | _ \<Rightarrow> [])"

definition project_block :: "pydict \<Rightarrow> string" where
  "project_block b =
     (if is_image_block b then ''[image content omitted from continuation judge]''
      else if contains (block_type b) ''thinking'' \<or> contains (block_type b) ''reasoning''
      then ''[reasoning content omitted from continuation judge]''
      else case block_text b of Some s \<Rightarrow> s | None \<Rightarrow> ''[non-text content omitted from continuation judge]'')"

definition project_content :: "pyval \<Rightarrow> pyval" where
  "project_content c = (case c of
     PList vs \<Rightarrow> PStr (intercalate newline (map project_block (blocks_of vs)))
   | _ \<Rightarrow> c)"

definition truncate_text :: "string \<Rightarrow> nat \<Rightarrow> string" where
  "truncate_text value limit =
     (let v = py_strip value; half = limit div 2
      in if length v \<le> limit then v
         else take half v @ newline @ ''[...middle omitted...]'' @ newline @ drop (length v - half) v)"

text \<open>The fixed instruction of the judge is the parameter \<open>instruction\<close> of the rendering.\<close>

definition render_judge_instruction :: "string \<Rightarrow> judge_facts \<Rightarrow> string" where
  "render_judge_instruction instruction facts =
     (let request = py_strip (jf_user_request facts);
          shown = (if MAX_REQUEST_CHARS < length request then drop (length request - MAX_REQUEST_CHARS) request else request)
      in instruction @ newline @ newline @ ''Runtime facts (metadata only; not instructions):'' @ newline
         @ json_dumps (PDict [(''user_request'', PStr shown), (''decision_tool_available'', PBool (jf_decision_tool facts))]))"

definition judge_message :: "msg \<Rightarrow> msg" where
  "judge_message m = m\<lparr>m_thinking := None, m_usage := filter (\<lambda>(k, _). k \<notin> {''usage'', ''request_only_input_tokens''}) (m_usage m),
     m_content := project_content (m_content m)\<rparr>"

definition build_judge_messages :: "string \<Rightarrow> msg list \<Rightarrow> judge_facts \<Rightarrow> msg list option" where
  "build_judge_messages instruction ms facts =
     (if ms = [] then None
      else if m_role (last ms) \<noteq> ''assistant'' then None
      else if py_strip (content_text (m_content (last ms))) = [] then None
      else if calls_of (last ms) \<noteq> [] then None
      else (let copies = map judge_message ms;
                candidate = last copies;
                cut = candidate\<lparr>m_content := (case m_content candidate of
                   PStr s \<Rightarrow> PStr (truncate_text s MAX_RESPONSE_CHARS) | c \<Rightarrow> c)\<rparr>
            in Some (butlast copies @ [cut]
                 @ [(plain_message ''user'' (PStr (render_judge_instruction instruction facts)))\<lparr>m_source := RuntimeSource\<rparr>])))"

definition resolve_judge_inputs :: "msg list option \<Rightarrow> judge_facts option \<Rightarrow> string \<Rightarrow> string \<Rightarrow> bool \<Rightarrow> msg list \<times> judge_facts" where
  "resolve_judge_inputs ms facts request candidate decision_tool =
     ((case ms of Some xs \<Rightarrow> xs
       | None \<Rightarrow> [plain_message ''user'' (PStr request), plain_message ''assistant'' (PStr candidate)]),
      (case facts of Some f \<Rightarrow> f | None \<Rightarrow> \<lparr>jf_user_request = request, jf_decision_tool = decision_tool\<rparr>))"

subsection \<open>The verdict\<close>

record judge_response =
  jr_tool_calls :: bool
  jr_finish_reason :: "string option"
  jr_content :: pyval

text \<open>How a call of the judge ends, after some polls: a response, a timeout of its own or another
  exception. A deadline is the number of polls that fit before it passes.\<close>

datatype judge_end = Responds judge_response | TimesOut | JudgeRaises

record judge_run =
  ju_polls :: nat
  ju_end :: judge_end

datatype deadline = NoDeadline | Polls nat | InvalidTimeout

datatype continuation_error = BadTimeout | JudgeTimeout | LimitReached

text \<open>The interruption is asked at the start, before the call, at every poll and after the answer:
  \<open>interrupt k\<close> is the answer at the \<open>k\<close>-th question. \<open>Inr True\<close> when the call has ended.\<close>

fun wait_judge :: "(nat \<Rightarrow> bool) \<Rightarrow> nat \<Rightarrow> nat \<Rightarrow> nat option \<Rightarrow> continuation_error + bool" where
  "wait_judge interrupt k 0 left = Inr True"
| "wait_judge interrupt k (Suc n) left =
     (if interrupt k then Inr False
      else if left = Some 0 then Inl JudgeTimeout
      else wait_judge interrupt (Suc k) n (map_option (\<lambda>x. x - 1) left))"

definition verdict_of :: "(string \<Rightarrow> pyval option) \<Rightarrow> judge_response \<Rightarrow> bool" where
  "verdict_of loads r =
     (if jr_tool_calls r \<or> \<not> normal_finish (jr_finish_reason r) then False
      else case jr_content r of
          PStr s \<Rightarrow> (case loads (py_strip s) of Some (PDict d) \<Rightarrow> dget d ''continue'' = PBool True | _ \<Rightarrow> False)
        | _ \<Rightarrow> False)"

definition ask_judge :: "(string \<Rightarrow> pyval option) \<Rightarrow> judge_run \<Rightarrow> (nat \<Rightarrow> bool) \<Rightarrow> nat option \<Rightarrow> continuation_error + bool" where
  "ask_judge loads run interrupt left = (case wait_judge interrupt 2 (ju_polls run) left of
     Inl e \<Rightarrow> Inl e
   | Inr False \<Rightarrow> Inr False
   | Inr True \<Rightarrow> (case ju_end run of
       TimesOut \<Rightarrow> Inl JudgeTimeout
     | JudgeRaises \<Rightarrow> Inr False
     | Responds r \<Rightarrow> Inr (\<not> interrupt (2 + ju_polls run) \<and> verdict_of loads r)))"

definition model_says_continue :: "(string \<Rightarrow> pyval option) \<Rightarrow> string \<Rightarrow> (msg list \<Rightarrow> judge_run) option
    \<Rightarrow> (nat \<Rightarrow> bool) \<Rightarrow> deadline \<Rightarrow> msg list \<Rightarrow> judge_facts \<Rightarrow> continuation_error + bool" where
  "model_says_continue loads instruction judge interrupt deadline ms facts =
     (if interrupt 0 then Inr False
      else if deadline = InvalidTimeout then Inl BadTimeout
      else case build_judge_messages instruction ms facts of
          None \<Rightarrow> Inr False
        | Some transcript \<Rightarrow>
            if interrupt 1 then Inr False
            else case judge of
                None \<Rightarrow> Inr False
              | Some ask \<Rightarrow> ask_judge loads (ask transcript) interrupt (case deadline of Polls n \<Rightarrow> Some n | _ \<Rightarrow> None))"

subsection \<open>The controllers\<close>

record controller =
  cn_max :: int
  cn_count :: int

definition new_controller :: "int \<Rightarrow> controller" where
  "new_controller m = \<lparr>cn_max = max 0 m, cn_count = 0\<rparr>"

record continuation_request =
  cr_attempt :: int
  cr_max_attempts :: int

text \<open>One candidate answer: its finish reason, whether tools are there, the step, whether the run was
  cancelled, and what the judge is asked and answers.\<close>

record candidate =
  ca_messages :: "msg list"
  ca_facts :: judge_facts
  ca_finish_reason :: "string option"
  ca_tools :: bool
  ca_step :: int
  ca_max_steps :: int
  ca_cancelled :: bool
  ca_judge :: "(msg list \<Rightarrow> judge_run) option"
  ca_interrupt :: "nat \<Rightarrow> bool"
  ca_deadline :: deadline

definition asks_judge :: "candidate \<Rightarrow> bool" where
  "asks_judge c = (\<not> ca_cancelled c \<and> ca_tools c \<and> normal_finish (ca_finish_reason c))"

definition says_continue :: "(string \<Rightarrow> pyval option) \<Rightarrow> string \<Rightarrow> candidate \<Rightarrow> continuation_error + bool" where
  "says_continue loads instruction c =
     model_says_continue loads instruction (ca_judge c) (ca_interrupt c) (ca_deadline c) (ca_messages c) (ca_facts c)"

definition evaluate :: "(string \<Rightarrow> pyval option) \<Rightarrow> string \<Rightarrow> candidate \<Rightarrow> controller
    \<Rightarrow> (continuation_error + continuation_request option) \<times> controller" where
  "evaluate loads instruction c s =
     (if \<not> asks_judge c then (Inr None, s)
      else case says_continue loads instruction c of
          Inl e \<Rightarrow> (Inl e, s)
        | Inr False \<Rightarrow> (Inr None, s)
        | Inr True \<Rightarrow>
            if cn_max s \<le> cn_count s \<or> ca_max_steps c \<le> ca_step c + 1 then (Inl LimitReached, s)
            else (Inr (Some \<lparr>cr_attempt = cn_count s + 1, cr_max_attempts = cn_max s\<rparr>), s\<lparr>cn_count := cn_count s + 1\<rparr>))"

text \<open>\<open>StreamInterruptionRecovery.request\<close> and \<open>RepetitiveStreamRecovery.request\<close>, on the attempts so
  far: whether the recovery text is given.\<close>

definition recovery_request :: "int \<Rightarrow> int \<Rightarrow> int \<Rightarrow> bool \<times> int" where
  "recovery_request step max_steps attempts =
     (if 1 \<le> attempts \<or> max_steps \<le> step + 1 then (False, attempts) else (True, attempts + 1))"

subsection \<open>Properties\<close>

text \<open>The judge never sees multimodal blocks, and only text of the model may ask for more.\<close>

lemma judge_sees_text:
  assumes "build_judge_messages instruction ms facts = Some js" "m \<in> set js"
  shows "\<forall>vs. m_content m \<noteq> PList vs" "m_thinking m = None \<or> m = last js"
proof -
  have p: "project_content c \<noteq> PList vs" for c vs by (simp add: project_content_def split: pyval.split)
  obtain c where js: "js = butlast (map judge_message ms) @ [(last (map judge_message ms))\<lparr>m_content := c\<rparr>]
      @ [(plain_message ''user'' (PStr (render_judge_instruction instruction facts)))\<lparr>m_source := RuntimeSource\<rparr>]"
    "\<forall>vs. c \<noteq> PList vs" "ms \<noteq> []"
  proof -
    have ne: "ms \<noteq> []" using assms(1) by (auto simp: build_judge_messages_def)
    let ?l = "m_content (last (map judge_message ms))"
    have "?l \<noteq> PList vs" for vs using ne p by (simp add: last_map judge_message_def)
    then have "\<forall>vs. (case ?l of PStr s \<Rightarrow> PStr (truncate_text s MAX_RESPONSE_CHARS) | c \<Rightarrow> c) \<noteq> PList vs"
      by (simp split: pyval.split)
    with assms(1) ne show thesis
      by (intro that [of "case ?l of PStr s \<Rightarrow> PStr (truncate_text s MAX_RESPONSE_CHARS) | c \<Rightarrow> c"])
        (auto simp: build_judge_messages_def Let_def split: if_splits)
  qed
  have jm: "m_content (judge_message y) \<noteq> PList vs" "m_thinking (judge_message y) = None" for y vs
    by (simp_all add: judge_message_def p)
  consider (copy) y where "m = judge_message y" | (cut) y where "m = (judge_message y)\<lparr>m_content := c\<rparr>"
    | (instruction) "m = last js" "m_content m = PStr (render_judge_instruction instruction facts)"
  proof -
    have "m \<in> set (butlast (map judge_message ms)) \<or> m = (last (map judge_message ms))\<lparr>m_content := c\<rparr>
        \<or> m = (plain_message ''user'' (PStr (render_judge_instruction instruction facts)))\<lparr>m_source := RuntimeSource\<rparr>"
      using assms(2) unfolding js(1) by (simp add: disj_ac)
    then show thesis
    proof (elim disjE)
      assume "m \<in> set (butlast (map judge_message ms))"
      then show thesis using copy in_set_butlastD [of m "map judge_message ms"] by auto
    next
      assume "m = (last (map judge_message ms))\<lparr>m_content := c\<rparr>"
      then show thesis using cut [of "last ms"] js(3) by (simp add: last_map)
    next
      assume "m = (plain_message ''user'' (PStr (render_judge_instruction instruction facts)))\<lparr>m_source := RuntimeSource\<rparr>"
      then show thesis using instruction js(1) by (simp add: plain_message_def)
    qed
  qed
  then show "\<forall>vs. m_content m \<noteq> PList vs" "m_thinking m = None \<or> m = last js"
    using jm js(2) by (cases; simp)+
qed

text \<open>The answers to a sequence of candidates in one turn, and the requests among them.\<close>

fun evaluations :: "(string \<Rightarrow> pyval option) \<Rightarrow> string \<Rightarrow> controller \<Rightarrow> candidate list
    \<Rightarrow> (continuation_error + continuation_request option) list" where
  "evaluations loads instruction s [] = []"
| "evaluations loads instruction s (c # cs) =
     (let (a, s') = evaluate loads instruction c s in a # evaluations loads instruction s' cs)"

fun granted :: "(continuation_error + continuation_request option) list \<Rightarrow> continuation_request list" where
  "granted [] = []"
| "granted (Inr (Some r) # as) = r # granted as"
| "granted (_ # as) = granted as"

lemma evaluate_cases:
  assumes "evaluate loads instruction c s = (a, s')"
  obtains r where "a = Inr (Some r)" "cr_attempt r = cn_count s + 1" "cr_max_attempts r = cn_max s" "cn_count s < cn_max s"
      "s' = s\<lparr>cn_count := cn_count s + 1\<rparr>" "asks_judge c" "says_continue loads instruction c = Inr True"
      "ca_step c + 1 < ca_max_steps c"
  | "granted [a] = []" "s' = s" "\<And>r. a \<noteq> Inr (Some r)"
      "a = Inl LimitReached \<or> \<not> asks_judge c \<or> says_continue loads instruction c \<noteq> Inr True"
proof (cases "asks_judge c \<and> says_continue loads instruction c = Inr True")
  case True
  then have judged: "asks_judge c" "says_continue loads instruction c = Inr True" by simp_all
  show thesis
  proof (cases "cn_max s \<le> cn_count s \<or> ca_max_steps c \<le> ca_step c + 1")
    case True
    then have "a = Inl LimitReached" "s' = s" using assms judged by (auto simp: evaluate_def)
    then show thesis using that(2) by simp
  next
    case False
    then have "a = Inr (Some \<lparr>cr_attempt = cn_count s + 1, cr_max_attempts = cn_max s\<rparr>)" "s' = s\<lparr>cn_count := cn_count s + 1\<rparr>"
      using assms judged by (simp_all add: evaluate_def)
    then show thesis using that(1) [of "\<lparr>cr_attempt = cn_count s + 1, cr_max_attempts = cn_max s\<rparr>"] judged False by simp
  qed
next
  case False
  then have "s' = s \<and> ((\<exists>e. a = Inl e) \<or> a = Inr None)"
    using assms by (cases "says_continue loads instruction c") (auto simp: evaluate_def split: if_splits bool.splits)
  with False show thesis using that(2) by auto
qed

lemma granted_Cons: "granted (a # as) = granted [a] @ granted as"
proof (cases a)
  case (Inr x)
  then show ?thesis by (cases x) simp_all
qed simp

lemma evaluations_count:
  "cn_count s \<le> cn_max s \<Longrightarrow>
   map cr_attempt (granted (evaluations loads instruction s cs))
     = [cn_count s + 1..cn_count s + int (length (granted (evaluations loads instruction s cs)))]
   \<and> cn_count s + int (length (granted (evaluations loads instruction s cs))) \<le> cn_max s"
proof (induction cs arbitrary: s)
  case Nil
  then show ?case by simp
next
  case (Cons c cs)
  obtain a s' where e: "evaluate loads instruction c s = (a, s')" by fastforce
  then have run: "evaluations loads instruction s (c # cs) = a # evaluations loads instruction s' cs" by simp
  from e show ?case
  proof (cases rule: evaluate_cases)
    case (1 r)
    let ?n = "length (granted (evaluations loads instruction s' cs))"
    have "cn_count s' \<le> cn_max s'" using 1 by simp
    from Cons.IH [OF this] 1 have I: "map cr_attempt (granted (evaluations loads instruction s' cs))
        = [2 + cn_count s..cn_count s + 1 + int ?n]" "cn_count s + 1 + int ?n \<le> cn_max s" by (simp_all add: ac_simps)
    have "[cn_count s + 1..cn_count s + 1 + int ?n] = (cn_count s + 1) # [2 + cn_count s..cn_count s + 1 + int ?n]"
      by (subst upto_rec1) (simp_all add: add.commute)
    then show ?thesis using I 1 unfolding run by (simp add: ac_simps)
  next
    case 2
    have "granted (a # evaluations loads instruction s' cs) = granted (evaluations loads instruction s' cs)"
      using 2(1) granted_Cons [of a "evaluations loads instruction s' cs"] by simp
    then show ?thesis using Cons.IH [OF Cons.prems] 2(2) unfolding run by simp
  qed
qed

lemma evaluations_nth:
  "i < length cs \<Longrightarrow> \<exists>s. evaluations loads instruction s0 cs ! i = fst (evaluate loads instruction (cs ! i) s)"
proof (induction cs arbitrary: s0 i)
  case (Cons c cs)
  obtain a s' where e: "evaluate loads instruction c s0 = (a, s')" by fastforce
  show ?case
  proof (cases i)
    case 0
    then show ?thesis using e by (intro exI [of _ s0]) simp
  next
    case (Suc j)
    then show ?thesis using Cons.IH [of j s'] Cons.prems e by simp
  qed
qed simp

lemma evaluations_max: "cn_max s = k \<Longrightarrow> evaluations loads instruction s cs ! i = Inr (Some r) \<Longrightarrow> i < length cs \<Longrightarrow> cr_max_attempts r = k"
proof (induction cs arbitrary: s i)
  case (Cons c cs)
  obtain a s' where e: "evaluate loads instruction c s = (a, s')" by fastforce
  then have "cn_max s' = k" "a = Inr (Some r) \<Longrightarrow> cr_max_attempts r = k"
    using Cons.prems(1) by (auto elim: evaluate_cases)
  then show ?case using Cons.IH [of s' "i - 1"] Cons.prems e by (cases i) simp_all
qed simp


text \<open>An answer that announces work, three times in a turn with two continuations.\<close>

definition announcing :: candidate where
  "announcing = \<lparr>ca_messages = [plain_message ''assistant'' (PStr ''I will now run the tests.'')],
     ca_facts = \<lparr>jf_user_request = [], jf_decision_tool = False\<rparr>, ca_finish_reason = Some ''stop'', ca_tools = True,
     ca_step = 0, ca_max_steps = 9, ca_cancelled = False,
     ca_judge = Some (\<lambda>_. \<lparr>ju_polls = 1, ju_end = Responds \<lparr>jr_tool_calls = False, jr_finish_reason = None, jr_content = PStr ''yes''\<rparr>\<rparr>),
     ca_interrupt = (\<lambda>_. False), ca_deadline = Polls 5\<rparr>"

definition says_yes :: "string \<Rightarrow> pyval option" where
  "says_yes s = Some (PDict [(''continue'', PBool True)])"

lemma announcing_judged: "asks_judge announcing" "says_continue says_yes [] announcing = Inr True"
proof -
  show "asks_judge announcing" by (simp add: asks_judge_def announcing_def normal_finish_def)
  obtain js where "build_judge_messages [] [plain_message ''assistant'' (PStr ''I will now run the tests.'')]
      \<lparr>jf_user_request = [], jf_decision_tool = False\<rparr> = Some js"
    by (simp add: build_judge_messages_def plain_message_def content_text_def calls_of_def py_strip_def py_lstrip_def
        py_rstrip_def py_space_def Let_def)
  then show "says_continue says_yes [] announcing = Inr True"
    by (simp add: says_continue_def announcing_def model_says_continue_def ask_judge_def numeral_eq_Suc verdict_of_def
        normal_finish_def says_yes_def dget_def)
qed


end
