(* ===== verification/StagedWrite.thy ===== *)
theory StagedWrite
  imports Invocation
begin

section \<open>Transactional chunked writes (tools/staged_file_write_tool.py)\<close>

text \<open>
  \<open>StagedFileWriteTool\<close> collects the chunks of a file in a part file and publishes it by one
  replacement. The disk is a map from paths to bytes (a byte is a \<open>char\<close>); paths, their resolution,
  the permission answers and the digest come from the environment. What the operating system does
  to an operation is part of the operation: it succeeds, or raises \<open>OSError\<close> with a text, an append
  after having written some of its bytes. The receipt that \<open>file_change_result\<close> adds to the raw
  output and the copy of the old target to the trash are left out.
\<close>

definition MAX_GENERATED_BODY_CHARS :: nat where "MAX_GENERATED_BODY_CHARS = 12000"
definition RECOMMENDED_GENERATED_BODY_CHARS :: nat where "RECOMMENDED_GENERATED_BODY_CHARS = 5500"
definition MAX_STAGED_FILE_BYTES :: nat where "MAX_STAGED_FILE_BYTES = 10 * 1024 * 1024"
definition MAX_STAGED_FILE_CHUNKS :: nat where "MAX_STAGED_FILE_CHUNKS = 2048"

subsection \<open>UTF-8\<close>

definition utf8_encode :: "string \<Rightarrow> string" where
  "utf8_encode s = concat (map (\<lambda>c. let n = code_of c in
     if n < 128 then [c] else [char_of (192 + n div 64), char_of (128 + n mod 64)]) s)"

definition tail_byte :: "nat \<Rightarrow> nat \<Rightarrow> char \<Rightarrow> bool" where
  "tail_byte low high c = (low \<le> code_of c \<and> code_of c \<le> high)"

fun utf8_valid :: "string \<Rightarrow> bool" where
  "utf8_valid [] = True"
| "utf8_valid (c # cs) =
     (let n = code_of c in
      if n < 128 then utf8_valid cs
      else if 194 \<le> n \<and> n \<le> 223 then (case cs of a # r \<Rightarrow> tail_byte 128 191 a \<and> utf8_valid r | _ \<Rightarrow> False)
      else if 224 \<le> n \<and> n \<le> 239 then (case cs of
          a # b # r \<Rightarrow> tail_byte (if n = 224 then 160 else 128) (if n = 237 then 159 else 191) a \<and> tail_byte 128 191 b \<and> utf8_valid r
        | _ \<Rightarrow> False)
      else if 240 \<le> n \<and> n \<le> 244 then (case cs of
          a # b # d # r \<Rightarrow> tail_byte (if n = 240 then 144 else 128) (if n = 244 then 143 else 191) a \<and> tail_byte 128 191 b
            \<and> tail_byte 128 191 d \<and> utf8_valid r
        | _ \<Rightarrow> False)
      else False)"

subsection \<open>State and environment\<close>

record 'p staged =
  sw_target :: 'p
  sw_temporary :: 'p
  sw_expected :: "int option"
  sw_next :: int
  sw_size :: nat

record 'p staged_store =
  ss_writes :: "(string \<times> 'p staged) list"
  ss_disk :: "'p \<Rightarrow> string option"

record 'p staged_env =
  sv_resolve :: "string \<Rightarrow> 'p"
  sv_part :: "string \<Rightarrow> 'p"
  sv_write_error :: "'p \<Rightarrow> tool_result option"
  sv_read_error :: "'p \<Rightarrow> tool_result option"
  sv_path_text :: "'p \<Rightarrow> string"
  sv_sha256 :: "string \<Rightarrow> string"
  sv_missing :: "'p \<Rightarrow> string"

text \<open>What the system answers: success, or \<open>OSError\<close> after so many bytes of an append.\<close>

datatype io = Works | Fails nat string

datatype staged_op =
    Begin "string option" "int option" string io
  | AppendText "string option" "int option" "string option" io
  | AppendFile "string option" "int option" "string option" io
  | Commit "string option" "int option" "string option" io
  | Abort "string option" io
  | Cleanup

definition done_with :: "string \<Rightarrow> pydict \<Rightarrow> tool_result" where
  "done_with text raw = \<lparr>tr_success = True, tr_content = text, tr_error = None, tr_permission_request = None,
     tr_raw_output = (if raw = [] then None else Some raw), tr_rejected = False\<rparr>"

definition os_failed :: "string \<Rightarrow> tool_result" where
  "os_failed text = failed (''STAGED_FILE_WRITE_FAILED: '' @ text)"

definition opt_int :: "int option \<Rightarrow> string" where
  "opt_int i = (case i of None \<Rightarrow> ''None'' | Some n \<Rightarrow> int_str n)"

definition opt_value :: "int option \<Rightarrow> pyval" where
  "opt_value i = (case i of None \<Rightarrow> PNone | Some n \<Rightarrow> PInt n)"

definition given_text :: "string option \<Rightarrow> string option" where
  "given_text s = (if s = Some [] then None else s)"

subsection \<open>The operations\<close>

definition active_for :: "'p \<Rightarrow> 'p staged_store \<Rightarrow> (string \<times> 'p staged) option" where
  "active_for target s = find (\<lambda>(_, w). sw_target w = target) (ss_writes s)"

definition target_active :: "string \<Rightarrow> 'p staged \<Rightarrow> tool_result" where
  "target_active i w = (failed (''STAGED_FILE_WRITE_TARGET_ACTIVE: this target already has an ''
       @ ''active transaction; write_id='' @ i @ ''; next_chunk_index='' @ int_str (sw_next w)
       @ ''; expected_chunks='' @ opt_int (sw_expected w) @ ''. Continue with that ''
       @ ''write_id using append_text, append_file, commit, or abort; do not ''
       @ ''begin another transaction for the same target.''))
     \<lparr>tr_raw_output := Some [(''type'', PStr ''staged_file_write''), (''action'', PStr ''begin_rejected''), (''write_id'', PStr i),
        (''next_index'', PInt (sw_next w)), (''size_bytes'', PInt (int (sw_size w))), (''expected_chunks'', opt_value (sw_expected w))]\<rparr>"

definition begin_write :: "'p staged_env \<Rightarrow> string option \<Rightarrow> int option \<Rightarrow> string \<Rightarrow> io \<Rightarrow> 'p staged_store
    \<Rightarrow> tool_result \<times> 'p staged_store" where
  "begin_write en path expected new_id io s = (case given_text path of
     None \<Rightarrow> (failed ''begin requires path'', s)
   | Some p \<Rightarrow>
       (let target = sv_resolve en p in
        case sv_write_error en target of
          Some e \<Rightarrow> (e, s)
        | None \<Rightarrow> (case active_for target s of
            Some (i, w) \<Rightarrow> (target_active i w, s)
          | None \<Rightarrow> (case io of
              Fails _ e \<Rightarrow> (os_failed e, s)
            | Works \<Rightarrow>
                (done_with (''Started staged write '' @ new_id @ ''; next chunk_index=0, recommended chunk size=''
                     @ nat_str RECOMMENDED_GENERATED_BODY_CHARS @ ''.'')
                   [(''type'', PStr ''staged_file_write''), (''action'', PStr ''begin''), (''write_id'', PStr new_id),
                    (''next_index'', PInt 0), (''chunk_limit'', PInt (int MAX_GENERATED_BODY_CHARS)),
                    (''expected_chunks'', opt_value expected)],
                 s\<lparr>ss_disk := (ss_disk s)(sv_part en new_id := Some []),
                   ss_writes := AList.update new_id \<lparr>sw_target = target, sw_temporary = sv_part en new_id,
                     sw_expected = expected, sw_next = 0, sw_size = 0\<rparr> (ss_writes s)\<rparr>)))))"

text \<open>\<open>_get_write\<close>: an absent or unknown id stands for the only active transaction.\<close>

definition get_write :: "string option \<Rightarrow> 'p staged_store \<Rightarrow> tool_result + string \<times> 'p staged" where
  "get_write write_id s = (case given_text write_id of
     None \<Rightarrow> (case ss_writes s of
         [x] \<Rightarrow> Inr x
       | _ \<Rightarrow> Inl (failed (''STAGED_FILE_WRITE_ID_REQUIRED: include the write_id returned by begin; active_writes=''
           @ nat_str (length (ss_writes s)) @ ''.'')))
   | Some i \<Rightarrow> (case map_of (ss_writes s) i of
         Some w \<Rightarrow> Inr (i, w)
       | None \<Rightarrow> (case ss_writes s of
           [x] \<Rightarrow> Inr x
         | _ \<Rightarrow> Inl (failed (''STAGED_FILE_WRITE_ID_UNKNOWN: write_id='' @ repr_str i @ '' is not active.'')))))"

definition append_bytes :: "string \<Rightarrow> 'p staged \<Rightarrow> int option \<Rightarrow> string \<Rightarrow> io \<Rightarrow> 'p staged_store \<Rightarrow> tool_result \<times> 'p staged_store" where
  "append_bytes i w chunk data io s =
     (if chunk \<noteq> Some (sw_next w)
      then (failed (''STAGED_FILE_CHUNK_OUT_OF_ORDER: expected '' @ int_str (sw_next w) @ '', got '' @ opt_int chunk @ ''.''), s)
      else if int MAX_STAGED_FILE_CHUNKS \<le> sw_next w then (failed ''STAGED_FILE_TOO_MANY_CHUNKS'', s)
      else if MAX_STAGED_FILE_BYTES < sw_size w + length data then (failed ''STAGED_FILE_TOTAL_SIZE_EXCEEDED'', s)
      else (let old = (case ss_disk s (sw_temporary w) of None \<Rightarrow> [] | Some b \<Rightarrow> b) in
        case io of
          Fails n e \<Rightarrow> (os_failed e, s\<lparr>ss_disk := (ss_disk s)(sw_temporary w := Some (old @ take n data))\<rparr>)
        | Works \<Rightarrow>
            (let w' = w\<lparr>sw_next := sw_next w + 1, sw_size := sw_size w + length data\<rparr>
             in (done_with (''Appended chunk '' @ opt_int chunk @ ''; next chunk_index='' @ int_str (sw_next w') @ ''; total_bytes=''
                    @ nat_str (sw_size w') @ ''. Continue with write_id='' @ i @ ''.'')
                   [(''type'', PStr ''staged_file_write''), (''action'', PStr ''append''), (''write_id'', PStr i),
                    (''next_index'', PInt (sw_next w')), (''size_bytes'', PInt (int (sw_size w')))],
                 s\<lparr>ss_disk := (ss_disk s)(sw_temporary w := Some (old @ data)), ss_writes := AList.update i w' (ss_writes s)\<rparr>))))"

definition append_text :: "string option \<Rightarrow> int option \<Rightarrow> string option \<Rightarrow> io \<Rightarrow> 'p staged_store \<Rightarrow> tool_result \<times> 'p staged_store" where
  "append_text write_id chunk content io s = (case get_write write_id s of
     Inl r \<Rightarrow> (r, s)
   | Inr (i, w) \<Rightarrow> (case content of
       None \<Rightarrow> (failed ''append_text requires content'', s)
     | Some t \<Rightarrow>
         if MAX_GENERATED_BODY_CHARS < length t
         then (failed (''STAGED_FILE_CHUNK_TOO_LARGE: '' @ nat_str (length t) @ '' characters; limit is ''
                @ nat_str MAX_GENERATED_BODY_CHARS @ ''.''), s)
         else append_bytes i w chunk (utf8_encode t) io s))"

definition append_file :: "'p staged_env \<Rightarrow> string option \<Rightarrow> int option \<Rightarrow> string option \<Rightarrow> io \<Rightarrow> 'p staged_store
    \<Rightarrow> tool_result \<times> 'p staged_store" where
  "append_file en write_id chunk path io s = (case get_write write_id s of
     Inl r \<Rightarrow> (r, s)
   | Inr (i, w) \<Rightarrow> (case given_text path of
       None \<Rightarrow> (failed ''append_file requires source path'', s)
     | Some p \<Rightarrow>
         (let source = sv_resolve en p in
          case sv_read_error en source of
            Some e \<Rightarrow> (e, s)
          | None \<Rightarrow> (case ss_disk s source of
              None \<Rightarrow> (failed (''Source file not found: '' @ p), s)
            | Some data \<Rightarrow>
                if \<not> utf8_valid data then (failed ''append_file supports UTF-8 text files only'', s)
                else append_bytes i w chunk data io s))))"

definition commit_write :: "'p staged_env \<Rightarrow> string option \<Rightarrow> int option \<Rightarrow> string option \<Rightarrow> io \<Rightarrow> 'p staged_store
    \<Rightarrow> tool_result \<times> 'p staged_store" where
  "commit_write en write_id expected expected_sha io s = (case get_write write_id s of
     Inl r \<Rightarrow> (r, s)
   | Inr (i, w) \<Rightarrow>
       (let effective = (case expected of Some n \<Rightarrow> Some n | None \<Rightarrow> sw_expected w) in
        if effective \<noteq> Some (sw_next w)
        then (failed (''STAGED_FILE_CHUNK_COUNT_MISMATCH: expected_chunks='' @ opt_int effective @ '', actual=''
               @ int_str (sw_next w) @ ''.''), s)
        else case ss_disk s (sw_temporary w) of
          None \<Rightarrow> (os_failed (sv_missing en (sw_temporary w)), s)
        | Some bytes \<Rightarrow>
            (let digest = sv_sha256 en bytes in
             if (case given_text expected_sha of None \<Rightarrow> False | Some h \<Rightarrow> py_lower h \<noteq> digest)
             then (failed (''STAGED_FILE_HASH_MISMATCH: actual_sha256='' @ digest), s)
             else case sv_write_error en (sw_target w) of
               Some e \<Rightarrow> (e, s)
             | None \<Rightarrow> (case io of
                 Fails _ e \<Rightarrow> (os_failed e, s)
               | Works \<Rightarrow>
                   (done_with (''Committed '' @ sv_path_text en (sw_target w) @ '' ('' @ nat_str (sw_size w) @ '' bytes, sha256=''
                        @ digest @ '').'')
                      [(''type'', PStr ''artifact''), (''path'', PStr (sv_path_text en (sw_target w))),
                       (''size_bytes'', PInt (int (sw_size w))), (''sha256'', PStr digest)],
                    s\<lparr>ss_disk := (ss_disk s)(sw_temporary w := None, sw_target w := Some bytes),
                      ss_writes := AList.delete i (ss_writes s)\<rparr>)))))"

definition abort_write :: "string option \<Rightarrow> io \<Rightarrow> 'p staged_store \<Rightarrow> tool_result \<times> 'p staged_store" where
  "abort_write write_id io s = (case get_write write_id s of
     Inl r \<Rightarrow> (r, s)
   | Inr (i, w) \<Rightarrow> (case io of
       Fails _ e \<Rightarrow> (os_failed e, s)
     | Works \<Rightarrow> (done_with ''Aborted staged write.'' [],
         s\<lparr>ss_disk := (ss_disk s)(sw_temporary w := None), ss_writes := AList.delete i (ss_writes s)\<rparr>)))"

text \<open>\<open>cleanup_pending_writes\<close>, when no removal raises.\<close>

definition cleanup_pending_writes :: "'p staged_store \<Rightarrow> string list \<times> 'p staged_store" where
  "cleanup_pending_writes s = (map fst (ss_writes s),
     \<lparr>ss_writes = [], ss_disk = (\<lambda>p. if p \<in> sw_temporary ` snd ` set (ss_writes s) then None else ss_disk s p)\<rparr>)"

definition staged_exec :: "'p staged_env \<Rightarrow> 'p staged_store \<Rightarrow> staged_op \<Rightarrow> tool_result \<times> 'p staged_store" where
  "staged_exec en s op = (case op of
     Begin path expected new_id io \<Rightarrow> begin_write en path expected new_id io s
   | AppendText i k t io \<Rightarrow> append_text i k t io s
   | AppendFile i k p io \<Rightarrow> append_file en i k p io s
   | Commit i n h io \<Rightarrow> commit_write en i n h io s
   | Abort i io \<Rightarrow> abort_write i io s
   | Cleanup \<Rightarrow> (done_with [] [], snd (cleanup_pending_writes s)))"

end
