(* ===== verification/StagedWriteCorrect.thy ===== *)
theory StagedWriteCorrect
  imports StagedWrite
begin

section \<open>A staged write publishes exactly its accepted chunks\<close>

text \<open>
  The abstract store holds for every open transaction the list of its chunks, and the published
  files. The tool refines it: an operation that fails changes nothing there, one that succeeds has
  its effect, and a commit publishes the concatenation of the chunks. The refinement needs that no
  append is torn, that a new id is fresh and that calls do not name part files; the last section
  shows what a torn append does.
\<close>

subsection \<open>The abstract store\<close>

record 'p transaction =
  tx_target :: 'p
  tx_expected :: "int option"
  tx_chunks :: "string list"

record 'p published =
  pb_open :: "(string \<times> 'p transaction) list"
  pb_files :: "'p \<Rightarrow> string option"

definition picked :: "string option \<Rightarrow> string list \<Rightarrow> string option" where
  "picked write_id ids = (case given_text write_id of
     Some i \<Rightarrow> if i \<in> set ids then Some i else (case ids of [j] \<Rightarrow> Some j | _ \<Rightarrow> None)
   | None \<Rightarrow> (case ids of [j] \<Rightarrow> Some j | _ \<Rightarrow> None))"

definition chosen :: "string option \<Rightarrow> 'p published \<Rightarrow> (string \<times> 'p transaction) option" where
  "chosen write_id a = (case picked write_id (map fst (pb_open a)) of
     None \<Rightarrow> None
   | Some i \<Rightarrow> map_option (Pair i) (map_of (pb_open a) i))"

definition add_chunk :: "string option \<Rightarrow> string \<Rightarrow> 'p published \<Rightarrow> 'p published" where
  "add_chunk write_id data a = (case chosen write_id a of
     None \<Rightarrow> a
   | Some (i, t) \<Rightarrow> a\<lparr>pb_open := AList.update i (t\<lparr>tx_chunks := tx_chunks t @ [data]\<rparr>) (pb_open a)\<rparr>)"

definition close_tx :: "bool \<Rightarrow> string option \<Rightarrow> 'p published \<Rightarrow> 'p published" where
  "close_tx publish write_id a = (case chosen write_id a of
     None \<Rightarrow> a
   | Some (i, t) \<Rightarrow> a\<lparr>pb_open := AList.delete i (pb_open a),
       pb_files := (if publish then (pb_files a)(tx_target t := Some (concat (tx_chunks t))) else pb_files a)\<rparr>)"

definition effect :: "'p staged_env \<Rightarrow> staged_op \<Rightarrow> 'p published \<Rightarrow> 'p published" where
  "effect en op a = (case op of
     Begin path expected i io \<Rightarrow> (case path of None \<Rightarrow> a
       | Some p \<Rightarrow> a\<lparr>pb_open := AList.update i \<lparr>tx_target = sv_resolve en p, tx_expected = expected, tx_chunks = []\<rparr> (pb_open a)\<rparr>)
   | AppendText i k content io \<Rightarrow> (case content of None \<Rightarrow> a | Some t \<Rightarrow> add_chunk i (utf8_encode t) a)
   | AppendFile i k path io \<Rightarrow> (case path of None \<Rightarrow> a
       | Some p \<Rightarrow> (case pb_files a (sv_resolve en p) of None \<Rightarrow> a | Some data \<Rightarrow> add_chunk i data a))
   | Commit i n h io \<Rightarrow> close_tx True i a
   | Abort i io \<Rightarrow> close_tx False i a
   | Cleanup \<Rightarrow> a\<lparr>pb_open := []\<rparr>)"

text \<open>What the store lets succeed: chunks in order and within the bounds, a commit of a complete file.\<close>

definition fits :: "string option \<Rightarrow> int option \<Rightarrow> string \<Rightarrow> 'p published \<Rightarrow> bool" where
  "fits write_id k data a = (case chosen write_id a of
     None \<Rightarrow> False
   | Some (_, t) \<Rightarrow> k = Some (int (length (tx_chunks t))) \<and> length (tx_chunks t) < MAX_STAGED_FILE_CHUNKS
       \<and> length (concat (tx_chunks t)) + length data \<le> MAX_STAGED_FILE_BYTES)"

definition complete :: "'p staged_env \<Rightarrow> int option \<Rightarrow> string option \<Rightarrow> 'p transaction \<Rightarrow> bool" where
  "complete en n h t = ((case n of Some m \<Rightarrow> Some m | None \<Rightarrow> tx_expected t) = Some (int (length (tx_chunks t)))
     \<and> (case given_text h of None \<Rightarrow> True | Some x \<Rightarrow> py_lower x = sv_sha256 en (concat (tx_chunks t)))
     \<and> sv_write_error en (tx_target t) = None)"

definition permitted :: "'p staged_env \<Rightarrow> staged_op \<Rightarrow> 'p published \<Rightarrow> bool" where
  "permitted en op a = (case op of
     Begin path _ i _ \<Rightarrow> (case path of None \<Rightarrow> False
       | Some p \<Rightarrow> sv_write_error en (sv_resolve en p) = None \<and> sv_resolve en p \<notin> tx_target ` snd ` set (pb_open a))
   | AppendText i k content _ \<Rightarrow> (case content of None \<Rightarrow> False
       | Some t \<Rightarrow> length t \<le> MAX_GENERATED_BODY_CHARS \<and> fits i k (utf8_encode t) a)
   | AppendFile i k path _ \<Rightarrow> (case path of None \<Rightarrow> False
       | Some p \<Rightarrow> sv_read_error en (sv_resolve en p) = None \<and> (case pb_files a (sv_resolve en p) of
           None \<Rightarrow> False | Some data \<Rightarrow> utf8_valid data \<and> fits i k data a))
   | Commit i n h _ \<Rightarrow> (case chosen i a of None \<Rightarrow> False | Some (_, t) \<Rightarrow> complete en n h t)
   | Abort i _ \<Rightarrow> chosen i a \<noteq> None
   | Cleanup \<Rightarrow> True)"

text \<open>
  The run of the store beside the tool: a failed operation is skipped, and the run gets stuck where
  the tool succeeds at what the store does not permit.
\<close>

fun published_run :: "'p staged_env \<Rightarrow> 'p staged_store \<Rightarrow> 'p published \<Rightarrow> staged_op list \<Rightarrow> 'p published option" where
  "published_run en s a [] = Some a"
| "published_run en s a (op # ops) = (let (r, s') = staged_exec en s op in
     if \<not> tr_success r then published_run en s' a ops
     else if permitted en op a then published_run en s' (effect en op a) ops
     else None)"

fun staged_run :: "'p staged_env \<Rightarrow> 'p staged_store \<Rightarrow> staged_op list \<Rightarrow> 'p staged_store" where
  "staged_run en s [] = s"
| "staged_run en s (op # ops) = staged_run en (snd (staged_exec en s op)) ops"

text \<open>No append is torn and new ids are fresh.\<close>

definition untorn :: "io \<Rightarrow> bool" where
  "untorn x = (case x of Works \<Rightarrow> True | Fails n _ \<Rightarrow> n = 0)"

definition sound_op :: "'p staged_store \<Rightarrow> staged_op \<Rightarrow> bool" where
  "sound_op s op = (case op of
     Begin _ _ i _ \<Rightarrow> i \<notin> set (map fst (ss_writes s))
   | AppendText _ _ _ io \<Rightarrow> untorn io
   | AppendFile _ _ _ io \<Rightarrow> untorn io
   | _ \<Rightarrow> True)"

fun sound_history :: "'p staged_env \<Rightarrow> 'p staged_store \<Rightarrow> staged_op list \<Rightarrow> bool" where
  "sound_history en s [] = True"
| "sound_history en s (op # ops) = (sound_op s op \<and> sound_history en (snd (staged_exec en s op)) ops)"

text \<open>The environment: part files of different ids differ, and no path of a call is a part file.\<close>

definition staging_apart :: "'p staged_env \<Rightarrow> bool" where
  "staging_apart en = (inj (sv_part en) \<and> (\<forall>p. sv_resolve en p \<notin> range (sv_part en)))"

definition refuses :: "'p staged_env \<Rightarrow> bool" where
  "refuses en = (\<forall>p e. sv_write_error en p = Some e \<or> sv_read_error en p = Some e \<longrightarrow> \<not> tr_success e)"

subsection \<open>The simulation\<close>

definition tracks :: "'p staged_env \<Rightarrow> ('p \<Rightarrow> string option) \<Rightarrow> string \<Rightarrow> 'p staged \<Rightarrow> 'p transaction \<Rightarrow> bool" where
  "tracks en disk i w t = (sw_target w = tx_target t \<and> sw_expected w = tx_expected t \<and> sw_temporary w = sv_part en i
     \<and> sw_next w = int (length (tx_chunks t)) \<and> sw_size w = length (concat (tx_chunks t))
     \<and> disk (sv_part en i) = Some (concat (tx_chunks t)) \<and> tx_target t \<notin> range (sv_part en))"

definition staged_sim :: "'p staged_env \<Rightarrow> 'p staged_store \<Rightarrow> 'p published \<Rightarrow> bool" where
  "staged_sim en s a = (map fst (ss_writes s) = map fst (pb_open a) \<and> distinct (map fst (ss_writes s))
     \<and> (\<forall>i w t. map_of (ss_writes s) i = Some w \<longrightarrow> map_of (pb_open a) i = Some t \<longrightarrow> tracks en (ss_disk s) i w t)
     \<and> (\<forall>p. p \<notin> range (sv_part en) \<longrightarrow> ss_disk s p = pb_files a p))"

lemma sim_keys:
  assumes "staged_sim en s a"
  shows "map fst (pb_open a) = map fst (ss_writes s)" "distinct (map fst (ss_writes s))" "distinct (map fst (pb_open a))"
  using assms unfolding staged_sim_def by metis+

lemma sim_tracks:
  "staged_sim en s a \<Longrightarrow> map_of (ss_writes s) i = Some w \<Longrightarrow> map_of (pb_open a) i = Some t \<Longrightarrow> tracks en (ss_disk s) i w t"
  by (simp add: staged_sim_def)

lemma sim_files: "staged_sim en s a \<Longrightarrow> p \<notin> range (sv_part en) \<Longrightarrow> ss_disk s p = pb_files a p"
  by (simp add: staged_sim_def)

lemma sim_lookup:
  assumes "staged_sim en s a" "map_of (ss_writes s) i = Some w"
  obtains t where "map_of (pb_open a) i = Some t" "tracks en (ss_disk s) i w t"
proof -
  have "i \<in> set (map fst (ss_writes s))" using map_of_SomeD [OF assms(2)] by force
  then have "i \<in> set (map fst (pb_open a))" by (simp only: sim_keys(1) [OF assms(1)])
  then have "map_of (pb_open a) i \<noteq> None" by (simp add: map_of_eq_None_iff)
  then obtain t where "map_of (pb_open a) i = Some t" by blast
  with assms that show thesis by (auto dest: sim_tracks)
qed

lemma get_write_picked:
  assumes "get_write write_id s = Inr (i, w)"
  shows "picked write_id (map fst (ss_writes s)) = Some i" "map_of (ss_writes s) i = Some w"
proof -
  have only: "case ss_writes s of [x] \<Rightarrow> x = (i, w) | _ \<Rightarrow> False"
    if "\<And>j. given_text write_id = Some j \<Longrightarrow> map_of (ss_writes s) j = None"
    using assms that by (auto simp: get_write_def split: option.splits list.splits)
  have "picked write_id (map fst (ss_writes s)) = Some i \<and> map_of (ss_writes s) i = Some w"
  proof (cases "\<exists>j v. given_text write_id = Some j \<and> map_of (ss_writes s) j = Some v")
    case True
    then show ?thesis using assms
      by (auto simp: get_write_def picked_def dest: map_of_SomeD split: option.splits intro: rev_image_eqI)
  next
    case False
    then have none: "\<And>j. given_text write_id = Some j \<Longrightarrow> map_of (ss_writes s) j = None" by fastforce
    then have "ss_writes s = [(i, w)]" using only by (auto split: list.splits)
    then show ?thesis using none by (auto simp: picked_def split: option.splits if_splits)
  qed
  then show "picked write_id (map fst (ss_writes s)) = Some i" "map_of (ss_writes s) i = Some w" by simp_all
qed

lemma get_write_refuses: "get_write write_id s = Inl r \<Longrightarrow> \<not> tr_success r"
  by (auto simp: get_write_def failed_def split: option.splits list.splits)

lemma sim_chosen:
  assumes "staged_sim en s a" "get_write write_id s = Inr (i, w)"
  obtains t where "chosen write_id a = Some (i, t)" "map_of (ss_writes s) i = Some w" "map_of (pb_open a) i = Some t"
    "tracks en (ss_disk s) i w t"
proof -
  note g = get_write_picked [OF assms(2)]
  obtain t where t: "map_of (pb_open a) i = Some t" "tracks en (ss_disk s) i w t"
    using sim_lookup [OF assms(1) g(2)] .
  then have "chosen write_id a = Some (i, t)"
    using g(1) by (simp add: chosen_def sim_keys(1) [OF assms(1)])
  with t g(2) that show thesis by blast
qed

lemma tracks_elsewhere:
  "tracks en disk j v u \<Longrightarrow> inj (sv_part en) \<Longrightarrow> j \<noteq> i \<Longrightarrow> tracks en (disk(sv_part en i := b)) j v u"
  by (auto simp: tracks_def dest: injD)

lemma tracks_published:
  "tracks en disk j v u \<Longrightarrow> p \<notin> range (sv_part en) \<Longrightarrow> tracks en (disk(p := b)) j v u"
  by (auto simp: tracks_def)

text \<open>The two ways an operation changes the store: one transaction set, one transaction closed.\<close>

lemma sim_set:
  assumes sim: "staged_sim en s a" and inj: "inj (sv_part en)"
    and tr: "tracks en ((ss_disk s)(sv_part en i := b)) i w t"
  shows "staged_sim en (s\<lparr>ss_disk := (ss_disk s)(sv_part en i := b), ss_writes := AList.update i w (ss_writes s)\<rparr>)
           (a\<lparr>pb_open := AList.update i t (pb_open a)\<rparr>)"
proof -
  note k = sim_keys [OF sim]
  have "map fst (AList.update i w (ss_writes s)) = map fst (AList.update i t (pb_open a))"
    using k(1) by (simp add: update_keys)
  moreover have "distinct (map fst (AList.update i w (ss_writes s)))" using k(2) by (rule distinct_update)
  moreover have "tracks en ((ss_disk s)(sv_part en i := b)) j v u"
    if "map_of (AList.update i w (ss_writes s)) j = Some v" "map_of (AList.update i t (pb_open a)) j = Some u" for j v u
    using that tr tracks_elsewhere [OF sim_tracks [OF sim] inj, of j v u i b]
    by (cases "j = i") (simp_all add: update_conv')
  moreover have "((ss_disk s)(sv_part en i := b)) p = pb_files a p" if "p \<notin> range (sv_part en)" for p
    using sim_files [OF sim that] that by auto
  ultimately show ?thesis unfolding staged_sim_def by simp
qed

lemma sim_closed:
  assumes sim: "staged_sim en s a" and inj: "inj (sv_part en)"
    and disk: "\<And>j. j \<noteq> i \<Longrightarrow> disk (sv_part en j) = ss_disk s (sv_part en j)"
    and files: "\<And>p. p \<notin> range (sv_part en) \<Longrightarrow> disk p = files p"
  shows "staged_sim en (s\<lparr>ss_disk := disk, ss_writes := AList.delete i (ss_writes s)\<rparr>)
           (a\<lparr>pb_open := AList.delete i (pb_open a), pb_files := files\<rparr>)"
proof -
  note k = sim_keys [OF sim]
  have "map fst (AList.delete i (ss_writes s)) = map fst (AList.delete i (pb_open a))"
    using k(1) by (simp add: delete_keys)
  moreover have "distinct (map fst (AList.delete i (ss_writes s)))" using k(2) by (rule distinct_delete)
  moreover have "tracks en disk j v u"
    if "map_of (AList.delete i (ss_writes s)) j = Some v" "map_of (AList.delete i (pb_open a)) j = Some u" for j v u
  proof -
    have "j \<noteq> i" "map_of (ss_writes s) j = Some v" "map_of (pb_open a) j = Some u"
      using that by (auto simp: delete_conv' split: if_splits)
    then show ?thesis using sim_tracks [OF sim, of j v u] disk [of j] unfolding tracks_def by metis
  qed
  ultimately show ?thesis using files unfolding staged_sim_def by simp
qed

subsection \<open>The operations\<close>

text \<open>What one operation shows: it succeeds only where permitted, with its effect, and otherwise changes nothing.\<close>

definition simulates :: "'p staged_env \<Rightarrow> staged_op \<Rightarrow> 'p published \<Rightarrow> tool_result \<times> 'p staged_store \<Rightarrow> bool" where
  "simulates en op a out = (if tr_success (fst out) then permitted en op a \<and> staged_sim en (snd out) (effect en op a)
     else staged_sim en (snd out) a)"

lemma simulates_refused: "staged_sim en s a \<Longrightarrow> \<not> tr_success r \<Longrightarrow> simulates en op a (r, s)"
  by (simp add: simulates_def)

lemma unsuccessful [simp]:
  "\<not> tr_success (failed e)" "\<not> tr_success (os_failed e)" "\<not> tr_success (target_active i w)" "tr_success (done_with c raw)"
  by (simp_all add: failed_def os_failed_def target_active_def done_with_def)

lemma refuses_writes: "refuses en \<Longrightarrow> sv_write_error en p = Some e \<Longrightarrow> \<not> tr_success e"
  by (auto simp: refuses_def)

lemma refuses_reads: "refuses en \<Longrightarrow> sv_read_error en p = Some e \<Longrightarrow> \<not> tr_success e"
  by (auto simp: refuses_def)

lemma given_text_Some: "given_text x = Some p \<longleftrightarrow> x = Some p \<and> p \<noteq> []"
  by (auto simp: given_text_def)

lemma not_active:
  assumes "staged_sim en s a" "active_for p s = None"
  shows "p \<notin> tx_target ` snd ` set (pb_open a)"
proof
  assume "p \<in> tx_target ` snd ` set (pb_open a)"
  then obtain i t where t: "(i, t) \<in> set (pb_open a)" "tx_target t = p" by auto
  then have lookup: "map_of (pb_open a) i = Some t" using sim_keys(3) [OF assms(1)] by (simp add: map_of_is_SomeI)
  have "i \<in> set (map fst (pb_open a))" using t(1) by force
  then have "i \<in> set (map fst (ss_writes s))" by (simp only: sim_keys(1) [OF assms(1)])
  then obtain w where w: "map_of (ss_writes s) i = Some w" by (metis map_of_eq_None_iff option.exhaust list.set_map)
  have "sw_target w = p" using sim_tracks [OF assms(1) w lookup] t(2) by (simp add: tracks_def)
  moreover have "(i, w) \<in> set (ss_writes s)" using w by (rule map_of_SomeD)
  ultimately show False using assms(2) by (auto simp: active_for_def find_None_iff)
qed

lemma sim_begin:
  assumes "staged_sim en s a" "staging_apart en" "refuses en" "i \<notin> set (map fst (ss_writes s))"
  shows "simulates en (Begin path expected i io) a (begin_write en path expected i io s)"
proof (cases "\<exists>p. given_text path = Some p \<and> sv_write_error en (sv_resolve en p) = None
    \<and> active_for (sv_resolve en p) s = None \<and> io = Works")
  case False
  then show ?thesis using assms(1,3)
    by (auto simp: begin_write_def Let_def intro!: simulates_refused dest: refuses_writes split: option.splits io.splits)
next
  case True
  then obtain p where p: "path = Some p" "p \<noteq> []" "sv_write_error en (sv_resolve en p) = None"
    "active_for (sv_resolve en p) s = None" "io = Works" by (auto simp: given_text_Some)
  have "tracks en ((ss_disk s)(sv_part en i := Some [])) i
      \<lparr>sw_target = sv_resolve en p, sw_temporary = sv_part en i, sw_expected = expected, sw_next = 0, sw_size = 0\<rparr>
      \<lparr>tx_target = sv_resolve en p, tx_expected = expected, tx_chunks = []\<rparr>"
    using assms(2) by (simp add: tracks_def staging_apart_def)
  from sim_set [OF assms(1) _ this] assms(2) not_active [OF assms(1) p(4)] p show ?thesis
    by (simp add: simulates_def begin_write_def given_text_def permitted_def effect_def staging_apart_def)
qed

lemma sim_append_bytes:
  assumes sim: "staged_sim en s a" and inj: "inj (sv_part en)" and io: "untorn io"
    and get: "get_write write_id s = Inr (i, w)" and out: "append_bytes i w k data io s = (r, s')"
  shows "if tr_success r then fits write_id k data a \<and> staged_sim en s' (add_chunk write_id data a) else staged_sim en s' a"
proof -
  obtain t where t: "chosen write_id a = Some (i, t)" "tracks en (ss_disk s) i w t" using sim_chosen [OF sim get] by metis
  note tr = t(2) [unfolded tracks_def]
  consider (refused) "s' = s" "\<not> tr_success r"
    | (written) "k = Some (sw_next w)" "sw_next w < int MAX_STAGED_FILE_CHUNKS" "sw_size w + length data \<le> MAX_STAGED_FILE_BYTES" "tr_success r"
        "s' = s\<lparr>ss_disk := (ss_disk s)(sv_part en i := Some (concat (tx_chunks t) @ data)),
           ss_writes := AList.update i (w\<lparr>sw_next := sw_next w + 1, sw_size := sw_size w + length data\<rparr>) (ss_writes s)\<rparr>"
    using out io tr by (auto simp: append_bytes_def Let_def untorn_def fun_upd_idem split: if_splits io.splits)
  then show ?thesis
  proof cases
    case refused
    then show ?thesis using sim by simp
  next
    case written
    have "tracks en ((ss_disk s)(sv_part en i := Some (concat (tx_chunks t) @ data))) i
        (w\<lparr>sw_next := sw_next w + 1, sw_size := sw_size w + length data\<rparr>) (t\<lparr>tx_chunks := tx_chunks t @ [data]\<rparr>)"
      using tr by (simp add: tracks_def)
    from sim_set [OF sim inj this] written t(1) tr show ?thesis by (simp add: fits_def add_chunk_def)
  qed
qed

lemma sim_append_text:
  assumes "staged_sim en s a" "staging_apart en" "untorn io"
  shows "simulates en (AppendText write_id k content io) a (append_text write_id k content io s)"
proof (cases "\<exists>i w t. get_write write_id s = Inr (i, w) \<and> content = Some t \<and> length t \<le> MAX_GENERATED_BODY_CHARS")
  case False
  then show ?thesis using assms(1)
    by (auto simp: append_text_def intro!: simulates_refused dest: get_write_refuses split: option.splits sum.splits)
next
  case True
  then obtain i w t where g: "get_write write_id s = Inr (i, w)" "content = Some t" "length t \<le> MAX_GENERATED_BODY_CHARS" by blast
  obtain r s' where out: "append_bytes i w k (utf8_encode t) io s = (r, s')" by (metis surj_pair)
  have inj: "inj (sv_part en)" using assms(2) by (simp add: staging_apart_def)
  show ?thesis using sim_append_bytes [OF assms(1) inj assms(3) g(1) out] g out
    by (simp add: simulates_def append_text_def permitted_def effect_def split: if_splits)
qed

lemma sim_append_file:
  assumes "staged_sim en s a" "staging_apart en" "refuses en" "untorn io"
  shows "simulates en (AppendFile write_id k path io) a (append_file en write_id k path io s)"
proof (cases "\<exists>i w p data. get_write write_id s = Inr (i, w) \<and> given_text path = Some p \<and> sv_read_error en (sv_resolve en p) = None
    \<and> ss_disk s (sv_resolve en p) = Some data \<and> utf8_valid data")
  case False
  then show ?thesis using assms(1,3)
    by (auto simp: append_file_def Let_def intro!: simulates_refused dest: get_write_refuses refuses_reads split: option.splits sum.splits)
next
  case True
  then obtain i w p data where g: "get_write write_id s = Inr (i, w)" "path = Some p" "p \<noteq> []" "sv_read_error en (sv_resolve en p) = None"
    "ss_disk s (sv_resolve en p) = Some data" "utf8_valid data" by (auto simp: given_text_Some)
  obtain r s' where out: "append_bytes i w k data io s = (r, s')" by (metis surj_pair)
  have inj: "inj (sv_part en)" and source: "pb_files a (sv_resolve en p) = Some data"
    using assms(2) g(5) sim_files [OF assms(1)] by (auto simp: staging_apart_def)
  show ?thesis using sim_append_bytes [OF assms(1) inj assms(4) g(1) out] g out source
    by (simp add: simulates_def append_file_def permitted_def effect_def given_text_def split: if_splits)
qed

lemma sim_commit:
  assumes sim: "staged_sim en s a" and env: "staging_apart en" "refuses en"
  shows "simulates en (Commit write_id n h io) a (commit_write en write_id n h io s)"
proof (cases "get_write write_id s")
  case (Inl r)
  then show ?thesis using sim by (auto simp: commit_write_def intro: simulates_refused dest: get_write_refuses)
next
  case (Inr x)
  then obtain i w where g: "get_write write_id s = Inr (i, w)" by (cases x) auto
  obtain t where t: "chosen write_id a = Some (i, t)" "tracks en (ss_disk s) i w t" using sim_chosen [OF sim g] by metis
  note tr = t(2) [unfolded tracks_def]
  show ?thesis
  proof (cases "complete en n h t \<and> io = Works")
    case False
    then show ?thesis using sim env(2) g tr
      by (auto simp: commit_write_def complete_def Let_def intro!: simulates_refused dest: refuses_writes split: option.splits io.splits if_splits)
  next
    case True
    let ?disk = "(ss_disk s)(sv_part en i := None, tx_target t := Some (concat (tx_chunks t)))"
    have files: "?disk p = ((pb_files a)(tx_target t := Some (concat (tx_chunks t)))) p" if "p \<notin> range (sv_part en)" for p
      using sim_files [OF sim that] that by auto
    have others: "?disk (sv_part en j) = ss_disk s (sv_part en j)" if "j \<noteq> i" for j
    proof -
      have "sv_part en j \<noteq> sv_part en i" using that env(1) by (auto simp: staging_apart_def dest: injD)
      moreover have "sv_part en j \<noteq> tx_target t" using tr by (metis rangeI)
      ultimately show ?thesis by simp
    qed
    have "staged_sim en (s\<lparr>ss_disk := ?disk, ss_writes := AList.delete i (ss_writes s)\<rparr>)
        (a\<lparr>pb_open := AList.delete i (pb_open a), pb_files := (pb_files a)(tx_target t := Some (concat (tx_chunks t)))\<rparr>)"
      by (rule sim_closed [OF sim _ others files]) (use env(1) in \<open>simp_all add: staging_apart_def\<close>)
    then show ?thesis using True g t(1) tr
      by (auto simp: simulates_def commit_write_def complete_def permitted_def effect_def close_tx_def Let_def split: option.splits)
  qed
qed

lemma sim_abort:
  assumes sim: "staged_sim en s a" and env: "staging_apart en"
  shows "simulates en (Abort write_id io) a (abort_write write_id io s)"
proof (cases "\<exists>i w. get_write write_id s = Inr (i, w) \<and> io = Works")
  case False
  then show ?thesis using sim
    by (auto simp: abort_write_def intro!: simulates_refused dest: get_write_refuses split: sum.splits io.splits)
next
  case True
  then obtain i w where g: "get_write write_id s = Inr (i, w)" "io = Works" by blast
  obtain t where t: "chosen write_id a = Some (i, t)" "tracks en (ss_disk s) i w t" using sim_chosen [OF sim g(1)] by metis
  have tmp: "sw_temporary w = sv_part en i" using t(2) by (simp add: tracks_def)
  have "staged_sim en (s\<lparr>ss_disk := (ss_disk s)(sv_part en i := None), ss_writes := AList.delete i (ss_writes s)\<rparr>)
      (a\<lparr>pb_open := AList.delete i (pb_open a), pb_files := pb_files a\<rparr>)"
    by (rule sim_closed [OF sim]) (use env sim_files [OF sim] in \<open>auto simp: staging_apart_def dest: injD\<close>)
  then show ?thesis using g t(1) tmp
    by (simp add: simulates_def abort_write_def permitted_def effect_def close_tx_def)
qed

lemma sim_cleanup:
  assumes sim: "staged_sim en s a"
  shows "simulates en Cleanup a (done_with [] [], snd (cleanup_pending_writes s))"
proof -
  have "sw_temporary w \<in> range (sv_part en)" if "(i, w) \<in> set (ss_writes s)" for i w
  proof -
    have "map_of (ss_writes s) i = Some w" using sim_keys(2) [OF sim] that by (simp add: map_of_is_SomeI)
    then obtain t where "tracks en (ss_disk s) i w t" using sim_lookup [OF sim] by metis
    then show ?thesis by (simp add: tracks_def)
  qed
  then have "p \<notin> sw_temporary ` snd ` set (ss_writes s)" if "p \<notin> range (sv_part en)" for p using that by fastforce
  then show ?thesis using sim_files [OF sim]
    by (auto simp: simulates_def cleanup_pending_writes_def permitted_def effect_def staged_sim_def)
qed

subsection \<open>Histories\<close>

lemma sim_step:
  assumes "staged_sim en s a" "staging_apart en" "refuses en" "sound_op s op"
  shows "simulates en op a (staged_exec en s op)"
  using assms sim_begin sim_append_text sim_append_file sim_commit sim_abort sim_cleanup
  by (cases op) (simp_all add: staged_exec_def sound_op_def)

lemma sim_run:
  assumes "staged_sim en s a" "staging_apart en" "refuses en" "sound_history en s ops"
  shows "\<exists>b. published_run en s a ops = Some b \<and> staged_sim en (staged_run en s ops) b"
  using assms
proof (induction ops arbitrary: s a)
  case Nil
  then show ?case by simp
next
  case (Cons op ops)
  obtain r s' where out: "staged_exec en s op = (r, s')" by (metis surj_pair)
  have "simulates en op a (r, s')" using sim_step [OF Cons.prems(1-3)] Cons.prems(4) out by (metis sound_history.simps(2))
  then show ?case using Cons.IH [OF _ Cons.prems(2,3)] Cons.prems(4) out
    by (cases "tr_success r") (simp_all add: simulates_def)
qed

definition no_writes :: "('p \<Rightarrow> string option) \<Rightarrow> 'p staged_store" where
  "no_writes disk = \<lparr>ss_writes = [], ss_disk = disk\<rparr>"

definition nothing_open :: "('p \<Rightarrow> string option) \<Rightarrow> 'p published" where
  "nothing_open disk = \<lparr>pb_open = [], pb_files = disk\<rparr>"


definition sample_env :: "string staged_env" where
  "sample_env = \<lparr>sv_resolve = (\<lambda>p. CHR ''w'' # p), sv_part = (\<lambda>i. CHR ''s'' # i), sv_write_error = (\<lambda>_. None),
     sv_read_error = (\<lambda>p. if p = ''wkey'' then Some (failed ''denied'') else None), sv_path_text = (\<lambda>p. p), sv_sha256 = rev, sv_missing = (\<lambda>p. p)\<rparr>"

definition sample_calls :: "staged_op list" where
  "sample_calls = [Begin (Some ''x'') (Some 2) ''i'' Works, AppendText (Some ''i'') (Some 0) (Some ''ab'') Works,
     AppendText (Some ''i'') (Some 0) (Some ''ab'') Works, AppendFile None (Some 1) (Some ''y'') (Fails 0 ''full''),
     AppendFile None (Some 1) (Some ''y'') Works, Commit (Some ''i'') None (Some ''CBA'') Works]"

lemmas staged_eval = staged_exec_def begin_write_def append_text_def append_file_def append_bytes_def commit_write_def
  get_write_def active_for_def no_writes_def given_text_def done_with_def failed_def os_failed_def untorn_def sound_op_def
  utf8_encode_def MAX_STAGED_FILE_BYTES_def MAX_STAGED_FILE_CHUNKS_def MAX_GENERATED_BODY_CHARS_def py_lower_def py_lower_char_def Let_def


subsection \<open>Where the tool falls short\<close>

text \<open>
  A torn append leaves bytes in the part file that the counters do not count: the failed call
  changes neither index nor size, so the same chunk is sent again, and the commit publishes the stray bytes
  and reports the smaller size.
\<close>

definition torn_calls :: "staged_op list" where
  "torn_calls = [Begin (Some ''x'') (Some 1) ''i'' Works, AppendText (Some ''i'') (Some 0) (Some ''ab'') (Fails 2 ''fsync''),
     AppendText (Some ''i'') (Some 0) (Some ''ab'') Works]"

lemma torn_append_published:
  "let (r, s) = staged_exec sample_env (staged_run sample_env (no_writes Map.empty) torn_calls) (Commit (Some ''i'') None None Works)
   in tr_success r \<and> ss_disk s ''wx'' = Some ''abab'' \<and> tr_content r = ''Committed wx (2 bytes, sha256=baba).''"
proof -
  have "nat_str (Suc (Suc 0)) = ''2''" by code_simp
  then show ?thesis by (simp add: torn_calls_def sample_env_def staged_eval)
qed

text \<open>
  The id of a closed transaction stands for the only open one: an abort sent twice discards
  another file's chunks.
\<close>

definition twice_aborted :: "staged_op list" where
  "twice_aborted = [Begin (Some ''x'') (Some 1) ''i'' Works, Begin (Some ''z'') (Some 1) ''j'' Works,
     AppendText (Some ''j'') (Some 0) (Some ''ab'') Works, Abort (Some ''i'') Works, Abort (Some ''i'') Works]"

lemma abort_twice_discards_other: "ss_writes (staged_run sample_env (no_writes Map.empty) twice_aborted) = []"
  by (simp add: twice_aborted_def sample_env_def staged_eval abort_write_def)

end
