(* ===== verification/Todo.thy ===== *)
theory Todo
  imports Prelude
begin

section \<open>The todo store (box_agent/tools/todo\_tool.py)\<close>

text \<open>
  \<open>TodoStore\<close>: a list of todo records with validated updates, optional persistence and an
  optional change sink (the session log). The model keeps a record of the code's fields:
  the dictionary of items, the id counter, the persistence file (\<open>NoFile\<close>, unreadable
  text, or the parsed JSON value) and the snapshots handed to the sink. A todo record has
  the five keys the code reads; \<open>priority\<close> may be absent, as in legacy files. The clock
  is an argument of the operations that stamp a record. Failures of the file system while
  saving are not modelled.
\<close>

record todo_item =
  todo_id :: string
  task :: string
  status :: string
  priority :: "string option"
  created_at :: string

datatype todo_error =
    DataNotList
  | NotObject nat
  | InvalidId nat pyval
  | DuplicateId string
  | NoTask string
  | InvalidStatus string pyval
  | InvalidPriority string pyval
  | NoCreatedAt string
  | ActiveCount nat
  | DoesNotExist string
  | AdvanceByTransition
  | MustPreserveId string "string list"
  | WrongId string "string list" string
  | NextSameAsCurrent
  | NotInProgress string
  | NextNotFound string
  | NextNotPending string
  | MissingKey string
  | NoCurrentRecord
  | UnreadableFile
  | InvalidPersisted todo_error

definition valid_statuses :: "string list" where
  "valid_statuses = [''pending'', ''in_progress'', ''completed'']"

definition valid_priorities :: "string list" where
  "valid_priorities = [''high'', ''medium'', ''low'']"

subsection \<open>Workflow state: at most one active item\<close>

definition unfinished :: "string list \<Rightarrow> string list" where
  "unfinished ss = filter (\<lambda>s. s \<noteq> ''completed'') ss"

definition active :: "string list \<Rightarrow> string list" where
  "active ss = filter (\<lambda>s. s = ''in_progress'') (unfinished ss)"

definition todo_state_error :: "string list \<Rightarrow> todo_error option" where
  "todo_state_error ss =
     (if unfinished ss = [] then None
      else if length (active ss) = 1 then None
      else Some (ActiveCount (length (active ss))))"

text \<open>Both of the following rewrite only the statuses: the first unfinished one becomes
  \<open>in_progress\<close>; every active one after the first goes back to \<open>pending\<close>.\<close>

fun activate_head :: "string list \<Rightarrow> string list" where
  "activate_head [] = []"
| "activate_head (s # ss) =
     (if s \<noteq> ''completed'' then ''in_progress'' # ss else s # activate_head ss)"

definition activate_first_unfinished :: "string list \<Rightarrow> bool \<times> string list" where
  "activate_first_unfinished ss =
     (if unfinished ss = [] then (False, ss)
      else if active ss \<noteq> [] then (False, ss)
      else (True, activate_head ss))"

fun demote_after :: "bool \<Rightarrow> string list \<Rightarrow> string list" where
  "demote_after seen [] = []"
| "demote_after seen (s # ss) =
     (if s = ''in_progress''
      then (if seen then ''pending'' else s) # demote_after True ss
      else s # demote_after seen ss)"

definition migrate_legacy :: "string list \<Rightarrow> bool \<times> string list" where
  "migrate_legacy ss =
     (if unfinished ss = [] then (False, ss)
      else if length (active ss) = 1 then (False, ss)
      else if active ss = [] then (True, activate_head ss)
      else (True, demote_after False ss))"

subsection \<open>Validation of records\<close>

definition valid_todo_id :: "string \<Rightarrow> bool" where
  "valid_todo_id s = (py_isdigit s \<and>
     (case py_int s of None \<Rightarrow> False | Some n \<Rightarrow> 1 \<le> n \<and> nat_str n = s))"

fun nonblank :: "pyval \<Rightarrow> bool" where
  "nonblank (PStr s) = (py_strip s \<noteq> [])"
| "nonblank _ = False"

fun str_in :: "pyval \<Rightarrow> string list \<Rightarrow> bool" where
  "str_in (PStr s) xs = (s \<in> set xs)"
| "str_in _ _ = False"

definition check_record :: "nat \<Rightarrow> string list \<Rightarrow> pydict \<Rightarrow> todo_error + string" where
  "check_record i seen d =
     (case dget d ''id'' of
        PStr t \<Rightarrow>
          (if \<not> valid_todo_id t then Inl (InvalidId i (PStr t))
           else if t \<in> set seen then Inl (DuplicateId t)
           else if \<not> nonblank (dget d ''task'') then Inl (NoTask t)
           else if \<not> str_in (dget d ''status'') valid_statuses
             then Inl (InvalidStatus t (dget d ''status''))
           else if \<not> str_in (dget_or d ''priority'' (PStr ''medium'')) valid_priorities
             then Inl (InvalidPriority t (dget_or d ''priority'' (PStr ''medium'')))
           else if \<not> nonblank (dget d ''created_at'') then Inl (NoCreatedAt t)
           else Inr t)
      | v \<Rightarrow> Inl (InvalidId i v))"

fun check_records :: "nat \<Rightarrow> string list \<Rightarrow> pyval list \<Rightarrow> todo_error option" where
  "check_records i seen [] = None"
| "check_records i seen (PDict d # vs) =
     (case check_record i seen d of
        Inl e \<Rightarrow> Some e
      | Inr t \<Rightarrow> check_records (Suc i) (t # seen) vs)"
| "check_records i seen (v # vs) = Some (NotObject i)"

fun validate_todo_records :: "pyval \<Rightarrow> todo_error option" where
  "validate_todo_records (PList vs) = check_records 1 [] vs"
| "validate_todo_records _ = Some DataNotList"

definition todo_dict :: "todo_item \<Rightarrow> pydict" where
  "todo_dict i =
     [(''id'', PStr (todo_id i)), (''task'', PStr (task i)), (''status'', PStr (status i))] @
     (case priority i of None \<Rightarrow> [] | Some p \<Rightarrow> [(''priority'', PStr p)]) @
     [(''created_at'', PStr (created_at i))]"

abbreviation todo_to_py :: "todo_item \<Rightarrow> pyval" where
  "todo_to_py i \<equiv> PDict (todo_dict i)"

fun as_str :: "pyval \<Rightarrow> string" where
  "as_str (PStr s) = s"
| "as_str _ = []"

fun py_to_todo :: "pyval \<Rightarrow> todo_item" where
  "py_to_todo (PDict d) =
     \<lparr>todo_id = as_str (dget d ''id''), task = as_str (dget d ''task''),
      status = as_str (dget d ''status''), priority = map_option as_str (map_of d ''priority''),
      created_at = as_str (dget d ''created_at'')\<rparr>"
| "py_to_todo _ = \<lparr>todo_id = [], task = [], status = [], priority = None, created_at = []\<rparr>"

definition validate_todo_items :: "todo_item list \<Rightarrow> todo_error option" where
  "validate_todo_items its =
     (case validate_todo_records (PList (map todo_to_py its)) of
        Some e \<Rightarrow> Some e
      | None \<Rightarrow> todo_state_error (map status its))"

definition set_statuses :: "todo_item list \<Rightarrow> string list \<Rightarrow> todo_item list" where
  "set_statuses its ss = map2 (\<lambda>i s. i\<lparr>status := s\<rparr>) its ss"

subsection \<open>The store\<close>

datatype todo_file = NoFile | Unreadable | Json pyval

record todo_store =
  items :: "(string \<times> todo_item) list"
  counter :: nat
  persist :: bool
  disk :: todo_file
  sink :: "todo_item list list option"

definition todo_list :: "todo_store \<Rightarrow> todo_item list" where
  "todo_list s = vals (items s)"

lemma todo_list_simps [simp]:
  "todo_list (s\<lparr>items := d\<rparr>) = vals d" "todo_list (s\<lparr>counter := n\<rparr>) = todo_list s"
  "todo_list (s\<lparr>disk := f\<rparr>) = todo_list s" "todo_list (s\<lparr>sink := l\<rparr>) = todo_list s"
  by (simp_all add: todo_list_def)

definition next_id :: "todo_store \<Rightarrow> string \<times> todo_store" where
  "next_id s = (nat_str (counter s), s\<lparr>counter := Suc (counter s)\<rparr>)"

definition save :: "todo_store \<Rightarrow> todo_store" where
  "save s = (if persist s then s\<lparr>disk := Json (PList (map todo_to_py (todo_list s)))\<rparr> else s)"

definition publish :: "todo_store \<Rightarrow> todo_store" where
  "publish s = s\<lparr>sink := map_option (\<lambda>log. log @ [todo_list s]) (sink s)\<rparr>"

definition id_num :: "string \<Rightarrow> nat" where
  "id_num s = (case py_int s of None \<Rightarrow> 0 | Some n \<Rightarrow> n)"

definition max_id :: "todo_item list \<Rightarrow> nat" where
  "max_id its = foldr max (map (id_num \<circ> todo_id) its) 0"

definition load :: "todo_store \<Rightarrow> todo_error + todo_store" where
  "load s = (case disk s of
     Json v \<Rightarrow>
       (case validate_todo_records v of
          Some e \<Rightarrow> Inl (InvalidPersisted e)
        | None \<Rightarrow>
            (let loaded = (case v of PList vs \<Rightarrow> map py_to_todo vs | _ \<Rightarrow> []);
                 (migrated, ss) = migrate_legacy (map status loaded);
                 cand = set_statuses loaded ss
             in case validate_todo_items cand of
                  Some e \<Rightarrow> Inl (InvalidPersisted e)
                | None \<Rightarrow>
                    (let s' = s\<lparr>items := dict_by todo_id cand, counter := Suc (max_id cand)\<rparr>
                     in Inr (if migrated then save s' else s'))))
   | _ \<Rightarrow> Inl UnreadableFile)"

definition open_store :: "bool \<Rightarrow> todo_file \<Rightarrow> todo_error + todo_store" where
  "open_store p f =
     (let s = \<lparr>items = [], counter = 1, persist = p, disk = f, sink = None\<rparr>
      in if p \<and> f \<noteq> NoFile then load s else Inr s)"

definition commit :: "todo_store \<Rightarrow> todo_item list \<Rightarrow> (todo_error + unit) \<times> todo_store" where
  "commit s its = (case validate_todo_items its of
     Some e \<Rightarrow> (Inl e, s)
   | None \<Rightarrow> (Inr (), publish (save (s\<lparr>items := dict_by todo_id its\<rparr>))))"

definition restore :: "todo_store \<Rightarrow> pydict list \<Rightarrow> todo_store" where
  "restore s recs =
     (let loaded = map (py_to_todo \<circ> PDict) recs;
          ok = validate_todo_records (PList (map PDict recs)) = None
               \<and> todo_state_error (map status loaded) = None;
          cand = (if ok then loaded else [])
      in s\<lparr>items := dict_by todo_id cand, counter := Suc (max_id cand)\<rparr>)"

definition set_change_sink :: "todo_store \<Rightarrow> bool \<Rightarrow> todo_store" where
  "set_change_sink s on = s\<lparr>sink := (if on then Some [] else None)\<rparr>"

definition commit_then ::
  "todo_store \<Rightarrow> todo_item list \<Rightarrow> (todo_store \<Rightarrow> 'a) \<Rightarrow> (todo_error + 'a) \<times> todo_store" where
  "commit_then s its ret = (case commit s its of
     (Inl e, s') \<Rightarrow> (Inl e, s')
   | (Inr _, s') \<Rightarrow> (Inr (ret s'), s'))"

definition create ::
  "todo_store \<Rightarrow> string \<Rightarrow> string \<Rightarrow> string option \<Rightarrow> string \<Rightarrow> (todo_error + todo_item) \<times> todo_store" where
  "create s t prio st now =
     (let its = todo_list s;
          has_unfinished = (\<exists>i \<in> set its. status i \<noteq> ''completed'');
          st' = (case st of None \<Rightarrow> (if has_unfinished then ''pending'' else ''in_progress'')
                          | Some x \<Rightarrow> x)
      in case todo_state_error (map status its @ [st']) of
           Some e \<Rightarrow> (Inl e, s)
         | None \<Rightarrow>
             (let (tid, s') = next_id s;
                  item = \<lparr>todo_id = tid, task = py_strip t, status = st',
                          priority = Some prio, created_at = now\<rparr>
              in commit_then s' (its @ [item]) (\<lambda>_. item)))"

definition update ::
  "todo_store \<Rightarrow> string \<Rightarrow> string option \<Rightarrow> string option \<Rightarrow> (todo_error + todo_item option) \<times> todo_store" where
  "update s tid st t =
     (if map_of (items s) tid = None then (Inr None, s)
      else case find (\<lambda>i. todo_id i = tid) (todo_list s) of
        None \<Rightarrow> (Inl NoCurrentRecord, s)
      | Some i0 \<Rightarrow>
          (let upd = (\<lambda>i. i\<lparr>status := (case st of None \<Rightarrow> status i | Some x \<Rightarrow> x),
                            task := (case t of None \<Rightarrow> task i | Some x \<Rightarrow> py_strip x)\<rparr>)
           in commit_then s (map (\<lambda>i. if todo_id i = tid then upd i else i) (todo_list s))
                (\<lambda>_. Some (upd i0))))"

definition delete :: "todo_store \<Rightarrow> string \<Rightarrow> (todo_error + todo_item option) \<times> todo_store" where
  "delete s tid = (case map_of (items s) tid of
     None \<Rightarrow> (Inr None, s)
   | Some removed \<Rightarrow>
       commit_then s (filter (\<lambda>i. todo_id i \<noteq> tid) (todo_list s)) (\<lambda>_. Some removed))"

definition complete_and_start :: "string \<Rightarrow> string option \<Rightarrow> todo_item \<Rightarrow> todo_item" where
  "complete_and_start tid nxt i =
     (if todo_id i = tid then i\<lparr>status := ''completed''\<rparr>
      else if nxt = Some (todo_id i) then i\<lparr>status := ''in_progress''\<rparr>
      else i)"

definition transition ::
  "todo_store \<Rightarrow> string \<Rightarrow> string option \<Rightarrow>
   (todo_error + (todo_item \<times> todo_item option) option) \<times> todo_store" where
  "transition s tid nxt =
     (if map_of (items s) tid = None then (Inr None, s)
      else if nxt = Some tid then (Inl NextSameAsCurrent, s)
      else case find (\<lambda>i. todo_id i = tid) (todo_list s) of
        None \<Rightarrow> (Inl NoCurrentRecord, s)
      | Some cur \<Rightarrow>
          (if status cur \<noteq> ''in_progress'' then (Inl (NotInProgress tid), s)
           else
             (let its = map (\<lambda>i. if todo_id i = tid then i\<lparr>status := ''completed''\<rparr> else i)
                          (todo_list s);
                  chosen = (case nxt of
                     None \<Rightarrow> Inr (find (\<lambda>i. status i = ''pending'') its)
                   | Some n \<Rightarrow>
                       (case find (\<lambda>i. todo_id i = n) its of
                          None \<Rightarrow> Inl (NextNotFound n)
                        | Some i \<Rightarrow> if status i \<noteq> ''pending'' then Inl (NextNotPending n)
                                    else Inr (Some i)))
              in case chosen of
                   Inl e \<Rightarrow> (Inl e, s)
                 | Inr nx \<Rightarrow>
                     (let cas = complete_and_start tid (map_option todo_id nx)
                      in commit_then s (map cas (todo_list s))
                           (\<lambda>_. Some (cas cur, map_option cas nx))))))"

definition get :: "todo_store \<Rightarrow> string \<Rightarrow> todo_item option" where
  "get s tid = map_of (items s) tid"

definition list_items :: "todo_store \<Rightarrow> string option \<Rightarrow> todo_item list" where
  "list_items s st = (case st of
     None \<Rightarrow> todo_list s
   | Some x \<Rightarrow> if x = [] then todo_list s else filter (\<lambda>i. status i = x) (todo_list s))"

subsection \<open>Replacing the whole list\<close>

text \<open>
  \<open>replace\<close> takes the raw dictionaries of the request. An id it is given must belong to the
  current list, an existing task must keep its id, and a list that differs only in statuses
  is refused. New records get fresh ids from the counter; \<open>now\<close> is the clock at the
  record's position.
\<close>

definition supplied_id :: "pydict \<Rightarrow> string option" where
  "supplied_id d = (case dget d ''id'' of PNone \<Rightarrow> None | v \<Rightarrow> Some (py_strip (py_str v)))"

definition req_task :: "pydict \<Rightarrow> string" where
  "req_task d = py_strip (py_str (dget d ''task''))"

fun first_duplicate :: "string list \<Rightarrow> string list \<Rightarrow> string option" where
  "first_duplicate seen [] = None"
| "first_duplicate seen (x # xs) =
     (if x \<in> set seen then Some x else first_duplicate (x # seen) xs)"

definition ids_of_task :: "todo_item list \<Rightarrow> string \<Rightarrow> string list" where
  "ids_of_task its t = map todo_id (filter (\<lambda>i. py_strip (task i) = t) its)"

fun check_identity :: "todo_item list \<Rightarrow> pydict list \<Rightarrow> todo_error option" where
  "check_identity its [] = None"
| "check_identity its (d # ds) =
     (let t = req_task d; ids = ids_of_task its t
      in if ids = [] then check_identity its ds
         else case supplied_id d of
             None \<Rightarrow> Some (MustPreserveId t ids)
           | Some x \<Rightarrow> if x \<notin> set ids then Some (WrongId t ids x) else check_identity its ds)"

definition existing :: "todo_store \<Rightarrow> pydict \<Rightarrow> todo_item option" where
  "existing s d = Option.bind (supplied_id d) (map_of (items s))"

definition candidate_status :: "todo_store \<Rightarrow> pydict \<Rightarrow> string" where
  "candidate_status s d =
     py_str (py_or (dget d ''status'')
       (py_or (case existing s d of None \<Rightarrow> PNone | Some i \<Rightarrow> PStr (status i)) (PStr ''pending'')))"

definition requested_status :: "pydict \<Rightarrow> todo_item \<Rightarrow> string" where
  "requested_status d i = py_str (py_or (dget d ''status'') (PStr (status i)))"

definition status_only :: "todo_item list \<Rightarrow> pydict list \<Rightarrow> bool" where
  "status_only its ds =
     (its \<noteq> [] \<and> map req_task ds = map (py_strip \<circ> task) its
      \<and> map2 requested_status ds its \<noteq> map status its)"

definition build_item :: "todo_store \<Rightarrow> string \<Rightarrow> string \<Rightarrow> string \<Rightarrow> pydict \<Rightarrow> todo_item" where
  "build_item s now tid st d =
     \<lparr>todo_id = tid, task = req_task d, status = st,
      priority = Some (py_str (py_or (dget d ''priority'')
        (py_or (case existing s d of
                  Some i \<Rightarrow> (case priority i of None \<Rightarrow> PNone | Some p \<Rightarrow> PStr p)
                | None \<Rightarrow> PNone) (PStr ''medium'')))),
      created_at = (case existing s d of
          Some i \<Rightarrow> if created_at i \<noteq> [] then created_at i else now
        | None \<Rightarrow> now)\<rparr>"

fun build_items ::
  "todo_store \<Rightarrow> (nat \<Rightarrow> string) \<Rightarrow> nat \<Rightarrow> (pydict \<times> string) list \<Rightarrow> todo_item list \<times> todo_store" where
  "build_items s now k [] = ([], s)"
| "build_items s now k ((d, st) # rest) =
     (case supplied_id d of
        None \<Rightarrow> (let (tid, s') = next_id s;
                     (its, s'') = build_items s' now (Suc k) rest
                 in (build_item s (now k) tid st d # its, s''))
      | Some tid \<Rightarrow> (let (its, s') = build_items s now (Suc k) rest
                     in (build_item s (now k) tid st d # its, s')))"

definition replace ::
  "todo_store \<Rightarrow> pydict list \<Rightarrow> (nat \<Rightarrow> string) \<Rightarrow> (todo_error + todo_item list) \<times> todo_store" where
  "replace s ds now =
     (let its = todo_list s;
          supplied = List.map_filter supplied_id ds
      in case first_duplicate [] supplied of
           Some x \<Rightarrow> (Inl (DuplicateId x), s)
         | None \<Rightarrow>
      (case find (\<lambda>x. map_of (items s) x = None) supplied of
           Some x \<Rightarrow> (Inl (DoesNotExist x), s)
         | None \<Rightarrow>
      if \<exists>d \<in> set ds. map_of d ''task'' = None then (Inl (MissingKey ''task''), s)
      else if status_only its ds then (Inl AdvanceByTransition, s)
      else (case check_identity its ds of
           Some e \<Rightarrow> (Inl e, s)
         | None \<Rightarrow>
      (let ss = snd (activate_first_unfinished (map (candidate_status s) ds))
       in case todo_state_error ss of
           Some e \<Rightarrow> (Inl e, s)
         | None \<Rightarrow>
             (let (new_items, s') = build_items s now 0 (zip ds ss)
              in commit_then s' new_items todo_list)))))"

datatype todo_op =
    OpCreate string string "string option" string
  | OpReplace "pydict list" "nat \<Rightarrow> string"
  | OpUpdate string "string option" "string option"
  | OpDelete string
  | OpTransition string "string option"
  | OpRestore "pydict list"
  | OpSetSink bool

datatype todo_answer =
    Created todo_item
  | Replaced "todo_item list"
  | Updated "todo_item option"
  | Deleted "todo_item option"
  | Transitioned "(todo_item \<times> todo_item option) option"
  | Restored

fun todo_exec :: "todo_store \<Rightarrow> todo_op \<Rightarrow> (todo_error + todo_answer) \<times> todo_store" where
  "todo_exec s (OpCreate t p st now) = apfst (map_sum id Created) (create s t p st now)"
| "todo_exec s (OpReplace ds now) = apfst (map_sum id Replaced) (replace s ds now)"
| "todo_exec s (OpUpdate tid st t) = apfst (map_sum id Updated) (update s tid st t)"
| "todo_exec s (OpDelete tid) = apfst (map_sum id Deleted) (delete s tid)"
| "todo_exec s (OpTransition tid nxt) = apfst (map_sum id Transitioned) (transition s tid nxt)"
| "todo_exec s (OpRestore recs) = (Inr Restored, restore s recs)"
| "todo_exec s (OpSetSink on) = (Inr Restored, set_change_sink s on)"

end
