(* ===== verification/TodoCorrect.thy ===== *)
theory TodoCorrect
  imports Todo
begin

section \<open>Correctness of the todo store\<close>

text \<open>
  Validation is characterised by \<open>wf_todos\<close>, every operation keeps \<open>store_inv\<close>, a failing
  operation leaves the list as it was, the persisted file reopens to the same list, and
  repeated transitions work the list off.
\<close>

subsection \<open>What validation accepts\<close>

definition wf_todo :: "todo_item \<Rightarrow> bool" where
  "wf_todo i = (valid_todo_id (todo_id i) \<and> py_strip (task i) \<noteq> []
     \<and> status i \<in> set valid_statuses
     \<and> (case priority i of None \<Rightarrow> True | Some p \<Rightarrow> p \<in> set valid_priorities)
     \<and> py_strip (created_at i) \<noteq> [])"

definition one_active :: "string list \<Rightarrow> bool" where
  "one_active ss = (unfinished ss = [] \<or> length (active ss) = 1)"

definition wf_todos :: "todo_item list \<Rightarrow> bool" where
  "wf_todos its = ((\<forall>i \<in> set its. wf_todo i) \<and> distinct (map todo_id its)
     \<and> one_active (map status its))"

lemma dget_todo [simp]:
  "dget (todo_dict i) ''id'' = PStr (todo_id i)"
  "dget (todo_dict i) ''task'' = PStr (task i)"
  "dget (todo_dict i) ''status'' = PStr (status i)"
  "dget (todo_dict i) ''created_at'' = PStr (created_at i)"
  "dget_or (todo_dict i) ''priority'' v = (case priority i of None \<Rightarrow> v | Some p \<Rightarrow> PStr p)"
  "map_of (todo_dict i) ''priority'' = map_option PStr (priority i)"
  by (simp_all add: todo_dict_def dget_def dget_or_def split: option.splits)

lemma py_to_todo_to_py [simp]: "py_to_todo (todo_to_py i) = i"
  by (cases i) (simp add: option.map_comp comp_def option.map_ident)

lemma check_record_todo:
  "check_record n seen (todo_dict i) = Inr t \<longleftrightarrow> t = todo_id i \<and> wf_todo i \<and> todo_id i \<notin> set seen"
  by (auto simp: check_record_def wf_todo_def valid_priorities_def split: option.splits)

lemma check_records_None:
  "check_records n seen (map todo_to_py its) = None \<longleftrightarrow>
     (\<forall>i \<in> set its. wf_todo i) \<and> distinct (map todo_id its)
     \<and> set (map todo_id its) \<inter> set seen = {}"
proof (induction its arbitrary: n seen)
  case (Cons i its)
  show ?case
  proof (cases "check_record n seen (todo_dict i)")
    case (Inl e)
    then have "\<not> (wf_todo i \<and> todo_id i \<notin> set seen)"
      using check_record_todo [of n seen i "todo_id i"] by simp
    with Inl show ?thesis by auto
  next
    case (Inr t)
    then have "t = todo_id i \<and> wf_todo i \<and> todo_id i \<notin> set seen"
      by (simp add: check_record_todo)
    with Inr Cons show ?thesis by auto
  qed
qed simp

lemma state_error_None: "todo_state_error ss = None \<longleftrightarrow> one_active ss"
  by (simp add: todo_state_error_def one_active_def)

lemma validate_None: "validate_todo_items its = None \<longleftrightarrow> wf_todos its"
  using check_records_None [of 1 "[]" its]
  by (auto simp: validate_todo_items_def wf_todos_def state_error_None split: option.splits)

subsection \<open>The store invariant\<close>

definition store_inv :: "todo_store \<Rightarrow> bool" where
  "store_inv s = ((\<forall>(k, i) \<in> set (items s). k = todo_id i) \<and> wf_todos (todo_list s)
     \<and> (\<forall>i \<in> set (todo_list s). id_num (todo_id i) < counter s) \<and> 1 \<le> counter s)"

lemma save_simps [simp]:
  "items (save s) = items s" "counter (save s) = counter s" "persist (save s) = persist s"
  "sink (save s) = sink s" "todo_list (save s) = todo_list s"
  by (simp_all add: save_def)

lemma publish_simps [simp]:
  "items (publish s) = items s" "counter (publish s) = counter s"
  "persist (publish s) = persist s" "disk (publish s) = disk s"
  "todo_list (publish s) = todo_list s"
  by (simp_all add: publish_def)

lemma commit_eq:
  "commit s its =
     (if wf_todos its
      then (Inr (), publish (save (s\<lparr>items := map (\<lambda>i. (todo_id i, i)) its\<rparr>)))
      else (Inl (the (validate_todo_items its)), s))"
proof (cases "wf_todos its")
  case True
  then have "validate_todo_items its = None" by (simp add: validate_None)
  with True show ?thesis by (simp add: commit_def wf_todos_def dict_by_distinct)
next
  case False
  then obtain e where "validate_todo_items its = Some e"
    by (metis not_None_eq validate_None)
  with False show ?thesis by (simp add: commit_def)
qed

lemma commit_then_eq:
  "commit_then s its ret =
     (if wf_todos its
      then (let s' = publish (save (s\<lparr>items := map (\<lambda>i. (todo_id i, i)) its\<rparr>)) in (Inr (ret s'), s'))
      else (Inl (the (validate_todo_items its)), s))"
  by (simp add: commit_then_def commit_eq Let_def)

lemma map_self_vals [simp]: "vals (map (\<lambda>i. (f i, i)) xs) = xs"
  by (induction xs) auto

lemma commit_then_inv:
  "store_inv s \<Longrightarrow> (\<And>i. i \<in> set its \<Longrightarrow> id_num (todo_id i) < counter s) \<Longrightarrow>
   store_inv (snd (commit_then s its ret))"
  by (auto simp: commit_then_eq store_inv_def Let_def comp_def)

lemma store_inv_items:
  "store_inv s \<Longrightarrow> items s = map (\<lambda>i. (todo_id i, i)) (todo_list s)"
  by (rule nth_equalityI) (auto simp: todo_list_def store_inv_def prod_eq_iff dest!: nth_mem)

lemma store_inv_map_of:
  assumes "store_inv s"
  shows "map_of (items s) t = Some i \<longleftrightarrow> i \<in> set (todo_list s) \<and> todo_id i = t"
proof -
  from assms have d: "distinct (map todo_id (todo_list s))"
    by (auto simp: store_inv_def wf_todos_def)
  show ?thesis
    by (subst store_inv_items [OF assms]) (rule map_of_self_keys [OF d])
qed

lemma store_inv_map_of_None:
  "store_inv s \<Longrightarrow> map_of (items s) t = None \<longleftrightarrow> t \<notin> todo_id ` set (todo_list s)"
  by (metis (no_types, lifting) imageE image_eqI not_None_eq store_inv_map_of)

lemma store_inv_find:
  assumes "store_inv s" "map_of (items s) t \<noteq> None"
  shows "\<exists>i. find (\<lambda>i. todo_id i = t) (todo_list s) = Some i \<and> map_of (items s) t = Some i"
proof -
  from assms obtain i where i: "map_of (items s) t = Some i" by auto
  with assms(1) have "i \<in> set (todo_list s) \<and> todo_id i = t" by (simp add: store_inv_map_of)
  moreover from assms(1) have "distinct (map todo_id (todo_list s))"
    by (simp add: store_inv_def wf_todos_def)
  ultimately have "find (\<lambda>i. todo_id i = t) (todo_list s) = Some i"
    by (simp add: find_map_key)
  with i show ?thesis by blast
qed

lemma id_num_nat_str [simp]: "id_num (nat_str n) = n"
  by (simp add: id_num_def)

lemma id_num_inj: "valid_todo_id s \<Longrightarrow> valid_todo_id t \<Longrightarrow> id_num s = id_num t \<Longrightarrow> s = t"
  by (auto simp: valid_todo_id_def id_num_def split: option.splits)

lemma store_inv_counter:
  "store_inv s \<Longrightarrow> store_inv (s\<lparr>counter := Suc (counter s)\<rparr>)"
  by (auto simp: store_inv_def)

lemma create_inv: "store_inv s \<Longrightarrow> store_inv (snd (create s t p st now))"
  unfolding create_def Let_def next_id_def
  by (auto split: option.splits prod.splits intro!: commit_then_inv store_inv_counter)
     (auto simp: store_inv_def less_Suc_eq)

lemma update_inv: "store_inv s \<Longrightarrow> store_inv (snd (update s tid st t))"
  unfolding update_def Let_def
  by (auto split: option.splits intro!: commit_then_inv) (auto simp: store_inv_def)

lemma delete_inv: "store_inv s \<Longrightarrow> store_inv (snd (delete s tid))"
  unfolding delete_def
  by (auto split: option.splits intro!: commit_then_inv) (auto simp: store_inv_def)

lemma complete_and_start_frame [simp]:
  "todo_id (complete_and_start a b i) = todo_id i" "task (complete_and_start a b i) = task i"
  "priority (complete_and_start a b i) = priority i"
  "created_at (complete_and_start a b i) = created_at i"
  by (simp_all add: complete_and_start_def)

lemma transition_inv: "store_inv s \<Longrightarrow> store_inv (snd (transition s tid nxt))"
  unfolding transition_def Let_def
  by (auto split: option.splits sum.splits intro!: commit_then_inv) (auto simp: store_inv_def)

lemma max_id_bound: "i \<in> set its \<Longrightarrow> id_num (todo_id i) \<le> max_id its"
  by (induction its) (auto simp: max_id_def le_max_iff_disj)

subsection \<open>Statuses: activation and migration\<close>

lemma active_eq: "active ss = filter (\<lambda>s. s = ''in_progress'') ss"
  by (induction ss) (auto simp: active_def unfinished_def)

lemma activate_head_active:
  "unfinished ss \<noteq> [] \<Longrightarrow> active ss = [] \<Longrightarrow> length (active (activate_head ss)) = 1"
  by (induction ss) (auto simp: active_eq unfinished_def split: if_splits)

lemma demote_after_active:
  "length (active (demote_after seen ss)) = (if seen \<or> active ss = [] then 0 else 1)"
  by (induction seen ss rule: demote_after.induct) (auto simp: active_eq)

lemma length_activate_head [simp]: "length (activate_head ss) = length ss"
  by (induction ss) auto

lemma length_demote_after [simp]: "length (demote_after seen ss) = length ss"
  by (induction seen ss rule: demote_after.induct) auto

lemma set_activate_head: "set (activate_head ss) \<subseteq> insert ''in_progress'' (set ss)"
  by (induction ss) auto

lemma set_demote_after: "set (demote_after seen ss) \<subseteq> insert ''pending'' (set ss)"
  by (induction seen ss rule: demote_after.induct) auto

lemma activate_first_unfinished_length [simp]:
  "length (snd (activate_first_unfinished ss)) = length ss"
  by (simp add: activate_first_unfinished_def)

lemma migrate_legacy_props:
  "length (snd (migrate_legacy ss)) = length ss"
  "one_active (snd (migrate_legacy ss))"
  "set (snd (migrate_legacy ss)) \<subseteq> {''in_progress'', ''pending''} \<union> set ss"
  using activate_head_active [of ss] demote_after_active [of False ss]
    set_activate_head [of ss] set_demote_after [of False ss]
  by (auto simp: migrate_legacy_def one_active_def)

lemma migrate_legacy_id: "one_active ss \<Longrightarrow> migrate_legacy ss = (False, ss)"
  by (auto simp: migrate_legacy_def one_active_def)

lemma map_set_statuses [simp]:
  "length ss = length its \<Longrightarrow> map status (set_statuses its ss) = ss"
  "length ss = length its \<Longrightarrow> map todo_id (set_statuses its ss) = map todo_id its"
  by (auto simp: set_statuses_def intro: nth_equalityI)

lemma set_statuses_same [simp]: "set_statuses its (map status its) = its"
  by (auto simp: set_statuses_def intro: nth_equalityI)

lemma wf_set_statuses:
  assumes "length ss = length its" "set ss \<subseteq> set valid_statuses" "\<forall>i \<in> set its. wf_todo i"
  shows "\<forall>i \<in> set (set_statuses its ss). wf_todo i"
proof
  fix j assume "j \<in> set (set_statuses its ss)"
  then obtain i x where "(i, x) \<in> set (zip its ss)" "j = i\<lparr>status := x\<rparr>"
    by (auto simp: set_statuses_def)
  moreover from this(1) have "i \<in> set its" "x \<in> set ss"
    by (auto dest: set_zip_leftD set_zip_rightD)
  ultimately show "wf_todo j" using assms by (auto simp: wf_todo_def)
qed

subsection \<open>Loading and restoring\<close>

lemma check_record_loaded:
  "check_record n seen d = Inr t \<Longrightarrow>
   wf_todo (py_to_todo (PDict d)) \<and> todo_id (py_to_todo (PDict d)) = t \<and> t \<notin> set seen"
  by (auto simp: check_record_def wf_todo_def dget_or_def valid_priorities_def
      split: pyval.splits if_splits option.splits elim!: nonblank.elims str_in.elims)

lemma check_records_loaded:
  "check_records n seen vs = None \<Longrightarrow>
   (\<forall>i \<in> set (map py_to_todo vs). wf_todo i) \<and> distinct (map (todo_id \<circ> py_to_todo) vs)
   \<and> (todo_id \<circ> py_to_todo) ` set vs \<inter> set seen = {}"
proof (induction n seen vs rule: check_records.induct)
  case (2 i seen d vs)
  then obtain t where t: "check_record i seen d = Inr t" "check_records (Suc i) (t # seen) vs = None"
    by (auto split: sum.splits)
  from check_record_loaded [OF t(1)] 2 t show ?case by auto
qed auto

lemma validate_records_loaded:
  assumes "validate_todo_records v = None"
  obtains vs where "v = PList vs" "\<forall>i \<in> set (map py_to_todo vs). wf_todo i"
    "distinct (map todo_id (map py_to_todo vs))"
  using assms check_records_loaded by (cases v) (auto simp: comp_def)

lemma wf_todos_migrated:
  assumes "\<forall>i \<in> set its. wf_todo i" "distinct (map todo_id its)"
  shows "wf_todos (set_statuses its (snd (migrate_legacy (map status its))))"
proof -
  let ?ss = "snd (migrate_legacy (map status its))"
  have len: "length ?ss = length its" using migrate_legacy_props(1) [of "map status its"] by simp
  have "set (map status its) \<subseteq> set valid_statuses"
    using assms(1) by (auto simp: wf_todo_def)
  then have "{''in_progress'', ''pending''} \<union> set (map status its) \<subseteq> set valid_statuses"
    by (simp add: valid_statuses_def)
  with migrate_legacy_props(3) have "set ?ss \<subseteq> set valid_statuses"
    by (rule order_trans)
  from wf_set_statuses [OF len this assms(1)] show ?thesis
    using len assms(2) migrate_legacy_props(2) by (simp add: wf_todos_def)
qed

lemma store_inv_fresh_counter:
  "wf_todos its \<Longrightarrow> store_inv (s\<lparr>items := dict_by todo_id its, counter := Suc (max_id its)\<rparr>)"
  using max_id_bound
  by (auto simp: store_inv_def comp_def less_Suc_eq_le dict_by_distinct wf_todos_def)

lemma wf_todos_Nil [simp]: "wf_todos []"
  by (simp add: wf_todos_def one_active_def unfinished_def)

lemma load_valid:
  assumes "validate_todo_records v = None"
  shows "\<exists>s'. load (s\<lparr>disk := Json v\<rparr>) = Inr s' \<and> store_inv s'
    \<and> todo_list s' = set_statuses (map py_to_todo (case v of PList vs \<Rightarrow> vs | _ \<Rightarrow> []))
        (snd (migrate_legacy (map (status \<circ> py_to_todo) (case v of PList vs \<Rightarrow> vs | _ \<Rightarrow> []))))
    \<and> persist s' = persist s
    \<and> (disk s' = Json v \<or> persist s \<and> disk s' = Json (PList (map todo_to_py (todo_list s'))))"
proof -
  obtain vs where v: "v = PList vs" and wf: "\<forall>i \<in> set (map py_to_todo vs). wf_todo i"
    and d: "distinct (map todo_id (map py_to_todo vs))"
    using assms by (rule validate_records_loaded)
  let ?l = "map py_to_todo vs"
  obtain m ss where mig: "migrate_legacy (map status ?l) = (m, ss)" by fastforce
  let ?c = "set_statuses ?l ss"
  let ?s = "s\<lparr>disk := Json v, items := dict_by todo_id ?c, counter := Suc (max_id ?c)\<rparr>"
  have wfc: "wf_todos ?c" using wf_todos_migrated [OF wf d] mig by simp
  then have val: "validate_todo_items ?c = None" by (simp add: validate_None)
  from wfc have db: "vals (dict_by todo_id ?c) = ?c"
    by (simp add: dict_by_distinct wf_todos_def comp_def)
  have inv: "store_inv ?s" using store_inv_fresh_counter [OF wfc, of "s\<lparr>disk := Json v\<rparr>"] by simp
  then have inv': "store_inv (save ?s)" by (simp add: store_inv_def)
  from assms mig val have ld: "load (s\<lparr>disk := Json v\<rparr>) = Inr (if m then save ?s else ?s)"
    by (simp add: load_def Let_def v del: validate_todo_records.simps)
  from mig have mig': "migrate_legacy (map (status \<circ> py_to_todo) vs) = (m, ss)"
    by (simp add: comp_def)
  show ?thesis
  proof (cases m)
    case True
    with ld inv' db mig' show ?thesis by (simp add: v save_def del: map_map)
  next
    case False
    with ld inv db mig' show ?thesis by (simp add: v)
  qed
qed

lemma open_store_inv: "open_store p f = Inr s \<Longrightarrow> store_inv s"
proof -
  assume o: "open_store p f = Inr s"
  let ?s0 = "\<lparr>items = [], counter = 1, persist = p, disk = f, sink = None\<rparr>"
  show ?thesis
  proof (cases "p \<and> f \<noteq> NoFile")
    case False
    with o show ?thesis
      by (auto simp: open_store_def Let_def store_inv_def todo_list_def)
  next
    case True
    with o have l: "load ?s0 = Inr s" by (simp add: open_store_def Let_def)
    then obtain v where v: "f = Json v" and ok: "validate_todo_records v = None"
      by (auto simp: load_def split: todo_file.splits option.splits)
    from load_valid [OF ok, of ?s0] l v show ?thesis by auto
  qed
qed

lemma restore_inv: "store_inv (restore s recs)"
proof -
  let ?l = "map (py_to_todo \<circ> PDict) recs"
  let ?ok = "validate_todo_records (PList (map PDict recs)) = None \<and> todo_state_error (map status ?l) = None"
  have "wf_todos ?l" if ?ok
    using that check_records_loaded [of 1 "[]" "map PDict recs"]
    by (auto simp: wf_todos_def state_error_None comp_def)
  then have "wf_todos (if ?ok then ?l else [])" by simp
  then show ?thesis
    unfolding restore_def Let_def by (rule store_inv_fresh_counter)
qed

subsection \<open>Replacing the list\<close>

lemma next_id_simps [simp]:
  "fst (next_id s) = nat_str (counter s)" "snd (next_id s) = s\<lparr>counter := Suc (counter s)\<rparr>"
  by (simp_all add: next_id_def)

lemma build_item_id [simp]: "todo_id (build_item s now t st d) = t"
  by (simp add: build_item_def)

lemma build_items_spec:
  "build_items s now k xs = (its, s') \<Longrightarrow>
   (\<exists>n. s' = s\<lparr>counter := counter s + n\<rparr>) \<and> length its = length xs \<and>
   (\<forall>i \<in> set its. (\<exists>(d, st) \<in> set xs. supplied_id d = Some (todo_id i))
      \<or> (\<exists>n. todo_id i = nat_str n \<and> counter s \<le> n \<and> n < counter s'))"
proof (induction s now k xs arbitrary: its s' rule: build_items.induct)
  case (1 s now k)
  then show ?case by (auto intro: exI [of _ 0])
next
  case (2 s now k d st rest)
  show ?case
  proof (cases "supplied_id d")
    case None
    let ?s1 = "s\<lparr>counter := Suc (counter s)\<rparr>"
    obtain js where b: "build_items ?s1 now (Suc k) rest = (js, s')"
      and its: "its = build_item s (now k) (nat_str (counter s)) st d # js"
      using "2.prems" None by (auto simp: next_id_def split: prod.splits)
    note IH = "2.IH" (1) [OF None _ refl b, unfolded next_id_def, OF refl]
    then obtain n where n: "s' = ?s1\<lparr>counter := counter ?s1 + n\<rparr>" by blast
    then have s': "s' = s\<lparr>counter := counter s + Suc n\<rparr>" by simp
    have "\<forall>i \<in> set js. (\<exists>(d, st) \<in> set ((d, st) # rest). supplied_id d = Some (todo_id i))
        \<or> (\<exists>n. todo_id i = nat_str n \<and> counter s \<le> n \<and> n < counter s')"
      using IH by (fastforce dest: Suc_leD)
    moreover have "\<exists>n. todo_id (build_item s (now k) (nat_str (counter s)) st d) = nat_str n
        \<and> counter s \<le> n \<and> n < counter s'"
      using s' by (intro exI [of _ "counter s"]) simp
    moreover have "\<exists>n. s' = s\<lparr>counter := counter s + n\<rparr>" using s' by blast
    moreover have "length js = length rest" using IH by blast
    ultimately show ?thesis unfolding its by simp
  next
    case (Some tid)
    obtain js where b: "build_items s now (Suc k) rest = (js, s')"
      and its: "its = build_item s (now k) tid st d # js"
      using "2.prems" Some by (auto split: prod.splits)
    note IH = "2.IH" (2) [OF Some b]
    then have "\<forall>i \<in> set its. (\<exists>(d, st) \<in> set ((d, st) # rest). supplied_id d = Some (todo_id i))
        \<or> (\<exists>n. todo_id i = nat_str n \<and> counter s \<le> n \<and> n < counter s')"
      using its Some by fastforce
    with IH its show ?thesis by simp
  qed
qed

lemma supplied_in_map_filter:
  "d \<in> set ds \<Longrightarrow> supplied_id d = Some t \<Longrightarrow> t \<in> set (List.map_filter supplied_id ds)"
  by (force simp: List.map_filter_def)

text \<open>Every answer of \<open>replace\<close> is one of these: an exception with an unchanged store, or the
  result of committing the built records.\<close>

lemma replace_cases:
  obtains (raised) e where "replace s ds now = (Inl e, s)"
  | (built) ss its s' where "find (\<lambda>x. map_of (items s) x = None) (List.map_filter supplied_id ds) = None"
      "check_identity (todo_list s) ds = None" "\<not> status_only (todo_list s) ds"
      "length ss = length ds" "build_items s now 0 (zip ds ss) = (its, s')"
      "replace s ds now = commit_then s' its todo_list"
proof -
  let ?sup = "List.map_filter supplied_id ds"
  let ?ss = "snd (activate_first_unfinished (map (candidate_status s) ds))"
  consider (a) x where "first_duplicate [] ?sup = Some x"
    | (b) x where "first_duplicate [] ?sup = None" "find (\<lambda>x. map_of (items s) x = None) ?sup = Some x"
    | (c) "first_duplicate [] ?sup = None" "find (\<lambda>x. map_of (items s) x = None) ?sup = None"
        "(\<exists>d \<in> set ds. map_of d ''task'' = None) \<or> status_only (todo_list s) ds
         \<or> check_identity (todo_list s) ds \<noteq> None \<or> todo_state_error ?ss \<noteq> None"
    | (d) "first_duplicate [] ?sup = None" "find (\<lambda>x. map_of (items s) x = None) ?sup = None"
        "\<not> (\<exists>d \<in> set ds. map_of d ''task'' = None)" "\<not> status_only (todo_list s) ds"
        "check_identity (todo_list s) ds = None" "todo_state_error ?ss = None"
    by fastforce
  then show thesis
  proof cases
    case a
    then show ?thesis by (intro raised [of "DuplicateId x"]) (simp add: replace_def)
  next
    case b
    then show ?thesis by (intro raised [of "DoesNotExist x"]) (simp add: replace_def)
  next
    case c
    then have "\<exists>e. replace s ds now = (Inl e, s)"
      by (auto simp: replace_def Let_def split: option.splits)
    then show ?thesis using raised by blast
  next
    case d
    obtain its s' where b: "build_items s now 0 (zip ds ?ss) = (its, s')" by fastforce
    with d have "replace s ds now = commit_then s' its todo_list"
      by (auto simp: replace_def Let_def)
    with d b show ?thesis by (intro built) auto
  qed
qed

lemma build_items_ids:
  assumes "store_inv s" and b: "build_items s now 0 (zip ds ss) = (its, s')"
    and known: "find (\<lambda>x. map_of (items s) x = None) (List.map_filter supplied_id ds) = None"
  shows "store_inv s' \<and> (\<forall>i \<in> set its. id_num (todo_id i) < counter s')"
proof -
  from build_items_spec [OF b] obtain n where s': "s' = s\<lparr>counter := counter s + n\<rparr>" by blast
  with assms(1) have inv: "store_inv s'" by (auto simp: store_inv_def)
  have "id_num t < counter s" if "d \<in> set ds" "supplied_id d = Some t" for d t
  proof -
    from known supplied_in_map_filter [OF that] have "map_of (items s) t \<noteq> None"
      by (auto simp: find_None_iff)
    then obtain i where "map_of (items s) t = Some i" by auto
    with assms(1) have "i \<in> set (todo_list s)" "todo_id i = t" by (auto simp: store_inv_map_of)
    with assms(1) show ?thesis by (auto simp: store_inv_def)
  qed
  moreover have "d \<in> set ds" if "(d, st) \<in> set (zip ds ss)" for d st
    using that by (rule set_zip_leftD)
  ultimately have "\<forall>i \<in> set its. id_num (todo_id i) < counter s'"
    using build_items_spec [OF b] s' by fastforce
  with inv show ?thesis by blast
qed

lemma replace_inv: "store_inv s \<Longrightarrow> store_inv (snd (replace s ds now))"
  by (cases rule: replace_cases [of s ds now]) (auto dest: build_items_ids intro: commit_then_inv)

lemma set_change_sink_inv: "store_inv s \<Longrightarrow> store_inv (set_change_sink s on)"
  by (simp add: store_inv_def set_change_sink_def)

lemmas op_inv = create_inv replace_inv update_inv delete_inv transition_inv restore_inv
  set_change_sink_inv

lemma todo_exec_inv: "store_inv s \<Longrightarrow> store_inv (snd (todo_exec s op))"
  by (cases op) (simp_all add: op_inv)

subsection \<open>Failures are atomic\<close>

definition store_view :: "todo_store \<Rightarrow> (string \<times> todo_item) list \<times> todo_file \<times> todo_item list list option" where
  "store_view s = (items s, disk s, sink s)"

lemma commit_then_failed:
  "fst (commit_then s its ret) = Inl e \<Longrightarrow> snd (commit_then s its ret) = s"
  by (simp add: commit_then_eq Let_def split: if_splits)

lemma store_view_counter [simp]: "store_view (s\<lparr>counter := n\<rparr>) = store_view s"
  by (simp add: store_view_def)

lemma replace_failed:
  "fst (replace s ds now) = Inl e \<Longrightarrow> store_view (snd (replace s ds now)) = store_view s"
  by (cases rule: replace_cases [of s ds now])
     (auto dest!: commit_then_failed dest: build_items_spec)

lemma create_cases:
  obtains (raised) e where "create s t p st now = (Inl e, s)"
  | (built) item where "create s t p st now =
      commit_then (s\<lparr>counter := Suc (counter s)\<rparr>) (todo_list s @ [item]) (\<lambda>_. item)"
      "todo_id item = nat_str (counter s)"
proof -
  let ?st = "case st of None \<Rightarrow> (if \<exists>i \<in> set (todo_list s). status i \<noteq> ''completed''
      then ''pending'' else ''in_progress'') | Some x \<Rightarrow> x"
  let ?item = "\<lparr>todo_id = nat_str (counter s), task = py_strip t, status = ?st,
      priority = Some p, created_at = now\<rparr>"
  have eq: "create s t p st now = (case todo_state_error (map status (todo_list s) @ [?st]) of
      Some e \<Rightarrow> (Inl e, s)
    | None \<Rightarrow> commit_then (s\<lparr>counter := Suc (counter s)\<rparr>) (todo_list s @ [?item]) (\<lambda>_. ?item))"
    unfolding create_def Let_def next_id_def split_conv by (rule refl)
  show thesis
  proof (cases "todo_state_error (map status (todo_list s) @ [?st])")
    case None
    show thesis by (rule built [of ?item]) (simp_all only: eq None option.case todo_item.select_convs)
  next
    case (Some e)
    show thesis by (rule raised [of e]) (simp only: eq Some option.case)
  qed
qed

lemma create_failed:
  "fst (create s t p st now) = Inl e \<Longrightarrow> store_view (snd (create s t p st now)) = store_view s"
  by (cases rule: create_cases [of s t p st now]) (auto dest!: commit_then_failed)

lemma update_failed: "fst (update s tid st t) = Inl e \<Longrightarrow> snd (update s tid st t) = s"
  by (auto simp: update_def Let_def dest!: commit_then_failed split: option.splits if_splits)

lemma delete_failed: "fst (delete s tid) = Inl e \<Longrightarrow> snd (delete s tid) = s"
  by (auto simp: delete_def dest!: commit_then_failed split: option.splits)

lemma transition_failed: "fst (transition s tid nxt) = Inl e \<Longrightarrow> snd (transition s tid nxt) = s"
  by (auto simp: transition_def Let_def dest!: commit_then_failed
      split: option.splits if_splits sum.splits)

lemma map_sum_Inl: "map_sum id f x = Inl e \<longleftrightarrow> x = Inl e"
  by (cases x) auto

lemma todo_exec_failed:
  "fst (todo_exec s op) = Inl e \<Longrightarrow> store_view (snd (todo_exec s op)) = store_view s"
  by (cases op)
     (auto simp: map_sum_Inl dest: replace_failed create_failed update_failed delete_failed transition_failed)

interpretation todo: atomic_component todo_exec store_inv store_view
  by unfold_locales (auto intro: todo_exec_inv todo_exec_failed)

subsection \<open>Transitions\<close>

lemma wf_todos_statuses: "wf_todos its \<Longrightarrow> i \<in> set its \<Longrightarrow> status i \<in> set valid_statuses"
  by (auto simp: wf_todos_def wf_todo_def)

lemma one_active_items:
  "one_active (map status its) \<longleftrightarrow>
     (\<forall>i \<in> set its. status i = ''completed'') \<or> length (filter (\<lambda>i. status i = ''in_progress'') its) = 1"
  by (auto simp: one_active_def active_eq unfinished_def filter_empty_conv filter_map comp_def)

lemma active_unique:
  assumes "wf_todos its" "i \<in> set its" "j \<in> set its"
    "status i = ''in_progress''" "status j = ''in_progress''"
  shows "i = j"
proof -
  from assms have "length (filter (\<lambda>i. status i = ''in_progress'') its) = 1"
    by (auto simp: wf_todos_def one_active_items)
  then obtain ys x zs where "its = ys @ x # zs"
    "\<forall>y \<in> set ys. status y \<noteq> ''in_progress''" "\<forall>z \<in> set zs. status z \<noteq> ''in_progress''"
    using length_filter_eq1_split [of "\<lambda>i. status i = ''in_progress''" its] by blast
  with assms show ?thesis by auto
qed

lemma wf_complete_and_start:
  assumes wf: "wf_todos its" and cur: "cur \<in> set its" "status cur = ''in_progress''"
    and nx: "case nx of None \<Rightarrow> \<forall>i \<in> set its. status i \<noteq> ''pending''
             | Some i \<Rightarrow> i \<in> set its \<and> status i = ''pending''"
  shows "wf_todos (map (complete_and_start (todo_id cur) (map_option todo_id nx)) its)"
proof -
  let ?cas = "complete_and_start (todo_id cur) (map_option todo_id nx)"
  from wf have d: "distinct (map todo_id its)" by (simp add: wf_todos_def)
  have same: "i = j" if "i \<in> set its" "j \<in> set its" "todo_id i = todo_id j" for i j
    using d that by (auto simp: distinct_map inj_on_def)
  have other: "status i \<in> {''pending'', ''completed''}" if "i \<in> set its" "i \<noteq> cur" for i
    using wf_todos_statuses [OF wf that(1)] active_unique [OF wf that(1) cur(1)] that(2) cur(2)
    by (auto simp: valid_statuses_def)
  have "one_active (map status (map ?cas its))"
  proof (cases nx)
    case None
    with nx other same cur have "\<forall>i \<in> set its. status (?cas i) = ''completed''"
      by (fastforce simp: complete_and_start_def)
    then show ?thesis by (simp add: one_active_items del: map_map)
  next
    case (Some j)
    with nx have j: "j \<in> set its" "status j = ''pending''" by auto
    with cur have "todo_id j \<noteq> todo_id cur" using same by force
    have "status (?cas i) = ''in_progress'' \<longleftrightarrow> todo_id i = todo_id j" if i: "i \<in> set its" for i
    proof (cases "i = cur")
      case True
      with \<open>todo_id j \<noteq> todo_id cur\<close> show ?thesis by (auto simp: complete_and_start_def)
    next
      case False
      then have "todo_id i \<noteq> todo_id cur" using same [OF i cur(1)] by blast
      with other [OF i False] Some show ?thesis by (auto simp: complete_and_start_def)
    qed
    then have "filter (\<lambda>i. status (?cas i) = ''in_progress'') its = filter (\<lambda>i. todo_id i = todo_id j) its"
      by (intro filter_cong) auto
    also have "\<dots> = [j]" by (rule filter_key_single [OF d j(1)])
    finally show ?thesis unfolding one_active_items filter_map comp_def by simp
  qed
  moreover have "wf_todo (?cas i)" if "i \<in> set its" for i
    using wf that by (auto simp: wf_todos_def wf_todo_def complete_and_start_def valid_statuses_def)
  moreover have "distinct (map todo_id (map ?cas its))" using d by (simp add: comp_def)
  ultimately show ?thesis by (simp add: wf_todos_def)
qed

lemma transition_None_eq:
  assumes inv: "store_inv s" and cur: "cur \<in> set (todo_list s)" "status cur = ''in_progress''"
  defines "nx \<equiv> find (\<lambda>i. status i = ''pending'') (todo_list s)"
  defines "cas \<equiv> complete_and_start (todo_id cur) (map_option todo_id nx)"
  shows "fst (transition s (todo_id cur) None) = Inr (Some (cas cur, map_option cas nx))"
    and "todo_list (snd (transition s (todo_id cur) None)) = map cas (todo_list s)"
proof -
  let ?tid = "todo_id cur"
  let ?done = "\<lambda>i. if todo_id i = ?tid then i\<lparr>status := ''completed''\<rparr> else i"
  from inv have wf: "wf_todos (todo_list s)" and d: "distinct (map todo_id (todo_list s))"
    by (auto simp: store_inv_def wf_todos_def)
  have m: "map_of (items s) ?tid = Some cur" using cur inv by (simp add: store_inv_map_of)
  have f: "find (\<lambda>i. todo_id i = ?tid) (todo_list s) = Some cur" using d cur by (simp add: find_map_key)
  have eqcur: "i = cur" if "i \<in> set (todo_list s)" "todo_id i = ?tid" for i
    using d cur that by (auto simp: distinct_map inj_on_def)
  have np: "todo_id i \<noteq> ?tid" if "i \<in> set (todo_list s)" "status i = ''pending''" for i
    using eqcur [OF that(1)] that(2) cur(2) by auto
  have "find (\<lambda>i. status i = ''pending'') (map ?done (todo_list s)) = map_option ?done nx"
    unfolding nx_def find_map_pred [of _ ?done] using np
    by (intro arg_cong [of _ _ "map_option ?done"] find_cong_set) auto
  moreover have "map_option ?done nx = nx"
    using np by (cases nx) (auto simp: nx_def dest!: find_SomeD)
  ultimately have chosen: "find (\<lambda>i. status i = ''pending'') (map ?done (todo_list s)) = nx" by simp
  have "wf_todos (map cas (todo_list s))"
    unfolding cas_def by (rule wf_complete_and_start [OF wf cur])
      (auto simp: nx_def find_None_iff dest: find_SomeD split: option.split)
  moreover have "transition s ?tid None =
      commit_then s (map cas (todo_list s)) (\<lambda>_. Some (cas cur, map_option cas nx))"
    unfolding transition_def by (simp add: m f cur chosen Let_def cas_def)
  ultimately show "fst (transition s ?tid None) = Inr (Some (cas cur, map_option cas nx))"
    and "todo_list (snd (transition s ?tid None)) = map cas (todo_list s)"
    by (simp_all add: commit_then_eq Let_def comp_def)
qed

text \<open>What a successful transition did, for a chosen or an automatic successor.\<close>

lemma transition_Inr:
  assumes inv: "store_inv s" and ok: "fst (transition s tid nxt) = Inr (Some (c, n))"
  obtains cur where "cur \<in> set (todo_list s)" "todo_id cur = tid" "status cur = ''in_progress''"
    "c = cur\<lparr>status := ''completed''\<rparr>"
    "todo_list (snd (transition s tid nxt)) =
       map (complete_and_start tid (map_option todo_id n)) (todo_list s)"
    "case n of None \<Rightarrow> \<forall>i \<in> set (todo_list s). status i \<noteq> ''pending''
     | Some j \<Rightarrow> \<exists>i \<in> set (todo_list s). status i = ''pending'' \<and> todo_id i \<noteq> tid
         \<and> j = i\<lparr>status := ''in_progress''\<rparr> \<and> (nxt = None \<or> nxt = Some (todo_id i))"
proof -
  let ?done = "\<lambda>i. if todo_id i = tid then i\<lparr>status := ''completed''\<rparr> else i"
  let ?its = "map ?done (todo_list s)"
  from ok obtain cur where known: "map_of (items s) tid \<noteq> None" and nt: "nxt \<noteq> Some tid"
    and f: "find (\<lambda>i. todo_id i = tid) (todo_list s) = Some cur"
    and st: "status cur = ''in_progress''"
    by (auto simp: transition_def split: if_splits option.splits)
  define chosen where "chosen = (case nxt of
      None \<Rightarrow> Inr (find (\<lambda>i. status i = ''pending'') ?its)
    | Some n \<Rightarrow> (case find (\<lambda>i. todo_id i = n) ?its of
          None \<Rightarrow> Inl (NextNotFound n)
        | Some i \<Rightarrow> if status i \<noteq> ''pending'' then Inl (NextNotPending n) else Inr (Some i)))"
  from f have cur: "cur \<in> set (todo_list s)" "todo_id cur = tid" by (auto dest: find_SomeD)
  have "\<exists>nx. chosen = Inr nx"
  proof (cases chosen)
    case (Inl e)
    then have "transition s tid nxt = (Inl e, s)"
      using known nt f st by (simp add: transition_def chosen_def Let_def)
    with ok show ?thesis by simp
  qed simp
  then obtain nx where ch: "chosen = Inr nx" ..
  let ?cas = "complete_and_start tid (map_option todo_id nx)"
  have "transition s tid nxt = commit_then s (map ?cas (todo_list s)) (\<lambda>_. Some (?cas cur, map_option ?cas nx))"
    using known nt f st ch by (auto simp: transition_def chosen_def Let_def)
  with ok have res: "c = ?cas cur" "n = map_option ?cas nx"
    "todo_list (snd (transition s tid nxt)) = map ?cas (todo_list s)"
    by (auto simp: commit_then_eq Let_def comp_def split: if_splits)
  have pick: "i \<in> set (todo_list s) \<and> status i = ''pending'' \<and> todo_id i \<noteq> tid"
    if "i \<in> set ?its" "status i = ''pending''" for i
    using that by (auto split: if_splits)
  have "case nx of None \<Rightarrow> \<forall>i \<in> set (todo_list s). status i \<noteq> ''pending''
      | Some i \<Rightarrow> i \<in> set (todo_list s) \<and> status i = ''pending'' \<and> todo_id i \<noteq> tid
          \<and> (nxt = None \<or> nxt = Some (todo_id i))"
  proof (cases nxt)
    case None
    with ch have nx: "nx = find (\<lambda>i. status i = ''pending'') ?its" by (simp add: chosen_def)
    have "status i \<noteq> ''pending''" if "nx = None" "i \<in> set (todo_list s)" for i
    proof (cases "todo_id i = tid")
      case True
      with that(2) cur inv have "i = cur"
        by (auto simp: store_inv_def wf_todos_def distinct_map inj_on_def)
      with st show ?thesis by simp
    next
      case False
      with that nx show ?thesis by (auto simp: find_None_iff)
    qed
    then show ?thesis
    proof (cases nx)
      case (Some i)
      with nx have "find (\<lambda>i. status i = ''pending'') ?its = Some i" by simp
      then have "i \<in> set ?its \<and> status i = ''pending''" by (rule find_SomeD)
      with pick None Some show ?thesis by auto
    qed simp
  next
    case (Some x)
    with ch obtain i where i: "nx = Some i" "find (\<lambda>i. todo_id i = x) ?its = Some i" "status i = ''pending''"
      unfolding chosen_def by (cases "find (\<lambda>i. todo_id i = x) ?its") (force split: if_splits)+
    then have "i \<in> set ?its" "todo_id i = x" by (blast dest: find_SomeD)+
    with pick [of i] Some i show ?thesis by simp
  qed
  note nx = this
  have c: "c = cur\<lparr>status := ''completed''\<rparr>" using res(1) cur(2) by (simp add: complete_and_start_def)
  show thesis
  proof (cases nx)
    case None
    with res nx show thesis by (intro that [OF cur st c]) simp_all
  next
    case (Some i)
    with nx have i: "i \<in> set (todo_list s)" "status i = ''pending''" "todo_id i \<noteq> tid"
      "nxt = None \<or> nxt = Some (todo_id i)" by auto
    from Some i res(2) have n: "n = Some (i\<lparr>status := ''in_progress''\<rparr>)"
      by (simp add: complete_and_start_def)
    with Some i res(3) show thesis by (intro that [OF cur st c]) auto
  qed
qed

subsection \<open>Working the list off\<close>

text \<open>The client's loop: transition the active item until none is left.\<close>

fun work_off :: "nat \<Rightarrow> todo_store \<Rightarrow> todo_store" where
  "work_off 0 s = s"
| "work_off (Suc n) s = (case find (\<lambda>i. status i = ''in_progress'') (todo_list s) of
     None \<Rightarrow> s
   | Some i \<Rightarrow> work_off n (snd (transition s (todo_id i) None)))"

definition open_items :: "todo_item list \<Rightarrow> nat" where
  "open_items its = length (filter (\<lambda>i. status i \<noteq> ''completed'') its)"

lemma transition_progress:
  assumes inv: "store_inv s" and cur: "cur \<in> set (todo_list s)" "status cur = ''in_progress''"
  shows "open_items (todo_list s) = Suc (open_items (todo_list (snd (transition s (todo_id cur) None))))"
    and "map task (todo_list (snd (transition s (todo_id cur) None))) = map task (todo_list s)"
proof -
  let ?nx = "find (\<lambda>i. status i = ''pending'') (todo_list s)"
  let ?cas = "complete_and_start (todo_id cur) (map_option todo_id ?nx)"
  note eq = transition_None_eq(2) [OF inv cur]
  from inv have d: "distinct (map todo_id (todo_list s))" by (simp add: store_inv_def wf_todos_def)
  have "status (?cas i) \<noteq> ''completed'' \<longleftrightarrow> status i \<noteq> ''completed'' \<and> todo_id i \<noteq> todo_id cur"
    if i: "i \<in> set (todo_list s)" for i
  proof (cases ?nx)
    case None
    then show ?thesis by (auto simp: complete_and_start_def)
  next
    case (Some j)
    then have j: "j \<in> set (todo_list s)" "status j = ''pending''" by (auto dest: find_SomeD)
    have "i = j" if "todo_id i = todo_id j"
      using d i j(1) that by (auto simp: distinct_map inj_on_def)
    with j(2) Some show ?thesis by (auto simp: complete_and_start_def)
  qed
  then have "filter (\<lambda>i. status (?cas i) \<noteq> ''completed'') (todo_list s) =
      filter (\<lambda>i. status i \<noteq> ''completed'' \<and> todo_id i \<noteq> todo_id cur) (todo_list s)"
    by (intro filter_cong) auto
  then show "open_items (todo_list s) = Suc (open_items (todo_list (snd (transition s (todo_id cur) None))))"
    using length_filter_remove_key [OF d cur(1), of "\<lambda>i. status i \<noteq> ''completed''"] cur(2)
    by (simp add: eq open_items_def filter_map comp_def)
  show "map task (todo_list (snd (transition s (todo_id cur) None))) = map task (todo_list s)"
    by (simp add: eq)
qed

lemma work_off_completes:
  "store_inv s \<Longrightarrow> open_items (todo_list s) \<le> n \<Longrightarrow>
   (\<forall>i \<in> set (todo_list (work_off n s)). status i = ''completed'')
   \<and> map task (todo_list (work_off n s)) = map task (todo_list s)"
proof (induction n arbitrary: s)
  case 0
  then show ?case by (auto simp: open_items_def filter_empty_conv)
next
  case (Suc n)
  show ?case
  proof (cases "find (\<lambda>i. status i = ''in_progress'') (todo_list s)")
    case None
    then have "\<forall>i \<in> set (todo_list s). status i \<noteq> ''in_progress''" by (simp add: find_None_iff)
    moreover have "one_active (map status (todo_list s))"
      using Suc.prems by (simp add: store_inv_def wf_todos_def)
    ultimately show ?thesis using None by (auto simp: one_active_items filter_False)
  next
    case (Some cur)
    then have cur: "cur \<in> set (todo_list s)" "status cur = ''in_progress''" by (auto dest: find_SomeD)
    let ?s = "snd (transition s (todo_id cur) None)"
    from transition_progress [OF Suc.prems(1) cur] Suc.prems(2)
    have "open_items (todo_list ?s) \<le> n" "map task (todo_list ?s) = map task (todo_list s)" by auto
    with Suc.IH [OF transition_inv [OF Suc.prems(1)] this(1)] Some show ?thesis by simp
  qed
qed

subsection \<open>What is on disk reopens\<close>

definition reopens :: "todo_store \<Rightarrow> bool" where
  "reopens s = (persist s \<longrightarrow>
     (\<exists>s'. open_store True (disk s) = Inr s' \<and> todo_list s' = todo_list s))"

lemma open_saved:
  assumes "wf_todos its"
  shows "\<exists>s'. open_store True (Json (PList (map todo_to_py its))) = Inr s' \<and> todo_list s' = its"
proof -
  let ?v = "PList (map todo_to_py its)"
  let ?s0 = "\<lparr>items = [], counter = 1, persist = True, disk = Json ?v, sink = None\<rparr>"
  have ok: "validate_todo_records ?v = None"
    using assms check_records_None [of 1 "[]" its] by (simp add: wf_todos_def)
  have loaded: "map py_to_todo (map todo_to_py its) = its"
    by (simp add: map_idI del: py_to_todo.simps)
  have "map (status \<circ> py_to_todo) (map todo_to_py its) = map status its"
    using arg_cong [OF loaded, of "map status"] by (simp del: py_to_todo.simps)
  then have "migrate_legacy (map (status \<circ> py_to_todo) (map todo_to_py its)) = (False, map status its)"
    using assms by (simp add: migrate_legacy_id wf_todos_def del: map_map py_to_todo.simps)
  with load_valid [OF ok, of ?s0] loaded show ?thesis
    by (auto simp: open_store_def simp del: map_map py_to_todo.simps validate_todo_records.simps)
qed

lemma commit_then_reopens:
  "reopens s \<Longrightarrow> reopens (snd (commit_then s its ret))"
  by (auto simp: commit_then_eq Let_def reopens_def comp_def save_def dest: open_saved)

lemma open_store_reopens: "open_store p f = Inr s \<Longrightarrow> reopens s"
proof -
  assume o: "open_store p f = Inr s"
  let ?s0 = "\<lparr>items = [], counter = 1, persist = p, disk = f, sink = None\<rparr>"
  show ?thesis
  proof (cases "p \<and> f \<noteq> NoFile")
    case False
    with o have "s = ?s0" by (auto simp: open_store_def Let_def)
    with False show ?thesis by (auto simp: reopens_def open_store_def todo_list_def)
  next
    case True
    with o have l: "load ?s0 = Inr s" by (simp add: open_store_def Let_def)
    then obtain v where v: "f = Json v" and ok: "validate_todo_records v = None"
      by (auto simp: load_def split: todo_file.splits option.splits)
    from load_valid [OF ok, of ?s0] l v True
    consider "disk s = f" "persist s" | "disk s = Json (PList (map todo_to_py (todo_list s)))" "store_inv s"
      by auto
    then show ?thesis
    proof cases
      case 1
      with o True show ?thesis by (auto simp: reopens_def)
    next
      case 2
      with open_saved [of "todo_list s"] show ?thesis by (simp add: reopens_def store_inv_def)
    qed
  qed
qed

fun is_restore :: "todo_op \<Rightarrow> bool" where
  "is_restore (OpRestore _) = True"
| "is_restore _ = False"

lemma reopens_counter: "reopens (s\<lparr>counter := n\<rparr>) = reopens s"
  by (simp add: reopens_def)

lemma replace_reopens: "reopens s \<Longrightarrow> reopens (snd (replace s ds now))"
  by (cases rule: replace_cases [of s ds now])
     (auto dest: build_items_spec simp: reopens_counter intro!: commit_then_reopens)

lemma create_reopens: "reopens s \<Longrightarrow> reopens (snd (create s t p st now))"
  by (cases rule: create_cases [of s t p st now])
     (auto simp: reopens_counter intro!: commit_then_reopens)

lemma todo_exec_reopens: "reopens s \<Longrightarrow> \<not> is_restore op \<Longrightarrow> reopens (snd (todo_exec s op))"
proof (cases op)
  case (OpUpdate tid st t)
  then show "reopens s \<Longrightarrow> ?thesis"
    by (auto simp: update_def Let_def split: option.split intro!: commit_then_reopens)
next
  case (OpDelete tid)
  then show "reopens s \<Longrightarrow> ?thesis"
    by (auto simp: delete_def split: option.split intro!: commit_then_reopens)
next
  case (OpTransition tid nxt)
  then show "reopens s \<Longrightarrow> ?thesis"
    by (auto simp: transition_def Let_def split: option.split sum.split intro!: commit_then_reopens)
next
  case (OpSetSink on)
  then show "reopens s \<Longrightarrow> ?thesis"
    by (auto simp: reopens_def set_change_sink_def)
qed (simp_all add: create_reopens replace_reopens)

lemma commit_then_persist [simp]: "persist (snd (commit_then s its ret)) = persist s"
  by (simp add: commit_then_eq Let_def)

lemma todo_exec_persist: "persist (snd (todo_exec s op)) = persist s"
proof (cases op)
  case (OpReplace ds now)
  then show ?thesis
    by (cases rule: replace_cases [of s ds now]) (auto dest: build_items_spec)
next
  case (OpCreate t p st now)
  then show ?thesis by (cases rule: create_cases [of s t p st now]) auto
qed (auto simp: update_def delete_def transition_def restore_def set_change_sink_def Let_def
    split: option.split sum.split)

lemma open_store_persist: "open_store p f = Inr s \<Longrightarrow> persist s = p"
  by (auto simp: open_store_def load_def Let_def split: if_splits todo_file.splits option.splits prod.splits)

subsection \<open>Identity of replaced records\<close>

lemma existing_counter [simp]: "existing (s\<lparr>counter := n\<rparr>) d = existing s d"
  by (simp add: existing_def)

definition built_from :: "todo_store \<Rightarrow> pydict \<Rightarrow> todo_item \<Rightarrow> bool" where
  "built_from s d i = (task i = req_task d \<and>
     (case supplied_id d of
        None \<Rightarrow> \<exists>n. todo_id i = nat_str n \<and> counter s \<le> n
      | Some t \<Rightarrow> todo_id i = t \<and>
          (\<forall>j. map_of (items s) t = Some j \<longrightarrow> created_at j \<noteq> [] \<longrightarrow> created_at i = created_at j)))"

lemma build_items_source:
  "build_items s now k xs = (its, s') \<Longrightarrow>
   \<forall>i \<in> set its. \<exists>(d, st) \<in> set xs. built_from s d i"
  unfolding built_from_def
proof (induction s now k xs arbitrary: its s' rule: build_items.induct)
  case (2 s now k d st rest)
  show ?case
  proof (cases "supplied_id d")
    case None
    let ?s1 = "s\<lparr>counter := Suc (counter s)\<rparr>"
    obtain js where b: "build_items ?s1 now (Suc k) rest = (js, s')"
      and its: "its = build_item s (now k) (nat_str (counter s)) st d # js"
      using "2.prems" None by (auto simp: next_id_def split: prod.splits)
    note IH = "2.IH" (1) [OF None _ refl b, unfolded next_id_def, OF refl]
    show ?thesis unfolding its
      using IH None by (fastforce simp: build_item_def split: option.splits dest: Suc_leD)
  next
    case (Some tid)
    obtain js where b: "build_items s now (Suc k) rest = (js, s')"
      and its: "its = build_item s (now k) tid st d # js"
      using "2.prems" Some by (auto split: prod.splits)
    note IH = "2.IH" (2) [OF Some b]
    show ?thesis unfolding its
      using IH Some by (auto simp: build_item_def existing_def split: option.splits)
  qed
qed simp

lemma check_identity_None:
  "check_identity its ds = None \<Longrightarrow> d \<in> set ds \<Longrightarrow> j \<in> set its \<Longrightarrow> py_strip (task j) = req_task d \<Longrightarrow>
   \<exists>t. supplied_id d = Some t \<and> t \<in> set (ids_of_task its (req_task d))"
proof (induction its ds rule: check_identity.induct)
  case (2 its e es)
  show ?case
  proof (cases "d = e")
    case True
    with 2 have "ids_of_task its (req_task e) \<noteq> []"
      by (auto simp: ids_of_task_def filter_empty_conv)
    with 2 True show ?thesis by (auto simp: Let_def split: option.splits if_splits)
  next
    case False
    with 2 show ?thesis by (auto simp: Let_def split: option.splits if_splits)
  qed
qed simp

lemma built_identity:
  assumes inv: "store_inv s"
    and known: "find (\<lambda>x. map_of (items s) x = None) (List.map_filter supplied_id ds) = None"
    and same: "check_identity (todo_list s) ds = None" and d: "d \<in> set ds" and src: "built_from s d i"
  shows "(\<forall>j \<in> set (todo_list s). py_strip (task j) = task i \<longrightarrow>
            todo_id i \<in> set (ids_of_task (todo_list s) (task i)))
    \<and> (case map_of (items s) (todo_id i) of
         None \<Rightarrow> counter s \<le> id_num (todo_id i)
       | Some j \<Rightarrow> created_at i = created_at j)"
proof -
  have "todo_id i \<in> set (ids_of_task (todo_list s) (task i))"
    if "j \<in> set (todo_list s)" "py_strip (task j) = task i" for j
    using check_identity_None [OF same d that(1)] that(2) src by (auto simp: built_from_def)
  moreover have "case map_of (items s) (todo_id i) of
         None \<Rightarrow> counter s \<le> id_num (todo_id i) | Some j \<Rightarrow> created_at i = created_at j"
  proof (cases "supplied_id d")
    case None
    with src obtain n where n: "todo_id i = nat_str n" "counter s \<le> n" by (auto simp: built_from_def)
    have "j \<notin> set (todo_list s)" if "todo_id j = todo_id i" for j
      using inv n that by (auto simp: store_inv_def)
    then have "map_of (items s) (todo_id i) = None"
      using inv by (auto simp: store_inv_map_of_None)
    with n show ?thesis by simp
  next
    case (Some t)
    with src have t: "todo_id i = t" by (simp add: built_from_def)
    from known supplied_in_map_filter [OF d Some] obtain j where j: "map_of (items s) t = Some j"
      by (auto simp: find_None_iff)
    with inv have "wf_todo j" by (auto simp: store_inv_map_of store_inv_def wf_todos_def)
    then have "created_at j \<noteq> []" by (auto simp: wf_todo_def py_strip_def py_lstrip_def py_rstrip_def)
    with src Some t j show ?thesis by (simp add: built_from_def)
  qed
  ultimately show ?thesis by blast
qed

subsection \<open>Properties\<close>

text \<open>C1. From any successful opening of the store (with or without a persistence file), every
  history of create, replace, update, delete, transition, restore and sink operations leaves
  canonical and pairwise different ids below the counter, valid statuses and priorities, and
  exactly one item in progress while any item is unfinished.\<close>

theorem todo_history_wellformed:
  assumes "open_store p f = Inr s"
  shows "let s' = foldl (\<lambda>s op. snd (todo_exec s op)) s ops; its = todo_list s' in
    wf_todos its \<and> (\<forall>(k, i) \<in> set (items s'). k = todo_id i)
    \<and> (\<forall>i \<in> set its. id_num (todo_id i) < counter s')
    \<and> (open_items its = 0 \<or> length (filter (\<lambda>i. status i = ''in_progress'') its) = 1)"
proof -
  have "store_inv (foldl (\<lambda>s op. snd (todo_exec s op)) s ops)"
    using todo.run_inv [OF open_store_inv [OF assms]] by (simp add: todo.run_def)
  then show ?thesis
    by (auto simp: Let_def store_inv_def wf_todos_def one_active_items open_items_def
        filter_empty_conv)
qed

theorem todo_history_wellformed_witness:
  "let s' = foldl (\<lambda>s op. snd (todo_exec s op))
       \<lparr>items = [], counter = 1, persist = True, disk = NoFile, sink = None\<rparr>
       [OpCreate ''a'' ''low'' None ''t0'', OpCreate ''b'' ''high'' None ''t1'', OpTransition ''1'' None]
   in wf_todos (todo_list s') \<and> map status (todo_list s') = [''completed'', ''in_progress'']"
proof -
  let ?s = "\<lparr>items = [], counter = 1, persist = True, disk = NoFile, sink = None\<rparr>"
  let ?ops = "[OpCreate ''a'' ''low'' None ''t0'', OpCreate ''b'' ''high'' None ''t1'',
    OpTransition ''1'' None]"
  have "open_store True NoFile = Inr ?s" by (simp add: open_store_def Let_def)
  from todo_history_wellformed [OF this, of ?ops]
  have "wf_todos (todo_list (foldl (\<lambda>s op. snd (todo_exec s op)) ?s ?ops))"
    by (simp add: Let_def)
  moreover have "map status (todo_list (foldl (\<lambda>s op. snd (todo_exec s op)) ?s ?ops)) =
      [''completed'', ''in_progress'']"
    by code_simp
  ultimately show ?thesis by (simp only: Let_def)
qed


definition todo_sample :: todo_store where
  "todo_sample = \<lparr>items =
     [(''1'', \<lparr>todo_id = ''1'', task = ''a'', status = ''in_progress'', priority = None, created_at = ''t''\<rparr>),
      (''2'', \<lparr>todo_id = ''2'', task = ''b'', status = ''pending'', priority = Some ''low'', created_at = ''t''\<rparr>),
      (''3'', \<lparr>todo_id = ''3'', task = ''c'', status = ''pending'', priority = None, created_at = ''t''\<rparr>)],
     counter = 4, persist = True, disk = NoFile, sink = Some []\<rparr>"

lemma todo_sample_inv: "store_inv todo_sample"
  by code_simp


text \<open>Repeated transitions of the active item work the list off: after as many steps as
  there were unfinished items, every item is completed and the tasks are the same.\<close>

theorem todo_work_off:
  assumes "store_inv s"
  shows "(\<forall>i \<in> set (todo_list (work_off (open_items (todo_list s)) s)). status i = ''completed'')
    \<and> map task (todo_list (work_off (open_items (todo_list s)) s)) = map task (todo_list s)"
  using work_off_completes [OF assms order_refl] .

theorem todo_work_off_witness:
  "list_all (\<lambda>i. status i = ''completed'') (todo_list (work_off 3 todo_sample))
   \<and> map task (todo_list (work_off 3 todo_sample)) = [''a'', ''b'', ''c'']"
proof -
  have "open_items (todo_list todo_sample) = 3" "map task (todo_list todo_sample) = [''a'', ''b'', ''c'']"
    by code_simp+
  with todo_work_off [OF todo_sample_inv] show ?thesis by (simp add: list_all_iff)
qed





text \<open>C6. Opening a file fails only for its shape: any list of well-shaped records, whatever its
  active-item count, is loaded with its ids and tasks and a single active item.\<close>

theorem todo_legacy_file_opens:
  assumes "validate_todo_records (PList vs) = None"
  shows "\<exists>s. open_store True (Json (PList vs)) = Inr s
    \<and> map todo_id (todo_list s) = map (todo_id \<circ> py_to_todo) vs
    \<and> length (todo_list s) = length vs \<and> one_active (map status (todo_list s))"
proof -
  let ?s0 = "\<lparr>items = [], counter = 1, persist = True, disk = Json (PList vs), sink = None\<rparr>"
  have len: "length (snd (migrate_legacy (map (status \<circ> py_to_todo) vs))) = length (map py_to_todo vs)"
    by (simp add: migrate_legacy_props)
  note ids = map_set_statuses(2) [OF len]
  from load_valid [OF assms, of ?s0] obtain s where s: "open_store True (Json (PList vs)) = Inr s"
    "store_inv s" "todo_list s = set_statuses (map py_to_todo vs)
        (snd (migrate_legacy (map (status \<circ> py_to_todo) vs)))"
    by (auto simp: open_store_def)
  moreover have "map todo_id (todo_list s) = map (todo_id \<circ> py_to_todo) vs"
    unfolding s(3) ids by simp
  moreover from this have "length (todo_list s) = length vs"
    by (metis length_map)
  ultimately show ?thesis by (auto simp: store_inv_def wf_todos_def)
qed

theorem todo_legacy_file_opens_witness:
  "\<exists>s. open_store True (Json (PList [
        PDict [(''id'', PStr ''2''), (''task'', PStr ''x''), (''status'', PStr ''in_progress''), (''created_at'', PStr ''t'')],
        PDict [(''id'', PStr ''5''), (''task'', PStr ''y''), (''status'', PStr ''in_progress''), (''created_at'', PStr ''t'')]])) = Inr s
     \<and> map todo_id (todo_list s) = [''2'', ''5'']"
proof -
  let ?v = "[PDict [(''id'', PStr ''2''), (''task'', PStr ''x''), (''status'', PStr ''in_progress''), (''created_at'', PStr ''t'')],
        PDict [(''id'', PStr ''5''), (''task'', PStr ''y''), (''status'', PStr ''in_progress''), (''created_at'', PStr ''t'')]]"
  have "validate_todo_records (PList ?v) = None" by code_simp
  from todo_legacy_file_opens [OF this] show ?thesis by (auto simp: dget_def)
qed

text \<open>A successful \<open>replace\<close> keeps identities: a record whose task was on the list carries
  an id that task had, a record with a known id keeps its creation time, and every other
  record gets an id the store never issued.\<close>

theorem todo_replace_identity:
  assumes inv: "store_inv s" and ok: "fst (replace s ds now) = Inr its" and i: "i \<in> set its"
  shows "(\<forall>j \<in> set (todo_list s). py_strip (task j) = task i \<longrightarrow>
            todo_id i \<in> set (ids_of_task (todo_list s) (task i)))
    \<and> (case map_of (items s) (todo_id i) of
         None \<Rightarrow> counter s \<le> id_num (todo_id i)
       | Some j \<Rightarrow> created_at i = created_at j)"
proof (cases rule: replace_cases [of s ds now])
  case (raised e)
  with ok show ?thesis by simp
next
  case (built ss rs s')
  from ok built(6) have "its = rs"
    by (auto simp: commit_then_eq Let_def comp_def split: if_splits)
  with i build_items_source [OF built(5)] obtain d st where d: "(d, st) \<in> set (zip ds ss)"
    "built_from s d i" by blast
  have "d \<in> set ds" using d(1) by (rule set_zip_leftD)
  from built_identity [OF inv built(1,2) this d(2)] show ?thesis by blast
qed

theorem todo_replace_identity_witness:
  "\<exists>its. fst (replace todo_sample
      [[(''id'', PStr ''2''), (''task'', PStr ''b''), (''status'', PStr ''pending'')],
       [(''task'', PStr ''new''), (''status'', PStr ''pending'')]] (\<lambda>_. ''t1'')) = Inr its
     \<and> map todo_id its = [''2'', ''4''] \<and> 4 \<le> id_num (todo_id (its ! 1))"
proof -
  let ?ds = "[[(''id'', PStr ''2''), (''task'', PStr ''b''), (''status'', PStr ''pending'')],
       [(''task'', PStr ''new''), (''status'', PStr ''pending'')]]"
  let ?a = "\<lparr>todo_id = ''2'', task = ''b'', status = ''in_progress'', priority = Some ''low'', created_at = ''t''\<rparr>"
  let ?b = "\<lparr>todo_id = ''4'', task = ''new'', status = ''pending'', priority = Some ''medium'', created_at = ''t1''\<rparr>"
  have ok: "fst (replace todo_sample ?ds (\<lambda>_. ''t1'')) = Inr [?a, ?b]" by code_simp
  have "?b \<in> set [?a, ?b]" by simp
  from todo_replace_identity [OF todo_sample_inv ok this]
  have "4 \<le> id_num ''4''" by (auto simp: todo_sample_def)
  with ok show ?thesis by (intro exI [of _ "[?a, ?b]"]) simp
qed

end
