(* ===== verification/BudgetCorrect.thy ===== *)
theory BudgetCorrect
  imports Budget
begin

section \<open>Tool budgets: quotas, one-shot notices, search batching and ledgers\<close>

text \<open>
  \<open>quota\<close> is the contract of a counter that admits a request only below its cap; it is
  interpreted on the total budget, on the budget of each tool and on a web-search batch.
  \<open>one_shot\<close> is the contract of a source of notices that fires each one once. The ledgers
  of delegated calls have the invariant that the use of a ledger is the number of the
  outstanding charges that hold it.
\<close>

subsection \<open>Histories of budget operations\<close>

datatype budget_op =
    Reserve string
  | Delegated string pyval "string option"
  | SearchResult search_outcome

fun budget_exec :: "tool_budget \<Rightarrow> budget_op \<Rightarrow> bool \<times> tool_budget" where
  "budget_exec b (Reserve t) = (fst (reserve b t) = None, snd (reserve b t))"
| "budget_exec b (Delegated t raw c) = (False, record_delegated b t raw c)"
| "budget_exec b (SearchResult r) = (False, record_search b r)"

text \<open>A counter that admits a request only while it is below its cap.\<close>

locale quota =
  fixes exec :: "'s \<Rightarrow> 'op \<Rightarrow> bool \<times> 's"
    and load :: "'s \<Rightarrow> int"
    and cap :: "'s \<Rightarrow> int option"
    and counted :: "'op \<Rightarrow> bool"
  assumes cap_fixed: "cap (snd (exec s op)) = cap s"
    and admit_below: "cap s = Some c \<Longrightarrow> fst (exec s op) \<Longrightarrow> counted op \<Longrightarrow>
      load s < c \<and> load (snd (exec s op)) = load s + 1"
    and no_other_change: "cap s = Some c \<Longrightarrow> \<not> (fst (exec s op) \<and> counted op) \<Longrightarrow>
      load (snd (exec s op)) = load s"
begin

fun admitted :: "'s \<Rightarrow> 'op list \<Rightarrow> 'op list" where
  "admitted s [] = []"
| "admitted s (op # ops) = (if fst (exec s op) \<and> counted op then [op] else [])
     @ admitted (snd (exec s op)) ops"

lemma admitted_within_cap:
  "cap s = Some c \<Longrightarrow> load s + int (length (admitted s ops)) \<le> max c (load s)"
proof (induction ops arbitrary: s)
  case (Cons op ops)
  let ?s' = "snd (exec s op)"
  have IH: "load ?s' + int (length (admitted ?s' ops)) \<le> max c (load ?s')"
    by (rule Cons.IH) (simp add: cap_fixed Cons.prems)
  show ?case
    using IH admit_below [OF Cons.prems, of op] no_other_change [OF Cons.prems, of op]
    by (cases "fst (exec s op) \<and> counted op") auto
qed simp

end

fun is_reserve :: "budget_op \<Rightarrow> bool" where
  "is_reserve (Reserve t) = True"
| "is_reserve _ = False"

lemma reserve_limits [simp]:
  "tool_call_limits (snd (reserve b t)) = tool_call_limits b"
  "max_tool_calls (snd (reserve b t)) = max_tool_calls b"
  "max_delegated_tool_calls (snd (reserve b t)) = max_delegated_tool_calls b"
  "search_files_empty_result_limit (snd (reserve b t)) = search_files_empty_result_limit b"
  by (simp_all add: reserve_def)

lemma record_limits [simp]:
  "tool_call_limits (record_delegated b t raw c) = tool_call_limits b"
  "max_tool_calls (record_delegated b t raw c) = max_tool_calls b"
  "tool_call_total (record_delegated b t raw c) = tool_call_total b"
  "tool_call_counts (record_delegated b t raw c) = tool_call_counts b"
  "tool_budget_wrapup_injected (record_delegated b t raw c) = tool_budget_wrapup_injected b"
  "delegated_budget_guidance_injected (record_delegated b t raw c) = delegated_budget_guidance_injected b"
  "tool_call_limits (record_search b r) = tool_call_limits b"
  "max_tool_calls (record_search b r) = max_tool_calls b"
  "tool_call_total (record_search b r) = tool_call_total b"
  "tool_call_counts (record_search b r) = tool_call_counts b"
  "tool_budget_wrapup_injected (record_search b r) = tool_budget_wrapup_injected b"
  "delegated_budget_guidance_injected (record_search b r) = delegated_budget_guidance_injected b"
  by (auto simp: record_delegated_def record_search_def split: option.splits)

lemma reserve_flags [simp]:
  "tool_budget_wrapup_injected (snd (reserve b t)) = tool_budget_wrapup_injected b"
  "delegated_budget_guidance_injected (snd (reserve b t)) = delegated_budget_guidance_injected b"
  by (simp_all add: reserve_def)

lemma at_cap_simps [simp]: "at_cap None n = False" "at_cap (Some l) n = (l \<le> n)"
  by (simp_all add: at_cap_def)

lemma reserve_outcome:
  "(\<exists>r. reserve b t = (Some r, b))
   \<or> (\<not> at_cap (max_tool_calls b) (tool_call_total b)
      \<and> \<not> at_cap (map_of (tool_call_limits b) t) (tool_call_counts b t)
      \<and> reserve b t = (None,
         b\<lparr>tool_call_counts := (if map_of (tool_call_limits b) t = None then tool_call_counts b
            else (tool_call_counts b)(t := tool_call_counts b t + 1)),
          tool_call_total := tool_call_total b + 1\<rparr>))"
proof -
  let ?c1 = "t = SEARCH_FILES
         \<and> search_files_empty_result_limit b \<le> search_files_consecutive_empty_results b"
  let ?c2 = "t = ''sub_agent'' \<and> at_cap (max_delegated_tool_calls b) (delegated_tool_call_total b)"
  consider ?c1 | "\<not> ?c1" ?c2 | "\<not> ?c1" "\<not> ?c2" by blast
  then show ?thesis
  proof cases
    case 1
    then show ?thesis by (intro disjI1) (simp only: reserve_def if_P, blast)
  next
    case 2
    have "reserve b t = (Some (DelegatedExhausted (the (max_delegated_tool_calls b))), b)"
      unfolding reserve_def if_not_P [OF 2(1)] if_P [OF 2(2)] by (rule refl)
    then show ?thesis by blast
  next
    case 3
    show ?thesis
    proof (cases "at_cap (max_tool_calls b) (tool_call_total b)
        \<or> at_cap (map_of (tool_call_limits b) t) (tool_call_counts b t)")
      case True
      with 3 show ?thesis
        by (intro disjI1, cases "at_cap (max_tool_calls b) (tool_call_total b)")
          (simp_all only: reserve_def if_not_P if_P simp_thms, blast+)
    next
      case False
      with 3 show ?thesis
        by (intro disjI2) (simp only: reserve_def if_False simp_thms de_Morgan_disj)
    qed
  qed
qed

lemma reserve_admits:
  "fst (reserve b t) = None \<Longrightarrow>
   \<not> at_cap (max_tool_calls b) (tool_call_total b)
   \<and> \<not> at_cap (map_of (tool_call_limits b) t) (tool_call_counts b t)
   \<and> tool_call_total (snd (reserve b t)) = tool_call_total b + 1
   \<and> tool_call_counts (snd (reserve b t)) = (if map_of (tool_call_limits b) t = None then tool_call_counts b
            else (tool_call_counts b)(t := tool_call_counts b t + 1))"
  using reserve_outcome [of b t] by (cases "reserve b t") auto

lemma reserve_rejects: "fst (reserve b t) \<noteq> None \<Longrightarrow> snd (reserve b t) = b"
  using reserve_outcome [of b t] by (cases "reserve b t") auto

interpretation total: quota budget_exec tool_call_total max_tool_calls is_reserve
proof
  fix s op c
  show "max_tool_calls (snd (budget_exec s op)) = max_tool_calls s" by (cases op) auto
  show "max_tool_calls s = Some c \<Longrightarrow> fst (budget_exec s op) \<Longrightarrow> is_reserve op \<Longrightarrow>
      tool_call_total s < c \<and> tool_call_total (snd (budget_exec s op)) = tool_call_total s + 1"
  proof (cases op)
    case (Reserve u)
    moreover assume "max_tool_calls s = Some c" "fst (budget_exec s op)"
    ultimately show ?thesis using reserve_admits [of s u] by simp
  qed simp_all
  show "max_tool_calls s = Some c \<Longrightarrow> \<not> (fst (budget_exec s op) \<and> is_reserve op) \<Longrightarrow>
      tool_call_total (snd (budget_exec s op)) = tool_call_total s"
    using reserve_rejects by (cases op) auto
qed

interpretation per_tool: quota budget_exec "\<lambda>b. tool_call_counts b t"
    "\<lambda>b. map_of (tool_call_limits b) t" "\<lambda>op. op = Reserve t" for t
proof
  fix s op c
  show "map_of (tool_call_limits (snd (budget_exec s op))) t = map_of (tool_call_limits s) t"
    by (cases op) auto
  show "map_of (tool_call_limits s) t = Some c \<Longrightarrow> fst (budget_exec s op) \<Longrightarrow> op = Reserve t \<Longrightarrow>
      tool_call_counts s t < c \<and> tool_call_counts (snd (budget_exec s op)) t = tool_call_counts s t + 1"
    using reserve_admits [of s t] by auto
  show "map_of (tool_call_limits s) t = Some c \<Longrightarrow> \<not> (fst (budget_exec s op) \<and> op = Reserve t) \<Longrightarrow>
      tool_call_counts (snd (budget_exec s op)) t = tool_call_counts s t"
  proof (cases op)
    case (Reserve u)
    moreover assume "\<not> (fst (budget_exec s op) \<and> op = Reserve t)"
    ultimately show ?thesis
      using reserve_admits [of s u] reserve_rejects [of s u]
      by (cases "fst (reserve s u) = None") auto
  qed auto
qed

subsection \<open>How many of a row of equal requests are admitted\<close>

definition room :: "tool_budget \<Rightarrow> string \<Rightarrow> nat \<Rightarrow> nat" where
  "room b t n = min n (min
     (case max_tool_calls b of None \<Rightarrow> n | Some m \<Rightarrow> nat (m - tool_call_total b))
     (case map_of (tool_call_limits b) t of None \<Rightarrow> n | Some l \<Rightarrow> nat (l - tool_call_counts b t)))"

lemma reserve_plain:
  assumes "t \<noteq> SEARCH_FILES" "t \<noteq> ''sub_agent''"
  shows "fst (reserve b t) = None \<longleftrightarrow>
    \<not> at_cap (max_tool_calls b) (tool_call_total b)
    \<and> \<not> at_cap (map_of (tool_call_limits b) t) (tool_call_counts b t)"
  using assms by (simp add: reserve_def)

lemma nat_room: "\<not> x \<le> y \<Longrightarrow> nat (x - y) = Suc (nat (x - (y + 1)))" for x y :: int
  by simp

lemma all_rejected:
  "fst (reserve b t) \<noteq> None \<Longrightarrow> total.admitted b (replicate n (Reserve t)) = []"
  by (induction n) (auto simp: reserve_rejects)

lemma admitted_replicate:
  assumes "t \<noteq> SEARCH_FILES" "t \<noteq> ''sub_agent''"
  shows "length (total.admitted b (replicate n (Reserve t))) = room b t n"
proof (induction n arbitrary: b)
  case (Suc n)
  show ?case
  proof (cases "fst (reserve b t) = None")
    case True
    note a = reserve_admits [OF True]
    have "room b t (Suc n) = Suc (room (snd (reserve b t)) t n)"
      using a by (auto simp: room_def nat_room split: option.splits)
    with True Suc show ?thesis by simp
  next
    case False
    then have "room b t (Suc n) = 0"
      using assms by (auto simp: reserve_plain room_def at_cap_def split: option.splits)
    with all_rejected [OF False, of "Suc n"] show ?thesis by simp
  qed
qed (simp add: room_def)

subsection \<open>One-shot notices\<close>

datatype run_op = Call budget_op | Guidance | ChildrenUsed int

definition update_budget :: "tool_run \<Rightarrow> budget_op \<Rightarrow> tool_run" where
  "update_budget r op = r\<lparr>run_budget := snd (budget_exec (run_budget r) op)\<rparr>"

fun run_exec :: "tool_run \<Rightarrow> run_op \<Rightarrow> notice list \<times> tool_run" where
  "run_exec r (Call op) = ([], update_budget r op)"
| "run_exec r Guidance = budget_guidance r"
| "run_exec r (ChildrenUsed n) =
     ([], r\<lparr>delegated_budget := map_option (\<lambda>(l, u). (l, n)) (delegated_budget r)\<rparr>)"

fun spent_notice :: "tool_run \<Rightarrow> notice \<Rightarrow> bool" where
  "spent_notice r (ToolWrapup name _) = (name \<in> tool_budget_wrapup_injected (run_budget r))"
| "spent_notice r (DelegatedWrapup _) = delegated_budget_guidance_injected (run_budget r)"
| "spent_notice r (EmptySearchGuidance _) = empty_search_guidance r"
| "spent_notice r (TotalWrapup _) = (TOTAL \<in> tool_budget_wrapup_injected (run_budget r))"

definition run_ok :: "tool_run \<Rightarrow> bool" where
  "run_ok r = distinct (keys (tool_call_limits (run_budget r)))"

lemma budget_exec_flags [simp]:
  "tool_call_limits (snd (budget_exec b op)) = tool_call_limits b"
  "tool_budget_wrapup_injected (snd (budget_exec b op)) = tool_budget_wrapup_injected b"
  "delegated_budget_guidance_injected (snd (budget_exec b op)) = delegated_budget_guidance_injected b"
  by (cases op; simp)+

text \<open>A step that hands out notices once; two such steps in a row are one.\<close>

definition once :: "(tool_run \<Rightarrow> notice list \<times> tool_run) \<Rightarrow> bool" where
  "once f = (\<forall>r. run_ok r \<longrightarrow> run_ok (snd (f r)) \<and> distinct (fst (f r))
     \<and> (\<forall>n. spent_notice r n \<longrightarrow> spent_notice (snd (f r)) n)
     \<and> (\<forall>n \<in> set (fst (f r)). \<not> spent_notice r n \<and> spent_notice (snd (f r)) n))"

lemma once_andthen: "once f \<Longrightarrow> once g \<Longrightarrow> once (andthen f g)"
  unfolding once_def andthen_def Let_def split_beta by (fastforce simp del: spent_notice.simps)

lemma onceI:
  "(\<And>r n. run_ok r \<Longrightarrow> run_ok (snd (f r)) \<and> distinct (fst (f r))
     \<and> (spent_notice r n \<longrightarrow> spent_notice (snd (f r)) n)
     \<and> (n \<in> set (fst (f r)) \<longrightarrow> \<not> spent_notice r n \<and> spent_notice (snd (f r)) n)) \<Longrightarrow> once f"
  by (auto simp: once_def)

lemma once_tool: "once tool_guidance"
  unfolding once_def
proof (intro allI impI conjI ballI)
  fix r n
  assume ok: "run_ok r"
  show "run_ok (snd (tool_guidance r))" using ok by (simp add: run_ok_def tool_guidance_def Let_def)
  show "distinct (fst (tool_guidance r))"
    using ok by (auto simp: run_ok_def tool_guidance_def Let_def tool_notices_def distinct_map inj_on_def)
  show "spent_notice r n \<Longrightarrow> spent_notice (snd (tool_guidance r)) n"
    by (cases n) (simp_all add: tool_guidance_def Let_def)
  assume n: "n \<in> set (fst (tool_guidance r))"
  then obtain name l where nl: "n = ToolWrapup name l" "(name, l) \<in> set (tool_notices (run_budget r))"
    by (auto simp: tool_guidance_def Let_def)
  then show "\<not> spent_notice r n" by (simp add: tool_notices_def)
  from nl show "spent_notice (snd (tool_guidance r)) n" by (force simp: tool_guidance_def Let_def)
qed

lemma once_other: "once delegated_guidance" "once search_files_guidance" "once total_guidance"
  by (rule onceI, rename_tac r n, case_tac n;
      auto simp: delegated_guidance_def search_files_guidance_def total_guidance_def run_ok_def Let_def
        split: option.splits if_splits)+

lemma once_guidance: "once budget_guidance"
  unfolding budget_guidance_def by (intro once_andthen once_tool once_other)

lemmas guidance_once = once_guidance [unfolded once_def, rule_format]

interpretation notices: one_shot run_exec spent_notice run_ok
proof
  fix s op n
  assume ok: "run_ok s"
  note g = guidance_once [OF ok]
  show "run_ok (snd (run_exec s op))"
    using ok g by (cases op) (auto simp: run_ok_def update_budget_def)
  show "spent_notice (snd (run_exec s op)) n" if "spent_notice s n"
  proof (cases op)
    case Guidance
    with that g show ?thesis by simp
  qed (use that in \<open>cases n; simp add: update_budget_def\<close>)+
  show "\<not> spent_notice s n" if "n \<in> set (fst (run_exec s op))"
    using that g by (cases op) auto
  show "spent_notice (snd (run_exec s op)) n" if "n \<in> set (fst (run_exec s op))"
    using that g by (cases op) auto
  show "distinct (fst (run_exec s op))"
    using g by (cases op) auto
qed

subsection \<open>Web searches\<close>

record search_state =
  policy :: search_policy
  batch :: search_batch
  calls :: tool_budget

definition search_step :: "query_lang \<Rightarrow> search_state \<Rightarrow> string \<Rightarrow> bool \<times> search_state" where
  "search_step L s key =
     (let (r, p, bt, b) = search_reserve L key (policy s) (batch s) (calls s)
      in (r = None, \<lparr>policy = p, batch = bt, calls = b\<rparr>))"

datatype search_op = Query string | Found search_result | NextBatch | OtherCall budget_op

text \<open>A step ends with the guidance for its batch; the next step has a new batch.\<close>

fun search_exec :: "query_lang \<Rightarrow> search_state \<Rightarrow> search_op \<Rightarrow> bool \<times> search_state" where
  "search_exec L s (Query key) = search_step L s key"
| "search_exec L s (Found r) =
     (let (p, bt) = record_result (policy s) (batch s) r in (False, s\<lparr>policy := p, batch := bt\<rparr>))"
| "search_exec L s NextBatch =
     (False, s\<lparr>policy := snd (search_guidance (policy s) (batch s) (tool_call_counts (calls s) ''web_search'')),
               batch := new_batch\<rparr>)"
| "search_exec L s (OtherCall op) = (False, s\<lparr>calls := snd (budget_exec (calls s) op)\<rparr>)"

fun executed_queries :: "query_lang \<Rightarrow> search_state \<Rightarrow> search_op list \<Rightarrow> string list" where
  "executed_queries L s [] = []"
| "executed_queries L s (op # ops) =
     (case op of Query key \<Rightarrow> if fst (search_exec L s op) then [key] else [] | _ \<Rightarrow> [])
     @ executed_queries L (snd (search_exec L s op)) ops"

lemma search_step_cases:
  "(fst (search_step L s key) \<and> list_all (\<lambda>q. \<not> near_duplicates L key q) (seen_queries (policy s))
      \<and> executed (batch s) < batch_size (policy s)
      \<and> executed (batch (snd (search_step L s key))) = executed (batch s) + 1
      \<and> set (seen_queries (policy (snd (search_step L s key)))) =
          set (seen_queries (policy s)) \<union> (if key = [] then {} else {key}))
   \<or> (\<not> fst (search_step L s key) \<and> executed (batch (snd (search_step L s key))) = executed (batch s)
      \<and> policy (snd (search_step L s key)) = policy s)"
proof (cases "find (\<lambda>q. near_duplicates L key q) (seen_queries (policy s))")
  case None
  then have "list_all (\<lambda>q. \<not> near_duplicates L key q) (seen_queries (policy s))"
    by (auto simp: find_None_iff list_all_iff)
  with None show ?thesis
    by (auto simp: search_step_def search_reserve_def Let_def split: prod.splits option.splits)
qed (simp add: search_step_def search_reserve_def Let_def)

lemma search_step_size [simp]: "batch_size (policy (snd (search_step L s key))) = batch_size (policy s)"
  by (auto simp: search_step_def search_reserve_def Let_def split: prod.splits option.splits)

interpretation in_batch: quota "search_step L" "\<lambda>s. executed (batch s)" "\<lambda>s. Some (batch_size (policy s))"
    "\<lambda>_. True" for L
proof
  fix s :: search_state and key c
  show "Some (batch_size (policy (snd (search_step L s key)))) = Some (batch_size (policy s))" by simp
  show "Some (batch_size (policy s)) = Some c \<Longrightarrow> fst (search_step L s key) \<Longrightarrow> True \<Longrightarrow>
      executed (batch s) < c \<and> executed (batch (snd (search_step L s key))) = executed (batch s) + 1"
    using search_step_cases [of L s key] by auto
  show "Some (batch_size (policy s)) = Some c \<Longrightarrow> \<not> (fst (search_step L s key) \<and> True) \<Longrightarrow>
      executed (batch (snd (search_step L s key))) = executed (batch s)"
    using search_step_cases [of L s key] by auto
qed

lemma search_keeps_seen:
  "(\<And>key. op \<noteq> Query key) \<Longrightarrow> seen_queries (policy (snd (search_exec L s op))) = seen_queries (policy s)"
  by (cases op) (auto simp: record_result_def search_guidance_def Let_def split: prod.splits)

lemma executed_queries_fresh:
  "sorted_wrt (\<lambda>a b. \<not> near_duplicates L b a) (filter (\<lambda>k. k \<noteq> []) (executed_queries L s ops))
   \<and> (\<forall>k \<in> set (executed_queries L s ops). k \<noteq> [] \<longrightarrow>
        (\<forall>q \<in> set (seen_queries (policy s)). \<not> near_duplicates L k q))"
proof (induction ops arbitrary: s)
  case (Cons op ops)
  let ?s' = "snd (search_exec L s op)"
  note IH = Cons.IH [of ?s']
  show ?case
  proof (cases "\<exists>key. op = Query key \<and> fst (search_step L s key)")
    case True
    then obtain key where key: "op = Query key" "fst (search_step L s key)" by blast
    with search_step_cases [of L s key]
    have fresh: "list_all (\<lambda>q. \<not> near_duplicates L key q) (seen_queries (policy s))"
      and seen': "set (seen_queries (policy ?s')) =
        set (seen_queries (policy s)) \<union> (if key = [] then {} else {key})"
      by auto
    have E: "executed_queries L s (op # ops) = key # executed_queries L ?s' ops"
      using key by simp
    show ?thesis
      unfolding E using IH fresh by (auto simp: seen' list_all_iff)
  next
    case False
    then have E: "executed_queries L s (op # ops) = executed_queries L ?s' ops"
      by (cases op) auto
    have "set (seen_queries (policy ?s')) = set (seen_queries (policy s))"
    proof (cases op)
      case (Query key)
      with False search_step_cases [of L s key] show ?thesis by auto
    next
      case (Found r)
      then show ?thesis using search_keeps_seen [of op L s] by auto
    next
      case NextBatch
      then show ?thesis using search_keeps_seen [of op L s] by auto
    next
      case (OtherCall x)
      then show ?thesis by simp
    qed
    with IH show ?thesis unfolding E by simp
  qed
qed simp

subsection \<open>Ledgers of delegated calls\<close>

type_synonym charges = "charge list \<times> ledger_store"

datatype charge_op = ChargeReserve nat "nat list" | ChargeRelease nat

fun charge_exec :: "charges \<Rightarrow> charge_op \<Rightarrow> bool \<times> charges" where
  "charge_exec (cs, h) (ChargeReserve i ls) =
     (if i < length cs
      then (let (ok, c, h') = charge_reserve (cs ! i) ls h in (ok, cs[i := c], h'))
      else (False, cs, h))"
| "charge_exec (cs, h) (ChargeRelease i) =
     (if i < length cs
      then (let (c, h') = charge_release (cs ! i) h in (True, cs[i := c], h'))
      else (False, cs, h))"

definition holds :: "nat \<Rightarrow> charge \<Rightarrow> bool" where
  "holds l c = (charged c \<and> l \<in> set (ledgers c))"

definition outstanding :: "nat \<Rightarrow> charge list \<Rightarrow> nat" where
  "outstanding l cs = length (filter (holds l) cs)"

definition ledger_inv :: "(nat \<Rightarrow> int) \<Rightarrow> charges \<Rightarrow> bool" where
  "ledger_inv limit s = (\<forall>l. used (snd s l) = int (outstanding l (fst s))
     \<and> used (snd s l) \<le> max 0 (limit l) \<and> ledger_limit (snd s l) = limit l)"

lemma outstanding_update:
  "i < length cs \<Longrightarrow>
   int (outstanding l (cs[i := c])) =
     int (outstanding l cs) - (if holds l (cs ! i) then 1 else 0) + (if holds l c then 1 else 0)"
proof (induction cs arbitrary: i)
  case (Cons a cs)
  show ?case
  proof (cases i)
    case (Suc k)
    with Cons.prems have "k < length cs" by simp
    from Cons.IH [OF this] Suc show ?thesis by (simp add: outstanding_def split: if_splits)
  qed (simp add: outstanding_def)
qed simp

lemma add_used_simps [simp]:
  "used (add_used k ls h l) = used (h l) + (if l \<in> set ls then k else 0)"
  "ledger_limit (add_used k ls h l) = ledger_limit (h l)"
  by (auto simp: add_used_def)

interpretation charges: component charge_exec "ledger_inv limit" for limit
proof
  fix s :: charges and op
  assume inv: "ledger_inv limit s"
  obtain cs h where s: "s = (cs, h)" by fastforce
  show "ledger_inv limit (snd (charge_exec s op))"
  proof (cases op)
    case (ChargeReserve i ls)
    show ?thesis
    proof (cases "i < length cs \<and> \<not> charged (cs ! i)
        \<and> \<not> list_ex (\<lambda>l. ledger_limit (h l) \<le> used (h l)) (uniq ls)")
      case True
      let ?c = "\<lparr>ledgers = uniq ls, charged = True\<rparr>"
      have st: "snd (charge_exec s op) = (cs[i := ?c], add_used 1 (uniq ls) h)"
        using True by (simp add: s ChargeReserve charge_reserve_def Let_def)
      have "\<not> holds l (cs ! i)" "holds l ?c = (l \<in> set ls)" for l
        using True by (simp_all add: holds_def)
      note this [simp]
      have below: "l \<in> set ls \<Longrightarrow> used (h l) < limit l" for l
        using True inv by (auto simp: list_ex_iff ledger_inv_def s not_le)
      show ?thesis
        unfolding st ledger_inv_def fst_conv snd_conv
      proof (intro allI conjI)
        fix l
        note old = inv [unfolded ledger_inv_def s fst_conv snd_conv, rule_format, of l]
        show "used (add_used 1 (uniq ls) h l) = int (outstanding l (cs[i := ?c]))"
          using old True by (simp add: outstanding_update)
        show "used (add_used 1 (uniq ls) h l) \<le> max 0 (limit l)"
          using old below [of l] by auto
        show "ledger_limit (add_used 1 (uniq ls) h l) = limit l"
          using old by simp
      qed
    next
      case False
      then have "snd (charge_exec s op) = s"
        by (auto simp: s ChargeReserve charge_reserve_def)
      with inv show ?thesis by simp
    qed
  next
    case (ChargeRelease i)
    show ?thesis
    proof (cases "i < length cs \<and> charged (cs ! i)")
      case True
      then have st: "snd (charge_exec s op) =
          (cs[i := (cs ! i)\<lparr>charged := False\<rparr>], add_used (-1) (ledgers (cs ! i)) h)"
        by (simp add: s ChargeRelease charge_release_def)
      have "holds l (cs ! i) = (l \<in> set (ledgers (cs ! i)))" "\<not> holds l ((cs ! i)\<lparr>charged := False\<rparr>)" for l
        using True by (simp_all add: holds_def)
      note this [simp]
      show ?thesis
        unfolding st ledger_inv_def fst_conv snd_conv
      proof (intro allI conjI)
        fix l
        note old = inv [unfolded ledger_inv_def s fst_conv snd_conv, rule_format, of l]
        show "used (add_used (-1) (ledgers (cs ! i)) h l)
            = int (outstanding l (cs[i := (cs ! i)\<lparr>charged := False\<rparr>]))"
          using old True by (simp add: outstanding_update)
        show "used (add_used (-1) (ledgers (cs ! i)) h l) \<le> max 0 (limit l)"
          using old by auto
        show "ledger_limit (add_used (-1) (ledgers (cs ! i)) h l) = limit l"
          using old by simp
      qed
    next
      case False
      then have "snd (charge_exec s op) = s"
        by (auto simp: s ChargeRelease charge_release_def)
      with inv show ?thesis by simp
    qed
  qed
qed

subsection \<open>Properties\<close>

fun admitted_tools :: "tool_budget \<Rightarrow> budget_op list \<Rightarrow> string list" where
  "admitted_tools b [] = []"
| "admitted_tools b (op # ops) =
     (case op of Reserve t \<Rightarrow> if fst (budget_exec b op) then [t] else [] | _ \<Rightarrow> [])
     @ admitted_tools (snd (budget_exec b op)) ops"

lemma admitted_tools_total: "length (total.admitted b ops) = length (admitted_tools b ops)"
  by (induction b ops rule: admitted_tools.induct) (auto split: budget_op.splits)

lemma admitted_tools_per_tool: "length (per_tool.admitted t b ops) = count_list (admitted_tools b ops) t"
  by (induction b ops rule: admitted_tools.induct) (auto split: budget_op.splits)

lemma new_budget_simps [simp]:
  "tool_call_limits (new_budget lims mx md e) = lims" "max_tool_calls (new_budget lims mx md e) = mx"
  "tool_call_counts (new_budget lims mx md e) t = 0" "tool_call_total (new_budget lims mx md e) = 0"
  by (simp_all add: new_budget_def)

text \<open>C11. Whatever calls a run makes, and however reports and search results are interleaved
  with them, the run admits no more calls than its total budget and no more calls of a tool
  than the limit of that tool.\<close>

theorem budget_caps:
  "(let A = admitted_tools (new_budget lims mx md empties) ops
    in (case mx of None \<Rightarrow> True | Some m \<Rightarrow> int (length A) \<le> max m 0)
       \<and> (case map_of lims t of None \<Rightarrow> True | Some l \<Rightarrow> int (count_list A t) \<le> max l 0))"
  using total.admitted_within_cap [of "new_budget lims mx md empties" _ ops]
    per_tool.admitted_within_cap [of "new_budget lims mx md empties" t _ ops]
  by (auto simp: admitted_tools_total admitted_tools_per_tool Let_def split: option.splits)

text \<open>The budgets refuse no call for which there is room: of \<open>n\<close> calls of an ordinary
  tool in a row, a new run admits as many as its two limits allow, all \<open>n\<close> if it has none.\<close>

theorem budget_admits_what_fits:
  assumes "t \<noteq> SEARCH_FILES" "t \<noteq> ''sub_agent''"
  shows "length (admitted_tools (new_budget lims mx md empties) (replicate n (Reserve t))) =
    min n (min (case mx of None \<Rightarrow> n | Some m \<Rightarrow> nat m)
               (case map_of lims t of None \<Rightarrow> n | Some l \<Rightarrow> nat l))"
  using admitted_replicate [OF assms, of "new_budget lims mx md empties" n]
  by (simp add: admitted_tools_total room_def cong: option.case_cong)

theorem budget_admits_what_fits_witness:
  "length (admitted_tools (new_budget [(''web_search'', 3)] (Some 10) None 4)
     (replicate 5 (Reserve ''web_search''))) = 3"
  using budget_admits_what_fits
    [of "''web_search''" "[(''web_search'', 3)]" "Some 10" None 4 5]
  by (simp add: SEARCH_FILES_def)

text \<open>Every wrap-up notice (a tool's limit, the delegated limit, the empty searches, the
  total) is handed to the model at most once in a run, whatever calls, child calls and
  requests the run consists of.\<close>

fun notices_given :: "tool_run \<Rightarrow> run_op list \<Rightarrow> notice list" where
  "notices_given r [] = []"
| "notices_given r (op # ops) = fst (run_exec r op) @ notices_given (snd (run_exec r op)) ops"

lemma notices_given_eq: "notices_given r ops = notices.given r ops"
  by (induction r ops rule: notices_given.induct) simp_all

theorem budget_notices_once:
  assumes "distinct (map fst lims)"
  shows "distinct (notices_given (configure_run lims mx md empties) ops)"
  unfolding notices_given_eq
  using assms by (intro notices.given_distinct) (simp add: run_ok_def configure_run_def new_budget_def)

theorem budget_notices_once_witness:
  "(let A = notices_given (configure_run [(''web_search'', 1)] (Some 1) None 2)
       [Call (Reserve ''web_search''), Guidance, Guidance]
    in distinct A \<and> length A = 2)"
proof -
  have "distinct (map fst [(''web_search'', 1 :: int)])" by simp
  note d = budget_notices_once [OF this, of "Some 1" None 2
      "[Call (Reserve ''web_search''), Guidance, Guidance]"]
  have "length (notices_given (configure_run [(''web_search'', 1)] (Some 1) None 2)
       [Call (Reserve ''web_search''), Guidance, Guidance]) = 2" by code_simp
  with d show ?thesis by (simp only: Let_def simp_thms)
qed


text \<open>After any history of reservations and releases by any number of calls, the use of
  every ledger is the number of the outstanding charges that hold it and stays within its
  limit: no unit is lost or released twice, and no call overdraws an ancestor's budget.\<close>

fun run_charges :: "charges \<Rightarrow> charge_op list \<Rightarrow> charges" where
  "run_charges s [] = s"
| "run_charges s (op # ops) = run_charges (snd (charge_exec s op)) ops"

theorem ledgers_accounted:
  "(let (cs, h) = run_charges (replicate n \<lparr>ledgers = [], charged = False\<rparr>,
                     \<lambda>l. \<lparr>ledger_limit = limit l, used = 0\<rparr>) ops
    in used (h l) = int (length (filter (\<lambda>c. charged c \<and> l \<in> set (ledgers c)) cs))
       \<and> used (h l) \<le> max 0 (limit l))"
proof -
  let ?s = "(replicate n \<lparr>ledgers = [], charged = False\<rparr>, \<lambda>l. \<lparr>ledger_limit = limit l, used = 0\<rparr>)"
  have "ledger_inv limit ?s" by (simp add: ledger_inv_def outstanding_def holds_def)
  then have "ledger_inv limit (charges.run ?s ops)" by (rule charges.run_inv)
  moreover have "charges.run s ops = run_charges s ops" for s
    by (induction s ops rule: run_charges.induct) simp_all
  ultimately have "ledger_inv limit (run_charges ?s ops)" by simp
  then show ?thesis
    by (cases "run_charges ?s ops") (auto simp: ledger_inv_def outstanding_def holds_def [abs_def] dest: spec [of _ l])
qed

end
