(* ===== verification/PermissionsCorrect.thy ===== *)
theory PermissionsCorrect
  imports Permissions
begin

section \<open>Permissions: containment, approval and the lifetime of grants\<close>

text \<open>
  The laws about the file system (\<open>fs_ok\<close>) are the documented behaviour of \<open>Path.resolve\<close>: a
  resolved path is absolute and resolves to itself, and so does its parent; a name that does
  not exist (and is no dangling link) is appended to the resolution of its parent. The
  concrete file system \<open>tree_fs\<close>, a finite set of directories and files without links,
  satisfies them.
\<close>

subsection \<open>Printing and parsing paths\<close>

lemma split_on_nonempty [simp]: "split_on c s \<noteq> []"
  by (induction s) (auto split: list.splits)

lemma split_on_parts: "p \<in> set (split_on c s) \<Longrightarrow> c \<notin> set p"
proof (induction s arbitrary: p)
  case (Cons x xs)
  then show ?case by (cases "split_on c xs") (auto split: if_splits)
qed simp

lemma split_on_word: "c \<notin> set w \<Longrightarrow> split_on c w = [w]"
  by (induction w) auto

lemma split_on_append: "c \<notin> set w \<Longrightarrow> split_on c (w @ c # s) = w # split_on c s"
  by (induction w) auto

lemma split_on_intercalate:
  "ws \<noteq> [] \<Longrightarrow> list_all (\<lambda>w. c \<notin> set w) ws \<Longrightarrow> split_on c (intercalate [c] ws) = ws"
  by (induction "[c]" ws rule: intercalate.induct) (auto simp: split_on_word split_on_append)

definition wf_path :: "lpath \<Rightarrow> bool" where
  "wf_path p = (root p \<in> {[], [slash], [slash, slash]}
     \<and> list_all (\<lambda>w. w \<noteq> [] \<and> w \<noteq> ''.'' \<and> slash \<notin> set w) (parts p))"

lemma wf_parse: "wf_path (parse_path s)"
  by (auto simp: wf_path_def parse_path_def Let_def list_all_iff dest: split_on_parts)

lemma intercalate_hd:
  "ws \<noteq> [] \<Longrightarrow> hd ws \<noteq> [] \<Longrightarrow> intercalate sep ws \<noteq> [] \<and> hd (intercalate sep ws) = hd (hd ws)"
  by (induction sep ws rule: intercalate.induct) auto

lemma parse_str: "wf_path p \<Longrightarrow> parse_path (path_str p) = p"
proof -
  assume wf: "wf_path p"
  let ?body = "intercalate [slash] (parts p)"
  have lead: "takeWhile (\<lambda>c. c = slash) ?body = []"
  proof (cases "parts p")
    case (Cons w ws)
    with wf have w: "w \<noteq> []" "hd w \<noteq> slash" by (auto simp: wf_path_def dest: hd_in_set)
    with Cons intercalate_hd [of "parts p" "[slash]"] show ?thesis
      by (cases ?body) auto
  qed simp
  have body: "filter (\<lambda>w. w \<noteq> [] \<and> w \<noteq> ''.'') (split_on slash ?body) = parts p"
  proof (cases "parts p = []")
    case False
    with wf have "split_on slash ?body = parts p"
      by (intro split_on_intercalate) (auto simp: wf_path_def list_all_iff)
    with wf show ?thesis by (auto simp: wf_path_def list_all_iff intro: filter_True)
  qed simp
  show ?thesis
  proof (cases "root p = [] \<and> parts p = []")
    case True
    then have "p = \<lparr>root = [], parts = []\<rparr>" by (cases p) simp
    then show ?thesis by (simp add: path_str_def parse_path_def slash_def)
  next
    case False
    then have "path_str p = root p @ ?body" by (simp add: path_str_def)
    with wf lead body show ?thesis
      by (cases p) (auto simp: parse_path_def Let_def wf_path_def)
  qed
qed

lemma parse_str_parse [simp]: "parse_path (path_str (parse_path s)) = parse_path s"
  by (intro parse_str wf_parse)

subsection \<open>The file system\<close>

definition DOTS :: string where "DOTS = ''..''"

definition fs_ok :: "fs \<Rightarrow> bool" where
  "fs_ok F =
     ((\<forall>p q. fs_resolve F p = Some q \<longrightarrow>
         root q = [slash] \<and> fs_resolve F q = Some q \<and> fs_resolve F (parent q) = Some (parent q))
      \<and> (\<forall>p n. n \<noteq> [] \<and> n \<noteq> DOTS \<and> \<not> fs_exists F (child p n) \<longrightarrow>
         fs_resolve F (child p n) = map_option (\<lambda>q. child q n) (fs_resolve F p)))"

definition plain :: "lpath \<Rightarrow> bool" where
  "plain p = list_all (\<lambda>w. w \<noteq> [] \<and> w \<noteq> DOTS) (parts p)"

lemma foldl_child_snoc: "map_option (\<lambda>q. foldl child q (ns @ [n])) x = map_option (\<lambda>q. child q n) (map_option (\<lambda>q. foldl child q ns) x)"
  by (cases x) auto

lemma resolve_missing:
  assumes ok: "fs_ok F"
  shows "list_all (\<lambda>w. w \<noteq> [] \<and> w \<noteq> DOTS) below \<Longrightarrow>
    (\<forall>k < length below. \<not> fs_exists F \<lparr>root = r, parts = ps @ take (Suc k) below\<rparr>) \<Longrightarrow>
    fs_resolve F \<lparr>root = r, parts = ps @ below\<rparr> =
      map_option (\<lambda>q. foldl child q below) (fs_resolve F \<lparr>root = r, parts = ps\<rparr>)"
proof (induction below rule: rev_induct)
  case Nil
  show ?case by (cases "fs_resolve F \<lparr>root = r, parts = ps\<rparr>") auto
next
  case (snoc n ns)
  let ?p = "\<lparr>root = r, parts = ps @ ns\<rparr>"
  have n: "n \<noteq> []" "n \<noteq> DOTS" using snoc.prems(1) by auto
  have c: "\<lparr>root = r, parts = ps @ ns @ [n]\<rparr> = child ?p n" using n by (simp add: child_def)
  have "\<not> fs_exists F (child ?p n)"
    using snoc.prems(2) [rule_format, of "length ns"] by (simp add: c [symmetric])
  with ok n have "fs_resolve F (child ?p n) = map_option (\<lambda>q. child q n) (fs_resolve F ?p)"
    by (auto simp: fs_ok_def)
  moreover have "\<forall>k < length ns. \<not> fs_exists F \<lparr>root = r, parts = ps @ take (Suc k) ns\<rparr>"
  proof (intro allI impI)
    fix k assume k: "k < length ns"
    with snoc.prems(2) [rule_format, of k]
    show "\<not> fs_exists F \<lparr>root = r, parts = ps @ take (Suc k) ns\<rparr>" by simp
  qed
  ultimately show ?case
    using snoc.IH snoc.prems(1) by (simp only: c foldl_child_snoc) simp
qed

lemma existing_ancestor_resolve:
  assumes ok: "fs_ok F"
  shows "list_all (\<lambda>w. w \<noteq> [] \<and> w \<noteq> DOTS) (rev up @ below) \<Longrightarrow>
    (\<forall>k < length below. \<not> fs_exists F \<lparr>root = r, parts = rev up @ take (Suc k) below\<rparr>) \<Longrightarrow>
    existing_ancestor F r up below = (c, bl) \<Longrightarrow>
    fs_resolve F \<lparr>root = r, parts = rev up @ below\<rparr> =
      map_option (\<lambda>q. foldl child q bl) (fs_resolve F c)"
proof (induction up arbitrary: below)
  case Nil
  then show ?case using resolve_missing [OF ok, of below r "[]"] by simp
next
  case (Cons n up)
  show ?case
  proof (cases "fs_exists F \<lparr>root = r, parts = rev (n # up)\<rparr>")
    case True
    with Cons.prems have "c = \<lparr>root = r, parts = rev (n # up)\<rparr>" "bl = below" by auto
    with resolve_missing [OF ok, of below r "rev (n # up)"] Cons.prems show ?thesis by simp
  next
    case False
    have "\<forall>k < length (n # below). \<not> fs_exists F \<lparr>root = r, parts = rev up @ take (Suc k) (n # below)\<rparr>"
    proof (intro allI impI)
      fix k assume "k < length (n # below)"
      then show "\<not> fs_exists F \<lparr>root = r, parts = rev up @ take (Suc k) (n # below)\<rparr>"
        using False Cons.prems(2) by (cases k) auto
    qed
    with Cons.IH [of "n # below"] Cons.prems False show ?thesis by simp
  qed
qed

text \<open>For a path without \<open>..\<close> the check looks at the place the path really names.\<close>

lemma resolve_for_check_true:
  assumes "fs_ok F" "plain p"
  shows "resolve_for_check F p = fs_resolve F p"
proof (cases "fs_exists F p")
  case False
  obtain c bl where e: "existing_ancestor F (root p) (rev (parts p)) [] = (c, bl)" by fastforce
  have "fs_resolve F p = map_option (\<lambda>q. foldl child q bl) (fs_resolve F c)"
    using existing_ancestor_resolve [OF assms(1) _ _ e] assms(2) by (cases p) (simp add: plain_def)
  with False e show ?thesis by (simp add: resolve_for_check_def)
qed (simp add: resolve_for_check_def)

lemma resolve_idem:
  "fs_ok F \<Longrightarrow> fs_resolve F p = Some q \<Longrightarrow> fs_resolve F q = Some q"
  "fs_ok F \<Longrightarrow> fs_resolve F p = Some q \<Longrightarrow> fs_resolve F (parent q) = Some (parent q)"
  "fs_ok F \<Longrightarrow> fs_resolve F p = Some q \<Longrightarrow> root q = [slash]"
  by (auto simp: fs_ok_def)

subsection \<open>What a write may reach\<close>

definition granted :: "grant_store option \<Rightarrow> lpath \<Rightarrow> bool" where
  "granted g q = (case g of Some gs \<Rightarrow> has_filesystem_dir_grant gs q | None \<Rightarrow> False)"

definition scope_roots :: "perm_engine \<Rightarrow> pyval \<Rightarrow> lpath list" where
  "scope_roots e scope =
     (if scope = PStr ''user_home'' then home_dir e # allowed_dirs e
      else if scope = PStr ''session_workspace'' \<or> scope = PStr ''custom''
      then session_root e # allowed_dirs e else [])"

definition may_write :: "fs \<Rightarrow> perm_engine \<Rightarrow> grant_store option \<Rightarrow> lpath \<Rightarrow> bool" where
  "may_write F e g q =
     (granted g q \<or> is_inside q (workspace_dir e) \<or> inside_opt q (box_agent_dir e) \<or> is_scratch F q
      \<or> list_ex (is_inside q) (scope_roots e (effective_scope g (filesystem_scope (policy e)))))"

lemma allowed_write_scope:
  "path_allowed_by_scope F e q scope Write tool =
     (is_inside q (workspace_dir e) \<or> inside_opt q (box_agent_dir e) \<or> is_scratch F q
      \<or> list_ex (is_inside q) (scope_roots e scope))"
  by (auto simp: path_allowed_by_scope_def scope_roots_def)

lemma write_scope_read:
  "path_allowed_by_scope F e q scope Write tool \<Longrightarrow> path_allowed_by_scope F e q scope Read other"
  by (auto simp: path_allowed_by_scope_def split: if_splits)

lemma decision_simps [simp]:
  "allowed allow" "\<not> allowed (deny m r)" "permission_request (deny m r) = r" "allow \<noteq> deny m r" "deny m r \<noteq> allow"
  by (simp_all add: allow_def deny_def)

definition guarded :: "fs \<Rightarrow> perm_engine \<Rightarrow> lpath \<Rightarrow> operation \<Rightarrow> string option option" where
  "guarded F e q operation = (case builtin_skills_dir e of
     Some d \<Rightarrow> if operation = Write then builtin_skill_write_error F q d else Some None
   | None \<Rightarrow> Some None)"

text \<open>The three ways a file-system check ends.\<close>

lemma check_filesystem_cases:
  assumes "check_filesystem F e g p operation tool = Some d"
  obtains (guard) q m where "resolve_for_check F p = Some q" "guarded F e q operation = Some (Some m)"
      "d = deny m None"
  | (allow) q where "resolve_for_check F p = Some q" "guarded F e q operation = Some None" "d = allow"
      "granted g q \<or> path_allowed_by_scope F e q (effective_scope g (filesystem_scope (policy e))) operation tool"
  | (denied) q m r where "resolve_for_check F p = Some q" "guarded F e q operation = Some None" "d = deny m r"
      "\<not> granted g q"
      "\<not> path_allowed_by_scope F e q (effective_scope g (filesystem_scope (policy e))) operation tool"
      "r = None \<or> (\<exists>esc. r = Some (filesystem_request (effective_scope g (filesystem_scope (policy e))) esc p))"
proof -
  from assms obtain q err where q: "resolve_for_check F p = Some q" "guarded F e q operation = Some err"
    by (auto simp: check_filesystem_def guarded_def bind_eq_Some_conv)
  let ?s = "effective_scope g (filesystem_scope (policy e))"
  show thesis
  proof (cases err)
    case (Some m)
    with q assms show thesis
      by (intro guard [of q m]) (simp_all add: check_filesystem_def guarded_def)
  next
    case None
    show thesis
    proof (cases "granted g q \<or> path_allowed_by_scope F e q ?s operation tool")
      case True
      with None q assms have "d = allow"
        by (auto simp: check_filesystem_def guarded_def granted_def Let_def split: if_splits)
      with True None q show thesis by (intro allow [of q]) auto
    next
      case False
      with None q assms obtain m r where "d = deny m r"
        "r = None \<or> (\<exists>esc. r = Some (filesystem_request ?s esc p))"
        by (auto simp: check_filesystem_def guarded_def granted_def Let_def split: option.splits)
      with False None q show thesis by (intro denied [of q m r]) auto
    qed
  qed
qed

lemma check_allow:
  assumes "resolve_for_check F p = Some q" "guarded F e q operation = Some None"
    "granted g q \<or> path_allowed_by_scope F e q (effective_scope g (filesystem_scope (policy e))) operation tool"
  shows "check_filesystem F e g p operation tool = Some allow"
  using assms by (auto simp: check_filesystem_def guarded_def granted_def Let_def)

lemma inside_refl [simp]: "is_inside q q"
  by (simp add: is_inside_def)

lemma inside_parent [simp]: "is_inside q (parent q)"
proof -
  have "take (length (butlast ps)) ps = butlast ps" for ps :: "string list"
    by (simp add: butlast_conv_take)
  moreover have "take (Suc (length (butlast ps))) (r # ps) = r # butlast ps" for r and ps :: "string list"
    by (simp add: butlast_conv_take)
  ultimately show ?thesis
    by (auto simp: is_inside_def parent_def all_parts_def simp del: length_butlast)
qed

subsection \<open>A concrete file system\<close>

definition norm_parts :: "string list \<Rightarrow> string list" where
  "norm_parts ws = foldl (\<lambda>acc w. if w = DOTS then butlast acc else acc @ [w]) [] ws"

text \<open>Directories and files given by the parts of their absolute paths, no links; the working
  directory is the root.\<close>

definition tree_fs :: "string list list \<Rightarrow> string list list \<Rightarrow> fs" where
  "tree_fs dirs files =
     \<lparr>fs_exists = (\<lambda>p. list_all (\<lambda>k. norm_parts (take k (parts p)) \<in> set dirs) [0..<length (parts p)]
        \<and> norm_parts (parts p) \<in> set dirs \<union> set files),
      fs_is_dir = (\<lambda>p. norm_parts (parts p) \<in> set dirs),
      fs_resolve = (\<lambda>p. Some \<lparr>root = [slash], parts = norm_parts (parts p)\<rparr>),
      fs_user_home = (\<lambda>_. Some \<lparr>root = [slash], parts = [''home'', ''u'']\<rparr>)\<rparr>"

lemma norm_snoc: "norm_parts (ws @ [w]) = (if w = DOTS then butlast (norm_parts ws) else norm_parts ws @ [w])"
  by (simp add: norm_parts_def)

lemma norm_no_dots: "DOTS \<notin> set (norm_parts ws)"
  by (induction ws rule: rev_induct) (auto simp: norm_parts_def dest: in_set_butlastD)

lemma norm_id: "DOTS \<notin> set ws \<Longrightarrow> norm_parts ws = ws"
  by (induction ws rule: rev_induct) (auto simp: norm_parts_def)

lemma tree_fs_ok: "fs_ok (tree_fs dirs files)"
proof -
  have "norm_parts (butlast (norm_parts ws)) = butlast (norm_parts ws)" for ws
    using norm_no_dots [of ws] by (intro norm_id) (auto dest: in_set_butlastD)
  then show ?thesis
    by (auto simp: fs_ok_def tree_fs_def norm_id norm_no_dots parent_def child_def norm_snoc)
qed

definition sample_fs :: fs where
  "sample_fs = tree_fs [[], [''w''], [''etc''], [''home''], [''home'', ''u''], [''home'', ''u'', ''doc'']]
     [[''home'', ''u'', ''doc'', ''a''], [''etc'', ''passwd'']]"

definition sample_env :: env where
  "sample_env = \<lparr>env_home = parse_path ''/home/u'', env_state_dir = Some (parse_path ''/home/u/.box-agent''),
     env_skills_dir = Some (parse_path ''/usr/lib/box/skills''), env_program_dirs = []\<rparr>"

definition sample_policy :: capability_policy where
  "sample_policy = default_policy\<lparr>session_workspace_root := ''/w''\<rparr>"

definition sample_engine :: perm_engine where
  "sample_engine = the (mk_engine sample_fs sample_env sample_policy (parse_path ''/w''))"

subsection \<open>Properties\<close>

lemma mk_engine_skills:
  "fs_ok F \<Longrightarrow> mk_engine F E p ws = Some e \<Longrightarrow> builtin_skills_dir e = Some d \<Longrightarrow> fs_resolve F d = Some d"
  by (auto simp: mk_engine_def bind_eq_Some_conv resolve_idem)

lemma guarded_write:
  assumes ok: "fs_ok F" and e: "mk_engine F E p ws = Some e" and q: "fs_resolve F p' = Some q"
    and g: "guarded F e q Write = Some None"
  shows "\<not> inside_opt q (builtin_skills_dir e)"
proof (cases "builtin_skills_dir e")
  case (Some d)
  with g mk_engine_skills [OF ok e Some] resolve_idem(1) [OF ok q] show ?thesis
    by (auto simp: guarded_def builtin_skill_write_error_def inside_opt_def split: if_splits)
qed (simp add: inside_opt_def)



lemma effective_scope_dir [simp]:
  "effective_scope (Some (g\<lparr>session_dirs := S\<rparr>)) sc = effective_scope (Some g) sc"
  "effective_scope (Some (g\<lparr>prompt_dirs := S\<rparr>)) sc = effective_scope (Some g) sc"
  by (simp_all add: effective_scope_def has_grant_def)

lemma str_field_request [simp]:
  "str_field (filesystem_request sc esc p) ''scope'' = ''filesystem''"
  "str_field (filesystem_request sc esc p) ''path'' = path_str p"
  "supported (filesystem_request sc esc p) k"
  by (simp_all add: str_field_def filesystem_request_def dget_def supported_def dget_or_def py_or_def)

lemma memory_request_grant:
  assumes "k = ''prompt'' \<or> k = ''session''"
  shows "apply_permission_grant F g memory_request k = (True, add_grant g ''memory'' ''openclaw_import'' k)"
proof -
  have "str_field memory_request ''scope'' = ''memory''"
    "str_field memory_request ''requested_scope'' = ''openclaw_import''"
    "supported memory_request k"
    by (simp_all add: str_field_def memory_request_def dget_def supported_def dget_or_def py_or_def)
  with assms show ?thesis by (auto simp: apply_permission_grant_def)
qed

lemma memory_check:
  "permission_request (check_memory_openclaw e (Some g)) = Some req \<Longrightarrow> req = memory_request"
  "check_memory_openclaw e (Some (add_grant g ''memory'' ''openclaw_import'' k)) = allow"
  by (auto simp: check_memory_openclaw_def has_grant_def add_grant_def allow_def split: if_splits)

lemma expanduser_absolute: "root p \<noteq> [] \<Longrightarrow> expanduser F p = Some p"
  by (simp add: expanduser_def)

lemma add_dir_grants:
  assumes ok: "fs_ok F" and q: "fs_resolve F p = Some q"
  shows "\<exists>g'. add_filesystem_dir_grant F g (if fs_is_dir F q then q else parent q) k = Some g'
    \<and> granted (Some g') q"
proof -
  let ?d = "if fs_is_dir F q then q else parent q"
  note r = resolve_idem [OF ok q]
  have "expand_resolve F ?d = Some ?d"
    using r by (auto simp: expand_resolve_def expanduser_absolute parent_def)
  moreover have "is_inside q ?d" by simp
  ultimately show ?thesis
    by (auto simp: add_filesystem_dir_grant_def granted_def has_filesystem_dir_grant_def)
qed



text \<open>Reading needs no more than writing: a path that some tool may write, every tool may
  read.\<close>

theorem perm_read_covers_write:
  assumes "check F e g ''filesystem.write'' s tool = Some d" "allowed d"
  shows "check F e g ''filesystem.read'' s other = Some allow"
proof -
  have "check_filesystem F e g (parse_path s) Write tool = Some d" using assms(1) by (simp add: check_def)
  then show ?thesis
  proof (cases rule: check_filesystem_cases)
    case (allow q)
    have guard: "guarded F e q Read = Some None" by (auto simp: guarded_def split: option.splits)
    have "granted g q \<or> path_allowed_by_scope F e q (effective_scope g (filesystem_scope (policy e))) Read other"
      using allow(4) write_scope_read by blast
    with check_allow [OF allow(1) guard] show ?thesis by (simp add: check_def)
  qed (use assms(2) in auto)
qed

theorem perm_read_covers_write_witness:
  "check sample_fs sample_engine None ''filesystem.read'' ''/w/new/a.txt'' (Some ''bash'') = Some allow"
proof -
  have "check sample_fs sample_engine None ''filesystem.write'' ''/w/new/a.txt'' None = Some allow"
    by code_simp
  from perm_read_covers_write [OF this] show ?thesis by simp
qed

definition grants_le :: "grant_store \<Rightarrow> grant_store \<Rightarrow> bool" where
  "grants_le g g' = (session_grants g \<subseteq> session_grants g' \<and> prompt_grants g \<subseteq> prompt_grants g'
     \<and> session_dirs g \<subseteq> session_dirs g' \<and> prompt_dirs g \<subseteq> prompt_dirs g')"

lemma add_dir_le: "add_filesystem_dir_grant F g d k = Some g' \<Longrightarrow> grants_le g g'"
  by (auto simp: add_filesystem_dir_grant_def grants_le_def)

lemma apply_grant_le: "grants_le g (snd (apply_permission_grant F g req k))"
proof -
  have refl: "grants_le g g" by (simp add: grants_le_def)
  have add: "grants_le g (add_grant g a b k)" for a b by (auto simp: grants_le_def add_grant_def)
  show ?thesis
    using refl add by (auto simp: apply_permission_grant_def Let_def dest: add_dir_le split: option.splits)
qed

text \<open>An approval never takes access away, unless it elevates the session workspace to the
  user's home.\<close>

lemma perm_approval_monotone:
  assumes c: "check F e (Some g) capability s tool = Some d" "allowed d"
    and g': "g' = snd (apply_permission_grant F g req k)"
    and same: "has_grant g' ''filesystem'' ''user_home'' = has_grant g ''filesystem'' ''user_home''"
  shows "check F e (Some g') capability s tool = Some allow"
proof -
  have le: "grants_le g g'" unfolding g' by (rule apply_grant_le)
  have scope: "effective_scope (Some g') sc = effective_scope (Some g) sc" for sc
    by (simp add: effective_scope_def same)
  have fs: "check_filesystem F e (Some g') p operation tool = Some allow"
    if "check_filesystem F e (Some g) p operation tool = Some d" for p operation
    using that
  proof (cases rule: check_filesystem_cases)
    case (allow q)
    then have "granted (Some g') q
        \<or> path_allowed_by_scope F e q (effective_scope (Some g') (filesystem_scope (policy e))) operation tool"
      using le unfolding scope by (auto simp: granted_def has_filesystem_dir_grant_def grants_le_def)
    with allow show ?thesis by (intro check_allow)
  qed (use c in auto)
  show ?thesis
    using c fs le
    by (auto simp: check_def check_memory_openclaw_def has_grant_def grants_le_def split: if_splits)
qed

fun apply_all :: "fs \<Rightarrow> grant_store \<Rightarrow> (pydict \<times> string) list \<Rightarrow> grant_store" where
  "apply_all F g [] = g"
| "apply_all F g ((req, k) # ops) = apply_all F (snd (apply_permission_grant F g req k)) ops"

lemma clear_eq_iff:
  "clear_prompt_grants g = clear_prompt_grants g' \<longleftrightarrow>
   session_grants g = session_grants g' \<and> session_dirs g = session_dirs g'"
  by (cases g; cases g') (simp add: clear_prompt_grants_def)

lemma apply_session_part:
  assumes "clear_prompt_grants g = clear_prompt_grants g'"
  shows "clear_prompt_grants (snd (apply_permission_grant F g req k)) =
         clear_prompt_grants (snd (apply_permission_grant F g' req k))"
  using assms
  by (simp add: clear_eq_iff apply_permission_grant_def add_filesystem_dir_grant_def add_grant_def Let_def
      split: option.splits)

lemma apply_prompt_part:
  "k \<noteq> ''session'' \<Longrightarrow> clear_prompt_grants (snd (apply_permission_grant F g req k)) = clear_prompt_grants g"
  by (auto simp: clear_eq_iff apply_permission_grant_def add_filesystem_dir_grant_def add_grant_def Let_def
      split: option.splits)

lemma apply_all_cong:
  "clear_prompt_grants g = clear_prompt_grants g' \<Longrightarrow>
   clear_prompt_grants (apply_all F g ops) = clear_prompt_grants (apply_all F g' ops)"
proof (induction F g ops arbitrary: g' rule: apply_all.induct)
  case (2 F g req k ops)
  from "2.IH" [OF apply_session_part [OF "2.prems"]] show ?case by simp
qed simp


subsection \<open>Where the check and the file system disagree\<close>

text \<open>A path with \<open>..\<close> after a name that does not exist is allowed as lying in the workspace,
  although it names a file outside of it.\<close>

lemma perm_dotdot_escapes:
  "check sample_fs sample_engine None ''filesystem.write'' ''/w/new/../../etc/passwd'' None = Some allow"
  "fs_resolve sample_fs (parse_path ''/w/new/../../etc/passwd'') = Some (parse_path ''/etc/passwd'')"
  "may_write sample_fs sample_engine None (parse_path ''/etc/passwd'') = False"
  by code_simp+

text \<open>A dangling link in the workspace is checked as a file of the workspace, although a write
  through it creates its target.\<close>

definition link_fs :: fs where
  "link_fs = sample_fs\<lparr>fs_resolve := (\<lambda>p. if parts p = [''w'', ''link''] then Some (parse_path ''/etc/new'')
     else fs_resolve sample_fs p)\<rparr>"

lemma perm_dangling_link_escapes:
  "check link_fs sample_engine None ''filesystem.write'' ''/w/link'' None = Some allow"
  "fs_resolve link_fs (parse_path ''/w/link'') = Some (parse_path ''/etc/new'')"
  "may_write link_fs sample_engine None (parse_path ''/etc/new'') = False"
  by code_simp+

text \<open>The legacy elevation replaces the session root by the home directory instead of adding
  it, so that it can take access away.\<close>

definition away_engine :: perm_engine where
  "away_engine = the (mk_engine sample_fs sample_env (default_policy\<lparr>session_workspace_root := ''/etc''\<rparr>)
     (parse_path ''/w''))"

lemma perm_elevation_can_revoke:
  "check sample_fs away_engine (Some new_grants) ''filesystem.read'' ''/etc/passwd'' None = Some allow"
  "map_option allowed (check sample_fs away_engine
     (Some (add_grant new_grants ''filesystem'' ''user_home'' ''session'')) ''filesystem.read'' ''/etc/passwd'' None)
   = Some False"
  by code_simp+

end
