(* ===== verification/RunControl.thy ===== *)
theory RunControl
  imports PermissionsCorrect
begin

section \<open>Run control and the permission broker (box_agent/run\_control.py)\<close>

text \<open>
  \<open>RunControl\<close> is the cooperative gate of a run: its state, the resume gate and the
  cancellation flag. A \<open>checkpoint\<close> that finds the gate closed waits; the model splits it at
  that wait, so that any other operation may come between its steps.

  \<open>PermissionBroker\<close> matches host answers to pending requests. \<open>negotiate\<close> is split at its
  awaits: \<open>negotiate_start\<close> registers the request and notifies the host, \<open>negotiate_finish\<close>
  runs when the future of the request has a result, \<open>negotiate_abort\<close> when the notification
  raises or the task is cancelled. The fallback task of a request ends in \<open>fallback_done\<close>. The
  grant store is a parameter with the interface of \<open>GrantStore.apply_permission_grant\<close>; an
  identity (a number) stands for the object identity that \<open>bind_run\<close> compares.
\<close>

subsection \<open>The gate of a run\<close>

datatype run_phase = Running | Pausing | Paused | Resuming | Cancelled

record run_control =
  phase :: run_phase
  resume_gate :: bool
  cancelled :: bool
  cancel_gate :: bool

definition new_control :: run_control where
  "new_control = \<lparr>phase = Running, resume_gate = True, cancelled = False, cancel_gate = False\<rparr>"

definition request_pause :: "run_control \<Rightarrow> run_control" where
  "request_pause c =
     (if \<not> cancelled c \<and> (phase c = Running \<or> phase c = Resuming)
      then c\<lparr>phase := Pausing, resume_gate := False\<rparr> else c)"

definition request_resume :: "run_control \<Rightarrow> run_control" where
  "request_resume c = (if \<not> cancelled c then c\<lparr>phase := Resuming, resume_gate := True\<rparr> else c)"

definition request_cancel :: "run_control \<Rightarrow> run_control" where
  "request_cancel c = \<lparr>phase = Cancelled, resume_gate = True, cancelled = True, cancel_gate = True\<rparr>"

datatype checkpoint_result = Proceed | Stop | Wait

text \<open>One pass from the entry of \<open>checkpoint\<close>, or from the wake-up of its wait, to its next wait
  or its return.\<close>

definition checkpoint_loop :: "run_control \<Rightarrow> checkpoint_result \<times> run_control" where
  "checkpoint_loop c =
     (if \<not> resume_gate c then (Wait, c\<lparr>phase := Paused\<rparr>)
      else if cancelled c then (Stop, c)
      else (Proceed, c\<lparr>phase := Running\<rparr>))"

definition checkpoint :: "run_control \<Rightarrow> checkpoint_result \<times> run_control" where
  "checkpoint c = (if cancelled c then (Stop, c) else checkpoint_loop c)"

text \<open>The negotiator that ends a permission wait on cancellation: what it returns when it was
  cancelled at entry, is cancelled after the race, or has the delegate's answer.\<close>

definition cancellable_negotiate :: "bool \<Rightarrow> bool \<Rightarrow> bool \<Rightarrow> bool" where
  "cancellable_negotiate at_entry after answer =
     (if at_entry then False else if after then False else answer)"

subsection \<open>The broker\<close>

datatype answer = Waiting | Answered "string option"

record 'g broker =
  run_id :: string
  event_sink :: bool
  pending :: "(string \<times> pydict \<times> answer) list"
  stopped :: bool
  store :: "(nat \<times> 'g) option"
  result_only :: bool
  fallback_tasks :: "string list"

datatype broker_error =
    DifferentRun
  | DifferentStore
  | AlreadyPending
  | ApprovedNotBool
  | UnknownOption
  | NoDecision
  | ConflictingResponse
  | UnsupportedOption

definition new_broker :: "string \<Rightarrow> (nat \<times> 'g) option \<Rightarrow> 'g broker" where
  "new_broker rid g = \<lparr>run_id = rid, event_sink = False, pending = [], stopped = False, store = g,
     result_only = False, fallback_tasks = []\<rparr>"

definition start_fallback :: "'g broker \<Rightarrow> string \<Rightarrow> 'g broker" where
  "start_fallback b rid =
     (if rid \<in> set (fallback_tasks b) then b else b\<lparr>fallback_tasks := fallback_tasks b @ [rid]\<rparr>)"

definition waiting_ids :: "'g broker \<Rightarrow> string list" where
  "waiting_ids b = map fst (filter (\<lambda>(_, _, a). a = Waiting) (pending b))"

definition use_result_only :: "'g broker \<Rightarrow> 'g broker" where
  "use_result_only b = foldl start_fallback (b\<lparr>result_only := True\<rparr>) (waiting_ids b)"

definition settle :: "string \<Rightarrow> string option \<Rightarrow> 'g broker \<Rightarrow> 'g broker" where
  "settle rid a b = b\<lparr>pending := map (\<lambda>(k, r, x). if k = rid \<and> x = Waiting then (k, r, Answered a) else (k, r, x))
     (pending b)\<rparr>"

text \<open>The end of the fallback task of a request: a callback that did not answer leaves a refusal.\<close>

definition fallback_done :: "'g broker \<Rightarrow> string \<Rightarrow> 'g broker" where
  "fallback_done b rid = (if rid \<in> set (fallback_tasks b) then settle rid None b else b)"

definition cancel_broker :: "'g broker \<Rightarrow> 'g broker" where
  "cancel_broker b = b\<lparr>stopped := True,
     pending := map (\<lambda>(k, r, x). (k, r, if x = Waiting then Answered None else x)) (pending b)\<rparr>"

definition aclose_broker :: "'g broker \<Rightarrow> 'g broker" where
  "aclose_broker b = (cancel_broker b)\<lparr>fallback_tasks := []\<rparr>"

definition bind_run :: "'g broker \<Rightarrow> string \<Rightarrow> (nat \<times> 'g) option \<Rightarrow> (broker_error + unit) \<times> 'g broker" where
  "bind_run b rid g =
     (if rid \<noteq> run_id b \<or> event_sink b \<or> stopped b \<or> pending b \<noteq> [] then (Inl DifferentRun, b)
      else if store b \<noteq> None \<and> map_option fst (store b) \<noteq> map_option fst g then (Inl DifferentStore, b)
      else (Inr (), b\<lparr>store := (if store b = None then g else store b)\<rparr>))"

definition set_event_sink :: "'g broker \<Rightarrow> 'g broker" where
  "set_event_sink b = b\<lparr>event_sink := True\<rparr>"

record permission_event =
  pe_request_id :: string
  pe_tool_call_id :: string
  pe_scope :: string
  pe_requested_scope :: string
  pe_reason :: string
  pe_path :: string
  pe_temporary_supported :: bool
  pe_persistent_supported :: bool
  pe_persistent_label :: string
  pe_command :: string
  pe_risk :: string

definition request_event :: "string \<Rightarrow> pydict \<Rightarrow> permission_event" where
  "request_event rid r =
     \<lparr>pe_request_id = rid, pe_tool_call_id = str_field r ''tool_call_id'', pe_scope = str_field r ''scope'',
      pe_requested_scope = str_field r ''requested_scope'', pe_reason = str_field r ''reason'',
      pe_path = str_field r ''path'',
      pe_temporary_supported = truthy (dget_or r ''temporary_supported'' (PBool True)),
      pe_persistent_supported = truthy (dget_or r ''persistent_supported'' (PBool True)),
      pe_persistent_label = str_field r ''persistent_label'', pe_command = str_field r ''command'',
      pe_risk = str_field r ''risk''\<rparr>"

datatype notification = ByFallback pydict | ByEvent permission_event | ByCallback pydict

datatype start_result = Refused | Started string notification

definition negotiate_start ::
  "'g broker \<Rightarrow> pydict \<Rightarrow> string \<Rightarrow> (broker_error + start_result) \<times> 'g broker" where
  "negotiate_start b req fresh =
     (if stopped b then (Inr Refused, b)
      else (let rid = py_str (py_or (dget req ''request_id'') (PStr fresh))
            in if map_of (pending b) rid \<noteq> None then (Inl AlreadyPending, b)
               else (let request = AList.update ''request_id'' (PStr rid)
                           (AList.update ''run_id'' (PStr (run_id b)) req);
                         b1 = b\<lparr>pending := pending b @ [(rid, request, Waiting)]\<rparr>
                     in if result_only b then (Inr (Started rid (ByFallback request)), start_fallback b1 rid)
                        else if event_sink b then (Inr (Started rid (ByEvent (request_event rid request))), b1)
                        else (Inr (Started rid (ByCallback request)), b1))))"

definition pop_request :: "'g broker \<Rightarrow> string \<Rightarrow> 'g broker" where
  "pop_request b rid = b\<lparr>pending := AList.delete rid (pending b),
     fallback_tasks := filter (\<lambda>k. k \<noteq> rid) (fallback_tasks b)\<rparr>"

text \<open>\<open>None\<close>: the future has no result yet, so \<open>negotiate\<close> keeps waiting.\<close>

definition negotiate_finish ::
  "('g \<Rightarrow> pydict \<Rightarrow> string \<Rightarrow> bool \<times> 'g) \<Rightarrow> 'g broker \<Rightarrow> string \<Rightarrow> bool option \<times> 'g broker" where
  "negotiate_finish ap b rid =
     (case map_of (pending b) rid of
        Some (request, Answered a) \<Rightarrow>
          (let popped = pop_request b rid
           in case a of
                None \<Rightarrow> (Some False, popped)
              | Some k \<Rightarrow>
                  if stopped b then (Some False, popped)
                  else (case store b of
                      None \<Rightarrow> (Some (dget request ''scope'' = PStr ''safety''), popped)
                    | Some (i, g) \<Rightarrow>
                        (let (ok, g') = ap g request k in (Some ok, popped\<lparr>store := Some (i, g')\<rparr>))))
      | _ \<Rightarrow> (None, b))"

definition negotiate_abort :: "'g broker \<Rightarrow> string \<Rightarrow> 'g broker" where
  "negotiate_abort b rid = pop_request b rid"

definition choices :: "(string \<times> string option) list" where
  "choices = [(''approve'', Some ''prompt''), (''approve_session'', Some ''session''),
     (''reject'', None), (''deny'', None), (''denied'', None)]"

text \<open>The scope a response decides for, or the error it raises.\<close>

definition decode_response :: "pydict \<Rightarrow> broker_error + string option" where
  "decode_response payload =
     (let option_id = dget_or payload ''option_id'' (dget payload ''optionId'');
          approved = dget payload ''approved''
      in if map_of payload ''approved'' \<noteq> None \<and> (\<forall>v \<in> {True, False}. approved \<noteq> PBool v)
         then Inl ApprovedNotBool
         else (case option_id of
             PNone \<Rightarrow> (if approved = PNone then Inl NoDecision
                       else Inr (if approved = PBool True then Some ''prompt'' else None))
           | PStr s \<Rightarrow> (case map_of choices s of
                 None \<Rightarrow> Inl UnknownOption
               | Some k \<Rightarrow> if approved \<noteq> PNone \<and> (approved = PBool True) \<noteq> (k \<noteq> None)
                           then Inl ConflictingResponse else Inr k)
           | _ \<Rightarrow> Inl UnknownOption))"

definition respond :: "'g broker \<Rightarrow> string \<Rightarrow> pydict \<Rightarrow> (broker_error + bool) \<times> 'g broker" where
  "respond b rid payload =
     (case (if rid = [] then None else map_of (pending b) rid) of
        None \<Rightarrow> (Inr False, b)
      | Some (request, state) \<Rightarrow>
          (case decode_response payload of
             Inl e \<Rightarrow> (Inl e, b)
           | Inr k \<Rightarrow>
               if state \<noteq> Waiting then (Inr False, b)
               else (case k of
                   Some s \<Rightarrow> if \<not> supported request s then (Inl UnsupportedOption, b)
                             else (Inr True, settle rid (Some s) b)
                 | None \<Rightarrow> (Inr True, settle rid None b))))"

end
