(* ===== verification/RunControlCorrect.thy ===== *)
theory RunControlCorrect
  imports RunControl "HOL-Library.Multiset"
begin

section \<open>Run control and the permission broker: gates, answers and cancellation\<close>

text \<open>
  The gate is closed exactly while the run is pausing or paused, and cancellation is final.
  The broker's invariant (\<open>broker_inv\<close>): pending ids are distinct, a stopped broker leaves no
  request waiting, and in result-only mode every waiting request has a fallback task. The
  grant store is used through the interface \<open>grant_service\<close>, whose interpretation on
  \<open>apply_permission_grant\<close> discharges its laws.
\<close>

subsection \<open>The gate\<close>

datatype control_op = Pause | Resume | Cancel | Check

fun control_exec :: "run_control \<Rightarrow> control_op \<Rightarrow> checkpoint_result option \<times> run_control" where
  "control_exec c Pause = (None, request_pause c)"
| "control_exec c Resume = (None, request_resume c)"
| "control_exec c Cancel = (None, request_cancel c)"
| "control_exec c Check = (Some (fst (checkpoint c)), snd (checkpoint c))"

definition control_inv :: "run_control \<Rightarrow> bool" where
  "control_inv c = ((cancelled c \<longleftrightarrow> phase c = Cancelled) \<and> (cancel_gate c = cancelled c)
     \<and> (resume_gate c \<longleftrightarrow> phase c \<notin> {Pausing, Paused}))"

interpretation control: component control_exec control_inv
proof
  fix s op
  show "control_inv s \<Longrightarrow> control_inv (snd (control_exec s op))"
    by (cases op) (auto simp: control_inv_def request_pause_def request_resume_def request_cancel_def
        checkpoint_def checkpoint_loop_def)
qed

fun control_answers :: "run_control \<Rightarrow> control_op list \<Rightarrow> checkpoint_result list" where
  "control_answers c [] = []"
| "control_answers c (op # ops) =
     (case fst (control_exec c op) of None \<Rightarrow> [] | Some r \<Rightarrow> [r]) @ control_answers (snd (control_exec c op)) ops"

lemma cancelled_final: "cancelled c \<Longrightarrow> cancelled (snd (control_exec c op))"
  by (cases op) (auto simp: request_pause_def request_resume_def request_cancel_def checkpoint_def)

lemma cancelled_stops: "cancelled c \<Longrightarrow> set (control_answers c ops) \<subseteq> {Stop}"
proof (induction c ops rule: control_answers.induct)
  case (2 c op ops)
  from "2.IH" cancelled_final [OF "2.prems"] have "set (control_answers (snd (control_exec c op)) ops) \<subseteq> {Stop}" by simp
  moreover have "fst (control_exec c op) \<in> {None, Some Stop}"
    using "2.prems" by (cases op) (auto simp: checkpoint_def)
  ultimately show ?case by auto
qed simp

lemma paused_waits:
  "control_inv c \<Longrightarrow> \<not> resume_gate c \<Longrightarrow> set ops \<subseteq> {Pause, Check} \<Longrightarrow>
   set (control_answers c ops) \<subseteq> {Wait}"
proof (induction c ops rule: control_answers.induct)
  case (2 c op ops)
  let ?c' = "snd (control_exec c op)"
  from "2.prems" have op: "op = Pause \<or> op = Check" by auto
  have live: "\<not> cancelled c" using "2.prems" by (auto simp: control_inv_def)
  have "\<not> resume_gate ?c'"
    using op live "2.prems" by (auto simp: request_pause_def checkpoint_def checkpoint_loop_def split: if_splits)
  moreover have "control_inv ?c'" using "2.prems"(1) by (rule control.exec_inv)
  ultimately have "set (control_answers ?c' ops) \<subseteq> {Wait}" using "2.IH" "2.prems"(3) by simp
  moreover have "fst (control_exec c op) \<in> {None, Some Wait}"
    using op live "2.prems"(2) by (auto simp: checkpoint_def checkpoint_loop_def)
  ultimately show ?case by auto
qed simp

subsection \<open>The broker's operations\<close>

datatype 'g broker_op =
    UseResultOnly
  | FallbackDone string
  | CancelBroker
  | CloseBroker
  | BindRun string "(nat \<times> 'g) option"
  | SetEventSink
  | Start pydict string
  | Respond string pydict
  | Finish string
  | Abort string

datatype broker_answer =
    NoAnswer
  | Failed broker_error
  | StartAnswer start_result
  | Accepted bool
  | Decision "bool option"

fun broker_exec ::
  "('g \<Rightarrow> pydict \<Rightarrow> string \<Rightarrow> bool \<times> 'g) \<Rightarrow> 'g broker \<Rightarrow> 'g broker_op \<Rightarrow> broker_answer \<times> 'g broker" where
  "broker_exec ap b UseResultOnly = (NoAnswer, use_result_only b)"
| "broker_exec ap b (FallbackDone rid) = (NoAnswer, fallback_done b rid)"
| "broker_exec ap b CancelBroker = (NoAnswer, cancel_broker b)"
| "broker_exec ap b CloseBroker = (NoAnswer, aclose_broker b)"
| "broker_exec ap b (BindRun rid g) =
     (case bind_run b rid g of (Inl e, b') \<Rightarrow> (Failed e, b') | (Inr _, b') \<Rightarrow> (NoAnswer, b'))"
| "broker_exec ap b SetEventSink = (NoAnswer, set_event_sink b)"
| "broker_exec ap b (Start req fresh) =
     (case negotiate_start b req fresh of (Inl e, b') \<Rightarrow> (Failed e, b') | (Inr r, b') \<Rightarrow> (StartAnswer r, b'))"
| "broker_exec ap b (Respond rid payload) =
     (case respond b rid payload of (Inl e, b') \<Rightarrow> (Failed e, b') | (Inr r, b') \<Rightarrow> (Accepted r, b'))"
| "broker_exec ap b (Finish rid) = (case negotiate_finish ap b rid of (r, b') \<Rightarrow> (Decision r, b'))"
| "broker_exec ap b (Abort rid) = (NoAnswer, negotiate_abort b rid)"

definition broker_inv :: "'g broker \<Rightarrow> bool" where
  "broker_inv b = (distinct (map fst (pending b)) \<and> (stopped b \<longrightarrow> waiting_ids b = [])
     \<and> (result_only b \<longrightarrow> set (waiting_ids b) \<subseteq> set (fallback_tasks b)))"

lemma start_fallback_simps [simp]:
  "pending (start_fallback b rid) = pending b" "stopped (start_fallback b rid) = stopped b"
  "result_only (start_fallback b rid) = result_only b" "store (start_fallback b rid) = store b"
  "set (fallback_tasks (start_fallback b rid)) = insert rid (set (fallback_tasks b))"
  by (auto simp: start_fallback_def)

lemma foldl_fallback [simp]:
  "pending (foldl start_fallback b rids) = pending b" "stopped (foldl start_fallback b rids) = stopped b"
  "result_only (foldl start_fallback b rids) = result_only b" "store (foldl start_fallback b rids) = store b"
  "set (fallback_tasks (foldl start_fallback b rids)) = set rids \<union> set (fallback_tasks b)"
  by (induction rids arbitrary: b) simp_all

lemma settle_simps [simp]:
  "map fst (pending (settle rid a b)) = map fst (pending b)" "stopped (settle rid a b) = stopped b"
  "result_only (settle rid a b) = result_only b" "store (settle rid a b) = store b"
  "fallback_tasks (settle rid a b) = fallback_tasks b"
  "waiting_ids (settle rid a b) = filter (\<lambda>k. k \<noteq> rid) (waiting_ids b)"
proof -
  show "map fst (pending (settle rid a b)) = map fst (pending b)"
    by (auto simp: settle_def split_beta)
  have "map fst (filter (\<lambda>(_, _, x). x = Waiting)
        (map (\<lambda>(k, r, x). if k = rid \<and> x = Waiting then (k, r, Answered a) else (k, r, x)) ps)) =
      filter (\<lambda>k. k \<noteq> rid) (map fst (filter (\<lambda>(_, _, x). x = Waiting) ps))" for ps :: "(string \<times> pydict \<times> answer) list"
    by (induction ps) (auto split: if_splits)
  then show "waiting_ids (settle rid a b) = filter (\<lambda>k. k \<noteq> rid) (waiting_ids b)"
    by (simp add: waiting_ids_def settle_def)
qed (simp_all add: settle_def)

lemma cancel_simps [simp]:
  "map fst (pending (cancel_broker b)) = map fst (pending b)" "waiting_ids (cancel_broker b) = []"
  "stopped (cancel_broker b)" "store (cancel_broker b) = store b"
  by (auto simp: cancel_broker_def waiting_ids_def split_beta filter_empty_conv)

lemma waiting_delete:
  "map fst (filter (\<lambda>(_, _, a). a = Waiting) (AList.delete rid ps)) =
   filter (\<lambda>k. k \<noteq> rid) (map fst (filter (\<lambda>(_, _, a). a = Waiting) ps))"
  by (induction ps) (auto simp: AList.delete_eq)

lemma pop_simps [simp]:
  "stopped (pop_request b rid) = stopped b" "result_only (pop_request b rid) = result_only b"
  "store (pop_request b rid) = store b" "waiting_ids (pop_request b rid) = filter (\<lambda>k. k \<noteq> rid) (waiting_ids b)"
  by (simp_all add: pop_request_def waiting_ids_def waiting_delete)

lemma pop_inv: "broker_inv b \<Longrightarrow> broker_inv (pop_request b rid)"
  by (auto simp: broker_inv_def) (auto simp: pop_request_def dict_simps distinct_removeAll)

lemma start_shape:
  "negotiate_start b req fresh = (r, b') \<Longrightarrow>
   b' = b \<or> (\<not> stopped b \<and> (\<exists>rid request. map_of (pending b) rid = None \<and> r \<noteq> Inr Refused
     \<and> pending b' = pending b @ [(rid, request, Waiting)] \<and> stopped b' = stopped b \<and> store b' = store b
     \<and> result_only b' = result_only b
     \<and> set (fallback_tasks b') = (if result_only b then insert rid (set (fallback_tasks b)) else set (fallback_tasks b))))"
  by (auto simp: negotiate_start_def Let_def split: if_splits)

lemma start_inv:
  assumes "broker_inv b" "negotiate_start b req fresh = (r, b')"
  shows "broker_inv b'"
  using start_shape [OF assms(2)]
proof
  assume "\<not> stopped b \<and> (\<exists>rid request. map_of (pending b) rid = None \<and> r \<noteq> Inr Refused
     \<and> pending b' = pending b @ [(rid, request, Waiting)] \<and> stopped b' = stopped b \<and> store b' = store b
     \<and> result_only b' = result_only b
     \<and> set (fallback_tasks b') = (if result_only b then insert rid (set (fallback_tasks b)) else set (fallback_tasks b)))"
  then obtain rid request where b': "\<not> stopped b" "map_of (pending b) rid = None"
    "pending b' = pending b @ [(rid, request, Waiting)]" "stopped b' = stopped b"
    "result_only b' = result_only b"
    "set (fallback_tasks b') = (if result_only b then insert rid (set (fallback_tasks b)) else set (fallback_tasks b))"
    by blast
  then have "waiting_ids b' = waiting_ids b @ [rid]" by (simp add: waiting_ids_def)
  with b' assms(1) show ?thesis by (auto simp: broker_inv_def map_of_eq_None_iff)
qed (use assms(1) in simp)

lemma respond_shape:
  "respond b rid payload = (r, b') \<Longrightarrow>
   (r \<noteq> Inr True \<and> b' = b)
   \<or> (r = Inr True \<and> (\<exists>request k. map_of (pending b) rid = Some (request, Waiting)
        \<and> decode_response payload = Inr k \<and> (case k of None \<Rightarrow> True | Some s \<Rightarrow> supported request s)
        \<and> b' = settle rid k b))"
  by (auto simp: respond_def split: option.splits sum.splits if_splits)

lemma finish_shape:
  "negotiate_finish ap b rid = (r, b') \<Longrightarrow>
   (r = None \<and> b' = b)
   \<or> (\<exists>request a. map_of (pending b) rid = Some (request, Answered a)
       \<and> (b' = pop_request b rid \<and> (r = Some False \<or> (\<exists>k. a = Some k \<and> \<not> stopped b \<and> store b = None))
          \<or> (\<exists>k i g. a = Some k \<and> \<not> stopped b \<and> store b = Some (i, g) \<and> r = Some (fst (ap g request k))
              \<and> b' = (pop_request b rid)\<lparr>store := Some (i, snd (ap g request k))\<rparr>)))"
  by (auto simp: negotiate_finish_def Let_def split: option.splits answer.splits if_splits prod.splits)

lemma inv_store [simp]: "broker_inv (b\<lparr>store := g\<rparr>) = broker_inv b"
  by (simp add: broker_inv_def waiting_ids_def)

lemma bind_inv: "broker_inv b \<Longrightarrow> broker_inv (snd (bind_run b rid g))"
  by (simp add: bind_run_def)

interpretation broker: component "broker_exec ap" broker_inv for ap
proof
  fix s :: "'a broker" and op
  assume inv: "broker_inv s"
  show "broker_inv (snd (broker_exec ap s op))"
  proof (cases op)
    case UseResultOnly
    with inv show ?thesis by (auto simp: broker_inv_def use_result_only_def waiting_ids_def)
  next
    case (FallbackDone rid)
    with inv show ?thesis by (auto simp: fallback_done_def broker_inv_def)
  next
    case CancelBroker
    with inv show ?thesis by (simp add: broker_inv_def)
  next
    case CloseBroker
    moreover have "waiting_ids (aclose_broker s) = []" "map fst (pending (aclose_broker s)) = map fst (pending s)"
      using cancel_simps(1,2) [of s] by (simp_all add: aclose_broker_def waiting_ids_def)
    ultimately show ?thesis using inv by (simp add: broker_inv_def)
  next
    case (BindRun rid g)
    with bind_inv [OF inv, of rid g] show ?thesis by (auto split: prod.splits sum.splits)
  next
    case SetEventSink
    with inv show ?thesis by (simp add: broker_inv_def set_event_sink_def waiting_ids_def)
  next
    case (Start req fresh)
    with start_inv [OF inv] show ?thesis by (auto split: prod.splits sum.splits)
  next
    case (Respond rid payload)
    have "broker_inv (snd (respond s rid payload))"
      using respond_shape [of s rid payload] inv by (cases "respond s rid payload") (auto simp: broker_inv_def)
    with Respond show ?thesis by (auto split: prod.splits sum.splits)
  next
    case (Finish rid)
    have "broker_inv (snd (negotiate_finish ap s rid))"
      using finish_shape [of ap s rid] inv by (cases "negotiate_finish ap s rid") (auto simp: pop_inv)
    with Finish show ?thesis by (auto split: prod.splits)
  next
    case (Abort rid)
    with inv show ?thesis by (simp add: negotiate_abort_def pop_inv)
  qed
qed

subsection \<open>Approvals and grants\<close>

definition answered_of :: "string \<times> pydict \<times> answer \<Rightarrow> (string \<times> string) list" where
  "answered_of e = (case e of (k, r, x) \<Rightarrow> (case x of Answered (Some s) \<Rightarrow> [(k, s)] | _ \<Rightarrow> []))"

definition answered :: "'g broker \<Rightarrow> (string \<times> string) multiset" where
  "answered b = mset (concat (map answered_of (pending b)))"

lemma answered_settle_list:
  "distinct (map fst ps) \<Longrightarrow>
   mset (concat (map answered_of (map (\<lambda>(k, r, x). if k = rid \<and> x = Waiting then (k, r, Answered a) else (k, r, x)) ps)))
   \<subseteq># mset (concat (map answered_of ps)) + (case a of None \<Rightarrow> {#} | Some s \<Rightarrow> {#(rid, s)#})"
proof (induction ps)
  case (Cons p ps)
  obtain k r x where p: "p = (k, r, x)" by (cases p) auto
  let ?f = "\<lambda>(k, r, x). if k = rid \<and> x = Waiting then (k, r, Answered a) else (k, r, x)"
  show ?case
  proof (cases "k = rid")
    case True
    with Cons.prems p have "map ?f ps = ps" by (intro map_idI) force
    with p True show ?thesis
      by (cases x; cases a) (auto simp: answered_of_def)
  next
    case False
    with Cons p show ?thesis by (auto simp: answered_of_def)
  qed
qed simp

lemma answered_settle:
  "broker_inv b \<Longrightarrow>
   answered (settle rid a b) \<subseteq># answered b + (case a of None \<Rightarrow> {#} | Some s \<Rightarrow> {#(rid, s)#})"
  using answered_settle_list [of "pending b" rid a] by (simp add: answered_def settle_def broker_inv_def)

lemma answered_delete_list:
  "map_of ps rid = Some (r, Answered a) \<Longrightarrow>
   mset (concat (map answered_of (AList.delete rid ps))) + (case a of None \<Rightarrow> {#} | Some s \<Rightarrow> {#(rid, s)#})
   \<subseteq># mset (concat (map answered_of ps))"
  "mset (concat (map answered_of (AList.delete rid ps))) \<subseteq># mset (concat (map answered_of ps))"
proof -
  show sub: "mset (concat (map answered_of (AList.delete rid ps))) \<subseteq># mset (concat (map answered_of ps))" for ps
    by (induction ps) (auto simp: AList.delete_eq intro: subset_mset.add_increasing)
  show "map_of ps rid = Some (r, Answered a) \<Longrightarrow>
   mset (concat (map answered_of (AList.delete rid ps))) + (case a of None \<Rightarrow> {#} | Some s \<Rightarrow> {#(rid, s)#})
   \<subseteq># mset (concat (map answered_of ps))"
  proof (induction ps)
    case (Cons p ps)
    obtain k r' x where p: "p = (k, r', x)" by (cases p) auto
    show ?case
    proof (cases "k = rid")
      case True
      with Cons.prems p have "answered_of p = (case a of None \<Rightarrow> [] | Some s \<Rightarrow> [(rid, s)])"
        by (auto simp: answered_of_def split: option.splits)
      with True p sub [of ps] show ?thesis
        by (auto simp: AList.delete_eq split: option.splits)
    next
      case False
      with Cons p show ?thesis by (auto simp: AList.delete_eq add.assoc)
    qed
  qed simp
qed

lemma answered_pop:
  "answered (pop_request b rid) \<subseteq># answered b"
  "map_of (pending b) rid = Some (r, Answered a) \<Longrightarrow>
   answered (pop_request b rid) + (case a of None \<Rightarrow> {#} | Some s \<Rightarrow> {#(rid, s)#}) \<subseteq># answered b"
  using answered_delete_list by (simp_all add: answered_def pop_request_def)

lemma answered_simps [simp]:
  "answered (b\<lparr>store := g\<rparr>) = answered b" "answered (set_event_sink b) = answered b"
  "answered (use_result_only b) = answered b" "answered (aclose_broker b) = answered (cancel_broker b)"
  by (simp_all add: answered_def set_event_sink_def use_result_only_def aclose_broker_def)

lemma answered_cancel: "answered (cancel_broker b) = answered b"
proof -
  have "answered_of \<circ> (\<lambda>(k, r, x). (k, r, if x = Waiting then Answered None else x)) = answered_of"
    by (auto simp: fun_eq_iff answered_of_def split: answer.splits)
  then show ?thesis by (simp add: answered_def cancel_broker_def)
qed

text \<open>The approvals that responses gave and the grants that finished negotiations applied.\<close>

definition approval :: "'g broker \<Rightarrow> 'g broker_op \<Rightarrow> (string \<times> string) list" where
  "approval b op = (case op of
     Respond rid payload \<Rightarrow>
       (case (fst (respond b rid payload), decode_response payload) of
          (Inr True, Inr (Some k)) \<Rightarrow> [(rid, k)] | _ \<Rightarrow> [])
   | _ \<Rightarrow> [])"

definition applied :: "'g broker \<Rightarrow> 'g broker_op \<Rightarrow> (string \<times> string) list" where
  "applied b op = (case op of
     Finish rid \<Rightarrow>
       (case (map_of (pending b) rid, store b) of
          (Some (_, Answered (Some k)), Some _) \<Rightarrow> if stopped b then [] else [(rid, k)] | _ \<Rightarrow> [])
   | _ \<Rightarrow> [])"

lemma step_accounts:
  assumes inv: "broker_inv b"
  shows "mset (applied b op) + answered (snd (broker_exec ap b op)) \<subseteq># answered b + mset (approval b op)"
proof (cases op)
  case (Respond rid payload)
  show ?thesis
  proof (cases "fst (respond b rid payload) = Inr True")
    case True
    then obtain k where k: "decode_response payload = Inr k" "snd (respond b rid payload) = settle rid k b"
      using respond_shape [of b rid payload] by (cases "respond b rid payload") auto
    with True Respond answered_settle [OF inv, of rid k] show ?thesis
      by (cases "respond b rid payload") (auto simp: applied_def approval_def split: option.splits)
  next
    case False
    then have "snd (respond b rid payload) = b"
      using respond_shape [of b rid payload] by (cases "respond b rid payload") auto
    with False Respond show ?thesis
      by (cases "respond b rid payload") (auto simp: applied_def split: sum.splits)
  qed
next
  case (Finish rid)
  obtain r b' where f: "negotiate_finish ap b rid = (r, b')" by fastforce
  from finish_shape [OF f] show ?thesis
  proof
    assume "r = None \<and> b' = b"
    moreover from this f have "applied b op = []"
      by (auto simp: Finish applied_def negotiate_finish_def Let_def split: option.splits answer.splits if_splits prod.splits)
    ultimately show ?thesis using Finish f by simp
  next
    assume "\<exists>request a. map_of (pending b) rid = Some (request, Answered a)
       \<and> (b' = pop_request b rid \<and> (r = Some False \<or> (\<exists>k. a = Some k \<and> \<not> stopped b \<and> store b = None))
          \<or> (\<exists>k i g. a = Some k \<and> \<not> stopped b \<and> store b = Some (i, g) \<and> r = Some (fst (ap g request k))
              \<and> b' = (pop_request b rid)\<lparr>store := Some (i, snd (ap g request k))\<rparr>))"
    then obtain request a where a: "map_of (pending b) rid = Some (request, Answered a)"
      and b': "answered b' = answered (pop_request b rid)" by auto
    have "mset (applied b op) \<subseteq># (case a of None \<Rightarrow> {#} | Some s \<Rightarrow> {#(rid, s)#})"
      using a by (auto simp: Finish applied_def split: option.splits)
    with answered_pop(2) [OF a] b' f Finish show ?thesis
      by (auto simp: approval_def add.commute intro: subset_mset.order_trans [OF subset_mset.add_left_mono])
  qed
next
  case (Start req fresh)
  obtain r b' where s: "negotiate_start b req fresh = (r, b')" by fastforce
  then have "answered b' = answered b"
    using start_shape [OF s] by (auto simp: answered_def answered_of_def)
  with Start s show ?thesis by (auto simp: applied_def split: sum.splits)
next
  case (FallbackDone rid)
  with answered_settle [OF inv, of rid None] show ?thesis
    by (auto simp: applied_def approval_def fallback_done_def)
next
  case (BindRun rid g)
  have "answered (snd (bind_run b rid g)) = answered b" by (simp add: bind_run_def)
  with BindRun show ?thesis by (auto simp: applied_def split: prod.splits sum.splits)
next
  case (Abort rid)
  with answered_pop(1) [of b rid] show ?thesis by (simp add: applied_def negotiate_abort_def approval_def)
qed (simp_all add: applied_def answered_cancel)

subsection \<open>Grants and refusals\<close>

text \<open>What the broker relies on from a grant store: a refused grant changes nothing.\<close>

locale grant_service =
  fixes ap :: "'g \<Rightarrow> pydict \<Rightarrow> string \<Rightarrow> bool \<times> 'g"
  assumes refused_keeps: "\<not> fst (ap g r k) \<Longrightarrow> snd (ap g r k) = g"
begin

lemma finish_refused_keeps:
  assumes "negotiate_finish ap b rid = (Some False, b')"
  shows "store b' = store b"
  using finish_shape [OF assms] by (auto simp: refused_keeps)

lemma store_changes_by_decision:
  assumes "store (snd (broker_exec ap b op)) \<noteq> store b"
  shows "(\<exists>rid. op = Finish rid \<and> fst (broker_exec ap b op) = Decision (Some True))
    \<or> (\<exists>rid g. op = BindRun rid g \<and> store b = None)"
proof (cases op)
  case (Finish rid)
  obtain r b' where f: "negotiate_finish ap b rid = (r, b')" by fastforce
  with assms Finish have "store b' \<noteq> store b" by simp
  then have "r \<noteq> None" "r \<noteq> Some False"
    using f finish_refused_keeps finish_shape [OF f] by auto
  with f Finish show ?thesis by (cases r) auto
next
  case (Start req fresh)
  with assms show ?thesis
    using start_shape [of b req fresh] by (cases "negotiate_start b req fresh") (auto split: sum.splits)
next
  case (Respond rid payload)
  with assms show ?thesis
    using respond_shape [of b rid payload] by (cases "respond b rid payload") (auto split: sum.splits)
next
  case (BindRun rid g)
  with assms show ?thesis by (auto simp: bind_run_def split: if_splits)
next
  case (FallbackDone rid)
  with assms show ?thesis by (simp add: fallback_done_def split: if_splits)
qed (use assms in \<open>simp_all add: use_result_only_def aclose_broker_def set_event_sink_def negotiate_abort_def\<close>)

end

interpretation grants: grant_service "apply_permission_grant F" for F
proof
  fix g r k
  have "fst (apply_permission_grant F g r k) \<or> snd (apply_permission_grant F g r k) = g"
    unfolding apply_permission_grant_def Let_def
    by (simp only: fst_conv snd_conv simp_thms split: option.split if_split)
  then show "\<not> fst (apply_permission_grant F g r k) \<Longrightarrow> snd (apply_permission_grant F g r k) = g"
    by blast
qed

subsection \<open>A stopped broker\<close>

text \<open>The answers that let something happen: a negotiation under way or permission granted.\<close>

fun granting :: "broker_answer \<Rightarrow> bool" where
  "granting (Decision (Some True)) = True"
| "granting (StartAnswer (Started _ _)) = True"
| "granting _ = False"

lemma stopped_step:
  assumes "stopped b"
  shows "stopped (snd (broker_exec ap b op)) \<and> store (snd (broker_exec ap b op)) = store b
    \<and> \<not> granting (fst (broker_exec ap b op))"
proof (cases op)
  case (Finish rid)
  with assms show ?thesis
    using finish_shape [of ap b rid] by (cases "negotiate_finish ap b rid") auto
next
  case (Respond rid payload)
  with assms show ?thesis
    using respond_shape [of b rid payload] by (cases "respond b rid payload") (auto split: sum.splits)
next
  case (BindRun rid g)
  with assms show ?thesis by (simp add: bind_run_def)
next
  case (FallbackDone rid)
  with assms show ?thesis by (simp add: fallback_done_def)
qed (use assms in \<open>simp_all add: use_result_only_def aclose_broker_def set_event_sink_def
      negotiate_start_def negotiate_abort_def\<close>)

fun broker_answers ::
  "('g \<Rightarrow> pydict \<Rightarrow> string \<Rightarrow> bool \<times> 'g) \<Rightarrow> 'g broker \<Rightarrow> 'g broker_op list \<Rightarrow> broker_answer list" where
  "broker_answers ap b [] = []"
| "broker_answers ap b (op # ops) =
     fst (broker_exec ap b op) # broker_answers ap (snd (broker_exec ap b op)) ops"

fun broker_run ::
  "('g \<Rightarrow> pydict \<Rightarrow> string \<Rightarrow> bool \<times> 'g) \<Rightarrow> 'g broker \<Rightarrow> 'g broker_op list \<Rightarrow> 'g broker" where
  "broker_run ap b [] = b"
| "broker_run ap b (op # ops) = broker_run ap (snd (broker_exec ap b op)) ops"

lemma broker_run_eq: "broker_run ap b ops = broker.run ap b ops"
  by (induction ap b ops rule: broker_run.induct) simp_all

lemma stopped_run:
  "stopped b \<Longrightarrow> stopped (broker_run ap b ops) \<and> store (broker_run ap b ops) = store b
    \<and> list_ex granting (broker_answers ap b ops) = False"
proof (induction ops arbitrary: b)
  case (Cons op ops)
  from stopped_step [OF Cons.prems, of ap op] Cons.IH show ?case by auto
qed simp

subsection \<open>Properties\<close>

fun control_run :: "run_control \<Rightarrow> control_op list \<Rightarrow> run_control" where
  "control_run c [] = c"
| "control_run c (op # ops) = control_run (snd (control_exec c op)) ops"

lemma control_run_eq: "control_run c ops = control.run c ops"
  by (induction c ops rule: control_run.induct) simp_all

lemma control_run_snoc: "control_run c (ops @ [op]) = snd (control_exec (control_run c ops) op)"
  by (simp add: control_run_eq control.run_append)

lemma control_reached: "control_inv (control_run new_control ops)"
  unfolding control_run_eq by (rule control.run_inv) (simp add: control_inv_def new_control_def)

lemma checks_repeat:
  "checkpoint c = (r, c') \<Longrightarrow> checkpoint c' = (r, c') \<Longrightarrow> control_answers c (replicate n Check) = replicate n r"
proof (induction n arbitrary: c)
  case (Suc n)
  then show ?case by (cases n) auto
qed simp

text \<open>The gate of a run after any history of requests: a paused run makes its checkpoints
  wait and a resumed one lets them pass, unless it was cancelled; after a cancellation every
  checkpoint stops the run, whatever is requested later.\<close>

theorem run_gate:
  "control_answers (control_run new_control (ops @ [Pause])) (replicate n Check)
      = replicate n (if cancelled (control_run new_control ops) then Stop else Wait)
   \<and> control_answers (control_run new_control (ops @ [Resume])) (replicate n Check)
      = replicate n (if cancelled (control_run new_control ops) then Stop else Proceed)
   \<and> set (control_answers (control_run new_control (ops @ [Cancel])) later) \<subseteq> {Stop}"
proof (intro conjI)
  let ?c = "control_run new_control ops"
  have inv: "control_inv ?c" by (rule control_reached)
  show "control_answers (control_run new_control (ops @ [Pause])) (replicate n Check)
      = replicate n (if cancelled ?c then Stop else Wait)"
    using inv unfolding control_run_snoc
    by (intro checks_repeat [where c' = "if cancelled ?c then ?c else ?c\<lparr>phase := Paused, resume_gate := False\<rparr>"])
      (cases "phase ?c"; auto simp: control_inv_def request_pause_def checkpoint_def checkpoint_loop_def)+
  show "control_answers (control_run new_control (ops @ [Resume])) (replicate n Check)
      = replicate n (if cancelled ?c then Stop else Proceed)"
    unfolding control_run_snoc
    by (intro checks_repeat [where c' = "if cancelled ?c then ?c else ?c\<lparr>phase := Running, resume_gate := True\<rparr>"])
      (auto simp: request_resume_def checkpoint_def checkpoint_loop_def)
  show "set (control_answers (control_run new_control (ops @ [Cancel])) later) \<subseteq> {Stop}"
    unfolding control_run_snoc by (rule cancelled_stops) (simp add: request_cancel_def)
qed

text \<open>C21. A cancelled broker is inert: whatever happened before and happens afterwards, no
  request is left waiting for an answer, no negotiation starts or is granted, and the grant
  store stays as it was.\<close>

theorem broker_cancel_inert:
  "(let b = broker_run ap (new_broker rid g) ops;
        b' = broker_run ap b (CancelBroker # later)
    in waiting_ids b' = [] \<and> store b' = store b
       \<and> \<not> list_ex granting (broker_answers ap b (CancelBroker # later)))"
proof -
  let ?b = "broker_run ap (new_broker rid g) ops"
  let ?b1 = "cancel_broker ?b"
  have "broker_inv (new_broker rid g)" by (simp add: broker_inv_def new_broker_def waiting_ids_def)
  then have inv: "broker_inv (broker_run ap ?b (CancelBroker # later))"
    unfolding broker_run_eq by (intro broker.run_inv)
  have st: "stopped (broker_run ap ?b (CancelBroker # later))" "store (broker_run ap ?b (CancelBroker # later)) = store ?b"
    "\<not> list_ex granting (broker_answers ap ?b1 later)"
    using stopped_run [of ?b1 ap later] by simp_all
  with inv show ?thesis by (auto simp: Let_def broker_inv_def)
qed

fun approvals :: "('g \<Rightarrow> pydict \<Rightarrow> string \<Rightarrow> bool \<times> 'g) \<Rightarrow> 'g broker \<Rightarrow> 'g broker_op list \<Rightarrow> (string \<times> string) list" where
  "approvals ap b [] = []"
| "approvals ap b (op # ops) = approval b op @ approvals ap (snd (broker_exec ap b op)) ops"

fun applied_grants :: "('g \<Rightarrow> pydict \<Rightarrow> string \<Rightarrow> bool \<times> 'g) \<Rightarrow> 'g broker \<Rightarrow> 'g broker_op list \<Rightarrow> (string \<times> string) list" where
  "applied_grants ap b [] = []"
| "applied_grants ap b (op # ops) = applied b op @ applied_grants ap (snd (broker_exec ap b op)) ops"

lemma applied_within_approved:
  "broker_inv b \<Longrightarrow> mset (applied_grants ap b ops) \<subseteq># answered b + mset (approvals ap b ops)"
proof (induction ops arbitrary: b)
  case (Cons op ops)
  let ?b' = "snd (broker_exec ap b op)"
  have "broker_inv ?b'" using Cons.prems by (rule broker.exec_inv)
  with Cons.IH have "mset (applied_grants ap ?b' ops) \<subseteq># answered ?b' + mset (approvals ap ?b' ops)" .
  then have "mset (applied b op) + mset (applied_grants ap ?b' ops)
      \<subseteq># (mset (applied b op) + answered ?b') + mset (approvals ap ?b' ops)"
    by (simp add: add.assoc)
  also have "\<dots> \<subseteq># (answered b + mset (approval b op)) + mset (approvals ap ?b' ops)"
    using step_accounts [OF Cons.prems] by (rule subset_mset.add_right_mono)
  finally show ?case by (simp add: add.assoc)
qed simp


text \<open>The grant store of a bound broker changes only when a negotiation ends with
  permission granted.\<close>

theorem broker_store_changes_by_grant:
  assumes "store (snd (broker_exec (apply_permission_grant F) b op)) \<noteq> store b" "store b \<noteq> None"
  shows "fst (broker_exec (apply_permission_grant F) b op) = Decision (Some True)"
  using grants.store_changes_by_decision [OF assms(1)] assms(2) by blast

theorem broker_store_changes_by_grant_witness:
  "(let b = (new_broker ''r'' (Some (0, new_grants)))\<lparr>pending :=
        [(''q'', [(''scope'', PStr ''memory''), (''requested_scope'', PStr ''openclaw_import'')],
          Answered (Some ''session''))]\<rparr>
    in fst (broker_exec (apply_permission_grant sample_fs) b (Finish ''q'')) = Decision (Some True))"
proof -
  let ?b = "(new_broker ''r'' (Some (0, new_grants)))\<lparr>pending :=
        [(''q'', [(''scope'', PStr ''memory''), (''requested_scope'', PStr ''openclaw_import'')],
          Answered (Some ''session''))]\<rparr>"
  have "store (snd (broker_exec (apply_permission_grant sample_fs) ?b (Finish ''q''))) =
      Some (0, add_grant new_grants ''memory'' ''openclaw_import'' ''session'')" by code_simp
  moreover have "store ?b = Some (0, new_grants)" "store ?b \<noteq> None"
    by (simp_all add: new_broker_def)
  moreover have "add_grant new_grants ''memory'' ''openclaw_import'' ''session'' \<noteq> new_grants"
    by (simp add: add_grant_def new_grants_def)
  ultimately have "store (snd (broker_exec (apply_permission_grant sample_fs) ?b (Finish ''q''))) \<noteq> store ?b"
    by simp
  from broker_store_changes_by_grant [OF this] show ?thesis by (simp add: new_broker_def)
qed

end
