(* ===== verification/Injections.thy ===== *)
theory Injections
  imports Prelude
begin

section \<open>Messages injected into a running conversation (box_agent/injections.py)\<close>

text \<open>
  \<open>MessageInjection\<close>, \<open>parse_queued_injection\<close> and \<open>InjectionManager\<close>, an \<open>asyncio.Queue\<close> with
  a status per identified message. The state keeps the queue, the count of unfinished tasks
  of the queue, the statuses and the fingerprints; a number stands for the fresh run id.
  \<open>aapply_next\<close> is split at its await: \<open>take_next\<close> takes the message from the queue and
  \<open>aapply_finish\<close> runs after the preparation. Parameters: the projection of the input context
  into the text (\<open>project_input_context\<close>) and the two fingerprint functions (SHA-256 of a JSON
  text, and \<open>UserInput.fingerprint\<close>). The flags of \<open>apply_next\<close> and \<open>aapply_finish\<close> say
  whether the callbacks (preparation, image adoption, commit) return or raise.
\<close>

datatype injection_kind =
    USER_SUPPLEMENT | RUNTIME_STATE | PLAN | BUDGET | NO_PROGRESS | TOOL_FEEDBACK | OUTPUT_RECOVERY
  | FINAL_RESPONSE | STREAM_RECOVERY | REQUEST_RECOVERY | TEXT_CONTINUATION | TASK_CONTINUATION

fun kind_value :: "injection_kind \<Rightarrow> string" where
  "kind_value USER_SUPPLEMENT = ''user_supplement''"
| "kind_value RUNTIME_STATE = ''runtime_state''"
| "kind_value PLAN = ''plan''"
| "kind_value BUDGET = ''budget''"
| "kind_value NO_PROGRESS = ''no_progress''"
| "kind_value TOOL_FEEDBACK = ''tool_feedback''"
| "kind_value OUTPUT_RECOVERY = ''output_recovery''"
| "kind_value FINAL_RESPONSE = ''final_response''"
| "kind_value STREAM_RECOVERY = ''stream_recovery''"
| "kind_value REQUEST_RECOVERY = ''request_recovery''"
| "kind_value TEXT_CONTINUATION = ''text_continuation''"
| "kind_value TASK_CONTINUATION = ''task_continuation''"

definition NL :: string where "NL = [char_of (10 :: nat)]"

definition format_injected_message :: "string \<Rightarrow> string" where
  "format_injected_message text =
     ''The user sent the following message while the current task was already running.'' @ NL
     @ ''Treat it as mid-turn guidance, a constraint, or a clarification for the current task, ''
     @ ''not as a new standalone task.'' @ NL
     @ ''If it asks a question, answer it briefly if useful, then continue the original task. ''
     @ ''Do not stop or switch tasks unless the user explicitly asks you to stop, cancel, or change the task.''
     @ NL @ NL @ ''Mid-turn user message:'' @ NL @ text"

definition format_runtime_context_update :: "string \<Rightarrow> string" where
  "format_runtime_context_update text =
     ''The host runtime supplied the following internal state update while the current ''
     @ ''task was running. Treat it as authoritative runtime context, not as a user message. ''
     @ ''Use it when continuing the current task, but do not quote this wrapper to the user.'' @ NL @ NL
     @ ''Runtime state update:'' @ NL @ text"

fun prompt_formatter :: "injection_kind \<Rightarrow> string \<Rightarrow> string" where
  "prompt_formatter USER_SUPPLEMENT = format_injected_message"
| "prompt_formatter STREAM_RECOVERY = id"
| "prompt_formatter REQUEST_RECOVERY = id"
| "prompt_formatter TEXT_CONTINUATION = id"
| "prompt_formatter TASK_CONTINUATION = id"
| "prompt_formatter _ = format_runtime_context_update"

record injection =
  inj_kind :: injection_kind
  content :: string
  injection_id :: "string option"
  user_visible :: "bool option"
  source :: string
  input_context :: pyval
  input_facts :: pyval
  input_images :: "pyval list"

definition source_of :: "injection_kind \<Rightarrow> string" where
  "source_of k = (if k = USER_SUPPLEMENT then ''user'' else ''runtime'')"

datatype inj_error =
    SourceMismatch
  | NotADict
  | NotIterable
  | QueueEmpty
  | NothingToApply
  | IdempotencyConflict
  | NoFingerprint
  | MissingInput
  | TaskDoneTooOften
  | CallbackFailed

definition new_injection ::
  "injection_kind \<Rightarrow> string \<Rightarrow> string option \<Rightarrow> bool option \<Rightarrow> string option \<Rightarrow> pyval \<Rightarrow> pyval \<Rightarrow> pyval list
   \<Rightarrow> inj_error + injection" where
  "new_injection k c i v src ctx facts images =
     (if src \<noteq> None \<and> src \<noteq> Some (source_of k) then Inl SourceMismatch
      else Inr \<lparr>inj_kind = k, content = c, injection_id = i, user_visible = v, source = source_of k,
        input_context = ctx, input_facts = facts, input_images = images\<rparr>)"

record message =
  role :: string
  msg_source :: string
  msg_content :: string
  msg_facts :: pyval

record injected_event =
  ev_content :: string
  ev_kind :: string
  ev_id :: "string option"
  ev_visible :: bool
  ev_status :: "string option"

definition apply_injection ::
  "(string \<Rightarrow> pyval \<Rightarrow> string) \<Rightarrow> injection \<Rightarrow> message list \<Rightarrow> message list \<times> injected_event" where
  "apply_injection project i msgs =
     (let formatted = (if input_facts i \<noteq> PNone then content i
            else prompt_formatter (inj_kind i) (project (content i) (py_or (input_context i) (PDict []))))
      in (msgs @ [\<lparr>role = ''user'', msg_source = source i, msg_content = formatted, msg_facts = input_facts i\<rparr>],
          \<lparr>ev_content = content i, ev_kind = kind_value (inj_kind i), ev_id = injection_id i,
           ev_visible = (case user_visible i of None \<Rightarrow> inj_kind i = USER_SUPPLEMENT | Some v \<Rightarrow> v),
           ev_status = None\<rparr>))"

text \<open>An item of the queue: an injection, a dictionary, or any other object, given by its \<open>str\<close>.\<close>

datatype item = Inj injection | Dict pydict | Other string

definition files_of :: "pyval \<Rightarrow> inj_error + pyval" where
  "files_of v = (case py_or v (PDict []) of PDict d \<Rightarrow> Inr (dget d ''files'') | _ \<Rightarrow> Inl NotADict)"

fun tuple_of :: "pyval \<Rightarrow> pyval list option" where
  "tuple_of (PList xs) = Some xs"
| "tuple_of (PStr s) = Some (map (\<lambda>c. PStr [c]) s)"
| "tuple_of (PDict d) = Some (map (PStr \<circ> fst) d)"
| "tuple_of _ = None"

text \<open>Whether there is anything to inject; the files are looked up only when the rest is empty.\<close>

definition has_payload :: "string \<Rightarrow> pyval \<Rightarrow> pyval \<Rightarrow> inj_error + bool" where
  "has_payload c facts ctx =
     (if c \<noteq> [] \<or> truthy facts then Inr True
      else (case files_of ctx of Inl e \<Rightarrow> Inl e | Inr f \<Rightarrow> Inr (truthy f)))"

definition parse_queued_injection :: "item \<Rightarrow> inj_error + injection option" where
  "parse_queued_injection it = (case it of
     Inj i \<Rightarrow> (case has_payload (content i) (input_facts i) (input_context i) of
         Inl e \<Rightarrow> Inl e | Inr ok \<Rightarrow> Inr (if ok then Some i else None))
   | Other s \<Rightarrow>
       if s = [] then Inr None
       else (case new_injection USER_SUPPLEMENT s None (Some True) None PNone PNone [] of
           Inl e \<Rightarrow> Inl e | Inr i \<Rightarrow> Inr (Some i))
   | Dict d \<Rightarrow>
       (let c = py_str (py_or (dget d ''content'') (PStr []));
            iid = (case dget d ''id'' of PStr s \<Rightarrow> Some s | _ \<Rightarrow> None);
            vis = (case dget d ''user_visible'' of PBool b \<Rightarrow> b | _ \<Rightarrow> True);
            kind = (if dget d ''source'' = PStr ''runtime'' then RUNTIME_STATE else USER_SUPPLEMENT);
            ctx = dget d ''input_context''; facts = dget d ''input_facts''
        in case tuple_of (dget_or d ''input_images'' (PList [])) of
             None \<Rightarrow> Inl NotIterable
           | Some images \<Rightarrow>
               (case has_payload c facts ctx of
                  Inl e \<Rightarrow> Inl e
                | Inr ok \<Rightarrow>
                    if \<not> ok then Inr None
                    else (case new_injection kind c iid (Some vis) None ctx facts images of
                        Inl e \<Rightarrow> Inl e | Inr i \<Rightarrow> Inr (Some i)))))"

subsection \<open>The manager\<close>

datatype injection_status = PENDING | TAKEN | INJECTED | CANCELLED | DISCARDED

record manager =
  queue :: "item list"
  unfinished :: nat
  run_no :: nat
  statuses :: "(string \<times> injection_status) list"
  inputs :: "(string \<times> pyval) list"
  run_finished :: bool

definition new_manager :: manager where
  "new_manager = \<lparr>queue = [], unfinished = 0, run_no = 0, statuses = [], inputs = [], run_finished = False\<rparr>"

record fingerprints =
  fp_fields :: "injection \<Rightarrow> string"
  fp_text :: "string \<Rightarrow> string"

definition status :: "manager \<Rightarrow> string \<Rightarrow> injection_status option" where
  "status m i = map_of (statuses m) i"

definition set_status :: "string option \<Rightarrow> injection_status \<Rightarrow> manager \<Rightarrow> manager" where
  "set_status i st m = (case i of None \<Rightarrow> m | Some k \<Rightarrow> m\<lparr>statuses := AList.update k st (statuses m)\<rparr>)"

fun status_value :: "injection_status \<Rightarrow> string" where
  "status_value PENDING = ''pending''"
| "status_value TAKEN = ''taken''"
| "status_value INJECTED = ''injected''"
| "status_value CANCELLED = ''cancelled''"
| "status_value DISCARDED = ''discarded''"

definition terminal_receipts :: "manager \<Rightarrow> (string \<times> string) list" where
  "terminal_receipts m = map (\<lambda>(i, s). (i, status_value s))
     (filter (\<lambda>(i, s). s = CANCELLED \<or> s = DISCARDED) (statuses m))"

definition receipt :: "manager \<Rightarrow> string \<Rightarrow> pyval \<Rightarrow> inj_error + injection_status option" where
  "receipt m i fp =
     (if status m i \<noteq> None \<and> map_of (inputs m) i \<noteq> Some fp then Inl IdempotencyConflict
      else Inr (status m i))"

definition fingerprint :: "fingerprints \<Rightarrow> injection \<Rightarrow> inj_error + pyval" where
  "fingerprint fp i =
     (if input_facts i \<noteq> PNone
      then (case input_facts i of
          PDict d \<Rightarrow> (case map_of d ''fingerprint'' of None \<Rightarrow> Inl NoFingerprint | Some v \<Rightarrow> Inr v)
        | _ \<Rightarrow> Inl NoFingerprint)
      else if inj_kind i = USER_SUPPLEMENT \<and> \<not> truthy (input_context i) \<and> user_visible i \<noteq> Some False
      then Inr (PStr (fp_text fp (content i)))
      else Inr (PStr (fp_fields fp i)))"

definition put_item :: "item \<Rightarrow> manager \<Rightarrow> manager" where
  "put_item it m = m\<lparr>queue := queue m @ [it], unfinished := unfinished m + 1\<rparr>"

definition task_done :: "manager \<Rightarrow> inj_error + manager" where
  "task_done m = (if unfinished m = 0 then Inl TaskDoneTooOften else Inr (m\<lparr>unfinished := unfinished m - 1\<rparr>))"

definition item_id :: "item \<Rightarrow> string option" where
  "item_id it = (case parse_queued_injection it of Inr (Some i) \<Rightarrow> injection_id i | _ \<Rightarrow> None)"

definition get_nowait :: "manager \<Rightarrow> (inj_error + item) \<times> manager" where
  "get_nowait m = (case queue m of
     [] \<Rightarrow> (Inl QueueEmpty, m)
   | it # rest \<Rightarrow>
       (let m1 = m\<lparr>queue := rest\<rparr>
        in case parse_queued_injection it of
             Inl e \<Rightarrow> (Inl e, m1)
           | Inr _ \<Rightarrow> (Inr it, set_status (item_id it) TAKEN m1)))"

text \<open>The draining loop of \<open>discard_pending\<close> over the queue.\<close>

fun discard_items :: "item list \<Rightarrow> manager \<Rightarrow> (inj_error + item list) \<times> manager" where
  "discard_items [] m = (Inr [], m)"
| "discard_items (it # rest) m =
     (case get_nowait m of
        (Inl e, m1) \<Rightarrow> (Inl e, m1)
      | (Inr x, m1) \<Rightarrow>
          (case task_done m1 of
             Inl e \<Rightarrow> (Inl e, m1)
           | Inr m2 \<Rightarrow>
               (case discard_items rest (set_status (item_id x) DISCARDED m2) of
                  (Inl e, m3) \<Rightarrow> (Inl e, m3) | (Inr xs, m3) \<Rightarrow> (Inr (x # xs), m3))))"

definition discard_pending :: "manager \<Rightarrow> (inj_error + item list) \<times> manager" where
  "discard_pending m = discard_items (queue m) m"

definition begin_run :: "manager \<Rightarrow> bool \<Rightarrow> (inj_error + item list) \<times> manager" where
  "begin_run m discard =
     (case (if discard then discard_pending m else (Inr [], m)) of
        (Inl e, m1) \<Rightarrow> (Inl e, m1)
      | (Inr xs, m1) \<Rightarrow>
          (let kept = filter (\<lambda>(_, s). s = PENDING) (statuses m1)
           in if list_ex (\<lambda>(i, _). map_of (inputs m1) i = None) kept
              then (Inl MissingInput, m1\<lparr>statuses := kept\<rparr>)
              else (Inr xs, m1\<lparr>statuses := kept,
                 inputs := map (\<lambda>(i, _). (i, the (map_of (inputs m1) i))) kept,
                 run_no := run_no m1 + 1, run_finished := False\<rparr>)))"

definition end_run :: "manager \<Rightarrow> (inj_error + unit) \<times> manager" where
  "end_run m = (case discard_pending m of
     (Inl e, m1) \<Rightarrow> (Inl e, m1) | (Inr _, m1) \<Rightarrow> (Inr (), m1\<lparr>run_finished := True\<rparr>))"

definition submit :: "fingerprints \<Rightarrow> manager \<Rightarrow> item \<Rightarrow> (inj_error + bool) \<times> manager" where
  "submit fp m0 it =
     (case parse_queued_injection it of
        Inl e \<Rightarrow> (Inl e, m0)
      | Inr None \<Rightarrow> (Inr False, m0)
      | Inr (Some i) \<Rightarrow>
          (let m = (if run_finished m0 then snd (begin_run m0 False) else m0)
           in case fingerprint fp i of
                Inl e \<Rightarrow> (Inl e, m)
              | Inr f \<Rightarrow>
                  (case injection_id i of
                     None \<Rightarrow> (Inr True, put_item it m)
                   | Some k \<Rightarrow>
                       if status m k \<noteq> None
                       then (case map_of (inputs m) k of
                               None \<Rightarrow> (Inl MissingInput, m)
                             | Some g \<Rightarrow> if f \<noteq> g then (Inl IdempotencyConflict, m) else (Inr False, m))
                       else (Inr True, (put_item it m)
                              \<lparr>statuses := AList.update k PENDING (statuses m),
                               inputs := AList.update k f (inputs m)\<rparr>))))"

definition cancel :: "manager \<Rightarrow> string \<Rightarrow> bool \<times> manager" where
  "cancel m i =
     (if status m i = Some TAKEN then (True, set_status (Some i) CANCELLED m)
      else if status m i \<noteq> Some PENDING then (False, m)
      else (let kept = filter (\<lambda>it. item_id it \<noteq> Some i) (queue m);
                removed = length (queue m) - length kept
            in if removed = 0 then (False, m\<lparr>queue := kept\<rparr>)
               else (True, set_status (Some i) CANCELLED
                      (m\<lparr>queue := kept, unfinished := unfinished m - removed\<rparr>))))"

definition apply_next ::
  "(string \<Rightarrow> pyval \<Rightarrow> string) \<Rightarrow> manager \<Rightarrow> message list \<Rightarrow> bool \<Rightarrow>
   (inj_error + injection \<times> injected_event) \<times> manager \<times> message list" where
  "apply_next project m msgs commit_ok =
     (case get_nowait m of
        (Inl e, m1) \<Rightarrow> (Inl e, m1, msgs)
      | (Inr it, m1) \<Rightarrow>
          (case parse_queued_injection it of
             Inr (Some i) \<Rightarrow>
               (let (msgs', ev) = apply_injection project i msgs;
                    m2 = m1\<lparr>unfinished := unfinished m1 - 1\<rparr>
                in if commit_ok then (Inr (i, ev), set_status (injection_id i) INJECTED m2, msgs')
                   else (Inl CallbackFailed, set_status (injection_id i) DISCARDED m2, msgs))
           | _ \<Rightarrow> (Inl NothingToApply, m1, msgs)))"

definition take_next :: "manager \<Rightarrow> (inj_error + injection) \<times> manager" where
  "take_next m = (case get_nowait m of
     (Inl e, m1) \<Rightarrow> (Inl e, m1)
   | (Inr it, m1) \<Rightarrow> (case parse_queued_injection it of
        Inr (Some i) \<Rightarrow> (Inr i, m1) | _ \<Rightarrow> (Inl NothingToApply, m1)))"

definition aapply_finish ::
  "(string \<Rightarrow> pyval \<Rightarrow> string) \<Rightarrow> manager \<Rightarrow> message list \<Rightarrow> injection \<Rightarrow> bool \<Rightarrow> bool \<Rightarrow> bool \<Rightarrow>
   (inj_error + injection \<times> injected_event) \<times> manager \<times> message list" where
  "aapply_finish project m msgs i prepare_ok cancelled commit_ok =
     (let (msgs', ev) = apply_injection project i msgs;
          m2 = m\<lparr>unfinished := unfinished m - 1\<rparr>
      in if \<not> prepare_ok then (Inl CallbackFailed, set_status (injection_id i) DISCARDED m2, msgs)
         else if cancelled \<or> Option.bind (injection_id i) (status m) = Some CANCELLED
         then (Inr (i, ev\<lparr>ev_status := Some (status_value CANCELLED)\<rparr>), set_status (injection_id i) CANCELLED m2, msgs)
         else if commit_ok then (Inr (i, ev), set_status (injection_id i) INJECTED m2, msgs')
         else (Inl CallbackFailed, set_status (injection_id i) DISCARDED m2, msgs))"

end
