(* ===== verification/InjectionsCorrect.thy ===== *)
theory InjectionsCorrect
  imports Injections
begin

section \<open>Injected messages: at most once, idempotent submission, final cancellation\<close>

text \<open>
  The invariant \<open>inj_inv\<close> says that the queue holds exactly one item of every pending
  identified message and none of any other. It rests on the host calling \<open>begin_run\<close> and
  \<open>end_run\<close> between turns: a history (\<open>msg_exec\<close>) has one message in flight between the steps
  of \<open>aapply_next\<close> and starts or ends a run only when there is none.
\<close>

definition queued :: "manager \<Rightarrow> string \<Rightarrow> nat" where
  "queued m k = length (filter (\<lambda>it. item_id it = Some k) (queue m))"

definition parses :: "item \<Rightarrow> bool" where
  "parses it = (case parse_queued_injection it of Inr (Some _) \<Rightarrow> True | _ \<Rightarrow> False)"

definition inj_inv :: "manager \<Rightarrow> bool" where
  "inj_inv m = (list_all parses (queue m)
     \<and> (\<forall>k. queued m k = (if status m k = Some PENDING then 1 else 0))
     \<and> length (queue m) \<le> unfinished m
     \<and> distinct (map fst (statuses m))
     \<and> fst ` set (statuses m) \<subseteq> fst ` set (inputs m)
     \<and> (run_finished m \<longrightarrow> queue m = []))"

lemma parsesE:
  assumes "parses it"
  obtains i where "parse_queued_injection it = Inr (Some i)" "item_id it = injection_id i"
  using assms by (auto simp: parses_def item_id_def split: sum.splits option.splits)

lemma status_set [simp]:
  "status (set_status i st m) k = (if i = Some k then Some st else status m k)"
  by (auto simp: set_status_def status_def dict_simps split: option.split)

lemma set_status_simps [simp]:
  "queue (set_status i st m) = queue m" "unfinished (set_status i st m) = unfinished m"
  "inputs (set_status i st m) = inputs m" "run_finished (set_status i st m) = run_finished m"
  "distinct (map fst (statuses m)) \<Longrightarrow> distinct (map fst (statuses (set_status i st m)))"
  "fst ` set (statuses (set_status i st m)) = fst ` set (statuses m) \<union> set_option i"
  by (auto simp: set_status_def dict_simps split: option.split)

lemma queued_set_status [simp]: "queued (set_status i st m) k = queued m k"
  by (simp add: queued_def)

lemma status_known: "inj_inv m \<Longrightarrow> status m k \<noteq> None \<Longrightarrow> k \<in> fst ` set (inputs m)"
  by (force simp: inj_inv_def status_def map_of_eq_None_iff)

lemma status_simps [simp]:
  "status (m\<lparr>queue := q\<rparr>) k = status m k" "status (m\<lparr>unfinished := u\<rparr>) k = status m k"
  "status (m\<lparr>inputs := d\<rparr>) k = status m k" "status (m\<lparr>run_finished := f\<rparr>) k = status m k"
  "status (m\<lparr>run_no := r\<rparr>) k = status m k" "status (put_item it m) k = status m k"
  by (simp_all add: status_def put_item_def)

text \<open>Taking the head of the queue.\<close>

lemma get_nowait_inv:
  assumes inv: "inj_inv m" and q: "queue m = it # rest"
  obtains i where "parse_queued_injection it = Inr (Some i)"
    "get_nowait m = (Inr it, set_status (injection_id i) TAKEN (m\<lparr>queue := rest\<rparr>))"
    "\<forall>k. injection_id i = Some k \<longrightarrow> status m k = Some PENDING"
    "inj_inv (set_status (injection_id i) TAKEN (m\<lparr>queue := rest\<rparr>))"
    "item_id it = injection_id i"
proof -
  from inv q have "parses it" by (simp add: inj_inv_def)
  then obtain i where i: "parse_queued_injection it = Inr (Some i)" "item_id it = injection_id i"
    by (rule parsesE)
  have pend: "status m k = Some PENDING" if "injection_id i = Some k" for k
  proof -
    have "0 < queued m k" using that i q by (simp add: queued_def)
    with inv show ?thesis by (auto simp: inj_inv_def split: if_splits)
  qed
  have step: "queued m k = (if injection_id i = Some k then Suc (queued (m\<lparr>queue := rest\<rparr>) k)
      else queued (m\<lparr>queue := rest\<rparr>) k)" for k
    using q i by (simp add: queued_def)
  have cnt: "queued (m\<lparr>queue := rest\<rparr>) k =
      (if status (set_status (injection_id i) TAKEN (m\<lparr>queue := rest\<rparr>)) k = Some PENDING then 1 else 0)" for k
    using inv pend [of k] step [of k] by (auto simp: inj_inv_def split: if_splits)
  have known: "set_option (injection_id i) \<subseteq> fst ` set (inputs m)"
    using pend status_known [OF inv] by (cases "injection_id i") auto
  have "inj_inv (set_status (injection_id i) TAKEN (m\<lparr>queue := rest\<rparr>))"
    using inv q known cnt unfolding inj_inv_def by simp
  with i pend q show thesis by (intro that [of i]) (simp_all add: get_nowait_def)
qed

lemma queued_put: "queued (put_item it m) k = queued m k + (if item_id it = Some k then 1 else 0)"
  by (simp add: queued_def put_item_def)

lemma put_item_simps [simp]:
  "queue (put_item it m) = queue m @ [it]" "unfinished (put_item it m) = Suc (unfinished m)"
  "statuses (put_item it m) = statuses m" "inputs (put_item it m) = inputs m"
  "run_finished (put_item it m) = run_finished m"
  by (simp_all add: put_item_def)

lemma queued_zero: "inj_inv m \<Longrightarrow> status m k = None \<Longrightarrow> queued m k = 0"
  by (simp add: inj_inv_def)

lemma inv_upd [simp]:
  "inj_inv (m\<lparr>run_no := r\<rparr>) = inj_inv m"
  by (simp add: inj_inv_def queued_def)

lemma discard_items_inv:
  "inj_inv m \<Longrightarrow> queue m = q \<Longrightarrow>
   \<exists>xs m'. discard_items q m = (Inr xs, m') \<and> inj_inv m' \<and> queue m' = []
     \<and> (\<forall>k. status m' k = (if status m k = Some PENDING then Some DISCARDED else status m k))
     \<and> inputs m' = inputs m \<and> run_finished m' = run_finished m
     \<and> int (unfinished m') = int (unfinished m) - int (length q) \<and> xs = q"
proof (induction q arbitrary: m)
  case Nil
  then have "status m k \<noteq> Some PENDING" for k by (auto simp: inj_inv_def queued_def split: if_splits)
  with Nil show ?case by (auto intro!: exI [of _ m])
next
  case (Cons it rest)
  obtain i where pq: "parse_queued_injection it = Inr (Some i)"
    and i: "get_nowait m = (Inr it, set_status (injection_id i) TAKEN (m\<lparr>queue := rest\<rparr>))"
    "\<forall>k. injection_id i = Some k \<longrightarrow> status m k = Some PENDING"
    "inj_inv (set_status (injection_id i) TAKEN (m\<lparr>queue := rest\<rparr>))" "item_id it = injection_id i"
    by (rule get_nowait_inv [OF Cons.prems])
  let ?m1 = "set_status (injection_id i) TAKEN (m\<lparr>queue := rest\<rparr>)"
  let ?m3 = "set_status (injection_id i) DISCARDED (?m1\<lparr>unfinished := unfinished m - 1\<rparr>)"
  have u: "unfinished m = Suc (unfinished m - 1)" "length rest \<le> unfinished m - 1"
    using Cons.prems by (auto simp: inj_inv_def)
  have inv3: "inj_inv ?m3"
    using i(3) u Cons.prems(2) by (auto simp: inj_inv_def queued_def)
  from Cons.IH [OF inv3] obtain xs m' where rec:
    "discard_items rest ?m3 = (Inr xs, m')" "inj_inv m'" "queue m' = []"
    "\<forall>k. status m' k = (if status ?m3 k = Some PENDING then Some DISCARDED else status ?m3 k)"
    "inputs m' = inputs m" "run_finished m' = run_finished m"
    "int (unfinished m') = int (unfinished m - 1) - int (length rest)" "xs = rest"
    by auto
  have "discard_items (it # rest) m = (Inr (it # xs), m')"
    using i u rec(1) by (simp add: task_done_def)
  moreover have "status m' k = (if status m k = Some PENDING then Some DISCARDED else status m k)" for k
    using rec(4) i(2) by auto
  moreover have "int (unfinished m') = int (unfinished m) - int (length (it # rest))"
    using rec(7) u by simp
  ultimately show ?case using rec by blast
qed

lemma discard_pending_inv:
  assumes "inj_inv m"
  obtains m' where "discard_pending m = (Inr (queue m), m')" "inj_inv m'" "queue m' = []"
    "\<forall>k. status m' k = (if status m k = Some PENDING then Some DISCARDED else status m k)"
    "inputs m' = inputs m" "run_finished m' = run_finished m"
    "int (unfinished m') = int (unfinished m) - int (length (queue m))"
  using discard_items_inv [OF assms refl] by (auto simp: discard_pending_def)

lemma begin_run_inv:
  assumes "inj_inv m"
  shows "\<exists>xs m'. begin_run m discard = (Inr xs, m') \<and> inj_inv m'
    \<and> (\<forall>k. status m' k = (if \<not> discard \<and> status m k = Some PENDING then Some PENDING else None))
    \<and> \<not> run_finished m' \<and> (\<not> discard \<longrightarrow> unfinished m' = unfinished m \<and> queue m' = queue m)"
proof -
  obtain xs m1 where m1: "(if discard then discard_pending m else (Inr [], m)) = (Inr xs, m1)" "inj_inv m1"
    "\<And>k. status m1 k = Some PENDING \<longleftrightarrow> \<not> discard \<and> status m k = Some PENDING" "\<not> discard \<longrightarrow> m1 = m"
  proof (cases discard)
    case True
    obtain m' where "discard_pending m = (Inr (queue m), m')" "inj_inv m'" "queue m' = []"
      "\<forall>k. status m' k = (if status m k = Some PENDING then Some DISCARDED else status m k)"
      "inputs m' = inputs m" "run_finished m' = run_finished m"
      "int (unfinished m') = int (unfinished m) - int (length (queue m))"
      by (rule discard_pending_inv [OF assms])
    with True show thesis by (intro that [of "queue m" m']) auto
  qed (use assms in \<open>intro that [of "[]" m]\<close>, auto)
  let ?kept = "filter (\<lambda>(_, s). s = PENDING) (statuses m1)"
  have dist: "distinct (map fst (statuses m1))" using m1(2) by (simp add: inj_inv_def)
  have kept: "map_of ?kept k = (if status m1 k = Some PENDING then Some PENDING else None)" for k
    using map_of_filter_vals [OF dist, of "\<lambda>s. s = PENDING"] unfolding status_def
    by (auto split: option.splits)
  have some: "\<not> list_ex (\<lambda>(i, _). map_of (inputs m1) i = None) ?kept"
    using m1(2) by (force simp: list_ex_iff inj_inv_def map_of_eq_None_iff)
  let ?m' = "m1\<lparr>statuses := ?kept, inputs := map (\<lambda>(i, _). (i, the (map_of (inputs m1) i))) ?kept,
                 run_no := run_no m1 + 1, run_finished := False\<rparr>"
  have st: "status ?m' k = (if status m1 k = Some PENDING then Some PENDING else None)" for k
    using kept by (simp add: status_def)
  have "inj_inv ?m'"
    using m1(2) dist st by (auto simp: inj_inv_def queued_def distinct_map_filter image_iff)
  moreover have "begin_run m discard = (Inr xs, ?m')"
    using m1(1) some by (simp add: begin_run_def Let_def)
  ultimately show ?thesis using m1(3,4) st by auto
qed

lemma end_run_inv:
  assumes "inj_inv m"
  obtains m' where "end_run m = (Inr (), m')" "inj_inv m'" "queue m' = []"
    "\<forall>k. status m' k = (if status m k = Some PENDING then Some DISCARDED else status m k)"
proof -
  obtain m1 where m1: "discard_pending m = (Inr (queue m), m1)" "inj_inv m1" "queue m1 = []"
    "\<forall>k. status m1 k = (if status m k = Some PENDING then Some DISCARDED else status m k)"
    "inputs m1 = inputs m" "run_finished m1 = run_finished m"
    "int (unfinished m1) = int (unfinished m) - int (length (queue m))"
    by (rule discard_pending_inv [OF assms])
  then show thesis
    by (intro that [of "m1\<lparr>run_finished := True\<rparr>"]) (auto simp: end_run_def inj_inv_def queued_def)
qed

lemma submit_inv:
  assumes inv: "inj_inv m" and s: "submit fp m it = (r, m')"
  shows "inj_inv m' \<and> (r = Inr True \<or> (\<exists>d. queue m' = queue m))
    \<and> (\<not> run_finished m \<longrightarrow> \<not> run_finished m' \<and> unfinished m' + length (queue m) = unfinished m + length (queue m')
        \<and> (\<forall>k. status m k \<noteq> None \<longrightarrow> status m' k = status m k))"
proof (cases "parse_queued_injection it")
  case (Inr o_i)
  show ?thesis
  proof (cases o_i)
    case (Some i)
    define m1 where "m1 = (if run_finished m then snd (begin_run m False) else m)"
    have m1: "inj_inv m1" "\<not> run_finished m1" "queue m1 = queue m" "\<not> run_finished m \<longrightarrow> m1 = m"
      using begin_run_inv [OF inv, of False] inv by (auto simp: m1_def)
    have parses: "parses it" "item_id it = injection_id i"
      using Inr Some by (simp_all add: parses_def item_id_def)
    have eq: "(r, m') = (case fingerprint fp i of
                Inl e \<Rightarrow> (Inl e, m1)
              | Inr f \<Rightarrow>
                  (case injection_id i of
                     None \<Rightarrow> (Inr True, put_item it m1)
                   | Some k \<Rightarrow>
                       if status m1 k \<noteq> None
                       then (case map_of (inputs m1) k of
                               None \<Rightarrow> (Inl MissingInput, m1)
                             | Some g \<Rightarrow> if f \<noteq> g then (Inl IdempotencyConflict, m1) else (Inr False, m1))
                       else (Inr True, (put_item it m1)
                              \<lparr>statuses := AList.update k PENDING (statuses m1),
                               inputs := AList.update k f (inputs m1)\<rparr>)))"
      unfolding s [symmetric] submit_def m1_def Let_def by (simp add: Inr Some)
    show ?thesis
    proof (cases "m' = m1")
      case True
      with m1 show ?thesis by auto
    next
      case False
      with eq obtain f where f: "fingerprint fp i = Inr f" "r = Inr True"
        "(injection_id i = None \<and> m' = put_item it m1) \<or> (\<exists>k. injection_id i = Some k \<and> status m1 k = None
          \<and> m' = (put_item it m1)\<lparr>statuses := AList.update k PENDING (statuses m1),
                               inputs := AList.update k f (inputs m1)\<rparr>)"
        by (auto split: sum.splits option.splits if_splits)
      from f(3) have "inj_inv m'"
      proof (elim disjE conjE exE)
        assume "injection_id i = None" "m' = put_item it m1"
        with m1(1,2) parses show ?thesis by (simp add: inj_inv_def queued_put)
      next
        fix k
        assume k: "injection_id i = Some k" "status m1 k = None"
          "m' = (put_item it m1)\<lparr>statuses := AList.update k PENDING (statuses m1),
                               inputs := AList.update k f (inputs m1)\<rparr>"
        have st: "status m' k' = (if k' = k then Some PENDING else status m1 k')" for k'
          by (simp add: k(3) status_def dict_simps)
        have q: "queued m' k' = queued m1 k' + (if k' = k then 1 else 0)" for k'
          using parses k(1) by (auto simp: k(3) queued_def put_item_def)
        show ?thesis
          using m1(1,2) parses(1) queued_zero [OF m1(1) k(2)] k(2) unfolding inj_inv_def st q
          by (auto simp: k(3) put_item_def dict_simps)
      qed
      moreover have "queue m' = queue m1 @ [it]" "unfinished m' = Suc (unfinished m1)" "run_finished m' = run_finished m1"
        "\<forall>k. status m1 k \<noteq> None \<longrightarrow> status m' k = status m1 k"
        using f(3) by (auto simp: put_item_def status_def dict_simps)
      ultimately show ?thesis using f(2) m1 by auto
    qed
  qed (use s Inr inv in \<open>auto simp: submit_def\<close>)
qed (use s inv in \<open>auto simp: submit_def\<close>)

lemma cancel_inv:
  assumes inv: "inj_inv m" and c: "cancel m i = (r, m')"
  shows "inj_inv m' \<and> run_finished m' = run_finished m
    \<and> int (unfinished m') - int (length (queue m')) = int (unfinished m) - int (length (queue m))
    \<and> (r \<longrightarrow> status m' i = Some CANCELLED \<and> status m i \<in> {Some TAKEN, Some PENDING})
    \<and> (\<not> r \<longrightarrow> (\<forall>k. status m' k = status m k))
    \<and> (\<forall>k. k \<noteq> i \<longrightarrow> status m' k = status m k)"
proof -
  let ?kept = "filter (\<lambda>it. item_id it \<noteq> Some i) (queue m)"
  have len: "length (queue m) = queued m i + length ?kept"
    unfolding queued_def by (simp add: sum_length_filter_compl)
  have qk: "queued (m\<lparr>queue := ?kept, unfinished := u\<rparr>) k = (if k = i then 0 else queued m k)" for k u
    by (auto simp: queued_def intro!: arg_cong [of _ _ length] filter_cong)
  consider "status m i = Some TAKEN" | "status m i = Some PENDING" | "status m i \<notin> {Some TAKEN, Some PENDING}"
    by blast
  then show ?thesis
  proof cases
    case 1
    then have "r" "m' = set_status (Some i) CANCELLED m" using c by (auto simp: cancel_def)
    with 1 inv status_known [OF inv, of i] show ?thesis by (auto simp: inj_inv_def)
  next
    case 2
    with inv have one: "queued m i = 1" by (simp add: inj_inv_def)
    with 2 len c have m': "r" "m' = set_status (Some i) CANCELLED
        (m\<lparr>queue := ?kept, unfinished := unfinished m - 1\<rparr>)"
      by (auto simp: cancel_def Let_def)
    have u: "length (queue m) \<le> unfinished m" using inv by (simp add: inj_inv_def)
    have "inj_inv m'"
      using inv 2 len one u status_known [OF inv, of i] qk unfolding m'(2) inj_inv_def
      by (auto simp: list_all_iff)
    with m' 2 len one u show ?thesis by auto
  next
    case 3
    then have "m' = m" "\<not> r" using c by (auto simp: cancel_def)
    with inv show ?thesis by simp
  qed
qed

subsection \<open>Histories of one run\<close>

record inj_state =
  mgr :: manager
  messages :: "message list"
  inflight :: "injection option"

datatype msg_op =
    Submit item
  | GetDone
  | CancelMsg string
  | DiscardPending
  | ApplyNow bool
  | Take
  | FinishTaken bool bool bool

text \<open>The answer of an operation is the list of the identified messages it appended to the
  conversation.\<close>

fun msg_exec ::
  "fingerprints \<Rightarrow> (string \<Rightarrow> pyval \<Rightarrow> string) \<Rightarrow> inj_state \<Rightarrow> msg_op \<Rightarrow> string list \<times> inj_state" where
  "msg_exec fp pr s (Submit it) = ([], s\<lparr>mgr := snd (submit fp (mgr s) it)\<rparr>)"
| "msg_exec fp pr s GetDone =
     ([], s\<lparr>mgr := (case get_nowait (mgr s) of
        (Inl _, m) \<Rightarrow> m | (Inr _, m) \<Rightarrow> (case task_done m of Inl _ \<Rightarrow> m | Inr m' \<Rightarrow> m'))\<rparr>)"
| "msg_exec fp pr s (CancelMsg k) = ([], s\<lparr>mgr := snd (cancel (mgr s) k)\<rparr>)"
| "msg_exec fp pr s DiscardPending = ([], s\<lparr>mgr := snd (discard_pending (mgr s))\<rparr>)"
| "msg_exec fp pr s (ApplyNow ok) =
     (if inflight s \<noteq> None then ([], s)
      else (case apply_next pr (mgr s) (messages s) ok of
        (r, m, msgs) \<Rightarrow> (case r of Inr (i, _) \<Rightarrow> (case injection_id i of None \<Rightarrow> [] | Some k \<Rightarrow> [k]) | Inl _ \<Rightarrow> [],
                        s\<lparr>mgr := m, messages := msgs\<rparr>)))"
| "msg_exec fp pr s Take =
     (if inflight s \<noteq> None then ([], s)
      else (case take_next (mgr s) of
        (Inl _, m) \<Rightarrow> ([], s\<lparr>mgr := m\<rparr>) | (Inr i, m) \<Rightarrow> ([], s\<lparr>mgr := m, inflight := Some i\<rparr>)))"
| "msg_exec fp pr s (FinishTaken prepared cancelled ok) =
     (case inflight s of
        None \<Rightarrow> ([], s)
      | Some i \<Rightarrow> (case aapply_finish pr (mgr s) (messages s) i prepared cancelled ok of
          (r, m, msgs) \<Rightarrow> (case r of
              Inr (_, ev) \<Rightarrow> (if ev_status ev = None then (case injection_id i of None \<Rightarrow> [] | Some k \<Rightarrow> [k]) else [])
            | Inl _ \<Rightarrow> [],
            s\<lparr>mgr := m, messages := msgs, inflight := None\<rparr>)))"

definition gone :: "inj_state \<Rightarrow> string \<Rightarrow> bool" where
  "gone s k = (status (mgr s) k \<in> {Some INJECTED, Some CANCELLED, Some DISCARDED})"

definition msg_ok :: "inj_state \<Rightarrow> bool" where
  "msg_ok s = (inj_inv (mgr s) \<and> \<not> run_finished (mgr s)
     \<and> length (queue (mgr s)) + (if inflight s = None then 0 else 1) \<le> unfinished (mgr s)
     \<and> (\<forall>k. Option.bind (inflight s) injection_id = Some k
          \<longrightarrow> status (mgr s) k \<in> {Some TAKEN, Some CANCELLED}))"

lemma apply_next_step:
  assumes inv: "inj_inv m" and a: "apply_next pr m msgs ok = (r, m', msgs')"
  shows "(queue m = [] \<and> m' = m \<and> (\<exists>e. r = Inl e))
    \<or> (\<exists>i. inj_inv m' \<and> run_finished m' = run_finished m
        \<and> length (queue m') + unfinished m = unfinished m' + length (queue m)
        \<and> (\<forall>k. injection_id i = Some k \<longrightarrow> status m k = Some PENDING)
        \<and> (\<forall>k. status m' k = (if injection_id i = Some k then Some (if ok then INJECTED else DISCARDED) else status m k))
        \<and> (if ok then (\<exists>ev. r = Inr (i, ev)) else (\<exists>e. r = Inl e)))"
proof (cases "queue m")
  case Nil
  with a show ?thesis by (auto simp: apply_next_def get_nowait_def)
next
  case (Cons it rest)
  obtain i where i: "parse_queued_injection it = Inr (Some i)"
    "get_nowait m = (Inr it, set_status (injection_id i) TAKEN (m\<lparr>queue := rest\<rparr>))"
    "\<forall>k. injection_id i = Some k \<longrightarrow> status m k = Some PENDING"
    "inj_inv (set_status (injection_id i) TAKEN (m\<lparr>queue := rest\<rparr>))" "item_id it = injection_id i"
    by (rule get_nowait_inv [OF inv Cons])
  let ?m1 = "set_status (injection_id i) TAKEN (m\<lparr>queue := rest\<rparr>)"
  let ?st = "if ok then INJECTED else DISCARDED"
  have u: "Suc (length rest) \<le> unfinished m" using inv Cons by (simp add: inj_inv_def)
  have m': "m' = set_status (injection_id i) ?st (?m1\<lparr>unfinished := unfinished m - 1\<rparr>)"
    "if ok then (\<exists>ev. r = Inr (i, ev)) else (\<exists>e. r = Inl e)"
    using a i(1,2) by (auto simp: apply_next_def Let_def split_beta split: if_splits)
  have "inj_inv m'"
    using i(4) u Cons unfolding m'(1) by (auto simp: inj_inv_def queued_def)
  with m' i(3) u Cons show ?thesis by (intro disjI2 exI [of _ i]) auto
qed

lemma finish_step:
  assumes inv: "inj_inv m" and a: "aapply_finish pr m msgs i prepared cancelled ok = (r, m', msgs')"
    and st: "\<forall>k. injection_id i = Some k \<longrightarrow> status m k \<in> {Some TAKEN, Some CANCELLED}"
    and u: "length (queue m) < unfinished m"
  shows "inj_inv m' \<and> run_finished m' = run_finished m \<and> length (queue m') \<le> unfinished m'
    \<and> (\<exists>t. (\<forall>k. status m' k = (if injection_id i = Some k then Some t else status m k))
         \<and> t \<in> {INJECTED, CANCELLED, DISCARDED}
         \<and> (case r of Inl _ \<Rightarrow> True | Inr (j, ev) \<Rightarrow> j = i \<and>
               (ev_status ev = None \<longrightarrow> t = INJECTED \<and> Option.bind (injection_id i) (status m) \<noteq> Some CANCELLED)))"
proof -
  obtain t where m': "m' = set_status (injection_id i) t (m\<lparr>unfinished := unfinished m - 1\<rparr>)"
    "t \<in> {INJECTED, CANCELLED, DISCARDED}"
    "case r of Inl _ \<Rightarrow> True | Inr (j, ev) \<Rightarrow> j = i \<and>
       (ev_status ev = None \<longrightarrow> t = INJECTED \<and> Option.bind (injection_id i) (status m) \<noteq> Some CANCELLED)"
    using a by (auto simp: aapply_finish_def Let_def split_beta split: if_splits)
  have known: "set_option (injection_id i) \<subseteq> fst ` set (inputs m)"
    using st status_known [OF inv] by (cases "injection_id i") auto
  have none: "status m k \<noteq> Some PENDING" if "injection_id i = Some k" for k
    using that st by auto
  have "inj_inv m'"
    using inv u known none m'(2) unfolding m'(1) by (auto simp: inj_inv_def queued_def)
  with m' u show ?thesis by auto
qed

text \<open>What every operation of a run guarantees: the invariant, and that a message is appended
  to the conversation only while it is not gone, and is gone from then on.\<close>

definition good_step :: "inj_state \<Rightarrow> string list \<times> inj_state \<Rightarrow> bool" where
  "good_step s r = (msg_ok (snd r) \<and> (\<forall>k. gone s k \<longrightarrow> gone (snd r) k)
     \<and> (\<forall>k \<in> set (fst r). \<not> gone s k \<and> gone (snd r) k) \<and> distinct (fst r))"

lemma msg_ok_inv: "msg_ok s \<Longrightarrow> inj_inv (mgr s)" "msg_ok s \<Longrightarrow> \<not> run_finished (mgr s)"
  by (simp_all add: msg_ok_def)

lemma submit_good:
  assumes ok: "msg_ok s"
  shows "good_step s (msg_exec fp pr s (Submit it))"
proof -
  note inv = msg_ok_inv [OF ok]
  obtain r m' where s: "submit fp (mgr s) it = (r, m')" by fastforce
  from submit_inv [OF inv(1) s] inv(2)
  have m': "inj_inv m'" "\<not> run_finished m'"
    "unfinished m' + length (queue (mgr s)) = unfinished (mgr s) + length (queue m')"
    "\<And>k. status (mgr s) k \<noteq> None \<Longrightarrow> status m' k = status (mgr s) k" by auto
  have "\<forall>k. Option.bind (inflight s) injection_id = Some k \<longrightarrow> status m' k \<in> {Some TAKEN, Some CANCELLED}"
    using ok m'(4) by (force simp: msg_ok_def)
  with m' ok s show ?thesis by (auto simp: good_step_def msg_ok_def gone_def)
qed

lemma get_good:
  assumes ok: "msg_ok s"
  shows "good_step s (msg_exec fp pr s GetDone)"
proof -
  note inv = msg_ok_inv [OF ok]
  show ?thesis
  proof (cases "queue (mgr s)")
    case Nil
    with ok show ?thesis by (simp add: good_step_def get_nowait_def)
  next
    case (Cons it rest)
    obtain i where i: "parse_queued_injection it = Inr (Some i)"
      "get_nowait (mgr s) = (Inr it, set_status (injection_id i) TAKEN ((mgr s)\<lparr>queue := rest\<rparr>))"
      "\<forall>k. injection_id i = Some k \<longrightarrow> status (mgr s) k = Some PENDING"
      "inj_inv (set_status (injection_id i) TAKEN ((mgr s)\<lparr>queue := rest\<rparr>))" "item_id it = injection_id i"
      by (rule get_nowait_inv [OF inv(1) Cons])
    let ?m1 = "set_status (injection_id i) TAKEN ((mgr s)\<lparr>queue := rest\<rparr>)"
    have u: "Suc (length rest + (if inflight s = None then 0 else 1)) \<le> unfinished (mgr s)"
      using ok Cons by (simp add: msg_ok_def)
    have e: "snd (msg_exec fp pr s GetDone) = s\<lparr>mgr := ?m1\<lparr>unfinished := unfinished (mgr s) - 1\<rparr>\<rparr>"
      using i u by (simp add: task_done_def)
    have "inj_inv (?m1\<lparr>unfinished := unfinished (mgr s) - 1\<rparr>)"
      using i(4) u by (auto simp: inj_inv_def queued_def)
    with ok u i(3) show ?thesis
      unfolding good_step_def e by (auto simp: msg_ok_def gone_def)
  qed
qed

lemma cancel_good:
  assumes ok: "msg_ok s"
  shows "good_step s (msg_exec fp pr s (CancelMsg k))"
proof -
  note inv = msg_ok_inv [OF ok]
  obtain r m' where c: "cancel (mgr s) k = (r, m')" by fastforce
  note ci = cancel_inv [OF inv(1) c]
  have "int (length (queue m')) + (if inflight s = None then 0 else 1) \<le> int (unfinished m')"
    using ci ok by (auto simp: msg_ok_def split: if_splits)
  moreover have "\<forall>k'. Option.bind (inflight s) injection_id = Some k'
      \<longrightarrow> status m' k' \<in> {Some TAKEN, Some CANCELLED}"
  proof (intro allI impI)
    fix k' assume "Option.bind (inflight s) injection_id = Some k'"
    with ok have "status (mgr s) k' \<in> {Some TAKEN, Some CANCELLED}" by (simp add: msg_ok_def)
    with ci show "status m' k' \<in> {Some TAKEN, Some CANCELLED}" by (cases r; cases "k' = k") auto
  qed
  ultimately have "msg_ok (s\<lparr>mgr := m'\<rparr>)" using ci inv(2) by (auto simp: msg_ok_def split: if_splits)
  moreover have "gone s k' \<Longrightarrow> gone (s\<lparr>mgr := m'\<rparr>) k'" for k'
    using ci by (cases r; cases "k' = k") (auto simp: gone_def)
  ultimately show ?thesis using c by (simp add: good_step_def)
qed

lemma discard_good:
  assumes ok: "msg_ok s"
  shows "good_step s (msg_exec fp pr s DiscardPending)"
proof -
  note inv = msg_ok_inv [OF ok]
  obtain m' where m': "discard_pending (mgr s) = (Inr (queue (mgr s)), m')" "inj_inv m'" "queue m' = []"
    "\<forall>k. status m' k = (if status (mgr s) k = Some PENDING then Some DISCARDED else status (mgr s) k)"
    "inputs m' = inputs (mgr s)" "run_finished m' = run_finished (mgr s)"
    "int (unfinished m') = int (unfinished (mgr s)) - int (length (queue (mgr s)))"
    by (rule discard_pending_inv [OF inv(1)])
  with ok show ?thesis
    by (auto simp: good_step_def msg_ok_def gone_def split: if_splits)
qed

lemma apply_good:
  assumes ok: "msg_ok s"
  shows "good_step s (msg_exec fp pr s (ApplyNow c))"
proof -
  note inv = msg_ok_inv [OF ok]
  show ?thesis
  proof (cases "inflight s")
    case None
    obtain r m' msgs where a: "apply_next pr (mgr s) (messages s) c = (r, m', msgs)"
      by (cases "apply_next pr (mgr s) (messages s) c") auto
    from apply_next_step [OF inv(1) a] show ?thesis
      using ok None a
      by (elim disjE exE conjE) (auto simp: good_step_def msg_ok_def gone_def split: if_splits option.splits)
  qed (use ok in \<open>simp add: good_step_def\<close>)
qed

lemma take_good:
  assumes ok: "msg_ok s"
  shows "good_step s (msg_exec fp pr s Take)"
proof -
  note inv = msg_ok_inv [OF ok]
  show ?thesis
  proof (cases "inflight s = None \<and> queue (mgr s) \<noteq> []")
    case True
    then obtain it rest where q: "queue (mgr s) = it # rest" by (cases "queue (mgr s)") auto
    obtain i where i: "parse_queued_injection it = Inr (Some i)"
      "get_nowait (mgr s) = (Inr it, set_status (injection_id i) TAKEN ((mgr s)\<lparr>queue := rest\<rparr>))"
      "\<forall>k. injection_id i = Some k \<longrightarrow> status (mgr s) k = Some PENDING"
      "inj_inv (set_status (injection_id i) TAKEN ((mgr s)\<lparr>queue := rest\<rparr>))" "item_id it = injection_id i"
      by (rule get_nowait_inv [OF inv(1) q])
    with True ok q show ?thesis
      by (auto simp: good_step_def take_next_def msg_ok_def gone_def)
  next
    case False
    with ok show ?thesis by (auto simp: good_step_def take_next_def get_nowait_def)
  qed
qed

lemma finish_good:
  assumes ok: "msg_ok s"
  shows "good_step s (msg_exec fp pr s (FinishTaken p x c))"
proof -
  note inv = msg_ok_inv [OF ok]
  show ?thesis
  proof (cases "inflight s")
    case (Some i)
    obtain r m' msgs where a: "aapply_finish pr (mgr s) (messages s) i p x c = (r, m', msgs)"
      by (cases "aapply_finish pr (mgr s) (messages s) i p x c") auto
    have st: "\<forall>k. injection_id i = Some k \<longrightarrow> status (mgr s) k \<in> {Some TAKEN, Some CANCELLED}"
      and u: "length (queue (mgr s)) < unfinished (mgr s)"
      using ok Some by (simp_all add: msg_ok_def)
    from finish_step [OF inv(1) a st u] obtain t where t: "inj_inv m'" "run_finished m' = run_finished (mgr s)"
      "length (queue m') \<le> unfinished m'"
      "\<forall>k. status m' k = (if injection_id i = Some k then Some t else status (mgr s) k)"
      "t \<in> {INJECTED, CANCELLED, DISCARDED}"
      "case r of Inl _ \<Rightarrow> True | Inr (j, ev) \<Rightarrow> j = i \<and>
             (ev_status ev = None \<longrightarrow> t = INJECTED \<and> Option.bind (injection_id i) (status (mgr s)) \<noteq> Some CANCELLED)"
      by blast
    define s' where s': "s' = s\<lparr>mgr := m', messages := msgs, inflight := None\<rparr>"
    have e: "msg_exec fp pr s (FinishTaken p x c) = (case r of
            Inr (_, ev) \<Rightarrow> (if ev_status ev = None then (case injection_id i of None \<Rightarrow> [] | Some k \<Rightarrow> [k]) else [])
          | Inl _ \<Rightarrow> [], s')"
      using Some a by (simp add: s')
    have ok': "msg_ok s'" using t(1-3) inv(2) by (simp add: msg_ok_def s')
    have gone: "gone s k \<Longrightarrow> gone s' k" for k
      using t(4,5) by (auto simp: gone_def s')
    have out: "\<not> gone s k \<and> gone s' k"
      if "r = Inr (j, ev)" "ev_status ev = None" "injection_id i = Some k" for j ev k
      using t(4,6) st that by (auto simp: gone_def s')
    show ?thesis
    proof (cases "\<exists>j ev k. r = Inr (j, ev) \<and> ev_status ev = None \<and> injection_id i = Some k")
      case True
      then obtain j ev k where r: "r = Inr (j, ev)" "ev_status ev = None" "injection_id i = Some k" by blast
      from out [OF r] ok' gone show ?thesis unfolding good_step_def e by (simp add: r)
    next
      case False
      then have "msg_exec fp pr s (FinishTaken p x c) = ([], s')"
        unfolding e by (cases r; cases "injection_id i") (auto split: prod.splits)
      with ok' gone show ?thesis by (simp add: good_step_def del: msg_exec.simps)
    qed
  qed (use ok in \<open>simp add: good_step_def\<close>)
qed

lemmas msg_good = submit_good get_good cancel_good discard_good apply_good take_good finish_good

lemma msg_step_good: "msg_ok s \<Longrightarrow> good_step s (msg_exec fp pr s op)"
  using msg_good [of s] by (cases op) blast+

interpretation msgs: one_shot "msg_exec fp pr" gone msg_ok for fp pr
  using msg_step_good [unfolded good_step_def] by unfold_locales blast+

subsection \<open>Receipts\<close>

definition known :: "manager \<Rightarrow> string \<Rightarrow> pyval \<Rightarrow> bool" where
  "known m k f = (status m k \<noteq> None \<and> map_of (inputs m) k = Some f)"

lemma known_set_status: "known m k f \<Longrightarrow> known (set_status i st m) k f"
  by (simp add: known_def)

lemma known_upd [simp]:
  "known (m\<lparr>queue := q\<rparr>) k f = known m k f" "known (m\<lparr>unfinished := u\<rparr>) k f = known m k f"
  by (simp_all add: known_def)

lemma known_get: "known m k f \<Longrightarrow> known (snd (get_nowait m)) k f"
  by (auto simp: get_nowait_def Let_def known_set_status split: list.splits sum.splits)

lemma known_discard: "known m k f \<Longrightarrow> inj_inv m \<Longrightarrow> known (snd (discard_pending m)) k f"
  using discard_items_inv [of m "queue m"] by (auto simp: discard_pending_def known_def)

lemma known_submit: "known m k f \<Longrightarrow> \<not> run_finished m \<Longrightarrow> known (snd (submit fp m it)) k f"
  by (auto simp: submit_def known_def status_def dict_simps Let_def split: sum.splits option.splits)

lemma known_step:
  assumes ok: "msg_ok s" and k: "known (mgr s) k f"
  shows "known (mgr (snd (msg_exec fp pr s op))) k f"
proof (cases op)
  case GetDone
  with known_get [OF k] show ?thesis
    by (auto simp: task_done_def split: prod.splits sum.splits)
next
  case (CancelMsg i)
  with k show ?thesis by (auto simp: cancel_def Let_def known_set_status)
next
  case (ApplyNow c)
  have "known (fst (snd (apply_next pr (mgr s) (messages s) c))) k f"
    using known_get [OF k]
    by (auto simp: apply_next_def Let_def known_set_status split: prod.splits sum.splits option.splits)
  with ApplyNow k show ?thesis by (auto split: prod.splits)
next
  case Take
  have "known (snd (take_next (mgr s))) k f"
    using known_get [OF k] by (auto simp: take_next_def split: prod.splits sum.splits option.splits)
  with Take k show ?thesis by (auto split: prod.splits sum.splits)
next
  case (FinishTaken p x c)
  have "known m' k f" if "aapply_finish pr (mgr s) (messages s) i p x c = (r, m', ms)" for i r m' ms
    using k that by (auto simp: aapply_finish_def Let_def known_set_status split: prod.splits if_splits)
  with FinishTaken k show ?thesis by (auto split: option.splits prod.splits)
qed (use ok k in \<open>simp_all add: known_submit known_discard msg_ok_inv\<close>)

lemma submit_known:
  assumes "parse_queued_injection it = Inr (Some i)" "fingerprint fp i = Inr f" "injection_id i = Some k"
    and "known m k g" "\<not> run_finished m"
  shows "submit fp m it = (if f = g then Inr False else Inl IdempotencyConflict, m)"
  using assms by (auto simp: submit_def known_def)

lemma submit_accepted_known:
  assumes "parse_queued_injection it = Inr (Some i)" "fingerprint fp i = Inr f" "injection_id i = Some k"
    and "submit fp m it = (Inr True, m')"
  shows "known m' k f"
  using assms by (auto simp: submit_def known_def status_def dict_simps Let_def split: option.splits if_splits)

subsection \<open>Properties\<close>

fun msg_out ::
  "fingerprints \<Rightarrow> (string \<Rightarrow> pyval \<Rightarrow> string) \<Rightarrow> inj_state \<Rightarrow> msg_op list \<Rightarrow> string list" where
  "msg_out fp pr s [] = []"
| "msg_out fp pr s (op # ops) = fst (msg_exec fp pr s op) @ msg_out fp pr (snd (msg_exec fp pr s op)) ops"

fun msg_state ::
  "fingerprints \<Rightarrow> (string \<Rightarrow> pyval \<Rightarrow> string) \<Rightarrow> inj_state \<Rightarrow> msg_op list \<Rightarrow> inj_state" where
  "msg_state fp pr s [] = s"
| "msg_state fp pr s (op # ops) = msg_state fp pr (snd (msg_exec fp pr s op)) ops"

definition new_state :: inj_state where
  "new_state = \<lparr>mgr = new_manager, messages = [], inflight = None\<rparr>"

lemma new_state_ok: "msg_ok new_state"
  by (simp add: msg_ok_def new_state_def new_manager_def inj_inv_def queued_def status_def)

lemma msg_out_eq: "msg_out fp pr s ops = msgs.given fp pr s ops"
  by (induction fp pr s ops rule: msg_out.induct) simp_all

lemma msg_state_ok: "msg_ok s \<Longrightarrow> msg_ok (msg_state fp pr s ops)"
  by (induction fp pr s ops rule: msg_state.induct) (auto dest: msgs.ok_kept simp del: msg_exec.simps)

lemma msg_state_known: "msg_ok s \<Longrightarrow> known (mgr s) k f \<Longrightarrow> known (mgr (msg_state fp pr s ops)) k f"
  by (induction fp pr s ops rule: msg_state.induct)
    (auto dest: msgs.ok_kept known_step simp del: msg_exec.simps)



definition sample_item :: item where
  "sample_item = Dict [(''content'', PStr ''stop''), (''id'', PStr ''a'')]"

definition sample_fp :: fingerprints where
  "sample_fp = \<lparr>fp_fields = content, fp_text = id\<rparr>"


text \<open>Submission is idempotent within a run: after an identified message was accepted, any
  later submission of its id is refused without effect, as a duplicate when its fingerprint
  is the same and as a conflict when it differs.\<close>

theorem inj_resubmit:
  assumes "parse_queued_injection it = Inr (Some i)" "fingerprint fp i = Inr f" "injection_id i = Some k"
    and "parse_queued_injection it2 = Inr (Some i2)" "fingerprint fp i2 = Inr f2" "injection_id i2 = Some k"
    and "s = msg_state fp pr new_state ops" "fst (submit fp (mgr s) it) = Inr True"
    and "m = mgr (msg_state fp pr s (Submit it # later))"
  shows "submit fp m it2 = (if f2 = f then Inr False else Inl IdempotencyConflict, m)"
proof -
  let ?s1 = "snd (msg_exec fp pr s (Submit it))"
  have ok: "msg_ok s" unfolding assms(7) by (rule msg_state_ok [OF new_state_ok])
  then have ok1: "msg_ok ?s1" by (rule msgs.ok_kept)
  obtain m1 where "submit fp (mgr s) it = (Inr True, m1)"
    using assms(8) by (cases "submit fp (mgr s) it") auto
  with submit_accepted_known [OF assms(1-3)] have "known (mgr ?s1) k f" by simp
  from msg_state_known [OF ok1 this] have "known m k f"
    by (simp add: assms(9))
  moreover have "\<not> run_finished m"
    using msg_state_ok [OF ok] by (simp add: assms(9) msg_ok_inv del: msg_state.simps)
  ultimately show ?thesis by (rule submit_known [OF assms(4-6)])
qed

theorem inj_resubmit_witness:
  "fst (submit sample_fp (mgr (msg_state sample_fp (\<lambda>s _. s) new_state [Submit sample_item, ApplyNow True])) sample_item)
     = Inr False"
proof -
  obtain i where i: "parse_queued_injection sample_item = Inr (Some i)" "injection_id i = Some ''a''"
    "fingerprint sample_fp i = Inr (PStr ''stop'')"
    by (simp add: sample_item_def sample_fp_def parse_queued_injection_def new_injection_def dget_def dget_or_def
        py_or_def has_payload_def fingerprint_def)
  have "fst (submit sample_fp (mgr (msg_state sample_fp (\<lambda>s _. s) new_state [])) sample_item) = Inr True"
    by code_simp
  from inj_resubmit [OF i(1,3,2,1,3,2) refl this refl, of "[ApplyNow True]"]
  have "submit sample_fp (mgr (msg_state sample_fp (\<lambda>s _. s) (msg_state sample_fp (\<lambda>s _. s) new_state [])
      [Submit sample_item, ApplyNow True])) sample_item = (Inr False,
      mgr (msg_state sample_fp (\<lambda>s _. s) (msg_state sample_fp (\<lambda>s _. s) new_state []) [Submit sample_item, ApplyNow True]))"
    by simp
  then show ?thesis by (simp only: msg_state.simps(1) fst_conv)
qed

text \<open>The end of a run answers for every message: nothing is left in the queue, exactly the
  pending messages become discarded, and the next run knows none of the ids.\<close>

theorem inj_run_boundary:
  "(let m = mgr (msg_state fp pr new_state ops); (r, m1) = end_run m; (r2, m2) = begin_run m1 False
    in r = Inr () \<and> queue m1 = [] \<and> r2 = Inr [] \<and> queue m2 = [] \<and> status m2 k = None
       \<and> status m1 k = (if status m k = Some PENDING then Some DISCARDED else status m k))"
proof -
  let ?m = "mgr (msg_state fp pr new_state ops)"
  have inv: "inj_inv ?m" by (intro msg_ok_inv msg_state_ok new_state_ok)
  obtain m1 where m1: "end_run ?m = (Inr (), m1)" "inj_inv m1" "queue m1 = []"
    "\<forall>k. status m1 k = (if status ?m k = Some PENDING then Some DISCARDED else status ?m k)"
    by (rule end_run_inv [OF inv])
  from begin_run_inv [OF m1(2), of False] obtain xs m2 where m2: "begin_run m1 False = (Inr xs, m2)"
    "\<forall>k. status m2 k = (if status m1 k = Some PENDING then Some PENDING else None)" "queue m2 = queue m1"
    by auto
  then have "xs = []" by (auto simp: begin_run_def Let_def split: if_splits)
  with m1 m2 show ?thesis by (auto simp: Let_def)
qed

end
