(* ===== verification/SessionLog.thy ===== *)
theory SessionLog
  imports Messages "HOL-Library.Sublist"
begin

section \<open>The session log (box_agent/session\_log.py, session\_history.py)\<close>

text \<open>
  An append-only list of events with a durable prefix. Events carry decoded data: a message
  event holds \<open>None\<close> where \<open>Message.model_validate\<close> refuses its payload, and the keys the log
  adds beside the message are a dictionary. The disk is an explicit script of outcomes: each
  write and each fsync takes the next one, and an exhausted script means success. Time stamps,
  file encoding, locking and the content-addressed skill files are not modelled; of a replay
  the image catalogue and the inference round are not, nor is the restored token usage.
  A message object is its identity (Python's \<open>id\<close>) with its value.
\<close>

subsection \<open>Events\<close>

datatype surface_op = SAppend | SReplace int int | SOther

record revision =
  rv_id :: string
  rv_previous :: string
  rv_turn :: string
  rv_target :: string
  rv_fingerprint :: string
  rv_restore_through :: int

datatype body =
    UserMsg "msg option" "source option" pydict
  | AssistantMsg int "int option" "msg option" pydict
  | ToolRes int "int option" "msg option" pydict
  | ToolCallEv int int string string pydict
  | TurnStart int
  | TurnEnd int pyval
  | StepStart int int
  | StepEnd int int
  | TurnBinding string pydict
  | Revise revision
  | SurfaceReset string
  | GoalChange pyval
  | PlanWrite pyval
  | TodoWrite pyval
  | SkillChange pyval
  | InputContract
  | ToolsContract pyval
  | EndSeed
  | CompactionSummary pydict
  | CompactionEnd pydict
  | OtherEvent string pydict

record event =
  ev_seq :: int
  ev_body :: body
  ev_op :: "surface_op option"
  ev_sources :: "int list option"
  ev_ignorable :: bool

definition event_type :: "body \<Rightarrow> string" where
  "event_type b = (case b of
     UserMsg _ _ _ \<Rightarrow> ''user/message'' | AssistantMsg _ _ _ _ \<Rightarrow> ''assistant/message''
   | ToolRes _ _ _ _ \<Rightarrow> ''tool/result'' | ToolCallEv _ _ _ _ _ \<Rightarrow> ''tool/call''
   | TurnStart _ \<Rightarrow> ''turn/start'' | TurnEnd _ _ \<Rightarrow> ''turn/end''
   | StepStart _ _ \<Rightarrow> ''step/start'' | StepEnd _ _ \<Rightarrow> ''step/end''
   | TurnBinding _ _ \<Rightarrow> ''turn/binding'' | Revise _ \<Rightarrow> ''history/revise''
   | SurfaceReset _ \<Rightarrow> ''surface/reset'' | GoalChange _ \<Rightarrow> ''goal/change''
   | PlanWrite _ \<Rightarrow> ''plan/write'' | TodoWrite _ \<Rightarrow> ''todo/write''
   | SkillChange _ \<Rightarrow> ''skill/change'' | InputContract \<Rightarrow> ''input/contract''
   | ToolsContract _ \<Rightarrow> ''tools/contract'' | EndSeed \<Rightarrow> ''session/end-seed''
   | CompactionSummary _ \<Rightarrow> ''compaction/summary'' | CompactionEnd _ \<Rightarrow> ''compaction/end''
   | OtherEvent t _ \<Rightarrow> t)"

definition KNOWN_EVENT_TYPES :: "string list" where
  "KNOWN_EVENT_TYPES = [''turn/start'', ''turn/binding'', ''history/revise'', ''turn/end'',
     ''step/start'', ''step/end'', ''user/message'', ''input/contract'', ''tools/contract'',
     ''input/adopted'', ''assistant/chunk'', ''assistant/message'', ''tool/call'', ''tool/result'',
     ''request/header'', ''request/context'', ''session/end-seed'', ''surface/reset'',
     ''goal/change'', ''plan/write'', ''todo/write'', ''skill/change'', ''compaction/start'',
     ''compaction/summary'', ''compaction/end'', ''subagent/descriptor'']"

datatype log_error =
    LogClosed
  | DurabilityError
  | Corrupted string
  | RevisionCorrupted
  | Incompatible string
  | BadValue string

subsection \<open>Effective history (session\_history.py)\<close>

text \<open>The events up to the first one with the given number, if there is one.\<close>

fun cut_after :: "int \<Rightarrow> event list \<Rightarrow> event list option" where
  "cut_after c [] = None"
| "cut_after c (e # es) =
     (if ev_seq e = c then Some [e] else map_option (\<lambda>p. e # p) (cut_after c es))"

definition rewind :: "event \<Rightarrow> revision \<Rightarrow> event list \<Rightarrow> log_error + event list" where
  "rewind e r active =
     (if rv_id r = [] \<or> rv_previous r = [] \<or> rv_turn r = [] then Inl (BadValue ''invalid history revision identity'')
      else if rv_restore_through r < -1 \<or> ev_seq e \<le> rv_restore_through r
      then Inl (BadValue ''invalid history revision boundary'')
      else if rv_restore_through r = -1 then Inr []
      else (case cut_after (rv_restore_through r) active of
              None \<Rightarrow> Inl (BadValue ''history revision references discarded events'')
            | Some p \<Rightarrow> Inr p))"

fun effective_from :: "event list \<Rightarrow> event list \<Rightarrow> log_error + event list" where
  "effective_from active [] = Inr active"
| "effective_from active (e # es) =
     (case ev_body e of
        Revise r \<Rightarrow> (case rewind e r active of
                       Inl err \<Rightarrow> Inl err
                     | Inr p \<Rightarrow> effective_from (p @ [e]) es)
      | _ \<Rightarrow> effective_from (active @ [e]) es)"

definition effective_events :: "event list \<Rightarrow> log_error + event list" where
  "effective_events es = effective_from [] es"

definition current_revision :: "event list \<Rightarrow> string" where
  "current_revision es =
     (case List.map_filter (\<lambda>e. case ev_body e of Revise r \<Rightarrow> Some (rv_id r) | _ \<Rightarrow> None) (rev es) of
        [] \<Rightarrow> ''initial'' | i # _ \<Rightarrow> i)"

definition revise_of :: "event \<Rightarrow> revision option" where
  "revise_of e = (case ev_body e of Revise r \<Rightarrow> Some r | _ \<Rightarrow> None)"

definition binding_of :: "event \<Rightarrow> (string \<times> int) option" where
  "binding_of e = (case ev_body e of TurnBinding t _ \<Rightarrow> Some (t, ev_seq e) | _ \<Rightarrow> None)"

definition valid_identity :: "string \<Rightarrow> bool" where
  "valid_identity s = (py_strip s \<noteq> [] \<and> length s \<le> 512)"

definition revision_request ::
  "event list \<Rightarrow> string \<Rightarrow> string \<Rightarrow> string \<Rightarrow> string \<Rightarrow> log_error + revision" where
  "revision_request es target turn expected fingerprint =
     (if \<not> (valid_identity target \<and> valid_identity turn \<and> valid_identity expected)
      then Inl (BadValue ''INVALID_HISTORY_REVISION'')
      else (case find (\<lambda>r. rv_turn r = turn) (List.map_filter revise_of es) of
        Some r \<Rightarrow>
          (if rv_target r \<noteq> target \<or> rv_previous r \<noteq> expected \<or> rv_fingerprint r \<noteq> fingerprint
           then Inl (BadValue ''HISTORY_REVISION_IDEMPOTENCY_CONFLICT'')
           else if current_revision es \<noteq> rv_id r then Inl (BadValue ''HISTORY_REVISION_CONFLICT'')
           else Inr r)
      | None \<Rightarrow>
          (if current_revision es \<noteq> expected then Inl (BadValue ''HISTORY_REVISION_CONFLICT'')
           else (case effective_events es of
             Inl err \<Rightarrow> Inl err
           | Inr active \<Rightarrow>
               (case filter (\<lambda>b. fst b = target) (List.map_filter binding_of active) of
                  [b] \<Rightarrow> Inr \<lparr>rv_id = turn, rv_previous = expected, rv_turn = turn, rv_target = target,
                             rv_fingerprint = fingerprint, rv_restore_through = snd b - 1\<rparr>
                | _ \<Rightarrow> Inl (BadValue ''HISTORY_ANCHOR_UNAVAILABLE''))))))"

subsection \<open>Replay\<close>

type_synonym surface = "(int \<times> msg) list"

definition LEGACY_WORKFLOW_CHECKPOINT_PREFIX :: string where
  "LEGACY_WORKFLOW_CHECKPOINT_PREFIX = ''[Post-Compaction Workflow Checkpoint]''"

definition LEGACY_RUNTIME_CONTEXT_PREFIXES :: "string list" where
  "LEGACY_RUNTIME_CONTEXT_PREFIXES =
     [''The host runtime supplied the following internal state update'',
      ''The user sent the following message while the current task was already running'']"

definition LEGACY_WORKFLOW_MARKERS :: "string list" where
  "LEGACY_WORKFLOW_MARKERS =
     [''CONTROLLED_PRESENTATION_STAGE='', ''[BOX_AGENT_EXTERNAL_SKILL_CHECKPOINT]'']"

definition is_legacy_workflow_context :: "msg \<Rightarrow> bool" where
  "is_legacy_workflow_context m =
     (m_role m = ''user'' \<and>
      (case m_content m of
         PStr text \<Rightarrow>
           (let content = py_lstrip text
            in prefix LEGACY_WORKFLOW_CHECKPOINT_PREFIX content
               \<or> list_ex (\<lambda>p. prefix p content) LEGACY_RUNTIME_CONTEXT_PREFIXES
                 \<and> list_ex (\<lambda>mk. sublist mk content) LEGACY_WORKFLOW_MARKERS)
       | _ \<Rightarrow> False))"

text \<open>\<open>positions = {seq: index ...}\<close>: of equal keys the last index stays.\<close>

definition positions :: "surface \<Rightarrow> int \<Rightarrow> nat option" where
  "positions s = map_of (rev (zip (map fst s) [0..<length s]))"

definition surface_step ::
  "int \<Rightarrow> surface_op option \<Rightarrow> msg \<Rightarrow> surface \<Rightarrow> log_error + surface" where
  "surface_step seq operation m s =
     (case operation of
        Some SAppend \<Rightarrow> Inr (s @ [(seq, m)])
      | Some (SReplace start end_seq) \<Rightarrow>
          (case (positions s start, positions s end_seq) of
             (Some i, Some j) \<Rightarrow>
               (if j < i then Inl (Corrupted ''reversed range'')
                else Inr (take i s @ [(seq, m)] @ drop (Suc j) s))
           | _ \<Rightarrow> Inl (Corrupted ''missing node''))
      | _ \<Rightarrow> Inl (Corrupted ''invalid surfaceOp''))"

record projection =
  p_surface :: surface
  p_goal :: pyval
  p_plan :: pyval
  p_todos :: pyval
  p_skills :: pyval

definition empty_projection :: projection where
  "empty_projection = \<lparr>p_surface = [], p_goal = PNone, p_plan = PNone, p_todos = PList [], p_skills = PList []\<rparr>"

definition dict_or_none :: "pyval \<Rightarrow> pyval" where
  "dict_or_none v = (case v of PDict d \<Rightarrow> PDict d | _ \<Rightarrow> PNone)"

definition list_or_empty :: "pyval \<Rightarrow> pyval" where
  "list_or_empty v = (case v of PList xs \<Rightarrow> PList xs | _ \<Rightarrow> PList [])"

text \<open>The message of a message event: validated, and \<open>None\<close> for the other events.\<close>

definition event_message :: "body \<Rightarrow> (log_error + msg) option" where
  "event_message b =
     (let valid = (\<lambda>m src. case m of None \<Rightarrow> Inl (Corrupted ''invalid message'') | Some p \<Rightarrow> Inr (validate p src))
      in case b of
           UserMsg m src _ \<Rightarrow> Some (valid m src)
         | AssistantMsg _ _ m _ \<Rightarrow> Some (valid m None)
         | ToolRes _ _ m _ \<Rightarrow> Some (valid m None)
         | _ \<Rightarrow> None)"

definition replay_step :: "event \<Rightarrow> projection \<Rightarrow> log_error + projection" where
  "replay_step e p =
     (case ev_body e of
        SurfaceReset _ \<Rightarrow> Inr (p\<lparr>p_surface := []\<rparr>)
      | GoalChange v \<Rightarrow> Inr (p\<lparr>p_goal := dict_or_none v\<rparr>)
      | PlanWrite v \<Rightarrow> Inr (p\<lparr>p_plan := dict_or_none v\<rparr>)
      | TodoWrite v \<Rightarrow> Inr (p\<lparr>p_todos := list_or_empty v\<rparr>)
      | SkillChange v \<Rightarrow> Inr (p\<lparr>p_skills := list_or_empty v\<rparr>)
      | b \<Rightarrow> (case event_message b of
                None \<Rightarrow> Inr p
              | Some (Inl err) \<Rightarrow> Inl err
              | Some (Inr m) \<Rightarrow> (case surface_step (ev_seq e) (ev_op e) m (p_surface p) of
                                  Inl err \<Rightarrow> Inl err
                                | Inr s \<Rightarrow> Inr (p\<lparr>p_surface := s\<rparr>))))"

fun replay_from :: "projection \<Rightarrow> event list \<Rightarrow> log_error + projection" where
  "replay_from p [] = Inr p"
| "replay_from p (e # es) =
     (case replay_step e p of Inl err \<Rightarrow> Inl err | Inr p' \<Rightarrow> replay_from p' es)"

definition active_events :: "event list \<Rightarrow> log_error + event list" where
  "active_events es = (case effective_events es of Inl _ \<Rightarrow> Inl RevisionCorrupted | Inr a \<Rightarrow> Inr a)"

definition replay :: "event list \<Rightarrow> log_error + projection" where
  "replay es = (case active_events es of Inl err \<Rightarrow> Inl err | Inr a \<Rightarrow> replay_from empty_projection a)"

text \<open>\<open>replay(through_seq=k)\<close>\<close>

definition replay_through :: "int \<Rightarrow> event list \<Rightarrow> log_error + projection" where
  "replay_through k es = replay (take (nat (k + 1)) es)"

definition projection_messages :: "projection \<Rightarrow> msg list" where
  "projection_messages p = filter (\<lambda>m. \<not> is_legacy_workflow_context m) (map snd (p_surface p))"

text \<open>\<open>_surface_nodes\<close> walks the same events without the checks of \<open>replay\<close>: unknown
  operations are skipped, a missing node is a \<open>KeyError\<close> and a reversed range is an insertion.\<close>

definition node_step :: "event \<Rightarrow> surface \<Rightarrow> log_error + surface" where
  "node_step e s =
     (case ev_body e of
        SurfaceReset _ \<Rightarrow> Inr []
      | b \<Rightarrow> (case event_message b of
                None \<Rightarrow> Inr s
              | Some (Inl err) \<Rightarrow> Inl err
              | Some (Inr m) \<Rightarrow> (case ev_op e of
                  Some SAppend \<Rightarrow> Inr (s @ [(ev_seq e, m)])
                | Some (SReplace a b) \<Rightarrow>
                    (case (positions s a, positions s b) of
                       (Some i, Some j) \<Rightarrow> Inr (take i s @ [(ev_seq e, m)] @ drop (max i (Suc j)) s)
                     | _ \<Rightarrow> Inl (BadValue ''KeyError''))
                | _ \<Rightarrow> Inr s)))"

fun nodes_from :: "surface \<Rightarrow> event list \<Rightarrow> log_error + surface" where
  "nodes_from s [] = Inr s"
| "nodes_from s (e # es) = (case node_step e s of Inl err \<Rightarrow> Inl err | Inr s' \<Rightarrow> nodes_from s' es)"

definition surface_nodes :: "event list \<Rightarrow> log_error + surface" where
  "surface_nodes es = (case active_events es of Inl err \<Rightarrow> Inl err | Inr a \<Rightarrow> nodes_from [] a)"

text \<open>\<open>history_messages\<close>: the original messages, without the copies a compaction made.\<close>

definition derived :: "body \<Rightarrow> bool" where
  "derived b = (case b of
     UserMsg _ _ d \<Rightarrow> truthy (dget d ''surfaceDerived'')
   | AssistantMsg _ _ _ d \<Rightarrow> truthy (dget d ''surfaceDerived'')
   | ToolRes _ _ _ d \<Rightarrow> truthy (dget d ''surfaceDerived'')
   | _ \<Rightarrow> False)"

fun history_from :: "bool \<Rightarrow> surface \<Rightarrow> event list \<Rightarrow> log_error + surface" where
  "history_from compacting h [] = Inr h"
| "history_from compacting h (e # es) =
     (case ev_body e of
        SurfaceReset _ \<Rightarrow> history_from compacting [] es
      | CompactionSummary _ \<Rightarrow> history_from True h es
      | CompactionEnd _ \<Rightarrow> history_from False h es
      | b \<Rightarrow> (case event_message b of
                None \<Rightarrow> history_from compacting h es
              | Some r \<Rightarrow> (if compacting \<or> derived b then history_from compacting h es
                          else (case r of Inl err \<Rightarrow> Inl err
                                | Inr m \<Rightarrow> history_from compacting (h @ [(ev_seq e, m)]) es))))"

definition history_messages :: "event list \<Rightarrow> log_error + surface" where
  "history_messages es = (case active_events es of Inl err \<Rightarrow> Inl err | Inr a \<Rightarrow> history_from False [] a)"

subsection \<open>The log and its operations\<close>

type_synonym obj = "nat \<times> msg"

record session_log =
  sl_events :: "event list"
  sl_durable :: nat               \<comment> \<open>how many events the last successful flush covered\<close>
  sl_disk :: "bool list"          \<comment> \<open>outcomes of the coming writes and fsyncs\<close>
  sl_closed :: bool
  sl_failed :: bool
  sl_newly_created :: bool
  sl_tool_version :: "pyval option"
  sl_pending :: "(nat \<times> pydict) list"

definition new_log :: "event list \<Rightarrow> bool list \<Rightarrow> bool \<Rightarrow> session_log" where
  "new_log es disk created = \<lparr>sl_events = es, sl_durable = length es, sl_disk = disk, sl_closed = False,
     sl_failed = False, sl_newly_created = created, sl_tool_version = None, sl_pending = []\<rparr>"

type_synonym 'a log_op = "session_log \<Rightarrow> (log_error + 'a) \<times> session_log"

definition ret :: "'a \<Rightarrow> 'a log_op" where
  "ret x l = (Inr x, l)"

definition fail :: "log_error \<Rightarrow> 'a log_op" where
  "fail e l = (Inl e, l)"

definition andthen_log :: "'a log_op \<Rightarrow> ('a \<Rightarrow> 'b log_op) \<Rightarrow> 'b log_op" where
  "andthen_log f g l = (case f l of (Inl e, l') \<Rightarrow> (Inl e, l') | (Inr x, l') \<Rightarrow> g x l')"

definition reading :: "(event list \<Rightarrow> log_error + 'a) \<Rightarrow> 'a log_op" where
  "reading f l = (f (sl_events l), l)"

definition disk_outcome :: "session_log \<Rightarrow> bool \<times> session_log" where
  "disk_outcome l = (case sl_disk l of [] \<Rightarrow> (True, l) | ok # rest \<Rightarrow> (ok, l\<lparr>sl_disk := rest\<rparr>))"

definition append_event :: "body \<Rightarrow> surface_op option \<Rightarrow> int list option \<Rightarrow> bool \<Rightarrow> event log_op" where
  "append_event b operation sources ignorable l =
     (if sl_closed l then (Inl LogClosed, l)
      else if sl_failed l then (Inl DurabilityError, l)
      else (let e = \<lparr>ev_seq = int (length (sl_events l)), ev_body = b, ev_op = operation,
                     ev_sources = sources, ev_ignorable = ignorable\<rparr>;
                (ok, l1) = disk_outcome l
            in if ok then (Inr e, l1\<lparr>sl_events := sl_events l1 @ [e]\<rparr>)
               else (Inl DurabilityError, l1\<lparr>sl_failed := True\<rparr>)))"

definition flush :: "unit log_op" where
  "flush l =
     (if sl_closed l then (Inl LogClosed, l)
      else (let (ok, l1) = disk_outcome l
            in if ok then (Inr (), l1\<lparr>sl_durable := length (sl_events l1)\<rparr>)
               else (Inl DurabilityError, l1\<lparr>sl_failed := True\<rparr>)))"

definition close :: "unit log_op" where
  "close l = (if sl_closed l then (Inr (), l) else (Inr (), l\<lparr>sl_pending := [], sl_closed := True\<rparr>))"

subsubsection \<open>Metadata waiting for a message's event\<close>

definition message_metadata :: "nat \<Rightarrow> pydict log_op" where
  "message_metadata i l =
     (if sl_closed l then (Inl LogClosed, l)
      else if sl_failed l then (Inl DurabilityError, l)
      else (case map_of (sl_pending l) i of
              Some d \<Rightarrow> (Inr d, l)
            | None \<Rightarrow> (Inr [], l\<lparr>sl_pending := AList.update i [] (sl_pending l)\<rparr>)))"

definition set_metadata :: "nat \<Rightarrow> pydict \<Rightarrow> unit log_op" where
  "set_metadata i d l = (Inr (), l\<lparr>sl_pending := AList.update i d (sl_pending l)\<rparr>)"

definition image_id :: "pyval \<Rightarrow> string option" where
  "image_id ref = (case ref of
     PDict d \<Rightarrow> (case dget d ''imageId'' of
                  PStr s \<Rightarrow> (if s = [] \<or> ''data'' \<in> set (keys d) then None else Some s)
                | _ \<Rightarrow> None)
   | _ \<Rightarrow> None)"

fun queue_refs :: "(string \<times> pyval) list \<Rightarrow> pyval list \<Rightarrow> (string \<times> pyval) list option" where
  "queue_refs q [] = Some q"
| "queue_refs q (r # rs) =
     (case image_id r of
        None \<Rightarrow> None
      | Some i \<Rightarrow> (case map_of q i of
          Some r' \<Rightarrow> if r' \<noteq> r then None else queue_refs (AList.update i r q) rs
        | None \<Rightarrow> queue_refs (AList.update i r q) rs))"

definition queued_images :: "pydict \<Rightarrow> (string \<times> pyval) list" where
  "queued_images d = (case dget d ''images'' of
     PList rs \<Rightarrow> foldl (\<lambda>q r. case image_id r of None \<Rightarrow> q | Some i \<Rightarrow> AList.update i r q) [] rs
   | _ \<Rightarrow> [])"

definition queue_message_images :: "obj \<Rightarrow> pyval list \<Rightarrow> unit log_op" where
  "queue_message_images m refs =
     (if m_role (snd m) \<noteq> ''user'' \<and> m_role (snd m) \<noteq> ''tool''
      then fail (BadValue ''image references require a user or tool message'')
      else if \<not> list_all (\<lambda>r. image_id r \<noteq> None) refs
      then fail (BadValue ''image references need an imageId and cannot contain inline data'')
      else if refs = [] then ret ()
      else andthen_log (message_metadata (fst m)) (\<lambda>d.
             case queue_refs (queued_images d) refs of
               None \<Rightarrow> fail (BadValue ''conflicting image occurrence metadata'')
             | Some q \<Rightarrow> set_metadata (fst m) (AList.update ''images'' (PList (vals q)) d)))"

definition mark_model_response :: "obj \<Rightarrow> int \<Rightarrow> unit log_op" where
  "mark_model_response m round_number =
     (if m_role (snd m) \<noteq> ''assistant'' then fail (BadValue ''model rounds require an assistant message'')
      else if round_number < 0 then fail (BadValue ''model round must be a nonnegative integer'')
      else andthen_log (message_metadata (fst m)) (\<lambda>d.
             set_metadata (fst m) (AList.update ''modelRound'' (PInt round_number) d)))"

subsubsection \<open>Message events\<close>

definition requires_input_contract :: "pydict \<Rightarrow> bool" where
  "requires_input_contract r =
     (truthy (dget r ''context'') \<or> truthy (dget r ''policy'') \<or> truthy (dget r ''kind'')
      \<or> (case dget r ''blocks'' of
           PList bs \<Rightarrow> list_ex (\<lambda>b. case b of PDict d \<Rightarrow> dget d ''type'' \<noteq> PStr ''text'' | _ \<Rightarrow> True) bs
         | _ \<Rightarrow> False))"

definition needs_contract :: "msg \<Rightarrow> event list \<Rightarrow> bool" where
  "needs_contract m es =
     (case m_input_facts m of
        None \<Rightarrow> False
      | Some r \<Rightarrow> r \<noteq> [] \<and> requires_input_contract r
                  \<and> \<not> list_ex (\<lambda>e. event_type (ev_body e) = ''input/contract'') es)"

definition append_message_event ::
  "(pydict \<Rightarrow> body) \<Rightarrow> pydict \<Rightarrow> obj \<Rightarrow> surface_op option \<Rightarrow> int list option \<Rightarrow> event log_op" where
  "append_message_event mk data m operation sources l =
     (let pending = map_of (sl_pending l) (fst m);
          contract = (if needs_contract (snd m) (sl_events l)
                      then andthen_log (append_event InputContract None None False) (\<lambda>_. ret ())
                      else ret ());
          data1 = (case pending of None \<Rightarrow> data | Some d \<Rightarrow> AList.updates (keys d) (vals d) data);
          data2 = (case m_context (snd m) of None \<Rightarrow> data1 | Some c \<Rightarrow> AList.update ''contextUsage'' c data1)
      in andthen_log contract (\<lambda>_. andthen_log (append_event (mk data2) operation sources False) (\<lambda>e l'.
           (Inr e, l'\<lparr>sl_pending := AList.delete (fst m) (sl_pending l')\<rparr>))) l)"

definition message_body :: "int \<Rightarrow> int option \<Rightarrow> msg \<Rightarrow> (pydict \<Rightarrow> body) option" where
  "message_body turn step m =
     (if m_role m = ''user'' then Some (UserMsg (Some (dump m)) (Some (m_source m)))
      else if m_role m = ''assistant'' then Some (AssistantMsg turn step (Some (dump m)))
      else if m_role m = ''tool'' then Some (ToolRes turn step (Some (dump m)))
      else None)"

definition append_surface_message ::
  "obj \<Rightarrow> int \<Rightarrow> int \<Rightarrow> surface_op option \<Rightarrow> int list option \<Rightarrow> bool \<Rightarrow> event log_op" where
  "append_surface_message m turn step operation sources surface_derived =
     (case message_body turn (Some step) (snd m) of
        None \<Rightarrow> fail (BadValue ''role cannot enter the Session Surface'')
      | Some mk \<Rightarrow> append_message_event mk
          (if surface_derived then [(''surfaceDerived'', PBool True)] else []) m operation sources)"

fun append_surface_messages :: "surface \<Rightarrow> int \<Rightarrow> int \<Rightarrow> obj list \<Rightarrow> event list log_op" where
  "append_surface_messages old turn step [] = ret []"
| "append_surface_messages old turn step (m # ms) =
     andthen_log (append_surface_message m turn step (Some SAppend) None (snd m \<in> snd ` set old)) (\<lambda>e.
     andthen_log (append_surface_messages old turn step ms) (\<lambda>es. ret (e # es)))"

definition replace_surface :: "obj list \<Rightarrow> int \<Rightarrow> int \<Rightarrow> event list log_op" where
  "replace_surface ms turn step =
     (case ms of
        [] \<Rightarrow> fail (BadValue ''replacement Surface must not be empty'')
      | m # rest \<Rightarrow> andthen_log (reading surface_nodes) (\<lambda>old.
          if old = [] then append_surface_messages old turn step ms
          else andthen_log (append_surface_message m turn step
                 (Some (SReplace (fst (hd old)) (fst (List.last old)))) (Some (map fst old))
                 (snd m \<in> snd ` set old)) (\<lambda>e.
               andthen_log (append_surface_messages old turn step rest) (\<lambda>es. ret (e # es)))))"

definition result_data :: "(string \<times> pyval) list option \<Rightarrow> msg \<Rightarrow> pydict" where
  "result_data metadata m =
     (case (m_role m = ''tool'', m_tool_call_id m, metadata) of
        (True, Some i, Some md) \<Rightarrow>
          (case map_of md i of None \<Rightarrow> [] | Some v \<Rightarrow> [(''result'', v)])
      | _ \<Rightarrow> [])"

fun append_suffix ::
  "int \<Rightarrow> int option \<Rightarrow> (string \<times> pyval) list option \<Rightarrow> obj list \<Rightarrow> event list log_op" where
  "append_suffix turn step metadata [] = ret []"
| "append_suffix turn step metadata (m # ms) =
     (case message_body turn step (snd m) of
        None \<Rightarrow> append_suffix turn step metadata ms
      | Some mk \<Rightarrow>
          andthen_log (append_message_event mk (result_data metadata (snd m)) m (Some SAppend) None) (\<lambda>e.
          andthen_log (append_suffix turn step metadata ms) (\<lambda>es. ret (e # es))))"

definition append_unlogged_messages ::
  "obj list \<Rightarrow> int \<Rightarrow> int option \<Rightarrow> (string \<times> pyval) list option \<Rightarrow> event list log_op" where
  "append_unlogged_messages ms turn step metadata =
     andthen_log (reading replay) (\<lambda>p.
       (let persisted = map dump (projection_messages p);
            live = map (dump \<circ> snd) ms;
            n = length persisted
        in if take n live \<noteq> persisted
           then (if ms = [] then ret []
                 else replace_surface ms turn (case step of None \<Rightarrow> 0 | Some k \<Rightarrow> k))
           else append_suffix turn step metadata (drop n ms)))"

definition reset_surface :: "string \<Rightarrow> event log_op" where
  "reset_surface reason =
     andthen_log (append_event (SurfaceReset reason) None None False) (\<lambda>e.
     andthen_log flush (\<lambda>_ l. (Inr e, l\<lparr>sl_pending := []\<rparr>)))"

subsubsection \<open>Repairing a turn a crash left open\<close>

record pending_call =
  pc_step :: "int option"
  pc_name :: string
  pc_seq :: "int option"

record open_turn =
  ot_turn :: "int option"
  ot_step :: "int option"
  ot_calls :: "(string \<times> pending_call) list"

definition no_turn :: open_turn where
  "no_turn = \<lparr>ot_turn = None, ot_step = None, ot_calls = []\<rparr>"

definition scan_step :: "event \<Rightarrow> open_turn \<Rightarrow> log_error + open_turn" where
  "scan_step e t = (case ev_body e of
     TurnStart n \<Rightarrow> Inr \<lparr>ot_turn = Some n, ot_step = None, ot_calls = []\<rparr>
   | TurnEnd _ _ \<Rightarrow> Inr no_turn
   | StepStart _ s \<Rightarrow> Inr (t\<lparr>ot_step := Some s\<rparr>)
   | StepEnd _ _ \<Rightarrow> Inr (t\<lparr>ot_step := None, ot_calls := []\<rparr>)
   | AssistantMsg _ step m _ \<Rightarrow> (case m of
       None \<Rightarrow> Inl (Corrupted ''invalid message'')
     | Some p \<Rightarrow> Inr (t\<lparr>ot_calls := foldl (\<lambda>d c. AList.update (call_id c)
           \<lparr>pc_step = step, pc_name = call_name c, pc_seq = None\<rparr> d) (ot_calls t) (calls_of p)\<rparr>))
   | ToolCallEv _ _ i _ _ \<Rightarrow> (case map_of (ot_calls t) i of
       None \<Rightarrow> Inr t
     | Some c \<Rightarrow> Inr (t\<lparr>ot_calls := AList.update i (c\<lparr>pc_seq := Some (ev_seq e)\<rparr>) (ot_calls t)\<rparr>))
   | ToolRes _ _ m _ \<Rightarrow> (case m of
       None \<Rightarrow> Inl (Corrupted ''invalid message'')
     | Some p \<Rightarrow> (case m_tool_call_id p of
         None \<Rightarrow> Inr t
       | Some i \<Rightarrow> Inr (t\<lparr>ot_calls := AList.delete i (ot_calls t)\<rparr>)))
   | _ \<Rightarrow> Inr t)"

fun scan_from :: "open_turn \<Rightarrow> event list \<Rightarrow> log_error + open_turn" where
  "scan_from t [] = Inr t"
| "scan_from t (e # es) = (case scan_step e t of Inl err \<Rightarrow> Inl err | Inr t' \<Rightarrow> scan_from t' es)"

definition open_turn_of :: "event list \<Rightarrow> log_error + open_turn" where
  "open_turn_of es = (case active_events es of Inl err \<Rightarrow> Inl err | Inr a \<Rightarrow> scan_from no_turn a)"

definition TOOL_NOT_STARTED :: string where
  "TOOL_NOT_STARTED = ''TOOL_NOT_STARTED''"

definition TOOL_OUTCOME_UNKNOWN :: string where
  "TOOL_OUTCOME_UNKNOWN = ''TOOL_OUTCOME_UNKNOWN''"

definition closer_code :: "pending_call \<Rightarrow> string" where
  "closer_code c = (if pc_seq c \<noteq> None then TOOL_OUTCOME_UNKNOWN else TOOL_NOT_STARTED)"

definition closer_text :: "pending_call \<Rightarrow> string" where
  "closer_text c = (if pc_seq c \<noteq> None
     then ''The tool call was durably dispatched, but no result was recorded. ''
          @ ''Its outcome is unknown; verify external state before retrying.''
     else ''The tool call was not durably dispatched and may be retried if needed.'')"

definition closer_body :: "int \<Rightarrow> string \<Rightarrow> pending_call \<Rightarrow> body" where
  "closer_body turn i c = ToolRes turn (pc_step c)
     (Some (tool_reply (closer_text c) i (pc_name c)))
     [(''error'', PDict [(''name'', PStr (if pc_seq c \<noteq> None then ''ToolOutcomeUnknownError''
                                        else ''ToolNotStartedError'')),
                        (''code'', PStr (closer_code c))])]"

fun close_calls :: "int \<Rightarrow> (string \<times> pending_call) list \<Rightarrow> event list log_op" where
  "close_calls turn [] = ret []"
| "close_calls turn ((i, c) # cs) =
     andthen_log (append_event (closer_body turn i c) (Some SAppend)
       (map_option (\<lambda>s. [s]) (pc_seq c)) False) (\<lambda>e.
     andthen_log (close_calls turn cs) (\<lambda>es. ret (e # es)))"

definition repair_interrupted_turn :: "event list log_op" where
  "repair_interrupted_turn =
     andthen_log (reading open_turn_of) (\<lambda>t.
       case ot_turn t of
         None \<Rightarrow> ret []
       | Some turn \<Rightarrow>
           andthen_log (close_calls turn (ot_calls t)) (\<lambda>cs.
           andthen_log (case ot_step t of
               None \<Rightarrow> ret []
             | Some s \<Rightarrow> andthen_log (append_event (StepEnd turn s) None None False) (\<lambda>e. ret [e])) (\<lambda>ss.
           andthen_log (append_event (TurnEnd turn (PDict [(''kind'', PStr ''interrupted'')])) None None False)
             (\<lambda>e. ret (cs @ ss @ [e])))))"

definition prepare_resume :: "event list log_op" where
  "prepare_resume =
     andthen_log repair_interrupted_turn (\<lambda>es.
     andthen_log (append_event EndSeed None None False) (\<lambda>e.
     andthen_log flush (\<lambda>_. ret (es @ [e]))))"

definition prepare_resume_projection :: "projection \<Rightarrow> projection log_op" where
  "prepare_resume_projection p =
     andthen_log prepare_resume (\<lambda>es.
       if list_ex (\<lambda>e. event_type (ev_body e) \<notin> {''step/end'', ''turn/end'', ''session/end-seed''}) es
       then reading replay else ret p)"

subsubsection \<open>Queries and contracts\<close>

definition supported_version :: "pyval \<Rightarrow> bool" where
  "supported_version v = (v = PInt 1 \<or> v = PInt 2)"

definition contract_versions :: "event list \<Rightarrow> pyval list" where
  "contract_versions es =
     List.map_filter (\<lambda>e. case ev_body e of ToolsContract v \<Rightarrow> Some v | _ \<Rightarrow> None) es"

definition resolve_tool_interface_version :: "pyval \<Rightarrow> pyval log_op" where
  "resolve_tool_interface_version requested l =
     (if \<not> supported_version requested then (Inl (BadValue ''unsupported tool interface version''), l)
      else (case contract_versions (sl_events l) of
              v # vs \<Rightarrow>
                (if list_ex (\<lambda>u. \<not> supported_version u) (v # vs) \<or> list_ex (\<lambda>u. u \<noteq> v) vs
                 then (Inl (Incompatible ''session tool interface version is unsupported''), l)
                 else (Inr v, l))
            | [] \<Rightarrow> (case sl_tool_version l of
                Some v \<Rightarrow> (Inr v, l)
              | None \<Rightarrow> (Inr (if sl_newly_created l then requested else PInt 1), l))))"

definition bind_tool_interface_version :: "pyval \<Rightarrow> pyval log_op" where
  "bind_tool_interface_version requested =
     andthen_log (resolve_tool_interface_version requested) (\<lambda>v.
     andthen_log (\<lambda>l. if v = PInt 2 \<and> contract_versions (sl_events l) = []
                       then andthen_log (append_event (ToolsContract v) None None False) (\<lambda>_. flush) l
                       else (Inr (), l))
       (\<lambda>_ l. (Inr v, l\<lparr>sl_tool_version := Some v\<rparr>)))"

definition next_turn_number :: "event list \<Rightarrow> int" where
  "next_turn_number es =
     (case List.map_filter (\<lambda>e. case ev_body e of TurnStart n \<Rightarrow> Some n | _ \<Rightarrow> None) es of
        [] \<Rightarrow> 0 | n # ns \<Rightarrow> foldl max n ns) + 1"

definition turn_binding :: "string \<Rightarrow> event list \<Rightarrow> pydict option" where
  "turn_binding turn es =
     (case List.map_filter (\<lambda>e. case ev_body e of TurnBinding t d \<Rightarrow> if t = turn then Some d else None | _ \<Rightarrow> None) es of
        [] \<Rightarrow> None | d # _ \<Rightarrow> Some d)"

definition has_turn_binding :: "string \<Rightarrow> event list \<Rightarrow> bool" where
  "has_turn_binding turn es = list_ex (\<lambda>e. case ev_body e of TurnBinding t _ \<Rightarrow> t = turn | _ \<Rightarrow> False) es"

definition event_page :: "int \<Rightarrow> int \<Rightarrow> event list log_op" where
  "event_page start limit l =
     (if \<not> (0 \<le> start \<and> start \<le> int (length (sl_events l)) \<and> 1 \<le> limit \<and> limit \<le> 256)
      then (Inl (BadValue ''invalid session event page''), l)
      else if sl_closed l \<or> sl_failed l then (Inl DurabilityError, l)
      else (Inr (take (nat limit) (drop (nat start) (sl_events l))), l))"

definition events_of_type :: "string \<Rightarrow> event list log_op" where
  "events_of_type kind l =
     (if sl_closed l \<or> sl_failed l then (Inl DurabilityError, l)
      else (Inr (filter (\<lambda>e. event_type (ev_body e) = kind) (sl_events l)), l))"

subsubsection \<open>Reading the file\<close>

text \<open>
  A line of the file: torn (without its newline), not JSON, not an object, or an object with its
  \<open>seq\<close>, \<open>type\<close> and \<open>ignorable\<close> and, when \<open>data\<close> is an object, the decoded body.
\<close>

record raw_event =
  rw_seq :: "int option"
  rw_type :: string
  rw_ignorable :: bool
  rw_body :: "body option"
  rw_op :: "surface_op option"
  rw_sources :: "int list option"

datatype line = Torn | BadJson | NotObject | Line raw_event

definition encode_record :: "event \<Rightarrow> line" where
  "encode_record e = Line \<lparr>rw_seq = Some (ev_seq e), rw_type = event_type (ev_body e),
     rw_ignorable = ev_ignorable e, rw_body = Some (ev_body e), rw_op = ev_op e, rw_sources = ev_sources e\<rparr>"

definition check_record :: "event list \<Rightarrow> raw_event \<Rightarrow> log_error + event" where
  "check_record events r =
     (if rw_seq r \<noteq> Some (int (length events)) then Inl (Corrupted ''non-contiguous seq'')
      else if rw_type r = [] then Inl (Corrupted ''invalid event type'')
      else if rw_type r \<notin> set KNOWN_EVENT_TYPES \<and> \<not> rw_ignorable r
      then Inl (Incompatible ''unknown required event'')
      else (case rw_body r of
              None \<Rightarrow> Inl (Corrupted ''invalid event data'')
            | Some b \<Rightarrow>
                (let e = \<lparr>ev_seq = int (length events), ev_body = b, ev_op = rw_op r,
                          ev_sources = rw_sources r, ev_ignorable = rw_ignorable r\<rparr>
                 in case b of
                      ToolsContract v \<Rightarrow>
                        (if \<not> supported_version v
                         then Inl (Incompatible ''session tool interface version is unsupported'')
                         else if list_ex (\<lambda>u. u \<noteq> v) (contract_versions events)
                         then Inl (Incompatible ''session tool interface version cannot change'')
                         else Inr e)
                    | _ \<Rightarrow> Inr e)))"

text \<open>The events of the file and whether a torn tail has to be cut off.\<close>

fun load_from :: "event list \<Rightarrow> line list \<Rightarrow> log_error + event list \<times> bool" where
  "load_from events [] = Inr (events, False)"
| "load_from events (Torn # _) = Inr (events, True)"
| "load_from events (BadJson # _) = Inl (Corrupted ''invalid JSON'')"
| "load_from events (NotObject # _) = Inl (Corrupted ''not an event object'')"
| "load_from events (Line r # ls) =
     (case check_record events r of Inl err \<Rightarrow> Inl err | Inr e \<Rightarrow> load_from (events @ [e]) ls)"

datatype header = MissingHeader | BadHeader | HeaderLine "string option" "string option" int

text \<open>\<open>_open\<close> with its recovery. \<open>same_cwd\<close> compares normalised workspace paths.\<close>

datatype open_error = LogError log_error | IdMismatch | WorkspaceMismatch

definition open_body ::
  "(string \<Rightarrow> string \<Rightarrow> bool) \<Rightarrow> string \<Rightarrow> string \<Rightarrow> header \<Rightarrow> line list
   \<Rightarrow> (open_error \<times> bool) + event list" where
  "open_body same_cwd session_id cwd h ls =
     (case h of
        MissingHeader \<Rightarrow> Inl (LogError (Corrupted ''no complete header''), False)
      | BadHeader \<Rightarrow> Inl (LogError (Corrupted ''invalid header''), False)
      | HeaderLine i c version \<Rightarrow>
          (if i \<noteq> Some session_id then Inl (IdMismatch, False)
           else (case c of
             None \<Rightarrow> Inl (LogError (Corrupted ''header has an invalid cwd''), False)
           | Some stored \<Rightarrow>
               if stored = [] then Inl (LogError (Corrupted ''header has an invalid cwd''), False)
               else if \<not> same_cwd stored cwd then Inl (WorkspaceMismatch, False)
               else if version \<noteq> 1 then Inl (LogError (Incompatible ''version''), True)
               else (case load_from [] ls of
                       Inl err \<Rightarrow> Inl (LogError err, True)
                     | Inr (es, _) \<Rightarrow> Inr es))))"

definition recoverable :: "open_error \<Rightarrow> bool" where
  "recoverable e = (case e of LogError (Corrupted _) \<Rightarrow> True | _ \<Rightarrow> False)"

definition open_log ::
  "(string \<Rightarrow> string \<Rightarrow> bool) \<Rightarrow> string \<Rightarrow> string \<Rightarrow> bool \<Rightarrow> bool \<Rightarrow> header \<Rightarrow> line list \<Rightarrow> bool list
   \<Rightarrow> open_error + session_log" where
  "open_log same_cwd session_id cwd recover project h ls disk =
     (let failed = (\<lambda>(err, verified).
            if recover \<and> verified \<and> recoverable err then Inr (new_log [] disk False) else Inl err)
      in case open_body same_cwd session_id cwd h ls of
           Inl ev \<Rightarrow> failed ev
         | Inr es \<Rightarrow>
             (if \<not> project then Inr (new_log es disk False)
              else (case replay es of
                      Inl err \<Rightarrow> failed (LogError err, True)
                    | Inr _ \<Rightarrow> Inr (new_log es disk False))))"

subsubsection \<open>Editing the history\<close>

text \<open>Every tool reply of the restored prefix answers a call before it, and no call is open.\<close>

fun pending_after :: "string set \<Rightarrow> msg list \<Rightarrow> string set option" where
  "pending_after pending [] = Some pending"
| "pending_after pending (m # ms) =
     (let p = pending \<union> set (map call_id (calls_of m))
      in if m_role m = ''tool''
         then (case m_tool_call_id m of
                 None \<Rightarrow> None
               | Some i \<Rightarrow> if i \<in> p then pending_after (p - {i}) ms else None)
         else pending_after p ms)"

definition revise_agent_history :: "revision \<Rightarrow> bool \<Rightarrow> bool \<Rightarrow> projection log_op" where
  "revise_agent_history r skills_restored cancelled =
     andthen_log (reading (replay_through (rv_restore_through r))) (\<lambda>p.
       if pending_after {} (projection_messages p) \<noteq> Some {}
       then fail (BadValue ''HISTORY_TOOL_PAIR_INVALID'')
       else if \<not> skills_restored then fail (BadValue ''skill restoration failed'')
       else if cancelled then fail (BadValue ''HISTORY_CANCELLED'')
       else andthen_log (\<lambda>l.
              if list_ex (\<lambda>e. case revise_of e of Some q \<Rightarrow> rv_turn q = rv_turn r | None \<Rightarrow> False) (sl_events l)
              then (Inr (), l)
              else andthen_log (append_event (Revise r) None None False) (\<lambda>_. flush) l)
            (\<lambda>_. ret p))"


text \<open>The host's edit: the request is checked and then committed (acp, \<open>prompt\<close>).\<close>

definition edit_history ::
  "string \<Rightarrow> string \<Rightarrow> string \<Rightarrow> string \<Rightarrow> bool \<Rightarrow> bool \<Rightarrow> projection log_op" where
  "edit_history target turn expected fingerprint skills_restored cancelled =
     andthen_log (reading (\<lambda>es. revision_request es target turn expected fingerprint))
       (\<lambda>r. revise_agent_history r skills_restored cancelled)"


subsection \<open>Histories\<close>

text \<open>
  What the components of the program do to a log, crashes included: \<open>Append\<close> is the generic
  append of the events that carry no message and change neither history nor contract (any other
  body is not appended this way), \<open>Crash\<close> leaves the durable events and any number of the later
  ones in the file, possibly with a torn line, and a new process opens it.
\<close>

datatype log_operation =
    Append body bool
  | Flush
  | Unlogged "obj list" int "int option" "(string \<times> pyval) list option"
  | Replace "obj list" int int
  | Reset string
  | Repair
  | Resume
  | BindVersion pyval
  | QueueImages obj "pyval list"
  | MarkResponse obj int
  | Edit string string string string bool bool
  | Close
  | Crash nat bool "bool list"

definition outcome :: "(log_error + 'a) \<times> session_log \<Rightarrow> bool \<times> session_log" where
  "outcome r = ((case fst r of Inl _ \<Rightarrow> False | Inr _ \<Rightarrow> True), snd r)"

definition plain_body :: "body \<Rightarrow> bool \<Rightarrow> bool" where
  "plain_body b ign = (event_message b = None \<and> event_type b \<noteq> []
     \<and> (event_type b \<in> set KNOWN_EVENT_TYPES \<or> ign)
     \<and> (case b of Revise _ \<Rightarrow> False | SurfaceReset _ \<Rightarrow> False | ToolsContract _ \<Rightarrow> False | _ \<Rightarrow> True))"

definition crash_file :: "nat \<Rightarrow> bool \<Rightarrow> session_log \<Rightarrow> line list" where
  "crash_file k torn l =
     map encode_record (take (max (sl_durable l) k) (sl_events l)) @ (if torn then [Torn] else [])"

definition reopen :: "header \<Rightarrow> line list \<Rightarrow> bool list \<Rightarrow> open_error + session_log" where
  "reopen h ls disk = open_log (=) ''id'' ''cwd'' True True h ls disk"

fun exec_log :: "session_log \<Rightarrow> log_operation \<Rightarrow> bool \<times> session_log" where
  "exec_log l (Append b ign) = (if plain_body b ign then outcome (append_event b None None ign l) else (False, l))"
| "exec_log l Flush = outcome (flush l)"
| "exec_log l (Unlogged ms turn step md) = outcome (append_unlogged_messages ms turn step md l)"
| "exec_log l (Replace ms turn step) = outcome (replace_surface ms turn step l)"
| "exec_log l (Reset why) = outcome (reset_surface why l)"
| "exec_log l Repair = outcome (repair_interrupted_turn l)"
| "exec_log l Resume = outcome (prepare_resume l)"
| "exec_log l (BindVersion v) = outcome (bind_tool_interface_version v l)"
| "exec_log l (QueueImages m refs) = outcome (queue_message_images m refs l)"
| "exec_log l (MarkResponse m n) = outcome (mark_model_response m n l)"
| "exec_log l (Edit target turn expected fp skills cancelled) =
     outcome (edit_history target turn expected fp skills cancelled l)"
| "exec_log l Close = outcome (close l)"
| "exec_log l (Crash k torn disk) =
     (case reopen (HeaderLine (Some ''id'') (Some ''cwd'') 1) (crash_file k torn l) disk of
        Inl _ \<Rightarrow> (False, l) | Inr l' \<Rightarrow> (True, l'))"

end
