(* ===== verification/SessionLogCorrect.thy ===== *)
theory SessionLogCorrect
  imports SessionLog
begin

section \<open>The session log: what it promises\<close>

text \<open>
  Every reader of the log is a fold over its events that stops at the first error
  (\<open>event_fold\<close>). The invariant \<open>log_ok\<close> of a log (contiguous numbers, known types, one
  contract version, every prefix replays) holds after any history of operations under any
  script of disk outcomes; from it follow crash recovery, the agreement of the replayed with
  the live conversation, the repair of an open turn and the meaning of a history edit.
\<close>

subsection \<open>Folds over events\<close>

locale event_fold =
  fixes step :: "event \<Rightarrow> 's \<Rightarrow> log_error + 's"
    and fold :: "'s \<Rightarrow> event list \<Rightarrow> log_error + 's"
  assumes fold_Nil: "fold s [] = Inr s"
    and fold_Cons: "fold s (e # es) = (case step e s of Inl err \<Rightarrow> Inl err | Inr s' \<Rightarrow> fold s' es)"
begin

lemma fold_append:
  "fold s (xs @ ys) = (case fold s xs of Inl err \<Rightarrow> Inl err | Inr t \<Rightarrow> fold t ys)"
  by (induction xs arbitrary: s) (auto simp: fold_Nil fold_Cons split: sum.split)

lemma fold_snoc:
  "fold s (xs @ [e]) = (case fold s xs of Inl err \<Rightarrow> Inl err | Inr t \<Rightarrow> step e t)"
  by (simp add: fold_append fold_Nil fold_Cons split: sum.split)

lemma fold_prefix: "fold s (xs @ ys) = Inr t \<Longrightarrow> \<exists>u. fold s xs = Inr u"
  by (cases "fold s xs") (auto simp: fold_append)

lemma fold_invariant:
  assumes "\<And>e s t. e \<in> set es \<Longrightarrow> P s \<Longrightarrow> step e s = Inr t \<Longrightarrow> P t" "P s" "fold s es = Inr t"
  shows "P t"
  using assms
  by (induction es arbitrary: s) (auto simp: fold_Nil fold_Cons split: sum.splits)

end

interpretation rp: event_fold replay_step replay_from
  by unfold_locales auto

interpretation nd: event_fold node_step nodes_from
  by unfold_locales auto

interpretation sc: event_fold scan_step scan_from
  by unfold_locales auto

definition effective_step :: "event \<Rightarrow> event list \<Rightarrow> log_error + event list" where
  "effective_step e active = (case revise_of e of
     None \<Rightarrow> Inr (active @ [e])
   | Some r \<Rightarrow> (case rewind e r active of Inl err \<Rightarrow> Inl err | Inr p \<Rightarrow> Inr (p @ [e])))"

interpretation ef: event_fold effective_step effective_from
  by unfold_locales (auto simp: effective_step_def revise_of_def split: body.split sum.split)

lemma effective_snoc:
  "effective_events (es @ [e]) =
     (case effective_events es of Inl err \<Rightarrow> Inl err | Inr a \<Rightarrow> effective_step e a)"
  by (simp add: effective_events_def ef.fold_snoc)

lemma active_snoc_plain:
  "active_events es = Inr a \<Longrightarrow> revise_of e = None \<Longrightarrow> active_events (es @ [e]) = Inr (a @ [e])"
  by (simp add: active_events_def effective_snoc effective_step_def split: sum.splits)

lemma replay_snoc:
  assumes "replay es = Inr p" "revise_of e = None"
  shows "replay (es @ [e]) = replay_step e p"
proof -
  from assms(1) obtain a where a: "active_events es = Inr a" "replay_from empty_projection a = Inr p"
    by (auto simp: replay_def split: sum.splits)
  then show ?thesis
    by (simp add: replay_def active_snoc_plain [OF a(1) assms(2)] rp.fold_snoc)
qed

subsection \<open>The active timeline\<close>

text \<open>
  Neighbours of the active timeline are neighbours of the log unless a rewind stands between
  them, and cutting the active timeline after an event gives the timeline of that moment.
\<close>

definition numbered :: "event list \<Rightarrow> bool" where
  "numbered es = (map ev_seq es = map int [0..<length es])"

lemma numbered_Nil [simp]: "numbered []"
  by (simp add: numbered_def)

lemma numbered_snoc [simp]:
  "numbered (es @ [e]) \<longleftrightarrow> numbered es \<and> ev_seq e = int (length es)"
  by (auto simp: numbered_def)

lemma numbered_take:
  assumes "numbered es"
  shows "numbered (take k es)"
proof (cases "k \<le> length es")
  case True
  have "map ev_seq (take k es) = take k (map int [0..<length es])"
    using assms by (simp add: numbered_def flip: take_map)
  also have "\<dots> = map int [0..<k]" using True by (simp add: take_map)
  finally show ?thesis using True by (simp add: numbered_def)
qed (use assms in simp)

lemma numbered_nth: "numbered es \<Longrightarrow> i < length es \<Longrightarrow> ev_seq (es ! i) = int i"
  unfolding numbered_def by (metis add_0 length_map nth_map nth_upt diff_zero length_upt)

lemma numbered_bound: "numbered es \<Longrightarrow> e \<in> set es \<Longrightarrow> 0 \<le> ev_seq e \<and> ev_seq e < int (length es)"
  by (metis in_set_conv_nth numbered_nth of_nat_0_le_iff of_nat_less_iff)

lemma cut_after_seqs: "cut_after c es = Some p \<Longrightarrow> c \<in> ev_seq ` set es"
  by (induction es arbitrary: p) (auto split: if_splits)

lemma cut_after_defined: "c \<in> ev_seq ` set es \<Longrightarrow> \<exists>p. cut_after c es = Some p"
  by (induction es) auto

lemma cut_after_prefix: "cut_after c es = Some p \<Longrightarrow> \<exists>rest. es = p @ rest"
  by (induction es arbitrary: p) (auto split: if_splits)

lemma cut_after_last: "cut_after c es = Some p \<Longrightarrow> p \<noteq> [] \<and> ev_seq (last p) = c"
  by (induction es arbitrary: p) (auto split: if_splits)

lemma cut_after_append:
  "cut_after c (xs @ ys) = (case cut_after c xs of
     None \<Rightarrow> map_option (\<lambda>p. xs @ p) (cut_after c ys) | Some p \<Rightarrow> Some p)"
  by (induction xs; cases "cut_after c ys") (auto split: option.splits)

lemma cut_after_self: "c \<notin> ev_seq ` set es \<Longrightarrow> ev_seq e = c \<Longrightarrow> cut_after c (es @ [e]) = Some (es @ [e])"
  by (induction es) auto

lemma effective_step_shape:
  assumes "effective_step e a = Inr a'"
  shows "\<exists>p rest. a' = p @ [e] \<and> a = p @ rest"
  using assms
  by (auto simp: effective_step_def rewind_def split: option.splits if_splits sum.splits
        dest: cut_after_prefix)

text \<open>\<open>at_moment es c\<close>: the active timeline when the event numbered \<open>c\<close> was the last one.\<close>

definition at_moment :: "event list \<Rightarrow> int \<Rightarrow> log_error + event list" where
  "at_moment es c = effective_events (take (nat (c + 1)) es)"

lemma at_moment_old: "c < int (length es) \<Longrightarrow> at_moment (es @ [e]) c = at_moment es c"
  by (simp add: at_moment_def)

lemma effective_facts:
  "numbered es \<Longrightarrow> effective_events es = Inr a \<Longrightarrow>
   set a \<subseteq> set es \<and> (es \<noteq> [] \<longrightarrow> a \<noteq> [] \<and> last a = last es)
   \<and> sorted_wrt (<) (map ev_seq a)
   \<and> (\<forall>c p. cut_after c a = Some p \<longrightarrow> at_moment es c = Inr p)"
proof (induction es arbitrary: a rule: rev_induct)
  case Nil
  then show ?case by (simp add: effective_events_def)
next
  case (snoc e es)
  from snoc.prems have num: "numbered es" and seq: "ev_seq e = int (length es)" by simp_all
  from snoc.prems(2) obtain b where b: "effective_events es = Inr b" "effective_step e b = Inr a"
    by (auto simp: effective_snoc split: sum.splits)
  from effective_step_shape [OF b(2)] obtain p rest where p: "a = p @ [e]" "b = p @ rest" by blast
  note IH = snoc.IH [OF num b(1)]
  have bound: "0 \<le> c \<and> c < int (length es)" if "c \<in> ev_seq ` set p" for c
    using that IH p(2) numbered_bound [OF num] by auto
  have "at_moment (es @ [e]) c = Inr q" if q: "cut_after c a = Some q" for c q
  proof (cases "c \<in> ev_seq ` set p")
    case True
    then obtain q' where q': "cut_after c p = Some q'" using cut_after_defined by blast
    with q p have "q = q'" by (simp add: cut_after_append)
    with q' p(2) have "cut_after c b = Some q" by (simp add: cut_after_append)
    with IH have "at_moment es c = Inr q" by blast
    with bound [OF True] show ?thesis by (simp add: at_moment_old)
  next
    case False
    with q p(1) cut_after_seqs [OF q] have c: "c = ev_seq e" by auto
    have "q = a" using q cut_after_self [OF False c [symmetric]] p(1) by simp
    with c seq snoc.prems(2) show ?thesis by (simp add: at_moment_def nat_add_distrib)
  qed
  moreover have "sorted_wrt (<) (map ev_seq a)"
    using IH p seq bound by (auto simp: sorted_wrt_append)
  ultimately show ?case using IH p by auto
qed

lemma active_facts:
  assumes "numbered es" "active_events es = Inr a"
  shows "set a \<subseteq> set es" "sorted_wrt (<) (map ev_seq a)" "distinct (map ev_seq a)"
    "cut_after c a = Some p \<Longrightarrow> at_moment es c = Inr p"
proof -
  from assms(2) have eff: "effective_events es = Inr a" by (simp add: active_events_def split: sum.splits)
  note facts = effective_facts [OF assms(1) eff]
  from facts show "set a \<subseteq> set es" "cut_after c a = Some p \<Longrightarrow> at_moment es c = Inr p" by auto
  from facts show sorted: "sorted_wrt (<) (map ev_seq a)" by blast
  then show "distinct (map ev_seq a)" using strict_sorted_iff by (simp add: strict_sorted_iff)
qed

text \<open>An event that is no rewind follows the event numbered one less.\<close>

lemma active_predecessor:
  "numbered es \<Longrightarrow> effective_events es = Inr (p @ e # rest) \<Longrightarrow> revise_of e = None \<Longrightarrow>
   if ev_seq e = 0 then p = [] else p \<noteq> [] \<and> ev_seq (last p) = ev_seq e - 1"
proof (induction es arbitrary: p e rest rule: rev_induct)
  case Nil
  then show ?case by (simp add: effective_events_def)
next
  case (snoc x es)
  from snoc.prems have num: "numbered es" and seq: "ev_seq x = int (length es)" by simp_all
  from snoc.prems(2) obtain b where b: "effective_events es = Inr b" "effective_step x b = Inr (p @ e # rest)"
    by (auto simp: effective_snoc split: sum.splits)
  from effective_step_shape [OF b(2)] obtain q r where q: "p @ e # rest = q @ [x]" "b = q @ r" by blast
  note facts = effective_facts [OF num b(1)]
  show ?case
  proof (cases rest rule: rev_cases)
    case Nil
    with q have x: "x = e" "q = p" by auto
    with snoc.prems(3) b(2) q have "b = p" by (auto simp: effective_step_def)
    show ?thesis
    proof (cases "es = []")
      case True
      with b \<open>b = p\<close> x seq show ?thesis by (simp add: effective_events_def)
    next
      case False
      with facts \<open>b = p\<close> have "p \<noteq> []" "last p = last es" by auto
      moreover have "ev_seq (last es) = int (length es) - 1"
        using False numbered_nth [OF num, of "length es - 1"]
        by (simp add: last_conv_nth of_nat_diff Suc_le_eq)
      ultimately show ?thesis using x seq False by simp
    qed
  next
    case (snoc rest' y)
    with q have "q = p @ e # rest'" by simp
    with q(2) have "b = p @ e # (rest' @ r)" by simp
    with b(1) show ?thesis using snoc.IH num snoc.prems(3) by blast
  qed
qed

subsection \<open>The invariant\<close>

definition raw_of :: "event \<Rightarrow> raw_event" where
  "raw_of e = \<lparr>rw_seq = Some (ev_seq e), rw_type = event_type (ev_body e), rw_ignorable = ev_ignorable e,
     rw_body = Some (ev_body e), rw_op = ev_op e, rw_sources = ev_sources e\<rparr>"

lemma encode_raw: "encode_record e = Line (raw_of e)"
  by (simp add: encode_record_def raw_of_def)

definition loads :: "event list \<Rightarrow> bool" where
  "loads es = (load_from [] (map encode_record es) = Inr (es, False))"

definition log_ok :: "session_log \<Rightarrow> bool" where
  "log_ok l = (loads (sl_events l) \<and> (\<forall>k. \<exists>p. replay (take k (sl_events l)) = Inr p)
     \<and> sl_durable l \<le> length (sl_events l))"

lemma check_record_event:
  "check_record es r = Inr e \<Longrightarrow> ev_seq e = int (length es)"
  by (auto simp: check_record_def Let_def split: if_splits option.splits body.splits)

lemma load_from_append:
  "load_from acc (ls @ ms) = (case load_from acc ls of
     Inl err \<Rightarrow> Inl err | Inr (es, torn) \<Rightarrow> if torn then Inr (es, True) else load_from es ms)"
  by (induction acc ls rule: load_from.induct) (auto split: sum.splits)

lemma loads_Nil [simp]: "loads []"
  by (simp add: loads_def)

lemma load_length:
  "load_from acc (map encode_record es) = Inr (out, t) \<Longrightarrow> \<not> t \<and> length out = length acc + length es"
  by (induction es arbitrary: acc) (auto simp: encode_raw split: sum.splits)

lemma loads_snoc: "loads (es @ [e]) \<longleftrightarrow> loads es \<and> check_record es (raw_of e) = Inr e"
proof
  assume *: "loads (es @ [e])"
  then obtain out where out: "load_from [] (map encode_record es) = Inr (out, False)"
    using load_length [of "[]" es]
    by (auto simp: loads_def load_from_append split: sum.splits if_splits)
  then have "length out = length es" using load_length by fastforce
  with * out show "loads es \<and> check_record es (raw_of e) = Inr e"
    by (auto simp: loads_def load_from_append encode_raw split: sum.splits)
next
  assume "loads es \<and> check_record es (raw_of e) = Inr e"
  then show "loads (es @ [e])" by (simp add: loads_def load_from_append encode_raw)
qed

lemma loads_numbered: "loads es \<Longrightarrow> numbered es"
  by (induction es rule: rev_induct) (auto simp: loads_snoc dest: check_record_event)

lemma loads_append: "loads (es @ fs) \<Longrightarrow> loads es"
  by (induction fs rule: rev_induct) (auto simp: loads_snoc simp flip: append_assoc)

lemma loads_take: "loads es \<Longrightarrow> loads (take k es)"
  by (metis append_take_drop_id loads_append)

text \<open>What the generic appends of the other components add: events of a known type, or ignorable
  ones, that carry no message and change neither history nor contract.\<close>

definition known_body :: "body \<Rightarrow> bool \<Rightarrow> bool" where
  "known_body b ign = (event_type b \<noteq> [] \<and> (event_type b \<in> set KNOWN_EVENT_TYPES \<or> ign)
     \<and> (case b of ToolsContract _ \<Rightarrow> False | _ \<Rightarrow> True))"

definition inert :: "body \<Rightarrow> bool" where
  "inert b = (event_message b = None \<and> (case b of Revise _ \<Rightarrow> False | SurfaceReset _ \<Rightarrow> False | _ \<Rightarrow> True))"

definition projects :: "event list \<Rightarrow> surface \<Rightarrow> bool" where
  "projects es s = (\<exists>p. replay es = Inr p \<and> p_surface p = s)"

lemma inert_revise [simp]: "inert (ev_body e) \<Longrightarrow> revise_of e = None"
  by (auto simp: inert_def revise_of_def split: body.splits)

lemma inert_step: "inert (ev_body e) \<Longrightarrow> \<exists>p'. replay_step e p = Inr p' \<and> p_surface p' = p_surface p"
  by (cases "ev_body e") (auto simp: inert_def replay_step_def event_message_def Let_def split: option.splits)

lemma projects_inert: "projects es s \<Longrightarrow> inert (ev_body e) \<Longrightarrow> projects (es @ [e]) s"
  using inert_step by (fastforce simp: projects_def replay_snoc)

lemma message_step:
  assumes "event_message (ev_body e) = Some (Inr m)"
  shows "replay_step e p = (case surface_step (ev_seq e) (ev_op e) m (p_surface p) of
           Inl err \<Rightarrow> Inl err | Inr s \<Rightarrow> Inr (p\<lparr>p_surface := s\<rparr>))" "revise_of e = None"
  using assms by (auto simp: replay_step_def revise_of_def event_message_def Let_def split: body.splits)

lemma projects_message:
  assumes "projects es s" "event_message (ev_body e) = Some (Inr m)"
    "surface_step (ev_seq e) (ev_op e) m s = Inr s'"
  shows "projects (es @ [e]) s'"
  using assms message_step [OF assms(2)] by (auto simp: projects_def replay_snoc)

lemma projects_reset: "projects es s \<Longrightarrow> ev_body e = SurfaceReset why \<Longrightarrow> projects (es @ [e]) []"
  by (auto simp: projects_def replay_snoc revise_of_def replay_step_def)

lemma log_ok_projects: "log_ok l \<Longrightarrow> \<exists>s. projects (sl_events l) s"
  unfolding log_ok_def projects_def by (metis order_refl take_all)

text \<open>The surface of a log names its events once and in order of the log's numbers.\<close>

lemma log_ok_extend:
  assumes "log_ok l" "check_record (sl_events l) (raw_of e) = Inr e" "projects (sl_events l @ [e]) s"
    "sl_events l' = sl_events l @ [e]" "sl_durable l' = sl_durable l"
  shows "log_ok l'"
proof -
  have "\<exists>p. replay (take k (sl_events l @ [e])) = Inr p" for k
  proof (cases "k \<le> length (sl_events l)")
    case True
    with assms(1) show ?thesis by (simp add: log_ok_def)
  next
    case False
    with assms(3) show ?thesis by (auto simp: projects_def)
  qed
  with assms show ?thesis by (auto simp: log_ok_def loads_snoc)
qed

lemma log_ok_same:
  "log_ok l \<Longrightarrow> sl_events l' = sl_events l \<Longrightarrow> sl_durable l' \<le> length (sl_events l) \<Longrightarrow> log_ok l'"
  by (simp add: log_ok_def)

lemma surface_step_shape:
  assumes "surface_step q operation m s = Inr s'"
  shows "fst ` set s' \<subseteq> insert q (fst ` set s)
    \<and> (distinct (map fst s) \<longrightarrow> q \<notin> fst ` set s \<longrightarrow> distinct (map fst s'))"
proof -
  have "distinct (map fst (take i s @ [(q, m)] @ drop (Suc j) s))"
    if "distinct (map fst s)" "q \<notin> fst ` set s" "i \<le> j" for i j
  proof -
    have "set (take i (map fst s)) \<inter> set (drop (Suc j) (map fst s)) = {}"
      using that by (intro set_take_disj_set_drop_if_distinct) auto
    moreover have "distinct (take i (map fst s))" "distinct (drop (Suc j) (map fst s))"
      using that by simp_all
    ultimately show ?thesis using that
      by (auto simp: take_map drop_map dest!: in_set_takeD in_set_dropD)
  qed
  with assms show ?thesis
    by (auto simp: surface_step_def not_less split: option.splits surface_op.splits if_splits
        dest!: in_set_takeD in_set_dropD)
qed

lemma replay_step_shape:
  assumes "replay_step e p = Inr p'"
  shows "fst ` set (p_surface p') \<subseteq> insert (ev_seq e) (fst ` set (p_surface p))
    \<and> (distinct (map fst (p_surface p)) \<longrightarrow> ev_seq e \<notin> fst ` set (p_surface p)
       \<longrightarrow> distinct (map fst (p_surface p')))"
proof (cases "event_message (ev_body e)")
  case None
  with assms show ?thesis by (auto simp: replay_step_def split: body.splits)
next
  case (Some r)
  with assms obtain m where "r = Inr m"
    by (cases r) (auto simp: replay_step_def event_message_def Let_def split: body.splits)
  with Some assms message_step(1) [of e m p] obtain s
    where s: "surface_step (ev_seq e) (ev_op e) m (p_surface p) = Inr s" "p' = p\<lparr>p_surface := s\<rparr>"
    by (auto split: sum.splits)
  with surface_step_shape [OF s(1)] show ?thesis by simp
qed

lemma replay_from_distinct:
  "replay_from p es = Inr q \<Longrightarrow> sorted_wrt (<) (map ev_seq es) \<Longrightarrow> distinct (map fst (p_surface p)) \<Longrightarrow>
   \<forall>x\<in>fst ` set (p_surface p). \<forall>e\<in>set es. x < ev_seq e \<Longrightarrow> distinct (map fst (p_surface q))"
proof (induction es arbitrary: p)
  case (Cons e es)
  from Cons.prems(1) obtain p' where p': "replay_step e p = Inr p'" "replay_from p' es = Inr q"
    by (auto split: sum.splits)
  note shape = replay_step_shape [OF p'(1)]
  have "ev_seq e \<notin> fst ` set (p_surface p)" using Cons.prems(4) by fastforce
  then have "distinct (map fst (p_surface p'))" using shape Cons.prems(3) by blast
  moreover have "\<forall>x\<in>fst ` set (p_surface p'). \<forall>d\<in>set es. x < ev_seq d"
    using shape Cons.prems(2,4) by fastforce
  ultimately show ?case using Cons.IH p'(2) Cons.prems(2) by simp
qed simp

lemma projects_distinct:
  assumes "projects es s" "numbered es"
  shows "distinct (map fst s)"
proof -
  from assms(1) obtain p a where "active_events es = Inr a" "replay_from empty_projection a = Inr p"
    "p_surface p = s" by (auto simp: projects_def replay_def split: sum.splits)
  with active_facts [OF assms(2)] replay_from_distinct [of empty_projection a p] show ?thesis
    by (auto simp: empty_projection_def)
qed

text \<open>Where \<open>replay\<close> succeeds, the unchecked walk of \<open>_surface_nodes\<close> finds the same surface.\<close>

lemma node_step_agrees:
  "replay_step e p = Inr p' \<Longrightarrow> node_step e (p_surface p) = Inr (p_surface p')"
  by (cases "ev_body e")
     (auto simp: replay_step_def node_step_def event_message_def surface_step_def Let_def max_def
        split: option.splits surface_op.splits if_splits sum.splits)

lemma nodes_agree:
  "replay_from p es = Inr q \<Longrightarrow> nodes_from (p_surface p) es = Inr (p_surface q)"
  by (induction es arbitrary: p) (auto simp: node_step_agrees split: sum.splits)

lemma projects_nodes: "projects es s \<Longrightarrow> surface_nodes es = Inr s"
  using nodes_agree [of empty_projection]
  by (auto simp: projects_def replay_def surface_nodes_def empty_projection_def split: sum.splits)

lemma positions_hd_last:
  assumes "distinct (map fst s)" "s \<noteq> []"
  shows "positions s (fst (hd s)) = Some 0" "positions s (fst (last s)) = Some (length s - 1)"
proof -
  have "positions s (fst (s ! i)) = Some i" if "i < length s" for i
  proof -
    have "distinct (map fst (rev (zip (map fst s) [0..<length s])))"
      using assms(1) by (simp add: map_fst_zip flip: rev_map)
    moreover have "(fst (s ! i), i) \<in> set (rev (zip (map fst s) [0..<length s]))"
      using that by (auto simp: set_zip intro!: exI [of _ i])
    ultimately show ?thesis by (simp add: positions_def)
  qed
  from this [of 0] this [of "length s - 1"] assms(2)
  show "positions s (fst (hd s)) = Some 0" "positions s (fst (last s)) = Some (length s - 1)"
    by (simp_all add: hd_conv_nth last_conv_nth)
qed

lemma replace_all_step:
  assumes "distinct (map fst s)" "s \<noteq> []"
  shows "surface_step q (Some (SReplace (fst (hd s)) (fst (last s)))) m s = Inr [(q, m)]"
  using positions_hd_last [OF assms] assms(2) by (simp add: surface_step_def)

subsection \<open>Triples over log operations\<close>

text \<open>\<open>triple P f Q E\<close>: from \<open>P\<close>, a normal result satisfies \<open>Q\<close> and an exception leaves \<open>E\<close>.\<close>

definition triple ::
  "(session_log \<Rightarrow> bool) \<Rightarrow> 'a log_op \<Rightarrow> ('a \<Rightarrow> session_log \<Rightarrow> bool) \<Rightarrow> (session_log \<Rightarrow> bool) \<Rightarrow> bool" where
  "triple P f Q E = (\<forall>l. P l \<longrightarrow> (\<forall>r l'. f l = (r, l') \<longrightarrow> (case r of Inr x \<Rightarrow> Q x l' | Inl _ \<Rightarrow> E l')))"

named_theorems triple_rules

lemma triple_ret [triple_rules]: "(\<And>l. P l \<Longrightarrow> Q x l) \<Longrightarrow> triple P (ret x) Q E"
  by (simp add: triple_def ret_def)

lemma triple_fail [triple_rules]: "(\<And>l. P l \<Longrightarrow> E l) \<Longrightarrow> triple P (fail err) Q E"
  by (simp add: triple_def fail_def)

lemma triple_then [triple_rules]:
  "triple P f Q E \<Longrightarrow> (\<And>x. triple (Q x) (g x) R E) \<Longrightarrow> triple P (andthen_log f g) R E"
  unfolding triple_def andthen_log_def by (fastforce split: prod.splits sum.splits)

lemma triple_reading [triple_rules]:
  "(\<And>l x. P l \<Longrightarrow> f (sl_events l) = Inr x \<Longrightarrow> Q x l) \<Longrightarrow> (\<And>l. P l \<Longrightarrow> E l) \<Longrightarrow> triple P (reading f) Q E"
  by (auto simp: triple_def reading_def split: sum.splits)

lemma triple_weaken:
  "triple P f Q E \<Longrightarrow> (\<And>l. P' l \<Longrightarrow> P l) \<Longrightarrow> (\<And>x l. Q x l \<Longrightarrow> Q' x l) \<Longrightarrow> (\<And>l. E l \<Longrightarrow> E' l)
   \<Longrightarrow> triple P' f Q' E'"
  unfolding triple_def by (fastforce split: sum.splits)

lemma triple_exists: "(\<And>x. triple (P x) f Q E) \<Longrightarrow> triple (\<lambda>l. \<exists>x. P x l) f Q E"
  unfolding triple_def by blast

lemma triple_pure: "(c \<Longrightarrow> triple P f Q E) \<Longrightarrow> triple (\<lambda>l. c \<and> P l) f Q E"
  unfolding triple_def by blast

lemma tripleD: "triple P f Q E \<Longrightarrow> P l \<Longrightarrow> f l = (Inr x, l') \<Longrightarrow> Q x l'"
  unfolding triple_def by fastforce

lemma triple_snd: "triple P f (\<lambda>_. I) I \<Longrightarrow> P l \<Longrightarrow> I (snd (f l))"
  unfolding triple_def by (cases "f l") (fastforce split: sum.splits)

definition holds :: "surface \<Rightarrow> session_log \<Rightarrow> bool" where
  "holds s l = (log_ok l \<and> projects (sl_events l) s)"

lemma holds_log_ok: "holds s l \<Longrightarrow> log_ok l"
  by (simp add: holds_def)

lemma log_ok_holds: "log_ok l \<Longrightarrow> \<exists>s. holds s l"
  using log_ok_projects by (auto simp: holds_def)

lemma holds_distinct: "holds s l \<Longrightarrow> distinct (map fst s)"
  by (auto simp: holds_def log_ok_def dest: loads_numbered projects_distinct)

lemma holds_same:
  "holds s l \<Longrightarrow> sl_events l' = sl_events l \<Longrightarrow> sl_durable l' = sl_durable l \<Longrightarrow> holds s l'"
  by (simp add: holds_def log_ok_def)

definition next_event :: "session_log \<Rightarrow> body \<Rightarrow> surface_op option \<Rightarrow> int list option \<Rightarrow> bool \<Rightarrow> event" where
  "next_event l b operation sources ign = \<lparr>ev_seq = int (length (sl_events l)), ev_body = b,
     ev_op = operation, ev_sources = sources, ev_ignorable = ign\<rparr>"

lemma append_event_cases:
  assumes "append_event b operation sources ign l = (r, l')"
  shows "sl_durable l' = sl_durable l \<and> sl_pending l' = sl_pending l \<and>
    (if \<exists>e. r = Inr e then r = Inr (next_event l b operation sources ign)
        \<and> sl_events l' = sl_events l @ [next_event l b operation sources ign]
     else sl_events l' = sl_events l)"
  using assms
  by (auto simp: append_event_def next_event_def disk_outcome_def Let_def split: if_splits list.splits)

lemma known_body_check:
  "known_body b ign \<Longrightarrow> check_record (sl_events l) (raw_of (next_event l b operation sources ign))
     = Inr (next_event l b operation sources ign)"
  by (auto simp: check_record_def raw_of_def next_event_def known_body_def Let_def split: body.split)

lemma append_event_triple:
  assumes "known_body b ign"
    "\<And>l. holds s l \<Longrightarrow> projects (sl_events l @ [next_event l b operation sources ign]) (s' (int (length (sl_events l))))"
  shows "triple (holds s) (append_event b operation sources ign) (\<lambda>e. holds (s' (ev_seq e))) (holds s)"
proof -
  have "case r of Inr e \<Rightarrow> holds (s' (ev_seq e)) l' | Inl _ \<Rightarrow> holds s l'"
    if l: "holds s l" and r: "append_event b operation sources ign l = (r, l')" for l r l'
  proof (cases r)
    case Inl
    with append_event_cases [OF r] l show ?thesis by (auto intro: holds_same)
  next
    case (Inr e)
    define n where "n = next_event l b operation sources ign"
    with append_event_cases [OF r] Inr
    have n: "e = n" "sl_events l' = sl_events l @ [n]" "sl_durable l' = sl_durable l" by auto
    have p: "projects (sl_events l @ [n]) (s' (ev_seq n))"
      using assms(2) [OF l] by (simp add: n_def) (simp add: next_event_def)
    have "log_ok l'"
      using log_ok_extend [OF holds_log_ok [OF l] _ p n(2,3)] known_body_check [OF assms(1)]
      by (simp add: n_def)
    with p n Inr show ?thesis by (simp add: holds_def)
  qed
  then show ?thesis by (simp add: triple_def)
qed

lemma append_inert [triple_rules]:
  assumes "known_body b ign" "inert b"
  shows "triple (holds s) (append_event b operation sources ign) (\<lambda>_. holds s) (holds s)"
  using append_event_triple [OF assms(1), of s operation sources "\<lambda>_. s"] assms(2)
  by (simp add: holds_def projects_inert next_event_def)

lemma append_message:
  assumes "known_body b ign" "event_message b = Some (Inr m)"
    "\<And>q. distinct (map fst s) \<Longrightarrow> surface_step q operation m s = Inr (s' q)"
  shows "triple (holds s) (append_event b operation sources ign) (\<lambda>e. holds (s' (ev_seq e))) (holds s)"
proof (rule append_event_triple [OF assms(1)])
  fix l assume l: "holds s l"
  show "projects (sl_events l @ [next_event l b operation sources ign]) (s' (int (length (sl_events l))))"
    using l assms(2,3) holds_distinct [OF l] by (auto simp: holds_def next_event_def intro!: projects_message)
qed

lemma append_reset:
  "triple (holds s) (append_event (SurfaceReset why) operation sources False) (\<lambda>_. holds []) (holds s)"
  by (rule append_event_triple [where s' = "\<lambda>_. []"])
     (auto simp: known_body_def event_type_def KNOWN_EVENT_TYPES_def holds_def next_event_def intro: projects_reset)

lemma flush_triple [triple_rules]: "triple (holds s) flush (\<lambda>_. holds s) (holds s)"
  by (auto simp: triple_def flush_def holds_def log_ok_def disk_outcome_def Let_def
      split: if_splits list.splits sum.splits)

subsection \<open>Message operations\<close>

definition surfaced :: "msg \<Rightarrow> bool" where
  "surfaced m = (m_role m = ''user'' \<or> m_role m = ''assistant'' \<or> m_role m = ''tool'')"

definition stored :: "msg \<Rightarrow> msg" where
  "stored m = validate (dump m) (if m_role m = ''user'' then Some (m_source m) else None)"

lemma dump_stored [simp]: "dump (stored m) = dump m"
  by (simp add: stored_def)

lemma legacy_of_dump: "is_legacy_workflow_context (dump m) = is_legacy_workflow_context m"
  by (simp add: is_legacy_workflow_context_def)

lemma legacy_dump: "dump m = dump n \<Longrightarrow> is_legacy_workflow_context m = is_legacy_workflow_context n"
  by (subst (1 2) legacy_of_dump [symmetric]) simp

lemma legacy_stored [simp]: "is_legacy_workflow_context (stored m) = is_legacy_workflow_context m"
  by (rule legacy_dump) simp

lemma message_body_facts:
  assumes "message_body turn step m = Some mk"
  shows "surfaced m" "known_body (mk d) False" "event_message (mk d) = Some (Inr (stored m))"
  using assms
  by (auto simp: message_body_def surfaced_def known_body_def event_type_def KNOWN_EVENT_TYPES_def
      event_message_def stored_def split: if_splits)

lemma message_body_None: "message_body turn step m = None \<longleftrightarrow> \<not> surfaced m"
  by (auto simp: message_body_def surfaced_def)

lemma triple_self: "(\<And>l. triple P (f l) Q E) \<Longrightarrow> triple P (\<lambda>l. f l l) Q E"
  by (simp add: triple_def)

lemma contract_triple:
  "triple (holds s) (if c then andthen_log (append_event InputContract None None False) (\<lambda>_. ret ())
                     else ret ()) (\<lambda>_. holds s) (holds s)"
proof -
  have k: "known_body InputContract False" "inert InputContract"
    by (simp_all add: known_body_def event_type_def KNOWN_EVENT_TYPES_def inert_def event_message_def)
  show ?thesis by (simp add: triple_ret triple_then [OF append_inert [OF k] triple_ret])
qed

lemma append_message_event_triple:
  assumes "\<And>d. known_body (mk d) False" "\<And>d. event_message (mk d) = Some (Inr v)"
    "\<And>q. distinct (map fst s) \<Longrightarrow> surface_step q operation v s = Inr (s' q)"
  shows "triple (holds s) (append_message_event mk data m operation sources)
           (\<lambda>e. holds (s' (ev_seq e))) (holds s)"
  unfolding append_message_event_def Let_def
proof (rule triple_self, rule triple_then [OF contract_triple], rule triple_then)
  fix l
  show "triple (holds s)
     (append_event (mk (case m_context (snd m) of
         None \<Rightarrow> (case map_of (sl_pending l) (fst m) of None \<Rightarrow> data | Some d \<Rightarrow> AList.updates (keys d) (vals d) data)
       | Some c \<Rightarrow> AList.update ''contextUsage'' c
           (case map_of (sl_pending l) (fst m) of None \<Rightarrow> data | Some d \<Rightarrow> AList.updates (keys d) (vals d) data)))
       operation sources False) (\<lambda>e. holds (s' (ev_seq e))) (holds s)"
    by (rule append_message [OF assms])
  show "triple (holds (s' (ev_seq x)))
     (\<lambda>l'. (Inr x, l'\<lparr>sl_pending := AList.delete (fst m) (sl_pending l')\<rparr>))
     (\<lambda>e. holds (s' (ev_seq e))) (holds s)" for x :: event
    by (auto simp: triple_def intro: holds_same)
qed

definition holds_messages :: "msg list \<Rightarrow> session_log \<Rightarrow> bool" where
  "holds_messages ms l = (\<exists>s. map snd s = ms \<and> holds s l)"

lemma holds_messagesI: "holds s l \<Longrightarrow> map snd s = ms \<Longrightarrow> holds_messages ms l"
  by (auto simp: holds_messages_def)

lemma holds_messages_ok: "holds_messages ms l \<Longrightarrow> log_ok l"
  by (auto simp: holds_messages_def dest: holds_log_ok)

lemma triple_holds_messages:
  "(\<And>s :: surface. map snd s = ms \<Longrightarrow> triple (holds s) f Q E) \<Longrightarrow> triple (holds_messages ms) f Q E"
  unfolding holds_messages_def by (intro triple_exists triple_pure)

lemma triple_never [simp]: "triple (\<lambda>_. False) f Q E"
  by (simp add: triple_def)

lemma append_one:
  assumes "message_body turn step (snd m) = Some mk"
  shows "triple (holds_messages ms) (append_message_event mk data m (Some SAppend) sources)
           (\<lambda>_. holds_messages (ms @ [stored (snd m)])) log_ok"
proof (rule triple_holds_messages)
  fix s :: surface assume s: "map snd s = ms"
  have "triple (holds s) (append_message_event mk data m (Some SAppend) sources)
      (\<lambda>e. holds (s @ [(ev_seq e, stored (snd m))])) (holds s)"
    by (rule append_message_event_triple [where v = "stored (snd m)"])
       (simp_all add: message_body_facts [OF assms] surface_step_def)
  then show "triple (holds s) (append_message_event mk data m (Some SAppend) sources)
      (\<lambda>_. holds_messages (ms @ [stored (snd m)])) log_ok"
  proof (rule triple_weaken)
    fix e l assume "holds (s @ [(ev_seq e, stored (snd m))]) l"
    moreover have "map snd (s @ [(ev_seq e, stored (snd m))]) = ms @ [stored (snd m)]"
      using s by simp
    ultimately show "holds_messages (ms @ [stored (snd m)]) l"
      unfolding holds_messages_def by blast
  qed (auto intro: holds_log_ok)
qed

lemma append_suffix_triple:
  "triple (holds_messages ms) (append_suffix turn step md objs)
     (\<lambda>_. holds_messages (ms @ map stored (filter surfaced (map snd objs)))) log_ok"
proof (induction objs arbitrary: ms)
  case Nil
  then show ?case by (simp add: triple_ret)
next
  case (Cons m objs)
  show ?case
  proof (cases "message_body turn step (snd m)")
    case None
    moreover from this have "\<not> surfaced (snd m)" by (simp add: message_body_None)
    ultimately show ?thesis using Cons by simp
  next
    case (Some mk)
    from message_body_facts(1) [OF this] have "surfaced (snd m)" .
    moreover have "triple (holds_messages ms)
      (andthen_log (append_message_event mk (result_data md (snd m)) m (Some SAppend) None)
        (\<lambda>e. andthen_log (append_suffix turn step md objs) (\<lambda>es. ret (e # es))))
      (\<lambda>_. holds_messages ((ms @ [stored (snd m)]) @ map stored (filter surfaced (map snd objs)))) log_ok"
      by (rule triple_then [OF append_one [OF Some] triple_then [OF Cons triple_ret]])
    ultimately show ?thesis using Some by simp
  qed
qed

lemma append_surface_messages_triple:
  "triple (holds_messages ms) (append_surface_messages old turn step objs)
     (\<lambda>_ l. list_all surfaced (map snd objs) \<and> holds_messages (ms @ map (stored \<circ> snd) objs) l) log_ok"
proof (induction objs arbitrary: ms)
  case Nil
  then show ?case by (simp add: triple_ret)
next
  case (Cons m objs)
  show ?case
  proof (cases "message_body turn (Some step) (snd m)")
    case None
    have "triple (holds_messages ms) (append_surface_message m turn step operation sources d)
        (\<lambda>_ _. False) log_ok" for operation sources d
      by (simp add: append_surface_message_def None triple_fail holds_messages_ok)
    then show ?thesis unfolding append_surface_messages.simps by (rule triple_then) simp
  next
    case (Some mk)
    from message_body_facts(1) [OF this] have "surfaced (snd m)" .
    moreover have "triple (holds_messages ms) (append_surface_message m turn step (Some SAppend) None d)
        (\<lambda>_. holds_messages (ms @ [stored (snd m)])) log_ok" for d
      by (simp add: append_surface_message_def Some append_one [OF Some])
    then have "triple (holds_messages ms) (append_surface_messages old turn step (m # objs))
      (\<lambda>_ l. list_all surfaced (map snd objs)
             \<and> holds_messages ((ms @ [stored (snd m)]) @ map (stored \<circ> snd) objs) l) log_ok"
      unfolding append_surface_messages.simps by (rule triple_then [OF _ triple_then [OF Cons triple_ret]])
    ultimately show ?thesis by (simp add: comp_def)
  qed
qed

lemma append_replacing:
  assumes "s \<noteq> []"
  shows "triple (holds s) (append_surface_message m turn step
      (Some (SReplace (fst (hd s)) (fst (last s)))) sources d)
    (\<lambda>_ l. surfaced (snd m) \<and> holds_messages [stored (snd m)] l) log_ok"
proof (cases "message_body turn (Some step) (snd m)")
  case None
  then show ?thesis by (simp add: append_surface_message_def triple_fail holds_log_ok)
next
  case (Some mk)
  have "triple (holds s) (append_message_event mk data m
      (Some (SReplace (fst (hd s)) (fst (last s)))) sources)
      (\<lambda>e. holds [(ev_seq e, stored (snd m))]) (holds s)" for data
    by (rule append_message_event_triple [where v = "stored (snd m)"])
       (simp_all add: message_body_facts [OF Some] replace_all_step assms)
  then show ?thesis unfolding append_surface_message_def Some option.case
    by (rule triple_weaken)
       (auto simp: message_body_facts [OF Some] intro: holds_log_ok holds_messagesI)
qed

lemma replace_surface_triple:
  "triple (holds_messages ms) (replace_surface objs turn step)
     (\<lambda>_ l. objs \<noteq> [] \<and> list_all surfaced (map snd objs) \<and> holds_messages (map (stored \<circ> snd) objs) l) log_ok"
proof (cases objs)
  case Nil
  then show ?thesis by (simp add: replace_surface_def triple_fail holds_messages_ok)
next
  case (Cons m rest)
  show ?thesis
  proof (rule triple_holds_messages)
    fix s :: surface
    define Q where "Q = (\<lambda>(_::event list) l. objs \<noteq> [] \<and> list_all surfaced (map snd objs)
      \<and> holds_messages (map (stored \<circ> snd) objs) l)"
    have "triple (holds s) (append_surface_messages s turn step objs) Q log_ok" if "s = []"
    proof -
      have "triple (holds_messages []) (append_surface_messages s turn step objs) Q log_ok"
        by (rule triple_weaken [OF append_surface_messages_triple]) (auto simp: Q_def Cons)
      then show ?thesis by (rule triple_weaken) (auto simp: holds_messages_def that)
    qed
    moreover have "triple (holds s) (andthen_log (append_surface_message m turn step
          (Some (SReplace (fst (hd s)) (fst (last s)))) (Some (map fst s)) (snd m \<in> snd ` set s))
        (\<lambda>e. andthen_log (append_surface_messages s turn step rest) (\<lambda>es. ret (e # es)))) Q log_ok"
      if "s \<noteq> []"
    proof (rule triple_then [OF append_replacing [OF that]], rule triple_pure, rule triple_then [OF append_surface_messages_triple])
      show "triple (\<lambda>l. list_all surfaced (map snd rest) \<and>
          holds_messages ([stored (snd m)] @ map (stored \<circ> snd) rest) l) (ret (e # es)) Q log_ok"
        if "surfaced (snd m)" for e es
        using that by (auto simp: Q_def Cons intro!: triple_ret)
    qed
    ultimately have "triple (\<lambda>l. old = s \<and> holds s l)
        (if old = [] then append_surface_messages old turn step objs
         else andthen_log (append_surface_message m turn step
                 (Some (SReplace (fst (hd old)) (fst (last old)))) (Some (map fst old))
                 (snd m \<in> snd ` set old)) (\<lambda>e.
               andthen_log (append_surface_messages old turn step rest) (\<lambda>es. ret (e # es)))) Q log_ok" for old
      by (intro triple_pure) (simp split: if_split)
    moreover have "triple (holds s) (reading surface_nodes) (\<lambda>old l. old = s \<and> holds s l) log_ok"
      by (rule triple_reading) (auto simp: holds_def dest: projects_nodes)
    ultimately show "triple (holds s) (replace_surface objs turn step) (\<lambda>_ l. objs \<noteq> [] \<and>
        list_all surfaced (map snd objs) \<and> holds_messages (map (stored \<circ> snd) objs) l) log_ok"
      unfolding replace_surface_def Cons list.case Q_def by (rule triple_then [rotated])
  qed
qed

text \<open>The conversation a replay shows.\<close>

definition shown :: "msg list \<Rightarrow> msg list" where
  "shown ms = map dump (filter (\<lambda>m. \<not> is_legacy_workflow_context m) ms)"

lemma shown_stored [simp]: "shown (map (stored \<circ> snd) objs) = shown (map snd objs)"
  by (induction objs) (auto simp: shown_def)

lemma shown_append: "shown (xs @ ys) = shown xs @ shown ys"
  by (simp add: shown_def)

lemma shown_of_dumps: "map dump xs = map dump ys \<Longrightarrow> shown xs = shown ys"
  unfolding shown_def
  by (induction xs ys rule: list_induct2') (auto dest: legacy_dump)

lemma shown_all: "map dump xs = shown ys \<Longrightarrow> shown xs = map dump xs"
  using shown_of_dumps [of xs "filter (\<lambda>m. \<not> is_legacy_workflow_context m) ys"]
  by (simp add: shown_def)

definition shows_conversation :: "msg list \<Rightarrow> session_log \<Rightarrow> bool" where
  "shows_conversation ms l = (\<exists>p. replay (sl_events l) = Inr p \<and> map dump (projection_messages p) = shown ms)"

lemma shows_cong: "shows_conversation xs l \<Longrightarrow> shown xs = shown ys \<Longrightarrow> shows_conversation ys l"
  by (simp add: shows_conversation_def)

lemma holds_messages_shows: "holds_messages ms l \<Longrightarrow> shows_conversation ms l"
  by (auto simp: holds_messages_def holds_def projects_def shows_conversation_def projection_messages_def shown_def)

lemma reading_replay:
  "triple (holds_messages ms) (reading replay)
     (\<lambda>p l. map snd (p_surface p) = ms \<and> holds_messages ms l) log_ok"
  by (rule triple_reading)
     (auto simp: holds_messages_ok, auto simp: holds_messages_def holds_def projects_def)

lemma append_unlogged_triple:
  assumes "list_all surfaced (map snd objs)" "objs \<noteq> []"
  shows "triple (holds_messages ms) (append_unlogged_messages objs turn step md)
    (\<lambda>_ l. log_ok l \<and> shows_conversation (map snd objs) l) log_ok"
  unfolding append_unlogged_messages_def Let_def
proof (rule triple_then [OF reading_replay], rule triple_pure)
  fix p :: projection assume p: "map snd (p_surface p) = ms"
  let ?pers = "map dump (projection_messages p)"
  let ?n = "length ?pers"
  have pers: "?pers = shown ms"
    by (simp add: projection_messages_def shown_def flip: p)
  have "triple (holds_messages ms) (replace_surface objs turn k)
      (\<lambda>_ l. log_ok l \<and> shows_conversation (map snd objs) l) log_ok" for k
    by (rule triple_weaken [OF replace_surface_triple])
       (auto simp: holds_messages_ok shows_conversation_def dest: holds_messages_shows)
  moreover have "triple (holds_messages ms) (append_suffix turn step md (drop ?n objs))
      (\<lambda>_ l. log_ok l \<and> shows_conversation (map snd objs) l) log_ok"
    if pre: "take ?n (map (dump \<circ> snd) objs) = ?pers"
  proof -
    have "map dump (map snd (take ?n objs)) = shown ms"
      using pre pers by (simp add: take_map)
    with shown_all [of "map snd (take ?n objs)" ms] have take: "shown (map snd (take ?n objs)) = shown ms"
      by simp
    have all: "filter surfaced (map snd (drop ?n objs)) = map snd (drop ?n objs)"
      using assms(1) by (auto simp: list_all_iff filter_id_conv dest: in_set_dropD)
    have "shown (map snd objs) = shown (map snd (take ?n objs)) @ shown (map snd (drop ?n objs))"
      by (simp flip: shown_append map_append)
    also have "\<dots> = shown (ms @ map stored (map snd (drop ?n objs)))"
      using take shown_stored [of "drop ?n objs"] by (simp add: shown_append comp_def)
    finally have "shown (ms @ map stored (map snd (drop ?n objs))) = shown (map snd objs)" by simp
    note shown_now = shows_cong [OF holds_messages_shows this]
    have "triple (holds_messages ms) (append_suffix turn step md (drop ?n objs))
        (\<lambda>_. holds_messages (ms @ map stored (map snd (drop ?n objs)))) log_ok"
      using append_suffix_triple [of ms turn step md "drop ?n objs"] unfolding all .
    then show ?thesis by (rule triple_weaken) (use shown_now holds_messages_ok in blast)+
  qed
  ultimately show "triple (holds_messages ms)
     (if take ?n (map (dump \<circ> snd) objs) \<noteq> ?pers
      then if objs = [] then ret [] else replace_surface objs turn (case step of None \<Rightarrow> 0 | Some k \<Rightarrow> k)
      else append_suffix turn step md (drop ?n objs))
     (\<lambda>_ l. log_ok l \<and> shows_conversation (map snd objs) l) log_ok"
    using assms(2) by simp
qed


subsection \<open>Every operation keeps the invariant\<close>

definition keeps :: "'a log_op \<Rightarrow> bool" where
  "keeps f = triple log_ok f (\<lambda>_. log_ok) log_ok"

named_theorems keeps_rules

lemma keepsD: "keeps f \<Longrightarrow> log_ok l \<Longrightarrow> log_ok (snd (f l))"
  unfolding keeps_def by (rule triple_snd)

lemma keeps_then [keeps_rules]: "keeps f \<Longrightarrow> (\<And>x. keeps (g x)) \<Longrightarrow> keeps (andthen_log f g)"
  unfolding keeps_def by (rule triple_then)

lemma keeps_simple [keeps_rules]: "keeps (ret x)" "keeps (fail e)" "keeps (reading h)"
  by (auto simp: keeps_def triple_def ret_def fail_def reading_def split: sum.split)

lemma log_ok_holds_messages: "log_ok l \<Longrightarrow> \<exists>ms. holds_messages ms l"
  by (auto simp: holds_messages_def dest: log_ok_holds)

lemma keepsI: "(\<And>ms. triple (holds_messages ms) f (\<lambda>_. log_ok) log_ok) \<Longrightarrow> keeps f"
  unfolding keeps_def triple_def using log_ok_holds_messages by blast

lemma keepsI_holds: "(\<And>s. triple (holds s) f (\<lambda>_. log_ok) log_ok) \<Longrightarrow> keeps f"
  unfolding keeps_def triple_def using log_ok_holds by blast

lemma keeps_inert [keeps_rules]:
  "known_body b ign \<Longrightarrow> inert b \<Longrightarrow> keeps (append_event b operation sources ign)"
  by (rule keepsI_holds, rule triple_weaken [OF append_inert]) (auto intro: holds_log_ok)

lemma keeps_flush [keeps_rules]: "keeps flush"
  by (rule keepsI_holds, rule triple_weaken [OF flush_triple]) (auto intro: holds_log_ok)

lemma keeps_same: "(\<And>l. sl_events (snd (f l)) = sl_events l \<and> sl_durable (snd (f l)) = sl_durable l) \<Longrightarrow> keeps f"
  unfolding keeps_def triple_def
  by (metis (no_types, lifting) log_ok_def snd_conv sum.case_eq_if)

lemma keeps_close [keeps_rules]: "keeps close"
  by (rule keeps_same) (simp add: close_def)

lemma keeps_metadata [keeps_rules]: "keeps (message_metadata i)" "keeps (set_metadata i d)"
  by (rule keeps_same; simp add: message_metadata_def set_metadata_def split: option.split)+

lemma keeps_queue [keeps_rules]: "keeps (queue_message_images m refs)"
  by (auto simp: queue_message_images_def intro!: keeps_rules split: option.split)

lemma keeps_mark [keeps_rules]: "keeps (mark_model_response m n)"
  by (auto simp: mark_model_response_def intro!: keeps_rules)

lemma keeps_replace [keeps_rules]: "keeps (replace_surface objs turn step)"
  by (rule keepsI, rule triple_weaken [OF replace_surface_triple]) (auto intro: holds_messages_ok)

lemma keeps_suffix [keeps_rules]: "keeps (append_suffix turn step md objs)"
  by (rule keepsI, rule triple_weaken [OF append_suffix_triple]) (auto intro: holds_messages_ok)

lemma keeps_unlogged [keeps_rules]: "keeps (append_unlogged_messages objs turn step md)"
  unfolding append_unlogged_messages_def Let_def by (intro keeps_rules keeps_then) (simp add: keeps_rules)

lemma keeps_reset [keeps_rules]: "keeps (reset_surface why)"
proof -
  have "keeps (append_event (SurfaceReset why) None None False)"
    by (rule keepsI_holds, rule triple_weaken [OF append_reset]) (auto intro: holds_log_ok)
  moreover have "keeps (\<lambda>l. (Inr e, l\<lparr>sl_pending := []\<rparr>))" for e :: event
    by (rule keeps_same) simp
  ultimately show ?thesis unfolding reset_surface_def by (intro keeps_then keeps_flush)
qed

lemma closer_facts:
  "known_body (closer_body turn i c) False"
  "event_message (closer_body turn i c) = Some (Inr (validate (tool_reply (closer_text c) i (pc_name c)) None))"
  by (simp_all add: closer_body_def known_body_def event_type_def KNOWN_EVENT_TYPES_def event_message_def)

lemma lifecycle_inert [simp]:
  "known_body (StepEnd t s) ign" "inert (StepEnd t s)" "known_body (TurnEnd t r) ign" "inert (TurnEnd t r)"
  "known_body EndSeed ign" "inert EndSeed" "known_body (ToolCallEv t k i n a) ign" "inert (ToolCallEv t k i n a)"
  by (simp_all add: known_body_def event_type_def KNOWN_EVENT_TYPES_def inert_def event_message_def)

lemma append_closer:
  "triple (holds_messages ms) (append_event (closer_body turn i c) (Some SAppend) sources False)
     (\<lambda>_. holds_messages (ms @ [validate (tool_reply (closer_text c) i (pc_name c)) None])) log_ok"
proof (rule triple_holds_messages)
  fix s :: surface assume "map snd s = ms"
  then show "triple (holds s) (append_event (closer_body turn i c) (Some SAppend) sources False)
     (\<lambda>_. holds_messages (ms @ [validate (tool_reply (closer_text c) i (pc_name c)) None])) log_ok"
    by (intro triple_weaken [OF append_message [OF closer_facts, where s = s and
          s' = "\<lambda>q. s @ [(q, validate (tool_reply (closer_text c) i (pc_name c)) None)]"]])
       (auto simp: surface_step_def intro: holds_messagesI holds_log_ok)
qed

definition closing_reply :: "string \<times> pending_call \<Rightarrow> msg" where
  "closing_reply = (\<lambda>(i, c). validate (tool_reply (closer_text c) i (pc_name c)) None)"

lemma close_calls_triple:
  "triple (holds_messages ms) (close_calls turn cs)
     (\<lambda>_. holds_messages (ms @ map closing_reply cs)) log_ok"
proof (induction cs arbitrary: ms)
  case Nil
  then show ?case by (simp add: triple_ret)
next
  case (Cons ic cs)
  obtain i c where ic: "ic = (i, c)" by fastforce
  have "triple (holds_messages ms) (close_calls turn (ic # cs))
      (\<lambda>_. holds_messages ((ms @ [closing_reply ic]) @ map closing_reply cs)) log_ok"
    unfolding ic close_calls.simps closing_reply_def prod.case
    by (rule triple_then [OF append_closer triple_then [OF Cons [unfolded closing_reply_def] triple_ret]])
  then show ?case by simp
qed

lemma keeps_close_calls [keeps_rules]: "keeps (close_calls turn cs)"
  by (rule keepsI, rule triple_weaken [OF close_calls_triple]) (auto intro: holds_messages_ok)

lemma keeps_repair [keeps_rules]: "keeps repair_interrupted_turn"
proof -
  have "keeps (case st of None \<Rightarrow> ret [] | Some s \<Rightarrow>
      andthen_log (append_event (StepEnd turn s) None None False) (\<lambda>e. ret [e]))" for st turn
    by (cases st) (auto intro!: keeps_rules)
  then show ?thesis unfolding repair_interrupted_turn_def
    by (intro keeps_then keeps_simple) (auto split: option.split intro!: keeps_rules)
qed

lemma keeps_resume [keeps_rules]: "keeps prepare_resume"
  by (auto simp: prepare_resume_def intro!: keeps_rules)

lemma keeps_resume_projection [keeps_rules]: "keeps (prepare_resume_projection p)"
  by (auto simp: prepare_resume_projection_def intro!: keeps_rules)

lemma keeps_bind_version [keeps_rules]: "keeps (bind_tool_interface_version v)"
proof -
  have "keeps (resolve_tool_interface_version v)"
    by (rule keeps_same) (simp add: resolve_tool_interface_version_def split: list.split option.split)
  moreover have "keeps (\<lambda>l. if u = PInt 2 \<and> contract_versions (sl_events l) = []
      then andthen_log (append_event (ToolsContract u) None None False) (\<lambda>_. flush) l else (Inr (), l))" for u
  proof -
    have "triple (\<lambda>l. log_ok l \<and> u = PInt 2 \<and> contract_versions (sl_events l) = [])
        (append_event (ToolsContract u) None None False) (\<lambda>_. log_ok) log_ok"
      unfolding triple_def
    proof (intro allI impI)
      fix l r l'
      assume l: "log_ok l \<and> u = PInt 2 \<and> contract_versions (sl_events l) = []"
        and r: "append_event (ToolsContract u) None None False l = (r, l')"
      let ?n = "next_event l (ToolsContract u) None None False"
      from l obtain s where s: "projects (sl_events l) s" using log_ok_projects by blast
      have "check_record (sl_events l) (raw_of ?n) = Inr ?n"
        using l by (simp add: check_record_def raw_of_def next_event_def event_type_def
            KNOWN_EVENT_TYPES_def supported_version_def)
      moreover have "projects (sl_events l @ [?n]) s"
        by (rule projects_inert [OF s]) (simp add: next_event_def inert_def event_message_def)
      ultimately show "case r of Inr x \<Rightarrow> log_ok l' | Inl _ \<Rightarrow> log_ok l'"
        using append_event_cases [OF r] l log_ok_extend [of l ?n s l']
        by (cases r) (auto simp: log_ok_def)
    qed
    from triple_then [OF this keeps_flush [unfolded keeps_def]]
    show ?thesis unfolding keeps_def triple_def by (auto split: if_splits)
  qed
  moreover have "keeps (\<lambda>l. (Inr u, l\<lparr>sl_tool_version := Some w\<rparr>))" for u w :: pyval
    by (rule keeps_same) simp
  ultimately show ?thesis unfolding bind_tool_interface_version_def by (intro keeps_then)
qed

lemma find_revision_None:
  "find (\<lambda>r. rv_turn r = t) (List.map_filter revise_of es) = None \<longleftrightarrow>
   \<not> list_ex (\<lambda>e. case revise_of e of Some q \<Rightarrow> rv_turn q = t | None \<Rightarrow> False) es"
  by (induction es) (auto simp: List.map_filter_simps split: option.splits)

text \<open>A fresh edit takes the conversation back to the moment before the target turn was bound.\<close>

lemma revise_replay:
  assumes num: "numbered es" and act: "active_events es = Inr a"
    and req: "revision_request es target turn expected fp = Inr r"
    and fresh: "find (\<lambda>q. rv_turn q = turn) (List.map_filter revise_of es) = None"
    and e: "ev_body e = Revise r" "ev_seq e = int (length es)"
  shows "replay (es @ [e]) = replay_through (rv_restore_through r) es"
proof -
  from act have eff: "effective_events es = Inr a" by (simp add: active_events_def split: sum.splits)
  from req fresh eff obtain b where b: "filter (\<lambda>b. fst b = target) (List.map_filter binding_of a) = [b]"
    and r: "rv_id r = turn" "rv_previous r = expected" "rv_turn r = turn" "rv_restore_through r = snd b - 1"
    and ids: "valid_identity turn" "valid_identity expected"
    by (auto simp: revision_request_def split: if_splits list.splits)
  have "b \<in> set (List.map_filter binding_of a)" using b
    by (metis filter_is_subset list.set_intros(1) subsetD)
  then obtain ev where ev: "ev \<in> set a" "binding_of ev = Some b"
    by (auto simp: List.map_filter_def)
  then have seq: "ev_seq ev = snd b" and plain: "revise_of ev = None"
    by (auto simp: binding_of_def revise_of_def split: body.splits)
  from ev(1) obtain p rest where a: "a = p @ ev # rest" by (auto simp: in_set_conv_decomp)
  note pred = active_predecessor [OF num eff [unfolded a] plain]
  have ne: "turn \<noteq> []" "expected \<noteq> []" using ids by (auto simp: valid_identity_def py_strip_def py_lstrip_def py_rstrip_def)
  have bound: "0 \<le> snd b \<and> snd b < int (length es)"
    using active_facts(1) [OF num act] numbered_bound [OF num, of ev] ev(1) seq by auto
  have p: "rewind e r a = Inr p \<and> at_moment es (rv_restore_through r) = Inr p"
  proof (cases "snd b = 0")
    case True
    with pred seq r ne e(2) show ?thesis
      by (simp add: rewind_def at_moment_def effective_events_def)
  next
    case False
    with pred seq have p: "p \<noteq> []" "ev_seq (last p) = snd b - 1" by auto
    have "cut_after (snd b - 1) p = Some p"
    proof -
      have "snd b - 1 \<notin> ev_seq ` set (butlast p)"
      proof -
        have "distinct (map ev_seq p)" using active_facts(3) [OF num act] a by simp
        then have "distinct (map ev_seq (butlast p @ [last p]))" using p(1) by simp
        then show ?thesis by (simp add: p(2))
      qed
      from cut_after_self [OF this p(2)] p(1) show ?thesis by simp
    qed
    then have cut: "cut_after (snd b - 1) a = Some p" by (simp add: a cut_after_append)
    moreover have "rewind e r a = Inr p"
      using cut r ne e(2) bound False by (simp add: rewind_def)
    ultimately show ?thesis using active_facts(4) [OF num act cut] r(4) by simp
  qed
  then have "active_events (es @ [e]) = Inr (p @ [e])"
    by (simp add: active_events_def effective_snoc eff effective_step_def revise_of_def e(1))
  moreover have "replay_from empty_projection (p @ [e]) = replay_from empty_projection p"
    by (simp add: rp.fold_snoc replay_step_def event_message_def e(1) split: sum.split)
  ultimately show ?thesis using p
    by (simp add: replay_def replay_through_def at_moment_def active_events_def)
qed

lemma revision_turn: "revision_request es target turn expected fp = Inr r \<Longrightarrow> rv_turn r = turn"
  by (auto simp: revision_request_def dest!: find_SomeD split: if_splits option.splits list.splits sum.splits)

definition fresh_turn :: "string \<Rightarrow> event list \<Rightarrow> bool" where
  "fresh_turn turn es = (find (\<lambda>q. rv_turn q = turn) (List.map_filter revise_of es) = None)"

lemma log_ok_active: "log_ok l \<Longrightarrow> \<exists>a. active_events (sl_events l) = Inr a"
  by (drule log_ok_projects) (auto simp: projects_def replay_def split: sum.splits)

lemma revise_event_ok:
  assumes l: "log_ok l" and req: "revision_request (sl_events l) target turn expected fp = Inr r"
    and fresh: "fresh_turn turn (sl_events l)"
  shows "triple (\<lambda>l'. l' = l) (append_event (Revise r) None None False)
    (\<lambda>_ l'. log_ok l' \<and> replay (sl_events l') = replay_through (rv_restore_through r) (sl_events l)) log_ok"
  unfolding triple_def
proof (intro allI impI)
  fix l0 res l' assume "l0 = l" and res: "append_event (Revise r) None None False l0 = (res, l')"
  let ?n = "next_event l (Revise r) None None False"
  from log_ok_active [OF l] obtain a where a: "active_events (sl_events l) = Inr a" by blast
  have num: "numbered (sl_events l)" using l by (simp add: log_ok_def loads_numbered)
  have rep: "replay (sl_events l @ [?n]) = replay_through (rv_restore_through r) (sl_events l)"
    using revise_replay [OF num a req, of ?n] fresh by (simp add: fresh_turn_def next_event_def)
  with l obtain p where "replay (sl_events l @ [?n]) = Inr p"
    by (auto simp: log_ok_def replay_through_def)
  then have "projects (sl_events l @ [?n]) (p_surface p)" by (simp add: projects_def)
  moreover have "check_record (sl_events l) (raw_of ?n) = Inr ?n"
    by (rule known_body_check) (simp add: known_body_def event_type_def KNOWN_EVENT_TYPES_def)
  ultimately show "case res of Inr _ \<Rightarrow> log_ok l' \<and> replay (sl_events l') =
      replay_through (rv_restore_through r) (sl_events l) | Inl _ \<Rightarrow> log_ok l'"
    using append_event_cases [OF res] \<open>l0 = l\<close> rep l log_ok_extend [OF l, of ?n "p_surface p" l']
    by (cases res) (auto simp: log_ok_def)
qed

text \<open>What an edit does from a given log, when it succeeds.\<close>

lemma edit_cases:
  assumes "log_ok l" "edit_history target turn expected fp skills cancelled l = (res, l')"
  shows "log_ok l' \<and> (case res of Inl _ \<Rightarrow> True | Inr p \<Rightarrow> skills \<and> \<not> cancelled
     \<and> pending_after {} (projection_messages p) = Some {}
     \<and> (\<exists>r. revision_request (sl_events l) target turn expected fp = Inr r
          \<and> replay_through (rv_restore_through r) (sl_events l) = Inr p
          \<and> (if fresh_turn turn (sl_events l)
             then replay (sl_events l') = Inr p \<and> sl_durable l' = length (sl_events l') else l' = l)))"
proof (cases "revision_request (sl_events l) target turn expected fp")
  case Inl
  with assms show ?thesis by (auto simp: edit_history_def andthen_log_def reading_def)
next
  case (Inr r)
  let ?es = "sl_events l"
  let ?seen = "list_ex (\<lambda>e. case revise_of e of Some q \<Rightarrow> rv_turn q = rv_turn r | None \<Rightarrow> False) ?es"
  have seen: "?seen \<longleftrightarrow> \<not> fresh_turn turn ?es"
    using find_revision_None [of turn ?es] by (subst revision_turn [OF Inr]) (simp add: fresh_turn_def)
  from assms(1) obtain p where p: "replay_through (rv_restore_through r) ?es = Inr p"
    by (auto simp: log_ok_def replay_through_def)
  show ?thesis
  proof (cases "pending_after {} (projection_messages p) = Some {} \<and> skills \<and> \<not> cancelled")
    case False
    with assms Inr p show ?thesis
      by (auto simp: edit_history_def revise_agent_history_def andthen_log_def reading_def fail_def
          split: if_splits)
  next
    case True
    then have run: "edit_history target turn expected fp skills cancelled l =
       andthen_log (\<lambda>l. if ?seen then (Inr (), l)
          else andthen_log (append_event (Revise r) None None False) (\<lambda>_. flush) l) (\<lambda>_. ret p) l"
      using Inr p by (simp add: edit_history_def revise_agent_history_def andthen_log_def reading_def)
    show ?thesis
    proof (cases "fresh_turn turn ?es")
      case False
      with assms run seen True Inr p show ?thesis by (simp add: andthen_log_def ret_def)
    next
      case fresh: True
      obtain r1 l1 where a: "append_event (Revise r) None None False l = (r1, l1)" by fastforce
      obtain r2 l2 where f: "flush l1 = (r2, l2)" by fastforce
      have ok1: "log_ok l1" and rep1: "\<And>e. r1 = Inr e \<Longrightarrow> replay (sl_events l1) = Inr p"
        using revise_event_ok [OF assms(1) Inr fresh] a p by (auto simp: triple_def split: sum.splits)
      have ok2: "log_ok l2" using keepsD [OF keeps_flush ok1] f by simp
      have "sl_events l2 = sl_events l1 \<and> (\<forall>u. r2 = Inr u \<longrightarrow> sl_durable l2 = length (sl_events l1))"
        using f by (auto simp: flush_def disk_outcome_def Let_def split: if_splits list.splits)
      with ok1 rep1 ok2 a f fresh seen True Inr p assms run show ?thesis
        by (auto simp: andthen_log_def ret_def split: sum.splits)
    qed
  qed
qed

lemma keeps_edit [keeps_rules]: "keeps (edit_history target turn expected fp skills cancelled)"
  unfolding keeps_def triple_def
  using edit_cases by (fastforce split: sum.splits)

subsection \<open>Crashes\<close>

lemma load_encoded:
  assumes "loads es"
  shows "load_from [] (map encode_record es @ (if torn then [Torn] else [])) = Inr (es, torn)"
  using assms by (simp add: loads_def load_from_append)

lemma reopen_prefix:
  assumes "log_ok l" "cwd \<noteq> []"
  shows "open_log (=) i cwd recover project (HeaderLine (Some i) (Some cwd) 1)
      (map encode_record (take k (sl_events l)) @ (if torn then [Torn] else [])) disk
    = Inr (new_log (take k (sl_events l)) disk False)"
proof -
  from assms(1) obtain p where "replay (take k (sl_events l)) = Inr p" by (auto simp: log_ok_def)
  moreover have "load_from [] (map encode_record (take k (sl_events l)) @ (if torn then [Torn] else []))
      = Inr (take k (sl_events l), torn)"
    using assms(1) by (intro load_encoded) (simp add: log_ok_def loads_take)
  ultimately show ?thesis using assms(2) by (simp add: open_log_def open_body_def Let_def)
qed

lemma log_ok_new: "log_ok l \<Longrightarrow> log_ok (new_log (take k (sl_events l)) disk created)"
  by (auto simp: log_ok_def new_log_def loads_take)

lemma log_ok_empty: "log_ok (new_log [] disk created)"
  by (simp add: log_ok_def new_log_def replay_def active_events_def effective_events_def)

lemma plain_body_facts: "plain_body b ign \<Longrightarrow> known_body b ign \<and> inert b"
  by (auto simp: plain_body_def known_body_def inert_def split: body.splits)

lemma exec_log_ok: "log_ok l \<Longrightarrow> log_ok (snd (exec_log l op))"
proof (cases op)
  case (Crash k torn disk)
  assume "log_ok l"
  then show ?thesis
    using Crash reopen_prefix [of l "''cwd''" "''id''" True True "max (sl_durable l) k" torn disk]
    by (simp add: reopen_def crash_file_def log_ok_new)
next
  case (Append b ign)
  assume "log_ok l"
  then show ?thesis using Append keepsD [OF keeps_inert, of b ign l None None] plain_body_facts [of b ign]
    by (simp add: outcome_def)
qed (simp_all add: outcome_def keepsD keeps_rules)

interpretation slog: component exec_log log_ok
  by unfold_locales (rule exec_log_ok)

definition written :: "bool list \<Rightarrow> bool \<Rightarrow> log_operation list \<Rightarrow> session_log" where
  "written disk created ops = foldl (\<lambda>l op. snd (exec_log l op)) (new_log [] disk created) ops"

lemma written_ok [simp]: "log_ok (written disk created ops)"
  using slog.run_inv [OF log_ok_empty] by (simp add: written_def slog.run_def)

text \<open>
  C28. A crash loses at most what was not flushed, and never makes the log unreadable: after any
  history of operations (earlier crashes, failed writes and fsyncs included), a file that holds
  the durable events, any number of the later ones and possibly a torn last line opens, with or
  without recovery, to a log with exactly those complete events, and their replay succeeds.
\<close>

theorem log_crash_recovery:
  assumes "written disk created ops = l" "sl_durable l \<le> k" "cwd \<noteq> []"
  shows "open_log (=) i cwd recover project (HeaderLine (Some i) (Some cwd) 1)
      (map encode_record (take k (sl_events l)) @ (if torn then [Torn] else [])) disk'
    = Inr (new_log (take k (sl_events l)) disk' False)
    \<and> take (sl_durable l) (take k (sl_events l)) = take (sl_durable l) (sl_events l)
    \<and> (\<exists>p. replay (take k (sl_events l)) = Inr p)"
proof -
  have ok: "log_ok l" using assms(1) by auto
  with assms(2,3) show ?thesis
    using reopen_prefix [OF ok, of cwd i recover project k torn disk']
    by (auto simp: log_ok_def min_def)
qed

text \<open>
  C29. Whatever the log already holds, \<open>append_unlogged_messages\<close> with a conversation of user,
  assistant and tool messages makes the replayed conversation equal to the live one (in every
  serialised field, without the workflow notes of older versions), whether it could append the
  rest or had to replace the surface.
\<close>

theorem log_follows_conversation:
  assumes "written disk created ops = l" "list_all surfaced (map snd objs)" "objs \<noteq> []"
    "append_unlogged_messages objs turn step md l = (Inr es, l')"
  shows "\<exists>p. replay (sl_events l') = Inr p \<and> map dump (projection_messages p) = shown (map snd objs)"
proof -
  have "log_ok l" using assms(1) by auto
  then obtain ms where "holds_messages ms l" using log_ok_holds_messages by blast
  from tripleD [OF append_unlogged_triple [OF assms(2,3)] this assms(4)]
  show ?thesis by (simp add: shows_conversation_def)
qed

subsection \<open>Repair\<close>

definition grew :: "event list \<Rightarrow> body list \<Rightarrow> session_log \<Rightarrow> bool" where
  "grew base bs l = (\<exists>es. sl_events l = base @ es \<and> map ev_body es = bs)"

lemma grew_append:
  "triple (grew base bs) (append_event b operation sources ign) (\<lambda>_. grew base (bs @ [b])) (\<lambda>_. True)"
  unfolding triple_def
proof (intro allI impI)
  fix l r l' assume "grew base bs l" and r: "append_event b operation sources ign l = (r, l')"
  then obtain es where es: "sl_events l = base @ es" "map ev_body es = bs" by (auto simp: grew_def)
  from append_event_cases [OF r] es
  have "grew base (bs @ [b]) l'" if "r = Inr x" for x
    using that by (auto simp: grew_def next_event_def intro!: exI [of _ "es @ [_]"])
  then show "case r of Inr x \<Rightarrow> grew base (bs @ [b]) l' | Inl _ \<Rightarrow> True" by (simp split: sum.split)
qed

lemma grew_close_calls:
  "triple (grew base bs) (close_calls turn cs)
     (\<lambda>_. grew base (bs @ map (\<lambda>(i, c). closer_body turn i c) cs)) (\<lambda>_. True)"
proof (induction cs arbitrary: bs)
  case Nil
  then show ?case by (simp add: triple_ret)
next
  case (Cons ic cs)
  obtain i c where ic: "ic = (i, c)" by fastforce
  have "triple (grew base bs) (close_calls turn (ic # cs))
      (\<lambda>_. grew base ((bs @ [closer_body turn i c]) @ map (\<lambda>(i, c). closer_body turn i c) cs)) (\<lambda>_. True)"
    unfolding ic close_calls.simps by (rule triple_then [OF grew_append triple_then [OF Cons triple_ret]])
  then show ?case by (simp add: ic)
qed

definition repair_bodies :: "int \<Rightarrow> open_turn \<Rightarrow> body list" where
  "repair_bodies turn t = map (\<lambda>(i, c). closer_body turn i c) (ot_calls t)
     @ (case ot_step t of None \<Rightarrow> [] | Some s \<Rightarrow> [StepEnd turn s])
     @ [TurnEnd turn (PDict [(''kind'', PStr ''interrupted'')])]"

lemma repair_grows:
  assumes "open_turn_of (sl_events l) = Inr t" "repair_interrupted_turn l = (Inr es, l')"
  shows "case ot_turn t of None \<Rightarrow> es = [] \<and> l' = l
    | Some turn \<Rightarrow> grew (sl_events l) (repair_bodies turn t) l'"
proof (cases "ot_turn t")
  case None
  with assms show ?thesis by (simp add: repair_interrupted_turn_def andthen_log_def reading_def ret_def)
next
  case (Some turn)
  let ?b1 = "map (\<lambda>(i, c). closer_body turn i c) (ot_calls t)"
  have step: "triple (grew base bs) (case ot_step t of None \<Rightarrow> ret []
        | Some s \<Rightarrow> andthen_log (append_event (StepEnd turn s) None None False) (\<lambda>e. ret [e]))
      (\<lambda>_. grew base (bs @ (case ot_step t of None \<Rightarrow> [] | Some s \<Rightarrow> [StepEnd turn s]))) (\<lambda>_. True)" for base bs
    by (cases "ot_step t") (auto intro: triple_ret triple_then [OF grew_append triple_ret])
  define base where "base = sl_events l"
  have "triple (grew base [])
     (andthen_log (close_calls turn (ot_calls t)) (\<lambda>cs.
      andthen_log (case ot_step t of None \<Rightarrow> ret [] | Some s \<Rightarrow>
        andthen_log (append_event (StepEnd turn s) None None False) (\<lambda>e. ret [e])) (\<lambda>ss.
      andthen_log (append_event (TurnEnd turn (PDict [(''kind'', PStr ''interrupted'')])) None None False)
        (\<lambda>e. ret (cs @ ss @ [e])))))
     (\<lambda>_. grew base ((([] @ ?b1) @ (case ot_step t of None \<Rightarrow> [] | Some s \<Rightarrow> [StepEnd turn s]))
        @ [TurnEnd turn (PDict [(''kind'', PStr ''interrupted'')])])) (\<lambda>_. True)"
    by (rule triple_then [OF grew_close_calls triple_then [OF step triple_then [OF grew_append triple_ret]]])
  moreover have "grew base [] l" by (simp add: grew_def base_def)
  ultimately have "grew base (repair_bodies turn t) l'"
    using assms Some tripleD
    by (fastforce simp: repair_interrupted_turn_def andthen_log_def [of "reading _"] reading_def repair_bodies_def)
  with Some show ?thesis by (simp add: base_def)
qed

lemma active_plain:
  "active_events es = Inr a \<Longrightarrow> list_all (\<lambda>e. revise_of e = None) fs \<Longrightarrow> active_events (es @ fs) = Inr (a @ fs)"
proof (induction fs rule: rev_induct)
  case (snoc f fs)
  then show ?case using active_snoc_plain [of "es @ fs" "a @ fs" f] by simp
qed simp

lemma scan_closers:
  assumes "map ev_body es = map (\<lambda>(i, c). closer_body turn i c) cs @ tl_bodies"
    "list_all (\<lambda>b. \<exists>s. b = StepEnd turn s) tl_bodies"
  shows "\<exists>u. scan_from t es = Inr u"
  using assms
proof (induction es arbitrary: cs tl_bodies t)
  case (Cons e es)
  have "\<exists>u. scan_step e t = Inr u"
    using Cons.prems by (cases cs; cases tl_bodies)
      (auto simp: scan_step_def closer_body_def split: option.splits)
  then obtain u where "scan_step e t = Inr u" ..
  moreover have "\<exists>cs' tl'. map ev_body es = map (\<lambda>(i, c). closer_body turn i c) cs' @ tl'
      \<and> list_all (\<lambda>b. \<exists>s. b = StepEnd turn s) tl'"
  proof (cases cs)
    case Nil
    with Cons.prems have "map ev_body es = map (\<lambda>(i, c). closer_body turn i c) [] @ tl tl_bodies
      \<and> list_all (\<lambda>b. \<exists>s. b = StepEnd turn s) (tl tl_bodies)" by (cases tl_bodies) auto
    then show ?thesis by blast
  next
    case (Cons c cs')
    with Cons.prems show ?thesis by auto
  qed
  ultimately show ?case using Cons.IH by auto
qed simp

lemma open_turn_parts:
  "open_turn_of es = Inr t \<Longrightarrow> \<exists>a. active_events es = Inr a \<and> scan_from no_turn a = Inr t"
  by (auto simp: open_turn_of_def split: sum.splits)

lemma repair_closed:
  assumes "open_turn_of (sl_events l) = Inr t" "repair_interrupted_turn l = (Inr es, l')"
    "ot_turn t = Some turn"
  shows "open_turn_of (sl_events l') = Inr no_turn"
proof -
  from repair_grows [OF assms(1,2)] assms(3) obtain fs
    where fs: "sl_events l' = sl_events l @ fs" "map ev_body fs = repair_bodies turn t"
    by (auto simp: grew_def)
  from open_turn_parts [OF assms(1)] obtain a
    where a: "active_events (sl_events l) = Inr a" "scan_from no_turn a = Inr t" by blast
  let ?mid = "case ot_step t of None \<Rightarrow> [] | Some s \<Rightarrow> [StepEnd turn s]"
  obtain gs g where g: "fs = gs @ [g]" "ev_body g = TurnEnd turn (PDict [(''kind'', PStr ''interrupted'')])"
      "map ev_body gs = map (\<lambda>(i, c). closer_body turn i c) (ot_calls t) @ ?mid"
    using fs(2) by (cases fs rule: rev_cases) (auto simp: repair_bodies_def)
  have "list_all (\<lambda>b. \<exists>s. b = StepEnd turn s) ?mid" by (simp split: option.split)
  from scan_closers [OF g(3) this] obtain u where u: "scan_from t gs = Inr u" by blast
  have "\<forall>b\<in>set (repair_bodies turn t). case b of Revise _ \<Rightarrow> False | _ \<Rightarrow> True"
    by (auto simp: repair_bodies_def closer_body_def split: option.splits)
  then have "list_all (\<lambda>e. revise_of e = None) fs"
    unfolding fs(2) [symmetric] by (auto simp: list_all_iff revise_of_def split: body.splits)
  from active_plain [OF a(1) this] fs(1) have act: "active_events (sl_events l') = Inr (a @ fs)" by simp
  have "scan_from no_turn (a @ fs) = scan_step g u"
    by (simp add: g(1) sc.fold_append a(2) u split: sum.split)
  with act show ?thesis by (simp add: open_turn_of_def scan_step_def g(2))
qed

lemma append_inert_messages:
  assumes "known_body b ign" "inert b"
  shows "triple (holds_messages ms) (append_event b operation sources ign) (\<lambda>_. holds_messages ms) log_ok"
proof (rule triple_holds_messages)
  fix s :: surface assume "map snd s = ms"
  then show "triple (holds s) (append_event b operation sources ign) (\<lambda>_. holds_messages ms) log_ok"
    by (intro triple_weaken [OF append_inert [OF assms]]) (auto intro: holds_messagesI holds_log_ok)
qed

lemma repair_messages:
  assumes "open_turn_of (sl_events l) = Inr t" "repair_interrupted_turn l = (Inr es, l')" "holds_messages ms l"
  shows "holds_messages (ms @ (if ot_turn t = None then [] else map closing_reply (ot_calls t))) l'"
proof (cases "ot_turn t")
  case None
  with assms show ?thesis by (simp add: repair_interrupted_turn_def andthen_log_def reading_def ret_def)
next
  case (Some turn)
  let ?ms = "ms @ map closing_reply (ot_calls t)"
  have step: "triple (holds_messages ?ms) (case ot_step t of None \<Rightarrow> ret []
        | Some s \<Rightarrow> andthen_log (append_event (StepEnd turn s) None None False) (\<lambda>e. ret [e]))
      (\<lambda>_. holds_messages ?ms) log_ok"
    by (cases "ot_step t") (auto intro: triple_ret triple_then [OF append_inert_messages triple_ret])
  have "triple (holds_messages ms)
     (andthen_log (close_calls turn (ot_calls t)) (\<lambda>cs.
      andthen_log (case ot_step t of None \<Rightarrow> ret [] | Some s \<Rightarrow>
        andthen_log (append_event (StepEnd turn s) None None False) (\<lambda>e. ret [e])) (\<lambda>ss.
      andthen_log (append_event (TurnEnd turn (PDict [(''kind'', PStr ''interrupted'')])) None None False)
        (\<lambda>e. ret (cs @ ss @ [e])))))
     (\<lambda>_. holds_messages ?ms) log_ok"
    by (rule triple_then [OF close_calls_triple triple_then [OF step triple_then [OF append_inert_messages triple_ret]]])
       simp_all
  from tripleD [OF this assms(3)] assms(1,2) Some show ?thesis
    by (simp add: repair_interrupted_turn_def andthen_log_def [of "reading _"] reading_def)
qed

lemma repair_idle:
  "open_turn_of (sl_events l) = Inr t \<Longrightarrow> ot_turn t = None \<Longrightarrow> repair_interrupted_turn l = (Inr [], l)"
  by (simp add: repair_interrupted_turn_def andthen_log_def reading_def ret_def)


lemma fresh_binding:
  assumes "revision_request es target turn expected fp = Inr r" "fresh_turn turn es"
  shows "\<exists>a e d. active_events es = Inr a \<and> e \<in> set a \<and> ev_body e = TurnBinding target d
    \<and> rv_restore_through r = ev_seq e - 1"
proof -
  from assms obtain a b where a: "effective_events es = Inr a" "rv_restore_through r = snd b - 1"
    and b: "filter (\<lambda>b. fst b = target) (List.map_filter binding_of a) = [b]"
    by (auto simp: revision_request_def fresh_turn_def split: if_splits list.splits sum.splits)
  from b have "b \<in> set (filter (\<lambda>b. fst b = target) (List.map_filter binding_of a))" by simp
  then obtain e where e: "e \<in> set a" "binding_of e = Some b" "fst b = target"
    by (auto simp: List.map_filter_def)
  then obtain d where "ev_body e = TurnBinding target d" "snd b = ev_seq e"
    by (auto simp: binding_of_def split: body.splits)
  with a e(1) show ?thesis by (auto simp: active_events_def)
qed

text \<open>
  C31. An accepted edit of the history takes the conversation, goal, plan, todos and skills back
  to what a replay showed when the event before the target turn's binding was the last one, and
  the rewind is durable; repeating an accepted edit changes nothing. Nothing is accepted when the
  restored prefix has an unanswered call, when the skills cannot be restored or when the edit was
  cancelled.
\<close>

theorem log_edit_rewinds:
  assumes "written disk created ops = l"
    "edit_history target turn expected fp skills cancelled l = (Inr p, l')"
  shows "skills \<and> \<not> cancelled \<and> pending_after {} (projection_messages p) = Some {}
    \<and> (\<exists>r. revision_request (sl_events l) target turn expected fp = Inr r
         \<and> replay_through (rv_restore_through r) (sl_events l) = Inr p
         \<and> (if fresh_turn turn (sl_events l)
            then replay (sl_events l') = Inr p \<and> sl_durable l' = length (sl_events l')
              \<and> (\<exists>a e d. active_events (sl_events l) = Inr a \<and> e \<in> set a \<and> ev_body e = TurnBinding target d
                   \<and> rv_restore_through r = ev_seq e - 1)
            else l' = l))"
proof -
  have "log_ok l" using assms(1) by auto
  from edit_cases [OF this assms(2)] obtain r where
    r: "skills \<and> \<not> cancelled \<and> pending_after {} (projection_messages p) = Some {}"
      "revision_request (sl_events l) target turn expected fp = Inr r"
      "replay_through (rv_restore_through r) (sl_events l) = Inr p"
      "if fresh_turn turn (sl_events l)
       then replay (sl_events l') = Inr p \<and> sl_durable l' = length (sl_events l') else l' = l"
    by auto
  with fresh_binding [OF r(2)] show ?thesis by (auto split: if_splits)
qed

subsection \<open>Witnesses\<close>

definition ask :: obj where
  "ask = (1, plain_message ''user'' (PStr ''list files''))"

definition reply_with_calls :: obj where
  "reply_with_calls = (2, (plain_message ''assistant'' (PStr ''ok''))\<lparr>m_tool_calls :=
     Some [\<lparr>call_id = ''a'', call_name = ''ls'', call_arguments = []\<rparr>,
           \<lparr>call_id = ''b'', call_name = ''rm'', call_arguments = []\<rparr>]\<rparr>)"

definition sample_ops :: "log_operation list" where
  "sample_ops = [Append (TurnBinding ''t1'' []) False, Append (TurnStart 1) False, Flush,
     Unlogged [ask] 1 None None, Append (StepStart 1 1) False,
     Unlogged [ask, reply_with_calls] 1 (Some 1) None,
     Append (ToolCallEv 1 1 ''a'' ''ls'' []) False]"

definition sample_log :: session_log where
  "sample_log = written [] True sample_ops"

lemma ok_value: "(case fst x of Inr _ \<Rightarrow> True | Inl _ \<Rightarrow> False) \<Longrightarrow> \<exists>y. x = (Inr y, snd x)"
  by (cases x) (auto split: sum.splits)

lemma some_value: "(case x of Inr _ \<Rightarrow> True | Inl _ \<Rightarrow> False) \<Longrightarrow> \<exists>y. x = Inr y"
  by (auto split: sum.splits)

lemma log_crash_recovery_witness:
  "open_log (=) ''s'' ''/w'' False True (HeaderLine (Some ''s'') (Some ''/w'') 1)
     (map encode_record (take 3 (sl_events sample_log)) @ [Torn]) []
   = Inr (new_log (take 3 (sl_events sample_log)) [] False)"
proof -
  have "sl_durable (written [] True sample_ops) \<le> 3" by code_simp
  from log_crash_recovery [OF refl this, of "''/w''" "''s''" False True True "[]"]
  show ?thesis by (simp add: sample_log_def)
qed

lemma log_follows_conversation_witness:
  "\<exists>p. replay (sl_events (snd (append_unlogged_messages [ask] 1 None None sample_log))) = Inr p
     \<and> map dump (projection_messages p) = shown [snd ask]"
proof -
  have "case fst (append_unlogged_messages [ask] 1 None None sample_log) of Inr _ \<Rightarrow> True | Inl _ \<Rightarrow> False"
    by code_simp
  from ok_value [OF this] obtain es where "append_unlogged_messages [ask] 1 None None sample_log
      = (Inr es, snd (append_unlogged_messages [ask] 1 None None sample_log))" by blast
  from log_follows_conversation [OF sample_log_def [symmetric] _ _ this] show ?thesis
    by (simp add: surfaced_def ask_def plain_message_def)
qed

definition sample_turn :: open_turn where
  "sample_turn = \<lparr>ot_turn = Some 1, ot_step = Some 1, ot_calls =
     [(''a'', \<lparr>pc_step = Some 1, pc_name = ''ls'', pc_seq = Some 5\<rparr>),
      (''b'', \<lparr>pc_step = Some 1, pc_name = ''rm'', pc_seq = None\<rparr>)]\<rparr>"


definition edited :: "(log_error + projection) \<times> session_log" where
  "edited = edit_history ''t1'' ''t2'' ''initial'' ''f'' True False sample_log"

lemma log_edit_rewinds_witness:
  "\<exists>p. replay (sl_events (snd edited)) = Inr p \<and> sl_durable (snd edited) = length (sl_events (snd edited))"
proof -
  have "case fst edited of Inr _ \<Rightarrow> True | Inl _ \<Rightarrow> False" by code_simp
  then obtain p where p: "edit_history ''t1'' ''t2'' ''initial'' ''f'' True False sample_log = (Inr p, snd edited)"
    using ok_value unfolding edited_def by blast
  have "fresh_turn ''t2'' (sl_events sample_log)" by code_simp
  with log_edit_rewinds [OF sample_log_def [symmetric] p] show ?thesis by auto
qed

end
