(* ===== verification/ToolMessages.thy ===== *)
theory ToolMessages
  imports SessionLogCorrect
begin

section \<open>Tool replies and the durable call record (box\_agent/kernel/tool\_messages.py)\<close>

text \<open>
  \<open>ToolMessageCommitter\<close> records calls in the session log before they run and appends their
  replies; \<open>_sanitize_dangling_tool_calls\<close> and \<open>_cleanup_incomplete_messages\<close> repair a message
  history that an interruption left without replies. The two loops over list positions are
  written on the remaining messages. The em dash of the interruption stub is its three UTF-8
  bytes. The registration of images for later requests is not modelled.
\<close>

definition session_log_messages :: "obj list \<Rightarrow> obj list" where
  "session_log_messages ms = (case ms of
     [] \<Rightarrow> [] | m # rest \<Rightarrow> if m_role (snd m) = ''system'' then rest else m # rest)"

subsection \<open>Repairing a history\<close>

definition INTERRUPTED_TOOL_STUB :: string where
  "INTERRUPTED_TOOL_STUB =
     ''[Tool execution interrupted '' @ [CHR 0xE2, CHR 0x80, CHR 0x94] @ '' no result available. ''
     @ ''The previous run was terminated before this tool produced output.]''"

definition is_tool :: "msg \<Rightarrow> bool" where
  "is_tool m = (m_role m = ''tool'')"

definition calls_tools :: "msg \<Rightarrow> bool" where
  "calls_tools m = (m_role m = ''assistant'' \<and> calls_of m \<noteq> [])"

definition reply_ids :: "msg list \<Rightarrow> string list" where
  "reply_ids ms = filter (\<lambda>i. i \<noteq> []) (List.map_filter m_tool_call_id ms)"

definition stub :: "tool_call \<Rightarrow> msg" where
  "stub tc = tool_reply INTERRUPTED_TOOL_STUB (call_id tc) (call_name tc)"

definition stubs_for :: "msg \<Rightarrow> msg list \<Rightarrow> msg list" where
  "stubs_for m replies = map stub
     (filter (\<lambda>tc. call_id tc \<noteq> [] \<and> call_id tc \<notin> set (reply_ids replies)) (calls_of m))"

function sanitize_dangling_tool_calls :: "msg list \<Rightarrow> nat \<times> msg list" where
  "sanitize_dangling_tool_calls [] = (0, [])"
| "sanitize_dangling_tool_calls (m # ms) =
     (if \<not> calls_tools m
      then (let (n, out) = sanitize_dangling_tool_calls ms in (n, m # out))
      else (let replies = takeWhile is_tool ms;
                stubs = stubs_for m replies;
                (n, out) = sanitize_dangling_tool_calls (dropWhile is_tool ms)
            in (length stubs + n, m # replies @ stubs @ out)))"
  by pat_completeness auto
termination
  by (relation "measure length") (auto simp: length_dropWhile_le le_imp_less_Suc)

text \<open>The messages before the last assistant message, and from it on.\<close>

definition split_last_assistant :: "msg list \<Rightarrow> (msg list \<times> msg \<times> msg list) option" where
  "split_last_assistant ms =
     (let after = takeWhile (\<lambda>m. m_role m \<noteq> ''assistant'') (rev ms)
      in case dropWhile (\<lambda>m. m_role m \<noteq> ''assistant'') (rev ms) of
           [] \<Rightarrow> None
         | a # before \<Rightarrow> Some (rev before, a, rev after))"

definition cleanup_incomplete_messages :: "msg list \<Rightarrow> nat \<times> msg list" where
  "cleanup_incomplete_messages ms = (case split_last_assistant ms of
     None \<Rightarrow> (0, ms)
   | Some (before, asst, trailing) \<Rightarrow>
       (let trailing_tool_count = length trailing;
            expected_tool_count = length (calls_of asst);
            has_content = (truthy (m_content asst) \<or> m_thinking asst \<notin> {None, Some []});
            is_incomplete = (if 0 < expected_tool_count then trailing_tool_count < expected_tool_count
                             else \<not> has_content)
        in if \<not> is_incomplete then (0, ms) else (length ms - length before, before)))"

subsection \<open>The committer\<close>

record committer =
  messages :: "obj list"
  slog :: "session_log option"
  turn :: "int option"
  parallel_calls_pending :: bool

definition new_committer :: "obj list \<Rightarrow> session_log option \<Rightarrow> int option \<Rightarrow> committer" where
  "new_committer ms l t = \<lparr>messages = ms, slog = l, turn = t, parallel_calls_pending = False\<rparr>"

record call_record =
  cr_id :: string
  cr_name :: string
  cr_arguments :: pydict
  cr_parallel :: bool

record result_event =
  re_call_id :: string
  re_success :: bool
  re_content :: pyval
  re_error :: pyval
  re_raw_output :: pyval
  re_policy_decision :: pyval
  re_has_image :: bool

text \<open>An operation of the committer's log, whose exception is the committer's.\<close>

definition with_log :: "'a log_op \<Rightarrow> session_log \<Rightarrow> committer \<Rightarrow> (log_error + unit) \<times> committer" where
  "with_log f l c = (case f l of
     (Inl e, l') \<Rightarrow> (Inl e, c\<lparr>slog := Some l'\<rparr>)
   | (Inr _, l') \<Rightarrow> (Inr (), c\<lparr>slog := Some l'\<rparr>))"

definition record_call :: "committer \<Rightarrow> call_record \<Rightarrow> int \<Rightarrow> (log_error + unit) \<times> committer" where
  "record_call c call step = (case (slog c, turn c) of
     (Some l, Some t) \<Rightarrow>
       (case append_event (ToolCallEv t step (cr_id call) (cr_name call) (cr_arguments call)) None None False l of
          (Inl e, l') \<Rightarrow> (Inl e, c\<lparr>slog := Some l'\<rparr>)
        | (Inr _, l') \<Rightarrow>
            (if cr_parallel call then (Inr (), c\<lparr>slog := Some l', parallel_calls_pending := True\<rparr>)
             else with_log flush l' c))
   | _ \<Rightarrow> (Inr (), c))"

definition flush_calls :: "committer \<Rightarrow> (log_error + unit) \<times> committer" where
  "flush_calls c = (case slog c of
     Some l \<Rightarrow> (if parallel_calls_pending c
                then (case with_log flush l c of
                        (Inl e, c') \<Rightarrow> (Inl e, c')
                      | (Inr _, c') \<Rightarrow> (Inr (), c'\<lparr>parallel_calls_pending := False\<rparr>))
                else (Inr (), c))
   | None \<Rightarrow> (Inr (), c))"

definition result_metadata :: "result_event \<Rightarrow> pyval" where
  "result_metadata e = PDict [(''success'', PBool (re_success e)), (''content'', re_content e),
     (''error'', re_error e), (''rawOutput'', re_raw_output e), (''policyDecision'', re_policy_decision e)]"

definition commit_result :: "committer \<Rightarrow> obj \<Rightarrow> result_event \<Rightarrow> int \<Rightarrow> (log_error + unit) \<times> committer" where
  "commit_result c m e step =
     (let c1 = c\<lparr>messages := messages c @ [m]\<rparr>
      in case (slog c1, turn c1) of
           (Some l, Some t) \<Rightarrow>
             with_log (andthen_log
               (append_unlogged_messages (session_log_messages (messages c1)) t (Some step)
                  (Some [(re_call_id e, result_metadata e)]))
               (\<lambda>_. if re_has_image e then flush else ret ())) l c1
         | _ \<Rightarrow> (Inr (), c1))"

subsection \<open>The protocol of a history\<close>

text \<open>Every call of an assistant message is answered in the block of tool messages after it.\<close>

fun answered :: "msg list \<Rightarrow> bool" where
  "answered [] = True"
| "answered (m # ms) =
     ((calls_tools m \<longrightarrow> list_all (\<lambda>tc. call_id tc = [] \<or> call_id tc \<in> set (reply_ids (takeWhile is_tool ms)))
        (calls_of m)) \<and> answered ms)"

lemma reply_ids_append [simp]: "reply_ids (xs @ ys) = reply_ids xs @ reply_ids ys"
  by (simp add: reply_ids_def List.map_filter_def)

lemma stub_is_tool [simp]: "is_tool (stub tc)" "\<not> calls_tools (stub tc)"
  by (simp_all add: is_tool_def calls_tools_def stub_def)

lemma tool_calls_not [simp]: "is_tool m \<Longrightarrow> \<not> calls_tools m"
  by (simp add: is_tool_def calls_tools_def)

lemma reply_stub: "call_id tc \<noteq> [] \<Longrightarrow> reply_ids [stub tc] = [call_id tc]"
  by (simp add: reply_ids_def List.map_filter_def stub_def)

lemma answered_tools: "list_all is_tool ts \<Longrightarrow> answered (ts @ ms) = answered ms"
  by (induction ts) auto

lemma stubs_tools: "list_all is_tool (stubs_for m rs)"
  by (simp add: stubs_for_def list_all_iff)

lemma stubs_answer:
  assumes "tc \<in> set (calls_of m)" "call_id tc \<noteq> []"
  shows "call_id tc \<in> set (reply_ids (rs @ stubs_for m rs))"
proof (cases "call_id tc \<in> set (reply_ids rs)")
  case False
  with assms have "stub tc \<in> set (stubs_for m rs)" by (auto simp: stubs_for_def)
  moreover have "stub tc \<in> set ys \<Longrightarrow> call_id tc \<in> set (reply_ids ys)" for ys
    using assms(2) by (force simp: reply_ids_def List.map_filter_def stub_def)
  ultimately show ?thesis by simp
qed simp

lemma sanitize_head:
  "snd (sanitize_dangling_tool_calls ms) = [] \<or> ms \<noteq> [] \<and> hd (snd (sanitize_dangling_tool_calls ms)) = hd ms"
  by (cases ms) (auto simp: split_beta Let_def)

lemma takeWhile_tools:
  "list_all is_tool ts \<Longrightarrow> rest = [] \<or> \<not> is_tool (hd rest) \<Longrightarrow> takeWhile is_tool (ts @ rest) = ts"
  by (induction ts) (cases rest; auto)+

lemma dropWhile_tools_hd: "dropWhile is_tool ms = [] \<or> \<not> is_tool (hd (dropWhile is_tool ms))"
  by (metis hd_dropWhile)

lemma sanitize_block:
  "takeWhile is_tool (takeWhile is_tool ms @ stubs_for m (takeWhile is_tool ms)
      @ snd (sanitize_dangling_tool_calls (dropWhile is_tool ms)))
   = takeWhile is_tool ms @ stubs_for m (takeWhile is_tool ms)"
proof -
  let ?ts = "takeWhile is_tool ms @ stubs_for m (takeWhile is_tool ms)"
  let ?rest = "snd (sanitize_dangling_tool_calls (dropWhile is_tool ms))"
  have "list_all is_tool ?ts"
    using stubs_tools by (auto simp: list_all_iff dest: set_takeWhileD)
  moreover have "?rest = [] \<or> \<not> is_tool (hd ?rest)"
    using sanitize_head [of "dropWhile is_tool ms"] dropWhile_tools_hd [of ms] by auto
  ultimately show ?thesis using takeWhile_tools [of ?ts ?rest] by simp
qed

subsection \<open>What the repairs promise\<close>

lemma answered_block:
  "answered ms \<longleftrightarrow> answered (dropWhile is_tool ms)"
proof -
  have "list_all is_tool (takeWhile is_tool ms)"
    by (auto simp: list_all_iff dest: set_takeWhileD)
  from answered_tools [OF this, of "dropWhile is_tool ms"] show ?thesis by simp
qed

lemma sanitize_answered: "answered ms \<Longrightarrow> sanitize_dangling_tool_calls ms = (0, ms)"
proof (induction ms rule: sanitize_dangling_tool_calls.induct)
  case (2 m ms)
  show ?case
  proof (cases "calls_tools m")
    case True
    from 2(3) True have "stubs_for m (takeWhile is_tool ms) = []"
      by (auto simp: stubs_for_def filter_empty_conv list_all_iff)
    moreover have "sanitize_dangling_tool_calls (dropWhile is_tool ms) = (0, dropWhile is_tool ms)"
      using 2 True answered_block [of ms] by simp
    ultimately show ?thesis using True by simp
  next
    case False
    with 2 show ?thesis by simp
  qed
qed simp

lemma sanitize_answers: "answered (snd (sanitize_dangling_tool_calls ms))"
proof (induction ms rule: sanitize_dangling_tool_calls.induct)
  case (2 m ms)
  show ?case
  proof (cases "calls_tools m")
    case True
    let ?ts = "takeWhile is_tool ms @ stubs_for m (takeWhile is_tool ms)"
    have "answered (?ts @ snd (sanitize_dangling_tool_calls (dropWhile is_tool ms)))"
      using 2(2) True stubs_tools by (subst answered_tools) (auto simp: list_all_iff dest: set_takeWhileD)
    with True sanitize_block [of ms m] stubs_answer [of _ m] show ?thesis
      by (auto simp: split_beta Let_def list_all_iff)
  next
    case False
    with 2 show ?thesis by (simp add: split_beta Let_def)
  qed
qed simp

lemma sanitize_grows:
  "subseq ms (snd (sanitize_dangling_tool_calls ms))
   \<and> length (snd (sanitize_dangling_tool_calls ms)) = length ms + fst (sanitize_dangling_tool_calls ms)"
proof (induction ms rule: sanitize_dangling_tool_calls.induct)
  case (2 m ms)
  show ?case
  proof (cases "calls_tools m")
    case True
    have split: "takeWhile is_tool ms @ dropWhile is_tool ms = ms" by simp
    have "subseq (takeWhile is_tool ms @ dropWhile is_tool ms)
        (takeWhile is_tool ms @ stubs_for m (takeWhile is_tool ms)
          @ snd (sanitize_dangling_tool_calls (dropWhile is_tool ms)))"
      using 2(2) True by (intro list_emb_append_mono list_emb_append2) auto
    moreover have "length ms = length (takeWhile is_tool ms) + length (dropWhile is_tool ms)"
      by (metis length_append split)
    ultimately show ?thesis using 2(2) True by (simp add: split_beta Let_def)
  next
    case False
    with 2 show ?thesis by (simp add: split_beta Let_def)
  qed
qed simp

text \<open>
  C32. After \<open>_sanitize_dangling_tool_calls\<close> every tool call of the history is answered in the
  block of tool messages that follows it. The original messages all stay, in order; the count
  returned is the number of added stubs, it is zero exactly if nothing was missing, and a second
  run adds none.
\<close>

theorem sanitize_restores_protocol:
  "answered (snd (sanitize_dangling_tool_calls ms))
   \<and> subseq ms (snd (sanitize_dangling_tool_calls ms))
   \<and> length (snd (sanitize_dangling_tool_calls ms)) = length ms + fst (sanitize_dangling_tool_calls ms)
   \<and> (fst (sanitize_dangling_tool_calls ms) = 0) = answered ms
   \<and> sanitize_dangling_tool_calls (snd (sanitize_dangling_tool_calls ms))
     = (0, snd (sanitize_dangling_tool_calls ms))"
proof -
  have "answered ms" if zero: "fst (sanitize_dangling_tool_calls ms) = 0"
  proof -
    from sanitize_grows [of ms] zero have "snd (sanitize_dangling_tool_calls ms) = ms"
      using subseq_same_length by fastforce
    with sanitize_answers [of ms] show ?thesis by simp
  qed
  then show ?thesis
    using sanitize_answers [of ms] sanitize_grows [of ms] sanitize_answered by auto
qed

lemma answered_append:
  "\<not> is_tool a \<Longrightarrow> answered (xs @ a # ys) \<longleftrightarrow> answered xs \<and> answered (a # ys)"
proof (induction xs)
  case (Cons x xs)
  then have "takeWhile is_tool (xs @ a # ys) = takeWhile is_tool xs"
    by (simp add: takeWhile_tail)
  with Cons show ?case by auto
qed simp

lemma answered_no_assistant: "list_all (\<lambda>m. m_role m \<noteq> ''assistant'') ms \<Longrightarrow> answered ms"
  by (induction ms) (auto simp: calls_tools_def)

lemma split_last_None: "split_last_assistant ms = None \<Longrightarrow> list_all (\<lambda>m. m_role m \<noteq> ''assistant'') ms"
  by (auto simp: split_last_assistant_def Let_def list_all_iff dropWhile_eq_Nil_conv split: list.splits)

lemma split_last_Some:
  assumes "split_last_assistant ms = Some (before, a, trailing)"
  shows "ms = before @ a # trailing" "m_role a = ''assistant''"
    "list_all (\<lambda>m. m_role m \<noteq> ''assistant'') trailing"
proof -
  let ?P = "\<lambda>m. m_role m \<noteq> ''assistant''"
  from assms have d: "dropWhile ?P (rev ms) = a # rev before" "trailing = rev (takeWhile ?P (rev ms))"
    by (auto simp: split_last_assistant_def Let_def split: list.splits)
  have "rev ms = takeWhile ?P (rev ms) @ a # rev before"
    by (metis d(1) takeWhile_dropWhile_id)
  then show "ms = before @ a # trailing" using d(2) by (metis append_Cons append_Nil append_assoc rev.simps(2) rev_append rev_rev_ident)
  show "m_role a = ''assistant''" using hd_dropWhile [of ?P "rev ms"] d(1) by simp
  show "list_all ?P trailing" by (auto simp: d(2) list_all_iff dest: set_takeWhileD)
qed

text \<open>
  A history that was cut off while the calls of its last assistant message were running: what is
  before it is answered, and the messages after it are replies to distinct calls of it.
\<close>

definition in_flight :: "msg list \<Rightarrow> bool" where
  "in_flight ms = (case split_last_assistant ms of
     None \<Rightarrow> True
   | Some (before, a, trailing) \<Rightarrow>
       answered before \<and> list_all is_tool trailing
       \<and> length (reply_ids trailing) = length trailing \<and> distinct (reply_ids trailing)
       \<and> list_all (\<lambda>i. i \<in> set (map call_id (calls_of a))) (reply_ids trailing)
       \<and> distinct (map call_id (calls_of a)) \<and> [] \<notin> set (map call_id (calls_of a)))"

lemma replies_complete:
  assumes "length (reply_ids trailing) = length trailing" "distinct (reply_ids trailing)"
    "set (reply_ids trailing) \<subseteq> set (map call_id tcs)" "distinct (map call_id tcs)"
    "length tcs \<le> length trailing"
  shows "set (reply_ids trailing) = set (map call_id tcs)"
proof (rule card_subset_eq)
  have "card (set (map call_id tcs)) = length tcs" using assms(4) distinct_card by fastforce
  moreover have "card (set (reply_ids trailing)) = length trailing" using assms(1,2) distinct_card by metis
  moreover have "card (set (reply_ids trailing)) \<le> card (set (map call_id tcs))"
    using assms(3) by (intro card_mono) auto
  ultimately show "card (set (reply_ids trailing)) = card (set (map call_id tcs))" using assms(5) by simp
qed (use assms in auto)

text \<open>
  C33. \<open>_cleanup_incomplete_messages\<close> on a history cut off in flight leaves one in which every
  call is answered. It removes nothing or exactly the last assistant message and what follows it,
  returns the number of removed messages, and keeps a fully answered history whose last assistant
  message says or calls something.
\<close>

theorem cleanup_leaves_protocol:
  assumes "in_flight ms" "cleanup_incomplete_messages ms = (n, out)"
  shows "answered out
    \<and> (\<exists>dropped. ms = out @ dropped \<and> n = length dropped
         \<and> (dropped = [] \<or> m_role (hd dropped) = ''assistant''
              \<and> list_all (\<lambda>m. m_role m \<noteq> ''assistant'') (tl dropped)))
    \<and> (case split_last_assistant ms of None \<Rightarrow> out = ms
       | Some (before, a, trailing) \<Rightarrow>
           (out = ms) = (answered ms \<and> (calls_of a \<noteq> [] \<or> truthy (m_content a) \<or> m_thinking a \<notin> {None, Some []})))"
proof (cases "split_last_assistant ms")
  case None
  with assms show ?thesis
    using answered_no_assistant [OF split_last_None [OF None]]
    by (auto simp: cleanup_incomplete_messages_def)
next
  case (Some s)
  then obtain before a trailing where split: "split_last_assistant ms = Some (before, a, trailing)"
    by (cases s) auto
  note ms = split_last_Some [OF split]
  have a: "\<not> is_tool a" using ms(2) by (simp add: is_tool_def)
  from assms(1) split have fl: "answered before" "list_all is_tool trailing"
      "length (reply_ids trailing) = length trailing" "distinct (reply_ids trailing)"
      "set (reply_ids trailing) \<subseteq> set (map call_id (calls_of a))" "distinct (map call_id (calls_of a))"
      "[] \<notin> set (map call_id (calls_of a))"
    by (auto simp: in_flight_def list_all_iff)
  let ?says = "truthy (m_content a) \<or> m_thinking a \<notin> {None, Some []}"
  let ?cut = "if 0 < length (calls_of a) then length trailing < length (calls_of a) else \<not> ?says"
  from assms(2) split have out: "out = (if ?cut then before else ms)"
      "n = (if ?cut then length ms - length before else 0)"
    by (auto simp: cleanup_incomplete_messages_def Let_def split: if_splits)
  have tw: "takeWhile is_tool trailing = trailing" using fl(2) by (simp add: list_all_iff)
  have ans: "answered ms \<longleftrightarrow>
      list_all (\<lambda>tc. call_id tc = [] \<or> call_id tc \<in> set (reply_ids trailing)) (calls_of a)"
    using fl(1) ms(2) answered_tools [OF fl(2), of "[]"]
    by (cases "calls_of a") (simp_all add: ms answered_append [OF a] calls_tools_def tw)
  have full: "answered ms" if "\<not> length trailing < length (calls_of a)"
    using replies_complete [OF fl(3-6)] that by (auto simp: ans list_all_iff)
  have short: "\<not> answered ms" if "length trailing < length (calls_of a)"
  proof
    assume "answered ms"
    have "call_id tc \<in> set (reply_ids trailing)" if "tc \<in> set (calls_of a)" for tc
    proof -
      have "call_id tc \<noteq> []" using that fl(7) by force
      with \<open>answered ms\<close> that show ?thesis by (auto simp: ans list_all_iff)
    qed
    then have "set (map call_id (calls_of a)) \<subseteq> set (reply_ids trailing)" by auto
    then have "card (set (map call_id (calls_of a))) \<le> card (set (reply_ids trailing))"
      by (intro card_mono) simp_all
    then have "length (calls_of a) \<le> length trailing"
      using distinct_card [OF fl(6)] distinct_card [OF fl(4)] fl(3) by simp
    with that show False by simp
  qed
  have ne: "before \<noteq> ms" by (subst ms(1)) simp
  have cut: "\<exists>dropped. ms = before @ dropped \<and> length ms - length before = length dropped
     \<and> (dropped = [] \<or> m_role (hd dropped) = ''assistant''
          \<and> list_all (\<lambda>m. m_role m \<noteq> ''assistant'') (tl dropped))"
    by (rule exI [of _ "a # trailing"]) (use ms in simp)
  show ?thesis
  proof (cases ?cut)
    case True
    have "\<not> (answered ms \<and> (calls_of a \<noteq> [] \<or> ?says))"
      using True short by (auto split: if_splits)
    moreover have "out = before" "n = length ms - length before"
      by (simp_all only: out if_P [OF True])
    ultimately show ?thesis using fl(1) cut ne split by simp
  next
    case False
    then have "answered ms" using full by (cases "calls_of a") auto
    moreover have "calls_of a \<noteq> [] \<or> ?says" using False by (auto split: if_splits)
    moreover have "out = ms" "n = 0" by (simp_all only: out if_not_P [OF False])
    ultimately show ?thesis using split by simp
  qed
qed

text \<open>
  The replies are counted, not matched: any message after the calls counts as a reply, so a
  history whose last calls are followed by another message is kept as complete.
\<close>

lemma cleanup_counts_any_message:
  "cleanup_incomplete_messages
     [(plain_message ''assistant'' (PStr []))\<lparr>m_tool_calls := Some [\<lparr>call_id = ''a'', call_name = ''ls'', call_arguments = []\<rparr>]\<rparr>,
      plain_message ''user'' (PStr ''stop'')]
   = (0, [(plain_message ''assistant'' (PStr []))\<lparr>m_tool_calls := Some [\<lparr>call_id = ''a'', call_name = ''ls'', call_arguments = []\<rparr>]\<rparr>,
      plain_message ''user'' (PStr ''stop'')])
   \<and> \<not> answered [(plain_message ''assistant'' (PStr []))\<lparr>m_tool_calls := Some [\<lparr>call_id = ''a'', call_name = ''ls'', call_arguments = []\<rparr>]\<rparr>,
      plain_message ''user'' (PStr ''stop'')]"
  by code_simp

lemma cleanup_leaves_protocol_witness:
  "answered (snd (cleanup_incomplete_messages [snd ask, snd reply_with_calls, tool_reply ''x'' ''b'' ''rm'']))"
proof -
  have f: "in_flight [snd ask, snd reply_with_calls, tool_reply ''x'' ''b'' ''rm'']" by code_simp
  show ?thesis using cleanup_leaves_protocol [OF f surjective_pairing] by blast
qed

subsection \<open>Dispatched calls in the log\<close>

text \<open>Recording a batch of calls one after the other, until one raises.\<close>

fun record_batch :: "committer \<Rightarrow> call_record list \<Rightarrow> int \<Rightarrow> (log_error + unit) \<times> committer" where
  "record_batch c [] step = (Inr (), c)"
| "record_batch c (r # rs) step = (case record_call c r step of
     (Inl e, c') \<Rightarrow> (Inl e, c') | (Inr _, c') \<Rightarrow> record_batch c' rs step)"

definition call_body :: "int \<Rightarrow> int \<Rightarrow> call_record \<Rightarrow> body" where
  "call_body t step r = ToolCallEv t step (cr_id r) (cr_name r) (cr_arguments r)"

text \<open>What recording leaves: the calls are in the log, and durable unless the flag is up.\<close>

definition recorded :: "event list \<Rightarrow> body list \<Rightarrow> committer \<Rightarrow> bool" where
  "recorded base bs c = (\<exists>l. slog c = Some l \<and> log_ok l \<and> grew base bs l
     \<and> (bs \<noteq> [] \<longrightarrow> \<not> parallel_calls_pending c \<longrightarrow> sl_durable l = length (sl_events l)))"

lemma flush_cases:
  assumes "flush l = (r, l')" "log_ok l"
  shows "log_ok l' \<and> sl_events l' = sl_events l \<and> (r = Inr () \<longrightarrow> sl_durable l' = length (sl_events l'))"
  using assms keepsD [OF keeps_flush assms(2)]
  by (auto simp: flush_def disk_outcome_def Let_def split: if_splits list.splits)

lemma record_call_recorded:
  assumes "recorded base bs c" "turn c = Some t" "record_call c r step = (Inr (), c')"
  shows "recorded base (bs @ [call_body t step r]) c' \<and> turn c' = Some t"
proof -
  from assms(1) obtain l where l: "slog c = Some l" "log_ok l" "grew base bs l" by (auto simp: recorded_def)
  obtain r1 l1 where a: "append_event (call_body t step r) None None False l = (r1, l1)" by fastforce
  from a assms(2,3) l(1) obtain e where e: "r1 = Inr e"
    by (cases r1) (auto simp: record_call_def call_body_def)
  have ok: "log_ok l1" using keepsD [OF keeps_inert, of "call_body t step r" False l None None] a l(2)
    by (simp add: call_body_def)
  have g: "grew base (bs @ [call_body t step r]) l1" using tripleD [OF grew_append l(3)] a e by blast
  show ?thesis
  proof (cases "cr_parallel r")
    case True
    with a e assms(2,3) l(1) ok g show ?thesis by (auto simp: record_call_def call_body_def recorded_def)
  next
    case False
    obtain r2 l2 where f: "flush l1 = (r2, l2)" by fastforce
    from flush_cases [OF f ok] g have "log_ok l2" "grew base (bs @ [call_body t step r]) l2"
      "r2 = Inr () \<Longrightarrow> sl_durable l2 = length (sl_events l2)" by (auto simp: grew_def)
    with False a e f assms(2,3) l(1) show ?thesis
      by (cases r2) (auto simp: record_call_def call_body_def recorded_def with_log_def)
  qed
qed

lemma record_batch_recorded:
  "recorded base bs c \<Longrightarrow> turn c = Some t \<Longrightarrow> record_batch c rs step = (Inr (), c') \<Longrightarrow>
   recorded base (bs @ map (call_body t step) rs) c' \<and> turn c' = Some t"
proof (induction rs arbitrary: bs c)
  case (Cons r rs)
  from Cons.prems(3) obtain c1 where c1: "record_call c r step = (Inr (), c1)" "record_batch c1 rs step = (Inr (), c')"
    by (auto split: prod.splits sum.splits)
  from record_call_recorded [OF Cons.prems(1,2) c1(1)] Cons.IH [OF _ _ c1(2)] show ?case by fastforce
qed simp

lemma flush_calls_durable:
  assumes "recorded base bs c" "bs \<noteq> []" "flush_calls c = (Inr (), c')"
  shows "\<exists>l. slog c' = Some l \<and> log_ok l \<and> grew base bs l \<and> sl_durable l = length (sl_events l)"
proof -
  from assms(1) obtain l where l: "slog c = Some l" "log_ok l" "grew base bs l"
    "\<not> parallel_calls_pending c \<Longrightarrow> sl_durable l = length (sl_events l)"
    using assms(2) by (auto simp: recorded_def)
  obtain r2 l2 where f: "flush l = (r2, l2)" by fastforce
  from flush_cases [OF f l(2)] l assms(3) f show ?thesis
    by (cases "parallel_calls_pending c"; cases r2)
       (auto simp: flush_calls_def with_log_def grew_def split: prod.splits sum.splits)
qed

text \<open>The pending calls after the recorded dispatches: the same calls, the recorded ones marked.\<close>

definition dispatched :: "string set \<Rightarrow> open_turn \<Rightarrow> open_turn \<Rightarrow> bool" where
  "dispatched ids t u = (ot_turn u = ot_turn t \<and> keys (ot_calls u) = keys (ot_calls t)
     \<and> (\<forall>i c. i \<in> ids \<longrightarrow> map_of (ot_calls u) i = Some c \<longrightarrow> pc_seq c \<noteq> None))"

lemma scan_dispatch:
  "map ev_body es = map (call_body n step) rs \<Longrightarrow>
   \<exists>u. scan_from t es = Inr u \<and> dispatched (set (map cr_id rs)) t u"
proof (induction es arbitrary: rs rule: rev_induct)
  case Nil
  then show ?case by (simp add: dispatched_def)
next
  case (snoc e es)
  then obtain qs r where rs: "rs = qs @ [r]" "map ev_body es = map (call_body n step) qs" "ev_body e = call_body n step r"
    by (cases rs rule: rev_cases) auto
  from snoc.IH [OF rs(2)] obtain u where u: "scan_from t es = Inr u" "dispatched (set (map cr_id qs)) t u" by blast
  show ?case
  proof (cases "map_of (ot_calls u) (cr_id r)")
    case None
    with u rs show ?thesis
      by (auto simp: sc.fold_snoc scan_step_def call_body_def dispatched_def)
  next
    case (Some c)
    then have "cr_id r \<in> set (keys (ot_calls u))" by (auto dest: map_of_SomeD intro: rev_image_eqI)
    with Some u rs show ?thesis
      by (auto simp: sc.fold_snoc scan_step_def call_body_def dispatched_def update_keys
          map_of_update split: if_splits)
  qed
qed

text \<open>
  C34. A dispatched call is never reported as not started: when a batch of calls has been recorded
  and \<open>flush_calls\<close> returned (the kernel starts no tool before), the log on disk has all of them
  whatever a crash cuts off later, and the repair of the reopened log gives each of them that is
  still unanswered the outcome \<open>unknown\<close>.
\<close>

theorem dispatched_calls_survive:
  assumes "written disk created ops = l" "open_turn_of (sl_events l) = Inr t"
    "slog c = Some l" "turn c = Some n" "\<not> parallel_calls_pending c"
    "record_batch c rs step = (Inr (), c1)" "flush_calls c1 = (Inr (), c2)" "rs \<noteq> []"
    "slog c2 = Some l2" "sl_durable l2 \<le> k"
  shows "\<exists>u. open_turn_of (take k (sl_events l2)) = Inr u \<and> ot_turn u = ot_turn t
    \<and> keys (ot_calls u) = keys (ot_calls t)
    \<and> (\<forall>i pc. i \<in> set (map cr_id rs) \<longrightarrow> map_of (ot_calls u) i = Some pc \<longrightarrow>
         closer_code pc = TOOL_OUTCOME_UNKNOWN)"
proof -
  have ok: "log_ok l" using assms(1) by auto
  then have "recorded (sl_events l) [] c" using assms(3) by (simp add: recorded_def grew_def)
  from record_batch_recorded [OF this assms(4,6)]
  have "recorded (sl_events l) (map (call_body n step) rs) c1" by simp
  from flush_calls_durable [OF this _ assms(7)] assms(8,9) obtain es
    where es: "sl_events l2 = sl_events l @ es" "map ev_body es = map (call_body n step) rs"
      "sl_durable l2 = length (sl_events l2)"
    by (auto simp: grew_def)
  from open_turn_parts [OF assms(2)] obtain a
    where a: "active_events (sl_events l) = Inr a" "scan_from no_turn a = Inr t" by blast
  have "\<forall>b\<in>set (map (call_body n step) rs). case b of Revise _ \<Rightarrow> False | _ \<Rightarrow> True"
    by (auto simp: call_body_def)
  then have "list_all (\<lambda>e. revise_of e = None) es"
    unfolding es(2) [symmetric] by (auto simp: list_all_iff revise_of_def split: body.splits)
  from active_plain [OF a(1) this] es(1,3) assms(10)
  have act: "active_events (take k (sl_events l2)) = Inr (a @ es)" by simp
  from scan_dispatch [OF es(2), of t] obtain u
    where u: "scan_from t es = Inr u" "dispatched (set (map cr_id rs)) t u" by blast
  with act a(2) show ?thesis
    by (auto simp: open_turn_of_def sc.fold_append dispatched_def closer_code_def)
qed

definition sample_calls :: "call_record list" where
  "sample_calls = [\<lparr>cr_id = ''b'', cr_name = ''rm'', cr_arguments = [], cr_parallel = True\<rparr>]"

definition sample_committer :: committer where
  "sample_committer = new_committer [ask, reply_with_calls] (Some sample_log) (Some 1)"

definition batched :: committer where
  "batched = snd (record_batch sample_committer sample_calls 1)"

lemma dispatched_calls_survive_witness:
  "\<exists>u. open_turn_of (take 8 (sl_events (the (slog (snd (flush_calls batched)))))) = Inr u
     \<and> keys (ot_calls u) = [''a'', ''b'']"
proof -
  have t: "open_turn_of (sl_events sample_log) = Inr sample_turn" by code_simp
  have b: "record_batch sample_committer sample_calls 1 = (Inr (), batched)"
    by (rule prod_eqI) (code_simp, simp add: batched_def)
  have f: "flush_calls batched = (Inr (), snd (flush_calls batched))"
    by (rule prod_eqI) (code_simp, simp)
  have l: "slog (snd (flush_calls batched)) = Some (the (slog (snd (flush_calls batched))))"
    by code_simp
  have c: "slog sample_committer = Some sample_log" "turn sample_committer = Some 1"
      "\<not> parallel_calls_pending sample_committer" "sample_calls \<noteq> []"
      "keys (ot_calls sample_turn) = [''a'', ''b'']"
    by (simp_all add: sample_committer_def new_committer_def sample_calls_def sample_turn_def)
  have k: "sl_durable (the (slog (snd (flush_calls batched)))) \<le> 8" by code_simp
  from dispatched_calls_survive [OF sample_log_def [symmetric] t c(1-3) b f c(4) l k] c(5)
  show ?thesis by auto
qed

end
