(* ===== verification/Plugins.thy ===== *)
theory Plugins
  imports Prelude
begin

section \<open>Plugin descriptors, validation and ordering (box\_agent/plugins/)\<close>

text \<open>
  \<open>descriptors.py\<close>, \<open>registries.py\<close> and the static half of \<open>host.py\<close>: validation of the schema
  and of the descriptors, the selected closure with its lifetime and cardinality checks, and the
  stable topological order. Fields that the code checks with \<open>isinstance\<close> keep a value for the
  wrong type: a \<open>pyval\<close> where a string is expected, \<open>None\<close> where a tuple, a scope, a binding or a
  descriptor is. A Port type is its name. The heap of \<open>heapq\<close> is the sorted list of its entries.
\<close>

subsection \<open>Declarations\<close>

datatype pscope = PROCESS | SESSION | RUN

text \<open>The lifetime order of \<open>_select_descriptors\<close>: a process outlives a session outlives a run.\<close>

fun lifetime :: "pscope \<Rightarrow> nat" where
  "lifetime PROCESS = 0"
| "lifetime SESSION = 1"
| "lifetime RUN = 2"

instantiation pscope :: linorder
begin

definition less_eq_pscope :: "pscope \<Rightarrow> pscope \<Rightarrow> bool" where
  "less_eq_pscope a b = (lifetime a \<le> lifetime b)"

definition less_pscope :: "pscope \<Rightarrow> pscope \<Rightarrow> bool" where
  "less_pscope a b = (lifetime a < lifetime b)"

instance
proof
  fix a b :: pscope
  show "a \<le> b \<Longrightarrow> b \<le> a \<Longrightarrow> a = b"
    by (cases a; cases b) (simp_all add: less_eq_pscope_def)
qed (auto simp: less_eq_pscope_def less_pscope_def)

end

datatype capability = Port string | UnhashableType string | NotAType

datatype callback = Callable string | NotCallable

record descriptor =
  d_id :: pyval
  d_version :: pyval
  d_capabilities :: "capability list option"
  d_factory :: "callback option"
  d_dependencies :: "pyval list option"
  d_scope :: "pscope option"
  d_disposer :: "callback option"
  d_context_factory :: "callback option"

datatype policy = REQUIRED_SINGLE | OPTIONAL_SINGLE | MULTI

record binding =
  b_port :: capability
  b_policy :: "policy option"

datatype schema = NotASchema | BindingsNotATuple | Schema "binding option list"

datatype plugin_error =
    ValidationError string
  | DependencyCycle "string list"
  | ScopeError string
  | PluginError string
  | CleanupError nat
  | CallbackError
  | Cancelled
  | DuplicateCapability string
  | KeyError string

text \<open>The fields of a validated descriptor.\<close>

definition pid :: "descriptor \<Rightarrow> string" where
  "pid d = (case d_id d of PStr s \<Rightarrow> s | _ \<Rightarrow> [])"

definition deps :: "descriptor \<Rightarrow> string list" where
  "deps d = (case d_dependencies d of
     None \<Rightarrow> [] | Some ds \<Rightarrow> map (\<lambda>v. case v of PStr s \<Rightarrow> s | _ \<Rightarrow> []) ds)"

definition ports :: "descriptor \<Rightarrow> string list" where
  "ports d = (case d_capabilities d of
     None \<Rightarrow> [] | Some cs \<Rightarrow> map (\<lambda>c. case c of Port p \<Rightarrow> p | _ \<Rightarrow> []) cs)"

definition scope_of :: "descriptor \<Rightarrow> pscope" where
  "scope_of d = (case d_scope d of Some s \<Rightarrow> s | None \<Rightarrow> RUN)"

subsection \<open>Identifiers and versions\<close>

definition lower_alpha :: "char \<Rightarrow> bool" where
  "lower_alpha c = (97 \<le> code_of c \<and> code_of c \<le> 122)"

definition upper_alpha :: "char \<Rightarrow> bool" where
  "upper_alpha c = (65 \<le> code_of c \<and> code_of c \<le> 90)"

definition id_char :: "char \<Rightarrow> bool" where
  "id_char c = (lower_alpha c \<or> ascii_digit c)"

definition id_separator :: "char \<Rightarrow> bool" where
  "id_separator c = (c = CHR ''.'' \<or> c = CHR ''_'' \<or> c = CHR ''-'')"

text \<open>\<open>_PLUGIN_ID_RE\<close>: after the first letter, characters and separators, each separator followed
  by a character.\<close>

fun id_rest :: "string \<Rightarrow> bool" where
  "id_rest [] = True"
| "id_rest [c] = id_char c"
| "id_rest (c # d # s) = ((id_char c \<or> id_separator c \<and> id_char d) \<and> id_rest (d # s))"

definition valid_plugin_id :: "string \<Rightarrow> bool" where
  "valid_plugin_id s = (case s of [] \<Rightarrow> False | c # cs \<Rightarrow> lower_alpha c \<and> id_rest cs)"

fun split_at :: "char \<Rightarrow> string \<Rightarrow> string list" where
  "split_at c [] = [[]]"
| "split_at c (x # s) = (case split_at c s of
     [] \<Rightarrow> [[x]] | p # ps \<Rightarrow> if x = c then [] # p # ps else (x # p) # ps)"

definition ident :: "string \<Rightarrow> bool" where
  "ident s = (s \<noteq> [] \<and> list_all (\<lambda>c. ascii_digit c \<or> lower_alpha c \<or> upper_alpha c \<or> c = CHR ''-'') s)"

definition numeric_field :: "string \<Rightarrow> bool" where
  "numeric_field s = (s = ''0'' \<or> (s \<noteq> [] \<and> hd s \<noteq> CHR ''0'' \<and> list_all ascii_digit s))"

text \<open>The text before the first \<open>c\<close> and, if there is one, the text after it.\<close>

definition partition_at :: "char \<Rightarrow> string \<Rightarrow> string \<times> string option" where
  "partition_at c s = (takeWhile (\<lambda>x. x \<noteq> c) s,
     case dropWhile (\<lambda>x. x \<noteq> c) s of [] \<Rightarrow> None | _ # r \<Rightarrow> Some r)"

definition is_valid_semver :: "string \<Rightarrow> bool" where
  "is_valid_semver v =
     (let (main, build) = partition_at (CHR ''+'') v;
          (core, prerelease) = partition_at (CHR ''-'') main
      in length (split_at (CHR ''.'') core) = 3 \<and> list_all numeric_field (split_at (CHR ''.'') core)
         \<and> (case build of None \<Rightarrow> True | Some b \<Rightarrow> list_all ident (split_at (CHR ''.'') b))
         \<and> (case prerelease of None \<Rightarrow> True | Some p \<Rightarrow>
              list_all (\<lambda>i. ident i \<and> \<not> (list_all ascii_digit i \<and> 1 < length i \<and> hd i = CHR ''0''))
                (split_at (CHR ''.'') p)))"

subsection \<open>Validation\<close>

text \<open>The first failing check, in the order of the source.\<close>

fun first_error :: "(bool \<times> string) list \<Rightarrow> plugin_error option" where
  "first_error [] = None"
| "first_error ((bad, why) # cs) = (if bad then Some (ValidationError why) else first_error cs)"

fun check_dependencies :: "pyval \<Rightarrow> pyval list \<Rightarrow> plugin_error option" where
  "check_dependencies own [] = None"
| "check_dependencies own (v # vs) =
     (if \<not> (case v of PStr s \<Rightarrow> valid_plugin_id s | _ \<Rightarrow> False)
      then Some (ValidationError ''malformed dependency id'')
      else if v = own then Some (ValidationError ''plugin cannot depend on itself'')
      else check_dependencies own vs)"

fun check_capabilities :: "capability list \<Rightarrow> plugin_error option" where
  "check_capabilities [] = None"
| "check_capabilities (c # cs) = (case c of
     NotAType \<Rightarrow> Some (ValidationError ''plugin capabilities must contain Port types'')
   | UnhashableType _ \<Rightarrow> Some (ValidationError ''plugin capabilities must contain hashable Port types'')
   | Port _ \<Rightarrow> check_capabilities cs)"

definition or_else :: "'a option \<Rightarrow> 'a option \<Rightarrow> 'a option" where
  "or_else a b = (case a of None \<Rightarrow> b | Some x \<Rightarrow> Some x)"

definition validate_descriptor :: "descriptor \<Rightarrow> plugin_error option" where
  "validate_descriptor d =
     or_else (first_error
       [(\<not> (case d_id d of PStr s \<Rightarrow> valid_plugin_id s | _ \<Rightarrow> False), ''malformed plugin id''),
        (\<not> (case d_version d of PStr v \<Rightarrow> is_valid_semver v | _ \<Rightarrow> False), ''malformed version''),
        (d_scope d = None, ''malformed scope''),
        (d_dependencies d = None, ''plugin dependencies must be an immutable tuple'')])
     (or_else (case d_dependencies d of None \<Rightarrow> None | Some vs \<Rightarrow> check_dependencies (d_id d) vs)
     (or_else (first_error
       [(\<not> (case d_dependencies d of None \<Rightarrow> True | Some vs \<Rightarrow> distinct vs), ''duplicate plugin dependencies''),
        (d_capabilities d = None \<or> d_capabilities d = Some [], ''plugin capabilities must be a non-empty tuple'')])
     (or_else (case d_capabilities d of None \<Rightarrow> None | Some cs \<Rightarrow> check_capabilities cs)
     (first_error
       [(\<not> (case d_capabilities d of None \<Rightarrow> True | Some cs \<Rightarrow> distinct cs), ''duplicate capability declaration''),
        ((d_factory d = None) = (d_context_factory d = None), ''plugin requires exactly one factory or context_factory''),
        (d_factory d = Some NotCallable, ''plugin factory must be callable''),
        (d_context_factory d = Some NotCallable, ''plugin context_factory must be callable''),
        (d_disposer d = Some NotCallable, ''plugin disposer must be callable'')]))))"

fun check_bindings :: "binding option list \<Rightarrow> plugin_error option" where
  "check_bindings [] = None"
| "check_bindings (b # bs) = (case b of
     None \<Rightarrow> Some (ValidationError ''malformed capability schema binding'')
   | Some x \<Rightarrow> (case b_port x of
       NotAType \<Rightarrow> Some (ValidationError ''malformed capability schema Port type'')
     | UnhashableType _ \<Rightarrow> Some (ValidationError ''malformed capability schema: not hashable'')
     | Port _ \<Rightarrow> (if b_policy x = None then Some (ValidationError ''malformed capability schema policy'')
                 else check_bindings bs)))"

definition binding_pair :: "binding \<Rightarrow> string \<times> policy" where
  "binding_pair b = (case b_port b of Port p \<Rightarrow> p | _ \<Rightarrow> [], case b_policy b of Some q \<Rightarrow> q | None \<Rightarrow> MULTI)"

definition validate_schema :: "schema \<Rightarrow> plugin_error + (string \<times> policy) list" where
  "validate_schema s = (case s of
     NotASchema \<Rightarrow> Inl (ValidationError ''malformed capability schema'')
   | BindingsNotATuple \<Rightarrow> Inl (ValidationError ''malformed capability schema: bindings must be an immutable tuple'')
   | Schema bs \<Rightarrow> (case check_bindings bs of
       Some e \<Rightarrow> Inl e
     | None \<Rightarrow> (let ps = map (binding_pair \<circ> the) bs
               in if distinct (keys ps) then Inr ps
                  else Inl (ValidationError ''malformed capability schema: overlapping binding''))))"

subsection \<open>The selected closure\<close>

text \<open>The catalog: every descriptor is validated before its id and its ports are looked at.\<close>

fun catalog :: "(string \<times> policy) list \<Rightarrow> (string \<times> descriptor) list \<Rightarrow> descriptor option list
    \<Rightarrow> plugin_error + (string \<times> descriptor) list" where
  "catalog policies ids [] = Inr ids"
| "catalog policies ids (x # ds) = (case x of
     None \<Rightarrow> Inl (ValidationError ''malformed plugin descriptor'')
   | Some d \<Rightarrow> (case validate_descriptor d of
       Some e \<Rightarrow> Inl e
     | None \<Rightarrow> (if pid d \<in> set (keys ids) then Inl (ValidationError ''duplicate plugin id'')
               else if \<not> list_all (\<lambda>p. p \<in> set (keys policies)) (ports d)
               then Inl (ValidationError ''undeclared capability in descriptor'')
               else catalog policies (ids @ [(pid d, d)]) ds)))"

text \<open>\<open>pending\<close> is a stack: its top is the head here and the end of the list in the source.\<close>

function closure :: "(string \<times> descriptor) list \<Rightarrow> string list \<Rightarrow> pyval list \<Rightarrow> plugin_error + string list" where
  "closure ids selected [] = Inr selected"
| "closure ids selected (v # stack) = (case v of
     PStr i \<Rightarrow> (case map_of ids i of
       None \<Rightarrow> Inl (ValidationError ''unknown plugin id'')
     | Some d \<Rightarrow> (if i \<in> set selected then closure ids selected stack
                 else if \<not> list_all (\<lambda>j. j \<in> set (keys ids)) (deps d)
                 then Inl (ValidationError ''missing dependency'')
                 else closure ids (i # selected) (rev (map PStr (deps d)) @ stack)))
   | _ \<Rightarrow> Inl (ValidationError ''unknown plugin id''))"
  by pat_completeness auto
termination
proof (relation "inv_image (less_than <*lex*> less_than)
    (\<lambda>(ids, selected, stack). (card (set (keys ids) - set selected), length stack))", goal_cases)
  case (3 ids selected v stack i d)
  then have "i \<in> set (keys ids)" by (auto dest!: map_of_SomeD intro: rev_image_eqI)
  with 3 have "card (set (keys ids) - set (i # selected)) < card (set (keys ids) - set selected)"
    by (intro psubset_card_mono) auto
  then show ?case by simp
qed auto

fun check_ports :: "(string \<times> policy) list \<Rightarrow> string \<Rightarrow> string list \<Rightarrow> (string \<times> string list) list
    \<Rightarrow> plugin_error + (string \<times> string list) list" where
  "check_ports policies i [] providers = Inr providers"
| "check_ports policies i (p # ps) providers =
     (let found = (case map_of providers p of None \<Rightarrow> [] | Some is \<Rightarrow> is)
      in if found \<noteq> [] \<and> map_of policies p \<noteq> Some MULTI
         then Inl (ValidationError ''duplicate capability registration'')
         else check_ports policies i ps (AList.update p (found @ [i]) providers))"

fun check_selected :: "(string \<times> policy) list \<Rightarrow> (string \<times> descriptor) list \<Rightarrow> descriptor list
    \<Rightarrow> (string \<times> string list) list \<Rightarrow> plugin_error + (string \<times> string list) list" where
  "check_selected policies ids [] providers = Inr providers"
| "check_selected policies ids (d # ds) providers =
     (if \<not> list_all (\<lambda>j. case map_of ids j of None \<Rightarrow> True | Some e \<Rightarrow> scope_of e \<le> scope_of d) (deps d)
      then Inl (ValidationError ''cannot depend on shorter-lived plugin'')
      else (case check_ports policies (pid d) (ports d) providers of
              Inl e \<Rightarrow> Inl e | Inr providers' \<Rightarrow> check_selected policies ids ds providers'))"

definition missing_required :: "(string \<times> policy) list \<Rightarrow> (string \<times> string list) list \<Rightarrow> bool" where
  "missing_required policies providers = list_ex (\<lambda>(p, q). q = REQUIRED_SINGLE
     \<and> (case map_of providers p of None \<Rightarrow> True | Some is \<Rightarrow> is = [])) policies"

definition select_descriptors ::
  "schema \<Rightarrow> descriptor option list \<Rightarrow> pyval list option \<Rightarrow> plugin_error + descriptor list" where
  "select_descriptors s ds plugin_ids = (case validate_schema s of
     Inl e \<Rightarrow> Inl e
   | Inr policies \<Rightarrow> (case catalog policies [] ds of
       Inl e \<Rightarrow> Inl e
     | Inr ids \<Rightarrow> (case closure ids [] (rev (case plugin_ids of None \<Rightarrow> map PStr (keys ids) | Some vs \<Rightarrow> vs)) of
         Inl e \<Rightarrow> Inl e
       | Inr selected \<Rightarrow>
           (let descriptors = filter (\<lambda>d. pid d \<in> set selected) (vals ids)
            in case check_selected policies ids descriptors (map (\<lambda>(p, _). (p, [])) policies) of
                 Inl e \<Rightarrow> Inl e
               | Inr providers \<Rightarrow>
                   (if missing_required policies providers
                    then Inl (ValidationError ''missing required capability'')
                    else Inr descriptors)))))"

subsection \<open>The stable topological order\<close>

text \<open>\<open>heapq\<close>: pushing keeps the least entry in front, popping takes it.\<close>

type_synonym heap = "(nat \<times> string) list"

definition heappush :: "heap \<Rightarrow> nat \<times> string \<Rightarrow> heap" where
  "heappush h e = insort_key fst e h"

definition heapify :: "(nat \<times> string) list \<Rightarrow> heap" where
  "heapify es = sort_key fst es"

definition index_of :: "descriptor list \<Rightarrow> string \<Rightarrow> nat" where
  "index_of ds i = length (takeWhile (\<lambda>d. pid d \<noteq> i) ds)"

definition dependents :: "descriptor list \<Rightarrow> string \<Rightarrow> string list" where
  "dependents ds i = concat (map (\<lambda>d. map (\<lambda>_. pid d) (filter (\<lambda>j. j = i) (deps d))) ds)"

fun release :: "(string \<Rightarrow> nat) \<Rightarrow> string list \<Rightarrow> (string \<times> int) list \<Rightarrow> heap \<Rightarrow> (string \<times> int) list \<times> heap" where
  "release ix [] indegrees ready = (indegrees, ready)"
| "release ix (u # us) indegrees ready =
     (let n = (case map_of indegrees u of None \<Rightarrow> 0 | Some k \<Rightarrow> k) - 1;
          indegrees' = AList.update u n indegrees
      in release ix us indegrees' (if n = 0 then heappush ready (ix u, u) else ready))"

definition waiting :: "(string \<times> int) list \<Rightarrow> nat" where
  "waiting indegrees = length (filter (\<lambda>e. 0 < snd e) indegrees)"

lemma waiting_update:
  assumes "case map_of indegrees u of None \<Rightarrow> n < 0 | Some k \<Rightarrow> n = k - 1"
  shows "waiting (AList.update u n indegrees) + (if n = 0 then 1 else 0) \<le> waiting indegrees"
  using assms
  by (induction indegrees) (auto simp: waiting_def split: option.splits if_splits)

lemma release_waiting:
  "release ix us indegrees ready = (indegrees', ready') \<Longrightarrow>
   length ready' + waiting indegrees' \<le> length ready + waiting indegrees"
proof (induction us arbitrary: indegrees ready)
  case (Cons u us)
  let ?n = "(case map_of indegrees u of None \<Rightarrow> 0 | Some k \<Rightarrow> k) - 1"
  have "waiting (AList.update u ?n indegrees) + (if ?n = 0 then 1 else 0) \<le> waiting indegrees"
    by (rule waiting_update) (simp split: option.split)
  with Cons.IH [OF Cons.prems [unfolded release.simps Let_def]] show ?case
    by (auto simp: heappush_def split: if_splits)
qed simp

text \<open>The loop \<open>while ready\<close>: a popped entry leaves the heap, and each pushed one stops waiting.\<close>

function kahn :: "descriptor list \<Rightarrow> (string \<times> int) list \<Rightarrow> heap \<Rightarrow> string list \<Rightarrow> string list \<times> (string \<times> int) list" where
  "kahn ds indegrees [] ordered = (ordered, indegrees)"
| "kahn ds indegrees (e # ready) ordered =
     (let (indegrees', ready') = release (index_of ds) (sort_key (index_of ds) (dependents ds (snd e))) indegrees ready
      in kahn ds indegrees' ready' (ordered @ [snd e]))"
  by pat_completeness auto
termination
proof (relation "measure (\<lambda>(ds, indegrees, ready, ordered). length ready + waiting indegrees)", goal_cases)
  case (2 ds indegrees e ready ordered x indegrees' ready')
  then have "length ready' + waiting indegrees' \<le> length ready + waiting indegrees"
    by (metis release_waiting)
  then show ?case by simp
qed simp

definition resolve_dependencies ::
  "schema \<Rightarrow> descriptor option list \<Rightarrow> pyval list option \<Rightarrow> plugin_error + descriptor list" where
  "resolve_dependencies s all plugin_ids = (case select_descriptors s all plugin_ids of
     Inl e \<Rightarrow> Inl e
   | Inr ds \<Rightarrow>
       (let indegrees = map (\<lambda>d. (pid d, int (length (deps d)))) ds;
            ready = heapify (map (\<lambda>e. (index_of ds (fst e), fst e)) (filter (\<lambda>e. snd e = 0) indegrees));
            (ordered, left) = kahn ds indegrees ready []
        in if length ordered \<noteq> length ds
           then Inl (DependencyCycle (map fst (filter (\<lambda>e. 0 < snd e) left)))
           else Inr (map (\<lambda>i. the (map_of (map (\<lambda>d. (pid d, d)) ds) i)) ordered)))"

subsection \<open>Registries\<close>

record 'i registry =
  rg_entries :: "(string \<times> 'i) list"
  rg_multi :: "(string \<times> 'i list) list"
  rg_policies :: "(string \<times> policy) list"

definition new_registry :: "(string \<times> policy) list \<Rightarrow> 'i registry" where
  "new_registry policies = \<lparr>rg_entries = [], rg_multi = [], rg_policies = policies\<rparr>"

definition register :: "'i registry \<Rightarrow> string \<Rightarrow> 'i \<Rightarrow> plugin_error + 'i registry" where
  "register r port i = (case map_of (rg_policies r) port of
     None \<Rightarrow> Inl (KeyError port)
   | Some MULTI \<Rightarrow> Inr (r\<lparr>rg_multi := AList.update port
       ((case map_of (rg_multi r) port of None \<Rightarrow> [] | Some is \<Rightarrow> is) @ [i]) (rg_multi r)\<rparr>)
   | Some _ \<Rightarrow> (if port \<in> set (keys (rg_entries r)) then Inl (DuplicateCapability port)
               else Inr (r\<lparr>rg_entries := AList.update port i (rg_entries r)\<rparr>)))"

text \<open>What the frozen view answers: \<open>get\<close>, \<open>require\<close> and \<open>get_all\<close>.\<close>

definition registry_get :: "'i registry \<Rightarrow> string \<Rightarrow> 'i option" where
  "registry_get r port = map_of (rg_entries r) port"

definition require :: "'i registry \<Rightarrow> string \<Rightarrow> plugin_error + 'i" where
  "require r port = (case map_of (rg_entries r) port of None \<Rightarrow> Inl (KeyError port) | Some i \<Rightarrow> Inr i)"

definition get_all :: "'i registry \<Rightarrow> string \<Rightarrow> 'i list" where
  "get_all r port = (case map_of (rg_multi r) port of None \<Rightarrow> [] | Some is \<Rightarrow> is)"

fun register_ports :: "'i registry \<Rightarrow> string list \<Rightarrow> 'i \<Rightarrow> plugin_error + 'i registry" where
  "register_ports r [] i = Inr r"
| "register_ports r (p # ps) i =
     (case register r p i of Inl e \<Rightarrow> Inl e | Inr r' \<Rightarrow> register_ports r' ps i)"

end
