(* ===== verification/PluginHost.thy ===== *)
theory PluginHost
  imports Plugins
begin

section \<open>The plugin host: activation, sharing and disposal (box\_agent/plugins/host.py)\<close>

text \<open>
  The lifecycle half of \<open>PluginHost\<close>. Lifecycle operations are serialised by the host's
  reservation, so each is one step of the model. Instances are mutable records that several
  caches share: the model names them by number and keeps one store of records. A factory or a
  disposer is its outcome: the environment is the script of the coming outcomes, and an exhausted
  script means that callbacks return (and that a factory's result satisfies its runtime Ports).
  Session keys are strings. The host-supplied scope contexts, the guard against calls from inside
  a callback and cancellation between callbacks are not modelled.
\<close>

datatype outcome = Returns | Raises | Cancels | BadPorts

record instance_record =
  ir_descriptor :: descriptor
  ir_context :: "(string \<times> nat) list"   \<comment> \<open>the dependencies' instances its factory was given\<close>
  ir_disposed :: bool

record host =
  h_descriptors :: "descriptor option list"
  h_schema :: schema
  h_process :: "(string \<times> nat) list"
  h_sessions :: "(string \<times> (string \<times> nat) list) list"
  h_closing :: "string list"
  h_rollbacks :: "(string \<times> nat list) list"
  h_live :: "nat list"
  h_closed :: bool
  h_records :: "instance_record list"   \<comment> \<open>the store: record number \<open>n\<close> is its \<open>n\<close>-th entry\<close>
  h_script :: "outcome list"
  h_disposals :: "(nat \<times> bool) list"   \<comment> \<open>the disposer calls in order: the record, and whether the call was cancelled\<close>

definition new_host :: "descriptor option list \<Rightarrow> schema \<Rightarrow> outcome list \<Rightarrow> host" where
  "new_host ds s script = \<lparr>h_descriptors = ds, h_schema = s, h_process = [], h_sessions = [],
     h_closing = [], h_rollbacks = [], h_live = [], h_closed = False, h_records = [],
     h_script = script, h_disposals = []\<rparr>"

definition next_outcome :: "host \<Rightarrow> outcome \<times> host" where
  "next_outcome h = (case h_script h of [] \<Rightarrow> (Returns, h) | x # xs \<Rightarrow> (x, h\<lparr>h_script := xs\<rparr>))"

definition rec_of :: "host \<Rightarrow> nat \<Rightarrow> instance_record" where
  "rec_of h n = h_records h ! n"

definition disposed :: "host \<Rightarrow> nat \<Rightarrow> bool" where
  "disposed h n = ir_disposed (h_records h ! n)"

definition scope_at :: "host \<Rightarrow> nat \<Rightarrow> pscope" where
  "scope_at h n = scope_of (ir_descriptor (h_records h ! n))"

definition mark_disposed :: "nat \<Rightarrow> host \<Rightarrow> host" where
  "mark_disposed n h = h\<lparr>h_records := (h_records h)[n := (h_records h ! n)\<lparr>ir_disposed := True\<rparr>]\<rparr>"

subsection \<open>Disposing records\<close>

text \<open>The loop body: whether the disposer raised, and whether it was cancelled. A cancelled disposer
  leaves its record undisposed.\<close>

definition dispose_one :: "nat \<Rightarrow> host \<Rightarrow> (nat \<times> bool) \<times> host" where
  "dispose_one n h =
     (if disposed h n then ((0, False), h)
      else if d_disposer (ir_descriptor (rec_of h n)) = None then ((0, False), mark_disposed n h)
      else (let (x, h1) = next_outcome h;
                h2 = h1\<lparr>h_disposals := h_disposals h1 @ [(n, x = Cancels)]\<rparr>
            in case x of
                 Cancels \<Rightarrow> ((0, True), h2)
               | Raises \<Rightarrow> ((1, False), mark_disposed n h2)
               | _ \<Rightarrow> ((0, False), mark_disposed n h2)))"

text \<open>The result: how many disposers raised, and whether one was cancelled.\<close>

fun dispose_records :: "nat list \<Rightarrow> host \<Rightarrow> (nat \<times> bool) \<times> host" where
  "dispose_records [] h = ((0, False), h)"
| "dispose_records (n # ns) h =
     (let ((e, c), h1) = dispose_one n h; ((es, cs), h2) = dispose_records ns h1
      in ((e + es, c \<or> cs), h2))"

definition cleanup_failures :: "nat \<Rightarrow> bool \<Rightarrow> plugin_error option" where
  "cleanup_failures errors cancelled =
     (if cancelled then Some Cancelled else if 0 < errors then Some (CleanupError errors) else None)"

definition remove_live :: "nat list \<Rightarrow> host \<Rightarrow> host" where
  "remove_live ns h = h\<lparr>h_live := filter (\<lambda>n. n \<notin> set ns) (h_live h)\<rparr>"

definition completed :: "host \<Rightarrow> nat list \<Rightarrow> nat list" where
  "completed h ns = filter (disposed h) ns"

definition remaining :: "host \<Rightarrow> nat list \<Rightarrow> nat list" where
  "remaining h ns = filter (\<lambda>n. \<not> disposed h n) ns"

definition session_cache :: "host \<Rightarrow> string option \<Rightarrow> (string \<times> nat) list" where
  "session_cache h key = (case key of None \<Rightarrow> [] | Some k \<Rightarrow>
     (case map_of (h_sessions h) k of None \<Rightarrow> [] | Some c \<Rightarrow> c))"

text \<open>A session whose cache became empty is forgotten.\<close>

definition set_session :: "string \<Rightarrow> (string \<times> nat) list \<Rightarrow> host \<Rightarrow> host" where
  "set_session k c h = h\<lparr>h_sessions := (if c = [] then AList.delete k (h_sessions h)
                                       else AList.update k c (h_sessions h))\<rparr>"

definition remove_cached_one :: "string option \<Rightarrow> nat \<Rightarrow> host \<Rightarrow> host" where
  "remove_cached_one key n h =
     (let i = pid (ir_descriptor (rec_of h n))
      in case scope_at h n of
           PROCESS \<Rightarrow> (if map_of (h_process h) i = Some n
                       then h\<lparr>h_process := AList.delete i (h_process h)\<rparr> else h)
         | SESSION \<Rightarrow> (case key of
             None \<Rightarrow> h
           | Some k \<Rightarrow> (case map_of (h_sessions h) k of
               None \<Rightarrow> h
             | Some c \<Rightarrow> (if map_of c i = Some n then set_session k (AList.delete i c) h else h)))
         | RUN \<Rightarrow> h)"

definition remove_cached :: "string option \<Rightarrow> nat list \<Rightarrow> host \<Rightarrow> host" where
  "remove_cached key ns h = foldl (\<lambda>h n. remove_cached_one key n h) h ns"

definition pending_of :: "host \<Rightarrow> string \<Rightarrow> nat list" where
  "pending_of h k = (case map_of (h_rollbacks h) k of None \<Rightarrow> [] | Some ns \<Rightarrow> ns)"

definition add_closing :: "string \<Rightarrow> host \<Rightarrow> host" where
  "add_closing k h = (if k \<in> set (h_closing h) then h else h\<lparr>h_closing := h_closing h @ [k]\<rparr>)"

definition retain_run_rollback :: "string option \<Rightarrow> nat list \<Rightarrow> host \<Rightarrow> host" where
  "retain_run_rollback key ns h = (case key of
     None \<Rightarrow> h
   | Some k \<Rightarrow>
       (let retained = filter (\<lambda>n. scope_at h n = RUN \<and> \<not> disposed h n) ns
        in if retained = [] then h
           else (let known = pending_of h k @ retained
                 in add_closing k (h\<lparr>h_rollbacks := AList.update k
                      (filter (\<lambda>n. n \<in> set known) (h_live h)) (h_rollbacks h)\<rparr>))))"

subsection \<open>Activation\<close>

record activation =
  a_registry :: "nat registry"
  a_run :: "nat list"
  a_contributions :: "(descriptor \<times> nat) list"
  a_disposed :: bool

text \<open>The local variables of \<open>activate\<close>.\<close>

record progress =
  p_created :: "nat list"
  p_instances :: "(string \<times> nat) list"
  p_run :: "nat list"
  p_contributions :: "(descriptor \<times> nat) list"
  p_registry :: "nat registry"

definition cached :: "string option \<Rightarrow> descriptor \<Rightarrow> host \<Rightarrow> nat option" where
  "cached key d h = (case scope_of d of
     PROCESS \<Rightarrow> map_of (h_process h) (pid d)
   | SESSION \<Rightarrow> map_of (session_cache h key) (pid d)
   | RUN \<Rightarrow> None)"

text \<open>\<open>setdefault(session_key, {})\<close>, for session-scoped plugins only.\<close>

definition touch_session :: "string option \<Rightarrow> descriptor \<Rightarrow> host \<Rightarrow> host" where
  "touch_session key d h = (case (scope_of d, key) of
     (SESSION, Some k) \<Rightarrow> (if k \<in> set (keys (h_sessions h)) then h
                          else h\<lparr>h_sessions := h_sessions h @ [(k, [])]\<rparr>)
   | _ \<Rightarrow> h)"

text \<open>A new record is live from the start; its number is the length of the store.\<close>

definition add_record :: "descriptor \<Rightarrow> (string \<times> nat) list \<Rightarrow> host \<Rightarrow> host" where
  "add_record d ctx h = h\<lparr>h_live := h_live h @ [length (h_records h)],
     h_records := h_records h @ [\<lparr>ir_descriptor = d, ir_context = ctx, ir_disposed = False\<rparr>]\<rparr>"

definition cache_record :: "string option \<Rightarrow> descriptor \<Rightarrow> nat \<Rightarrow> host \<Rightarrow> host" where
  "cache_record key d n h = (case (scope_of d, key) of
     (PROCESS, _) \<Rightarrow> h\<lparr>h_process := AList.update (pid d) n (h_process h)\<rparr>
   | (SESSION, Some k) \<Rightarrow> h\<lparr>h_sessions :=
       AList.update k (AList.update (pid d) n (session_cache h key)) (h_sessions h)\<rparr>
   | _ \<Rightarrow> h)"

definition get_or_create :: "string option \<Rightarrow> descriptor \<Rightarrow> (string \<times> nat) list \<Rightarrow> nat list \<Rightarrow> host
    \<Rightarrow> ((plugin_error + nat) \<times> nat list) \<times> host" where
  "get_or_create key d ctx created h =
     (let h1 = touch_session key d h
      in case cached key d h1 of
           Some n \<Rightarrow> ((Inr n, created), h1)
         | None \<Rightarrow>
             (let (x, h2) = next_outcome h1; n = length (h_records h2); h3 = add_record d ctx h2
              in case x of
                   Raises \<Rightarrow> ((Inl CallbackError, created), h2)
                 | Cancels \<Rightarrow> ((Inl Cancelled, created), h2)
                 | BadPorts \<Rightarrow>
                     (let ((es, c), h4) = dispose_records [n] h3;
                          h5 = remove_live (completed h4 [n]) h4
                      in ((Inl (if c then Cancelled else ValidationError ''factory result does not satisfy runtime Port''),
                           created), retain_run_rollback key [n] h5))
                 | Returns \<Rightarrow> ((Inr n, created @ [n]), cache_record key d n h3)))"

text \<open>The instances handed to a factory: one per declared dependency.\<close>

fun context_of :: "(string \<times> nat) list \<Rightarrow> string list \<Rightarrow> plugin_error + (string \<times> nat) list" where
  "context_of instances [] = Inr []"
| "context_of instances (j # js) = (case map_of instances j of
     None \<Rightarrow> Inl (KeyError j)
   | Some n \<Rightarrow> (case context_of instances js of Inl e \<Rightarrow> Inl e | Inr ctx \<Rightarrow> Inr ((j, n) # ctx)))"

text \<open>The body of the loop over the selected plugins, up to the registration of their Ports.\<close>

fun activate_each :: "string option \<Rightarrow> descriptor list \<Rightarrow> progress \<Rightarrow> host
    \<Rightarrow> (plugin_error option \<times> progress) \<times> host" where
  "activate_each key [] p h = ((None, p), h)"
| "activate_each key (d # ds) p h = (case context_of (p_instances p) (deps d) of
     Inl e \<Rightarrow> ((Some e, p), h)
   | Inr ctx \<Rightarrow>
       (let ((r, created), h1) = get_or_create key d ctx (p_created p) h
        in case r of
             Inl e \<Rightarrow> ((Some e, p\<lparr>p_created := created\<rparr>), h1)
           | Inr n \<Rightarrow>
               (let p1 = p\<lparr>p_created := created, p_instances := AList.update (pid d) n (p_instances p),
                      p_contributions := p_contributions p @ [(d, n)],
                      p_run := (if scope_of d = RUN then p_run p @ [n] else p_run p)\<rparr>
                in case register_ports (p_registry p1) (ports d) n of
                     Inl e \<Rightarrow> ((Some e, p1), h1)
                   | Inr r' \<Rightarrow> activate_each key ds (p1\<lparr>p_registry := r'\<rparr>) h1)))"

text \<open>Dependencies that the activation leaves out must have a cached instance.\<close>

fun borrow :: "string option \<Rightarrow> descriptor list \<Rightarrow> string list \<Rightarrow> string list \<Rightarrow> host
    \<Rightarrow> (string \<times> nat) list \<Rightarrow> plugin_error + (string \<times> nat) list" where
  "borrow key plan active [] h instances = Inr instances"
| "borrow key plan active (j # js) h instances =
     (if j \<in> set active then borrow key plan active js h instances
      else (case map_of (map (\<lambda>d. (pid d, d)) plan) j of
              None \<Rightarrow> Inl (KeyError j)
            | Some d \<Rightarrow> (case cached key d h of
                None \<Rightarrow> Inl (ScopeError ''dependency is outside activation scopes and has no cached instance'')
              | Some n \<Rightarrow> borrow key plan active js h (AList.update j n instances))))"

definition selected_scopes :: "pscope option list option \<Rightarrow> pscope list" where
  "selected_scopes scopes = (case scopes of
     None \<Rightarrow> [PROCESS, SESSION, RUN] | Some ss \<Rightarrow> map the (filter (\<lambda>s. s \<noteq> None) ss))"

definition roll_back :: "string option \<Rightarrow> nat list \<Rightarrow> plugin_error \<Rightarrow> host \<Rightarrow> plugin_error \<times> host" where
  "roll_back key created e h =
     (let h1 = remove_cached key created h;
          ((es, c), h2) = dispose_records (rev created) h1;
          h3 = remove_live (completed h2 created) h2
      in (if c then Cancelled else e, retain_run_rollback key created h3))"

definition start_progress :: "(string \<times> policy) list \<Rightarrow> (string \<times> nat) list \<Rightarrow> progress" where
  "start_progress policies instances = \<lparr>p_created = [], p_instances = instances, p_run = [],
     p_contributions = [], p_registry = new_registry policies\<rparr>"

definition run_activation :: "string option \<Rightarrow> descriptor list \<Rightarrow> descriptor list \<Rightarrow> host
    \<Rightarrow> (plugin_error + activation) \<times> host" where
  "run_activation key plan ordered h = (case validate_schema (h_schema h) of
     Inl e \<Rightarrow> (Inl e, h)
   | Inr policies \<Rightarrow> (case borrow key plan (map pid ordered) (concat (map deps ordered)) h [] of
       Inl e \<Rightarrow> (Inl e, h)
     | Inr instances \<Rightarrow>
         (let ((failed, p), h1) = activate_each key ordered (start_progress policies instances) h
          in case failed of
               Some e \<Rightarrow> (let (e', h2) = roll_back key (p_created p) e h1 in (Inl e', h2))
             | None \<Rightarrow> (Inr \<lparr>a_registry = p_registry p, a_run = p_run p,
                              a_contributions = p_contributions p, a_disposed = False\<rparr>, h1))))"

definition activate :: "string option \<Rightarrow> pyval list option \<Rightarrow> pscope option list option \<Rightarrow> host
    \<Rightarrow> (plugin_error + activation) \<times> host" where
  "activate key plugin_ids scopes h = (case resolve_dependencies (h_schema h) (h_descriptors h) plugin_ids of
     Inl e \<Rightarrow> (Inl e, h)
   | Inr plan \<Rightarrow>
       (if scopes \<noteq> None \<and> None \<in> set (the scopes)
        then (Inl (ScopeError ''activation scopes must contain PluginScope values''), h)
        else (let ordered = filter (\<lambda>d. scope_of d \<in> set (selected_scopes scopes)) plan
              in if list_ex (\<lambda>d. scope_of d = SESSION) ordered \<and> key = None
                 then (Inl (ScopeError ''session-scoped plugins require a session key''), h)
                 else if h_closed h then (Inl (PluginError ''plugin host is closed''), h)
                 else if key \<noteq> None \<and> the key \<in> set (h_closing h)
                 then (Inl (ScopeError ''session cleanup is incomplete; retry dispose_session first''), h)
                 else run_activation key plan ordered h)))"

text \<open>\<open>contributions\<close>: the instances of one Port with their descriptors, in activation order.\<close>

definition contributions :: "activation \<Rightarrow> string \<Rightarrow> (descriptor \<times> nat) list" where
  "contributions a port = filter (\<lambda>(d, n). port \<in> set (ports d)) (a_contributions a)"

subsection \<open>Disposal\<close>

definition dispose_activation :: "activation \<Rightarrow> host \<Rightarrow> (plugin_error option \<times> activation) \<times> host" where
  "dispose_activation a h =
     (if a_disposed a then ((None, a), h)
      else (let ((es, c), h1) = dispose_records (rev (a_run a)) h;
                h2 = remove_live (completed h1 (a_run a)) h1;
                left = remaining h1 (a_run a)
            in ((cleanup_failures es c, a\<lparr>a_run := left, a_disposed := (left = [])\<rparr>), h2)))"

text \<open>Drop the disposed records of a session from its cache, and the cache when it is empty.\<close>

definition forget_session :: "string \<Rightarrow> nat list \<Rightarrow> host \<Rightarrow> host" where
  "forget_session k owned h = (case map_of (h_sessions h) k of
     None \<Rightarrow> h
   | Some c \<Rightarrow> set_session k (foldl (\<lambda>c n.
       (let i = pid (ir_descriptor (rec_of h n))
        in if disposed h n \<and> map_of c i = Some n then AList.delete i c else c)) c owned) h)"

text \<open>The run-scoped records that a failed activation left to the session.\<close>

definition dispose_pending :: "string \<Rightarrow> host \<Rightarrow> (nat \<times> bool) \<times> host" where
  "dispose_pending k h =
     (let ((es, c), h1) = dispose_records (rev (pending_of h k)) h;
          left = remaining h1 (pending_of h k)
      in ((es, c), remove_live (completed h1 (pending_of h k))
           (h1\<lparr>h_rollbacks := (if left = [] then AList.delete k (h_rollbacks h1)
                              else AList.update k left (h_rollbacks h1))\<rparr>)))"

text \<open>The session's own instances.\<close>

definition dispose_owned :: "string \<Rightarrow> host \<Rightarrow> (nat \<times> bool) \<times> host" where
  "dispose_owned k h =
     (let owned = map snd (session_cache h (Some k));
          ((es, c), h1) = dispose_records (rev owned) (if owned = [] then h else add_closing k h);
          h2 = forget_session k owned h1;
          h3 = (if k \<in> set (keys (h_sessions h2)) then h2
                else h2\<lparr>h_closing := remove1 k (h_closing h2)\<rparr>)
      in ((es, c), remove_live (completed h1 owned) h3))"

definition dispose_session :: "string \<Rightarrow> host \<Rightarrow> plugin_error option \<times> host" where
  "dispose_session k h =
     (let ((e1, c1), h1) = dispose_pending k h
      in if c1 then (cleanup_failures e1 c1, h1)
         else (let ((e2, c2), h2) = dispose_owned k h1 in (cleanup_failures (e1 + e2) c2, h2)))"

definition drop_from_rollbacks :: "nat list \<Rightarrow> (string \<times> nat list) list \<Rightarrow> (string \<times> nat list) list" where
  "drop_from_rollbacks ns rs =
     filter (\<lambda>e. snd e \<noteq> []) (map (\<lambda>(k, ms). (k, filter (\<lambda>n. n \<notin> set ns) ms)) rs)"

definition drop_cached :: "nat list \<Rightarrow> (string \<times> nat) list \<Rightarrow> (string \<times> nat) list" where
  "drop_cached ns c = filter (\<lambda>e. snd e \<notin> set ns) c"

definition remove_from_all_caches :: "nat list \<Rightarrow> host \<Rightarrow> host" where
  "remove_from_all_caches ns h =
     (if ns = [] then h
      else (let ss = map (\<lambda>(k, c). (k, drop_cached ns c)) (h_sessions h);
                emptied = map fst (filter (\<lambda>e. snd e = []) ss)
            in h\<lparr>h_rollbacks := drop_from_rollbacks ns (h_rollbacks h),
                 h_process := drop_cached ns (h_process h),
                 h_sessions := filter (\<lambda>e. snd e \<noteq> []) ss,
                 h_closing := filter (\<lambda>k. k \<notin> set emptied) (h_closing h)\<rparr>))"

definition close_host :: "host \<Rightarrow> plugin_error option \<times> host" where
  "close_host h =
     (if h_closed h \<and> h_live h = [] then (None, h)
      else (let records = h_live h;
                ((es, c), h1) = dispose_records (rev records) (h\<lparr>h_closed := True\<rparr>);
                finished = completed h1 records
            in (cleanup_failures es c, remove_live finished (remove_from_all_caches finished h1))))"

subsection \<open>Histories of lifecycle operations\<close>

datatype host_event =
    Activate "string option" "pyval list option" "pscope option list option"
  | DisposeActivation nat
  | DisposeSession string
  | CloseHost

type_synonym world = "host \<times> activation list"

text \<open>The caller keeps the activations it was given, numbered in the order it got them.\<close>

fun host_step :: "host_event \<Rightarrow> world \<Rightarrow> world" where
  "host_step (Activate key ids scopes) (h, acts) = (case activate key ids scopes h of
     (Inl _, h') \<Rightarrow> (h', acts) | (Inr a, h') \<Rightarrow> (h', acts @ [a]))"
| "host_step (DisposeActivation i) (h, acts) =
     (if i < length acts
      then (let ((_, a), h') = dispose_activation (acts ! i) h in (h', acts[i := a]))
      else (h, acts))"
| "host_step (DisposeSession k) (h, acts) = (snd (dispose_session k h), acts)"
| "host_step CloseHost (h, acts) = (snd (close_host h), acts)"

definition exec_host :: "host_event list \<Rightarrow> world \<Rightarrow> world" where
  "exec_host es w = foldl (\<lambda>w e. host_step e w) w es"

end
