(* ===== verification/PluginsCorrect.thy ===== *)
theory PluginsCorrect
  imports Plugins "HOL-Library.Multiset" "HOL-Library.Sublist"
begin

section \<open>Plugin plans are closed, typed and topologically ordered\<close>

text \<open>
  First what a selection establishes (\<open>good_selection\<close>), then the invariant of the loop of
  \<open>resolve_dependencies\<close>: how many dependencies each plugin still waits for, which plugins are
  ready, and that the plugins already ordered have their dependencies before them.
\<close>

subsection \<open>Selection\<close>

definition well_formed :: "descriptor \<Rightarrow> bool" where
  "well_formed d = (validate_descriptor d = None)"

lemma or_else_None [simp]: "or_else a b = None \<longleftrightarrow> a = None \<and> b = None"
  by (auto simp: or_else_def split: option.split)

lemma check_dependencies_None:
  "check_dependencies own vs = None \<longleftrightarrow> list_all (\<lambda>v. (\<exists>s. v = PStr s \<and> valid_plugin_id s) \<and> v \<noteq> own) vs"
  by (induction own vs rule: check_dependencies.induct) (auto split: pyval.split)

lemma check_capabilities_None: "check_capabilities cs = None \<longleftrightarrow> list_all (\<lambda>c. \<exists>p. c = Port p) cs"
  by (induction cs rule: check_capabilities.induct) (auto split: capability.split)

lemma str_inj:
  assumes "\<forall>v\<in>set vs. \<exists>s. v = PStr s"
  shows "inj_on (\<lambda>v. case v of PStr s \<Rightarrow> s | _ \<Rightarrow> []) (set vs)"
proof (rule inj_onI)
  fix x y
  assume "x \<in> set vs" "y \<in> set vs"
    "(case x of PStr s \<Rightarrow> s | _ \<Rightarrow> []) = (case y of PStr s \<Rightarrow> s | _ \<Rightarrow> [])"
  moreover from this assms obtain s t where "x = PStr s" "y = PStr t" by blast
  ultimately show "x = y" by simp
qed

lemma port_inj:
  assumes "\<forall>c\<in>set cs. \<exists>p. c = Port p"
  shows "inj_on (\<lambda>c. case c of Port p \<Rightarrow> p | _ \<Rightarrow> []) (set cs)"
proof (rule inj_onI)
  fix x y
  assume "x \<in> set cs" "y \<in> set cs"
    "(case x of Port p \<Rightarrow> p | _ \<Rightarrow> []) = (case y of Port p \<Rightarrow> p | _ \<Rightarrow> [])"
  moreover from this assms obtain s t where "x = Port s" "y = Port t" by blast
  ultimately show "x = y" by simp
qed

lemma well_formed_facts:
  assumes "well_formed d"
  shows "d_id d = PStr (pid d)" "valid_plugin_id (pid d)" "distinct (deps d)" "pid d \<notin> set (deps d)"
    "distinct (ports d)" "ports d \<noteq> []" "d_scope d = Some (scope_of d)"
proof -
  from assms obtain vs cs where d: "d_dependencies d = Some vs" "distinct vs" "check_dependencies (d_id d) vs = None"
      "d_capabilities d = Some cs" "distinct cs" "cs \<noteq> []" "check_capabilities cs = None"
      "d_scope d \<noteq> None" "case d_id d of PStr s \<Rightarrow> valid_plugin_id s | _ \<Rightarrow> False"
    by (auto simp: well_formed_def validate_descriptor_def split: if_splits option.splits)
  from d(9) show id: "d_id d = PStr (pid d)" "valid_plugin_id (pid d)"
    by (auto simp: pid_def split: pyval.splits)
  have "inj_on (\<lambda>v. case v of PStr s \<Rightarrow> s | _ \<Rightarrow> []) (set vs)"
    using d(3) by (intro str_inj) (auto simp: check_dependencies_None list_all_iff)
  then show "distinct (deps d)" using d(1,2) by (simp add: deps_def distinct_map)
  show "pid d \<notin> set (deps d)"
    using d(1,3) id by (auto simp: deps_def check_dependencies_None list_all_iff)
  have "inj_on (\<lambda>c. case c of Port p \<Rightarrow> p | _ \<Rightarrow> []) (set cs)"
    using d(7) by (intro port_inj) (auto simp: check_capabilities_None list_all_iff)
  then show "distinct (ports d)" "ports d \<noteq> []" using d(4-6) by (simp_all add: ports_def distinct_map)
  show "d_scope d = Some (scope_of d)" using d(8) by (auto simp: scope_of_def)
qed

lemma catalog_spec:
  "catalog policies ids ds = Inr ids' \<Longrightarrow> distinct (keys ids) \<Longrightarrow>
   distinct (keys ids') \<and> ids' = ids @ map (\<lambda>x. (pid (the x), the x)) ds
   \<and> list_all (\<lambda>x. \<exists>d. x = Some d \<and> well_formed d \<and> set (ports d) \<subseteq> set (keys policies)) ds"
proof (induction policies ids ds rule: catalog.induct)
  case (2 policies ids x ds)
  from 2(2) obtain d where d: "x = Some d" "validate_descriptor d = None" "pid d \<notin> set (keys ids)"
      "list_all (\<lambda>p. p \<in> set (keys policies)) (ports d)" "catalog policies (ids @ [(pid d, d)]) ds = Inr ids'"
    by (auto split: option.splits if_splits)
  have "distinct (keys (ids @ [(pid d, d)]))" using 2(3) d(3) by simp
  from 2(1) [OF d(1,2,3) _ d(5) this] d(4)
  have IH: "distinct (keys ids')" "ids' = (ids @ [(pid d, d)]) @ map (\<lambda>x. (pid (the x), the x)) ds"
    "list_all (\<lambda>x. \<exists>d. x = Some d \<and> well_formed d \<and> set (ports d) \<subseteq> set (keys policies)) ds" by blast+
  show ?case
    by (intro conjI) (rule IH(1), simp add: IH(2) d(1), use d IH(3) in \<open>auto simp: well_formed_def list_all_iff\<close>)
qed simp

text \<open>The edges from a plugin to its dependencies.\<close>

definition needs :: "descriptor list \<Rightarrow> (string \<times> string) set" where
  "needs ds = {(pid d, j) | d j. d \<in> set ds \<and> j \<in> set (deps d)}"

lemma closure_spec:
  "closure ids sel stack = Inr S \<Longrightarrow> list_all (\<lambda>e. fst e = pid (snd e)) ids \<Longrightarrow> distinct (keys ids) \<Longrightarrow>
   set sel \<subseteq> set (keys ids) \<Longrightarrow>
   \<forall>d\<in>set (vals ids). pid d \<in> set sel \<longrightarrow> (\<forall>j\<in>set (deps d). j \<in> set sel \<or> PStr j \<in> set stack) \<Longrightarrow>
   set sel \<subseteq> roots \<Longrightarrow> (\<forall>i. PStr i \<in> set stack \<longrightarrow> i \<in> roots) \<Longrightarrow> needs (vals ids) `` roots \<subseteq> roots \<Longrightarrow>
   set sel \<subseteq> set S \<and> (\<forall>i. PStr i \<in> set stack \<longrightarrow> i \<in> set S) \<and> set S \<subseteq> set (keys ids)
   \<and> (\<forall>d\<in>set (vals ids). pid d \<in> set S \<longrightarrow> set (deps d) \<subseteq> set S) \<and> set S \<subseteq> roots"
proof (induction ids sel stack rule: closure.induct)
  case (2 ids sel v stack)
  from 2(3) obtain i d where v: "v = PStr i" and d: "map_of ids i = Some d"
    by (auto split: pyval.splits option.splits)
  then have mem: "(i, d) \<in> set ids" by (auto dest: map_of_SomeD)
  with 2(4) have i: "pid d = i" by (auto simp: list_all_iff)
  show ?case
  proof (cases "i \<in> set sel")
    case True
    have keep: "\<forall>d\<in>set (vals ids). pid d \<in> set sel \<longrightarrow> (\<forall>j\<in>set (deps d). j \<in> set sel \<or> PStr j \<in> set stack)"
      using 2(7) v True by auto
    show ?thesis using 2(1) [OF v d True _ 2(4,5,6) keep 2(8)] 2(3,9,10) v d True by auto
  next
    case False
    from 2(3) v d False have rest: "closure ids (i # sel) (rev (map PStr (deps d)) @ stack) = Inr S"
      "list_all (\<lambda>j. j \<in> set (keys ids)) (deps d)" by (auto split: if_splits)
    have unique: "e = d" if "e \<in> set (vals ids)" "pid e = i" for e
    proof -
      from that 2(4) have "(i, e) \<in> set ids" by (auto simp: list_all_iff)
      with 2(5) d show ?thesis by simp
    qed
    have reach: "set (deps d) \<subseteq> roots"
      using 2(9,10) v i mem by (force simp: needs_def)
    have keep: "\<forall>e\<in>set (vals ids). pid e \<in> set (i # sel) \<longrightarrow>
        (\<forall>j\<in>set (deps e). j \<in> set (i # sel) \<or> PStr j \<in> set (rev (map PStr (deps d)) @ stack))"
      using 2(7) v unique by auto
    have "set (i # sel) \<subseteq> set (keys ids)" using 2(6) mem by force
    moreover have "set (i # sel) \<subseteq> roots" "\<forall>k. PStr k \<in> set (rev (map PStr (deps d)) @ stack) \<longrightarrow> k \<in> roots"
      using 2(8,9) v reach by auto
    ultimately show ?thesis
      using 2(2) [OF v d False _ rest(1) 2(4,5) _ keep _ _ 2(10)] rest(2) v by auto
  qed
qed auto

definition providers_of :: "(string \<times> string list) list \<Rightarrow> string \<Rightarrow> string list" where
  "providers_of m p = (case map_of m p of None \<Rightarrow> [] | Some is \<Rightarrow> is)"

lemma providers_update [simp]:
  "providers_of (AList.update p is m) q = (if q = p then is else providers_of m q)"
  by (simp add: providers_of_def map_of_update)

lemma check_ports_spec:
  "check_ports policies i ps m = Inr m' \<Longrightarrow> distinct ps \<Longrightarrow>
   providers_of m' p = providers_of m p @ (if p \<in> set ps then [i] else [])
   \<and> (p \<in> set ps \<longrightarrow> map_of policies p \<noteq> Some MULTI \<longrightarrow> providers_of m p = [])"
proof (induction policies i ps m rule: check_ports.induct)
  case (2 policies i q qs m)
  from 2(2) have step: "check_ports policies i qs (AList.update q (providers_of m q @ [i]) m) = Inr m'"
    and ok: "providers_of m q = [] \<or> map_of policies q = Some MULTI"
    by (auto simp: Let_def providers_of_def split: if_splits)
  have "providers_of m' p = providers_of (AList.update q (providers_of m q @ [i]) m) p @ (if p \<in> set qs then [i] else [])
      \<and> (p \<in> set qs \<longrightarrow> map_of policies p \<noteq> Some MULTI \<longrightarrow>
           providers_of (AList.update q (providers_of m q @ [i]) m) p = [])"
    using 2(1) [OF refl _ _ ] 2(2,3) step by (auto simp: Let_def providers_of_def split: if_splits)
  with 2(3) ok show ?case by auto
qed simp

lemma check_selected_spec:
  "check_selected policies ids ds m = Inr m' \<Longrightarrow> list_all (\<lambda>d. distinct (ports d)) ds \<Longrightarrow>
   providers_of m' p = providers_of m p @ map pid (filter (\<lambda>d. p \<in> set (ports d)) ds)
   \<and> (map_of policies p \<noteq> Some MULTI \<longrightarrow> length (providers_of m p) \<le> 1 \<longrightarrow> length (providers_of m' p) \<le> 1)
   \<and> list_all (\<lambda>d. list_all (\<lambda>j. case map_of ids j of None \<Rightarrow> True | Some e \<Rightarrow> scope_of e \<le> scope_of d) (deps d)) ds"
proof (induction policies ids ds m rule: check_selected.induct)
  case (2 policies ids d ds m)
  then obtain m1 where m1: "check_ports policies (pid d) (ports d) m = Inr m1"
      "check_selected policies ids ds m1 = Inr m'"
      "list_all (\<lambda>j. case map_of ids j of None \<Rightarrow> True | Some e \<Rightarrow> scope_of e \<le> scope_of d) (deps d)"
    by (auto split: if_splits sum.splits)
  from 2(3) have dist: "distinct (ports d)" "list_all (\<lambda>d. distinct (ports d)) ds" by simp_all
  note first = check_ports_spec [OF m1(1) dist(1), of p]
  note rest = 2(1) [OF _ m1(1,2) dist(2)]
  from first rest m1(3) show ?case by auto
qed simp

definition single :: "(string \<times> policy) list \<Rightarrow> descriptor list \<Rightarrow> bool" where
  "single policies ds = list_all (\<lambda>(p, q).
     (let n = length (filter (\<lambda>d. p \<in> set (ports d)) ds)
      in (q = REQUIRED_SINGLE \<longrightarrow> n = 1) \<and> (q = OPTIONAL_SINGLE \<longrightarrow> n \<le> 1))) policies"

text \<open>Distinct known plugins, closed under dependencies, none depending on a shorter-lived one.\<close>

definition good_selection :: "descriptor list \<Rightarrow> bool" where
  "good_selection ds = (distinct (map pid ds) \<and> list_all well_formed ds
     \<and> (\<forall>d\<in>set ds. \<forall>j\<in>set (deps d). \<exists>e\<in>set ds. pid e = j \<and> scope_of e \<le> scope_of d))"

definition required_roots :: "descriptor option list \<Rightarrow> pyval list option \<Rightarrow> string set" where
  "required_roots all plugin_ids = (case plugin_ids of
     None \<Rightarrow> pid ` the ` set all | Some vs \<Rightarrow> {i. PStr i \<in> set vs})"

lemma providers_initial: "providers_of (map (\<lambda>(p, _). (p, [])) policies) p = []"
  by (induction policies) (auto simp: providers_of_def split: option.splits)

theorem select_spec:
  assumes "select_descriptors s all plugin_ids = Inr ds"
  shows "\<exists>policies. validate_schema s = Inr policies \<and> distinct (keys policies) \<and> good_selection ds
    \<and> (\<forall>d\<in>set ds. set (ports d) \<subseteq> set (keys policies)) \<and> single policies ds
    \<and> pid ` set ds = (needs (map the all))\<^sup>* `` required_roots all plugin_ids
    \<and> subseq ds (map the all)"
proof -
  let ?stack = "\<lambda>ids :: (string \<times> descriptor) list. rev (case plugin_ids of None \<Rightarrow> map PStr (keys ids) | Some vs \<Rightarrow> vs)"
  from assms obtain policies ids S m where pol: "validate_schema s = Inr policies"
    and cat: "catalog policies [] all = Inr ids"
    and clo: "closure ids [] (?stack ids) = Inr S"
    and ds: "ds = filter (\<lambda>d. pid d \<in> set S) (vals ids)"
    and chk: "check_selected policies ids ds (map (\<lambda>(p, _). (p, [])) policies) = Inr m"
    and req: "\<not> missing_required policies m"
    by (auto simp: select_descriptors_def Let_def split: sum.splits if_splits)
  from catalog_spec [OF cat] have dist: "distinct (keys ids)"
    and ids: "ids = map (\<lambda>x. (pid (the x), the x)) all"
    and wf: "list_all (\<lambda>x. \<exists>d. x = Some d \<and> well_formed d \<and> set (ports d) \<subseteq> set (keys policies)) all"
    by auto
  have vals: "vals ids = map the all" by (simp add: ids)
  let ?R = "needs (map the all)"
  let ?roots = "required_roots all plugin_ids"
  have stack: "PStr i \<in> set (?stack ids) \<longleftrightarrow> i \<in> ?roots" for i
    by (auto simp: required_roots_def ids image_iff split: option.split)
  have "set S \<subseteq> ?R\<^sup>* `` ?roots \<and> ?roots \<subseteq> set S \<and> set S \<subseteq> set (keys ids)
      \<and> (\<forall>d\<in>set (vals ids). pid d \<in> set S \<longrightarrow> set (deps d) \<subseteq> set S)"
  proof -
    have a: "list_all (\<lambda>e. fst e = pid (snd e)) ids" by (simp add: ids list_all_iff)
    have b: "\<forall>i. PStr i \<in> set (?stack ids) \<longrightarrow> i \<in> ?R\<^sup>* `` ?roots" using stack by blast
    have c: "needs (vals ids) `` (?R\<^sup>* `` ?roots) \<subseteq> ?R\<^sup>* `` ?roots"
      unfolding vals by (auto intro: rtrancl_into_rtrancl)
    from closure_spec [OF clo a dist _ _ _ b c] stack show ?thesis by auto
  qed
  then have S: "set S \<subseteq> ?R\<^sup>* `` ?roots" "?roots \<subseteq> set S" "set S \<subseteq> set (keys ids)"
      "\<And>d. d \<in> set (map the all) \<Longrightarrow> pid d \<in> set S \<Longrightarrow> set (deps d) \<subseteq> set S"
    unfolding vals by auto
  have "?R `` set S \<subseteq> set S" using S(4) by (auto simp: needs_def)
  then have "?R\<^sup>* `` set S = set S" by (rule Image_closed_trancl)
  moreover have "?R\<^sup>* `` ?roots \<subseteq> ?R\<^sup>* `` set S" using S(2) by (rule Image_mono [OF order_refl])
  ultimately have reach: "set S = ?R\<^sup>* `` ?roots" using S(1) by simp
  have pids: "pid ` set ds = set S"
    using S(3) by (force simp: ds ids)
  have "distinct (map pid (vals ids))" using dist by (simp add: ids comp_def)
  then have d1: "distinct (map pid ds)" by (simp add: ds distinct_map_filter)
  have sub: "set ds \<subseteq> set (map the all)" by (auto simp: ds vals)
  have w: "list_all well_formed ds" "\<forall>d\<in>set ds. set (ports d) \<subseteq> set (keys policies)"
  proof -
    have "well_formed d \<and> set (ports d) \<subseteq> set (keys policies)" if "d \<in> set ds" for d
    proof -
      from that sub obtain x where x: "x \<in> set all" "d = the x" by auto
      with wf obtain d' where "x = Some d'" "well_formed d'" "set (ports d') \<subseteq> set (keys policies)"
        by (auto simp: list_all_iff)
      with x show ?thesis by simp
    qed
    then show "list_all well_formed ds" "\<forall>d\<in>set ds. set (ports d) \<subseteq> set (keys policies)"
      by (auto simp: list_all_iff)
  qed
  have dp: "list_all (\<lambda>d. distinct (ports d)) ds" using w(1) well_formed_facts(5) by (auto simp: list_all_iff)
  note sel = check_selected_spec [OF chk dp]
  have life: "\<exists>e\<in>set ds. pid e = j \<and> scope_of e \<le> scope_of d" if "d \<in> set ds" "j \<in> set (deps d)" for d j
  proof -
    have "j \<in> set S" using S(4) [of d] that sub by (auto simp: ds)
    with pids obtain e where e: "e \<in> set ds" "pid e = j" by (metis imageE)
    then have "(j, e) \<in> set ids" by (auto simp: ds ids)
    with dist have "map_of ids j = Some e" by simp
    moreover have "list_all (\<lambda>j. case map_of ids j of None \<Rightarrow> True | Some e \<Rightarrow> scope_of e \<le> scope_of d) (deps d)"
      using sel [THEN conjunct2, THEN conjunct2] that(1) unfolding list_all_iff [of _ ds] by blast
    ultimately have "scope_of e \<le> scope_of d" using that(2) by (auto simp: list_all_iff)
    with e show ?thesis by blast
  qed
  have pd: "distinct (keys policies)"
    using pol by (auto simp: validate_schema_def Let_def split: schema.splits option.splits if_splits)
  have "single policies ds"
    unfolding single_def list_all_iff
  proof (clarify, unfold Let_def, intro conjI impI)
    fix p q assume pq: "(p, q) \<in> set policies"
    have n: "length (providers_of m p) = length (filter (\<lambda>d. p \<in> set (ports d)) ds)"
      using sel [of p] by (simp add: providers_initial)
    have one: "length (providers_of m p) \<le> 1" if "q \<noteq> MULTI"
      using sel [of p, THEN conjunct2, THEN conjunct1] pq pd that by (simp add: providers_initial)
    then show "length (filter (\<lambda>d. p \<in> set (ports d)) ds) \<le> 1" if "q = OPTIONAL_SINGLE" using that n by simp
    assume q: "q = REQUIRED_SINGLE"
    with req pq have "providers_of m p \<noteq> []"
      by (cases "map_of m p") (force simp: missing_required_def list_ex_iff providers_of_def)+
    with one n q show "length (filter (\<lambda>d. p \<in> set (ports d)) ds) = 1" by (cases "providers_of m p") auto
  qed
  with pol pd d1 w life reach pids show ?thesis
    by (auto simp: good_selection_def ds vals)
qed

subsection \<open>The loop of the topological sort\<close>

locale ready_heap =
  fixes push :: "heap \<Rightarrow> nat \<times> string \<Rightarrow> heap"
    and invar :: "heap \<Rightarrow> bool"
  assumes push_mset: "mset (push h e) = add_mset e (mset h)"
    and push_invar: "invar h \<Longrightarrow> invar (push h e)"
    and least_first: "invar (e # h) \<Longrightarrow> e' \<in> set h \<Longrightarrow> fst e \<le> fst e'"
begin

lemma push_set: "set (push h e) = insert e (set h)"
  using arg_cong [OF push_mset, of set_mset] by simp

lemma push_distinct: "distinct (push h e) \<longleftrightarrow> e \<notin> set h \<and> distinct h"
  using mset_eq_imp_distinct_iff [of "push h e" "e # h"] push_mset by simp

end

definition heap_ok :: "heap \<Rightarrow> bool" where
  "heap_ok h = sorted (map fst h)"

interpretation heapq: ready_heap heappush heap_ok
  by unfold_locales (auto simp: heappush_def heap_ok_def sorted_insort_key)

lemma release_spec:
  "release ix us ind ready = (ind', ready') \<Longrightarrow> distinct us \<Longrightarrow> set us \<subseteq> set (keys ind) \<Longrightarrow>
   keys ind' = keys ind
   \<and> (\<forall>i. map_of ind' i = (if i \<in> set us then map_option (\<lambda>k. k - 1) (map_of ind i) else map_of ind i))
   \<and> mset ready' = mset ready + mset (map (\<lambda>u. (ix u, u)) (filter (\<lambda>u. map_of ind u = Some 1) us))
   \<and> (heap_ok ready \<longrightarrow> heap_ok ready')"
proof (induction us arbitrary: ind ready)
  case (Cons u us)
  have "map_of ind u \<noteq> None" using Cons.prems(3) by (simp add: map_of_eq_None_iff)
  then obtain k where k: "map_of ind u = Some k" by blast
  let ?ind = "AList.update u (k - 1) ind"
  have rel: "release ix us ?ind (if k = 1 then heappush ready (ix u, u) else ready) = (ind', ready')"
    using Cons.prems(1) k by (simp add: Let_def)
  have keys: "keys ?ind = keys ind" using Cons.prems(3) by (simp add: dict_keys_update)
  have same: "filter (\<lambda>v. map_of ?ind v = Some 1) us = filter (\<lambda>v. map_of ind v = Some 1) us"
    using Cons.prems(2) by (intro filter_cong) (auto simp: map_of_update)
  from Cons.IH [OF rel] Cons.prems(2,3) k show ?case
    unfolding keys same by (auto simp: map_of_update heapq.push_mset heapq.push_invar)
qed simp


definition dep_of :: "descriptor list \<Rightarrow> string \<Rightarrow> string list" where
  "dep_of ds i = deps (the (map_of (map (\<lambda>d. (pid d, d)) ds) i))"

lemma pid_unique: "distinct (map pid ds) \<Longrightarrow> d \<in> set ds \<Longrightarrow> e \<in> set ds \<Longrightarrow> pid d = pid e \<Longrightarrow> d = e"
  by (auto simp: distinct_map inj_on_def)

lemma find_pid:
  assumes "distinct (map pid ds)" "d \<in> set ds"
  shows "map_of (map (\<lambda>d. (pid d, d)) ds) (pid d) = Some d"
  by (rule map_of_is_SomeI) (use assms in \<open>auto simp: comp_def\<close>)

lemma dep_of_pid: "distinct (map pid ds) \<Longrightarrow> d \<in> set ds \<Longrightarrow> dep_of ds (pid d) = deps d"
  by (simp add: dep_of_def find_pid)

lemma set_dependents: "set (dependents ds i) = {pid d | d. d \<in> set ds \<and> i \<in> set (deps d)}"
  by (auto simp: dependents_def)

lemma filter_eq_distinct: "distinct xs \<Longrightarrow> filter (\<lambda>j. j = i) xs = (if i \<in> set xs then [i] else [])"
  by (induction xs) (auto simp: filter_empty_conv)

lemma distinct_dependents:
  assumes "distinct (map pid ds)" "list_all well_formed ds"
  shows "distinct (dependents ds i)"
  using assms
proof (induction ds)
  case (Cons d ds)
  have "distinct (deps d)" using Cons.prems(2) well_formed_facts(3) by simp
  then have "dependents (d # ds) i = (if i \<in> set (deps d) then [pid d] else []) @ dependents ds i"
    by (simp add: dependents_def filter_eq_distinct)
  moreover have "pid d \<notin> set (dependents ds i)"
    using Cons.prems(1) by (auto simp: set_dependents)
  ultimately show ?case using Cons by auto
qed (simp add: dependents_def)

text \<open>The plugins that can come next: not ordered yet, all their dependencies ordered.\<close>

definition enabled :: "descriptor list \<Rightarrow> string list \<Rightarrow> string list" where
  "enabled ds ordered = filter (\<lambda>i. i \<notin> set ordered \<and> set (dep_of ds i) \<subseteq> set ordered) (map pid ds)"

definition kahn_inv :: "descriptor list \<Rightarrow> (string \<times> int) list \<Rightarrow> heap \<Rightarrow> string list \<Rightarrow> bool" where
  "kahn_inv ds ind ready ordered = (keys ind = map pid ds \<and> distinct ordered \<and> set ordered \<subseteq> pid ` set ds
     \<and> (\<forall>d\<in>set ds. map_of ind (pid d) = Some (int (card (set (deps d) - set ordered))))
     \<and> mset ready = mset (map (\<lambda>i. (index_of ds i, i)) (enabled ds ordered))
     \<and> heap_ok ready
     \<and> (\<forall>k<length ordered. set (dep_of ds (ordered ! k)) \<subseteq> set (take k ordered)))"

lemma mset_pairs:
  assumes "distinct xs" "distinct ys" "set xs = set ys"
  shows "mset (map f xs) = mset (map f ys)"
  using assms by (metis mset_map set_eq_iff_mset_eq_distinct)

lemma card_one: "v \<in> X \<Longrightarrow> card X = 1 \<longleftrightarrow> X = {v}"
  by (metis card_1_singletonE is_singletonI is_singleton_altdef singletonD)

lemma kahn_step:
  assumes good: "good_selection ds" and inv: "kahn_inv ds ind (e # rest) ordered"
    and rel: "release (index_of ds) (sort_key (index_of ds) (dependents ds (snd e))) ind rest = (ind', ready')"
  shows "kahn_inv ds ind' ready' (ordered @ [snd e])"
proof -
  let ?v = "snd e" and ?us = "sort_key (index_of ds) (dependents ds (snd e))"
  let ?pair = "\<lambda>i. (index_of ds i, i)"
  from good have dist: "distinct (map pid ds)" and wf: "list_all well_formed ds"
    by (auto simp: good_selection_def)
  from inv have i: "keys ind = map pid ds" "distinct ordered" "set ordered \<subseteq> pid ` set ds"
      "\<And>d. d \<in> set ds \<Longrightarrow> map_of ind (pid d) = Some (int (card (set (deps d) - set ordered)))"
      "add_mset e (mset rest) = mset (map ?pair (enabled ds ordered))" "heap_ok (e # rest)"
      "\<And>k. k < length ordered \<Longrightarrow> set (dep_of ds (ordered ! k)) \<subseteq> set (take k ordered)"
    by (auto simp: kahn_inv_def)
  have "e \<in> set (map ?pair (enabled ds ordered))"
    using arg_cong [OF i(5), of set_mset] by (metis insertI1 set_mset_add_mset_insert set_mset_mset)
  then have v: "?v \<in> set (enabled ds ordered)" "e = ?pair ?v" by auto
  then have v': "?v \<notin> set ordered" "set (dep_of ds ?v) \<subseteq> set ordered" "?v \<in> pid ` set ds"
    by (auto simp: enabled_def)
  have us: "distinct ?us" "set ?us = {pid d | d. d \<in> set ds \<and> ?v \<in> set (deps d)}"
    using distinct_dependents [OF dist wf] by (simp_all add: set_dependents)
  have "set ?us \<subseteq> set (keys ind)" using i(1) us(2) by auto
  from release_spec [OF rel us(1) this] i(6)
  have r: "keys ind' = keys ind"
      "\<And>i. map_of ind' i = (if i \<in> set ?us then map_option (\<lambda>k. k - 1) (map_of ind i) else map_of ind i)"
      "mset ready' = mset rest + mset (map ?pair (filter (\<lambda>u. map_of ind u = Some 1) ?us))" "heap_ok ready'"
    by (auto simp: heap_ok_def)
  have count: "map_of ind' (pid d) = Some (int (card (set (deps d) - set (ordered @ [?v]))))" if "d \<in> set ds" for d
  proof (cases "?v \<in> set (deps d)")
    case True
    then have "pid d \<in> set ?us" using us(2) that by auto
    moreover have "card (set (deps d) - set (ordered @ [?v])) = card (set (deps d) - set ordered) - 1"
    proof -
      have "set (deps d) - set (ordered @ [?v]) = set (deps d) - set ordered - {?v}" by auto
      moreover have "?v \<in> set (deps d) - set ordered" using True v'(1) by simp
      ultimately show ?thesis by (simp only: card_Diff_singleton)
    qed
    moreover have "0 < card (set (deps d) - set ordered)"
      using True v'(1) by (auto simp: card_gt_0_iff)
    ultimately show ?thesis using i(4) [OF that] by (simp add: r(2) of_nat_diff)
  next
    case False
    have "pid d \<notin> set ?us"
    proof
      assume "pid d \<in> set ?us"
      then obtain d' where "d' \<in> set ds" "pid d' = pid d" "?v \<in> set (deps d')" using us(2) by auto
      with pid_unique [OF dist this(1) that] False show False by simp
    qed
    moreover have "set (deps d) - set (ordered @ [?v]) = set (deps d) - set ordered" using False by auto
    ultimately show ?thesis using i(4) [OF that] by (simp add: r(2))
  qed
  have prior: "set (dep_of ds i) \<subseteq> set ordered" if "i \<in> set ordered" for i
  proof -
    from that obtain k where "k < length ordered" "i = ordered ! k" by (auto simp: in_set_conv_nth)
    with i(7) [of k] show ?thesis using set_take_subset [of k ordered] by blast
  qed
  let ?new = "filter (\<lambda>u. map_of ind u = Some 1) ?us"
  have one: "map_of ind (pid d) = Some 1 \<longleftrightarrow> set (deps d) - set ordered = {?v}"
    if "d \<in> set ds" "?v \<in> set (deps d)" for d
  proof -
    let ?X = "set (deps d) - set ordered"
    have "?v \<in> ?X" using that(2) v'(1) by simp
    then have "card ?X = 1 \<longleftrightarrow> ?X = {?v}" by (rule card_one)
    then show ?thesis using i(4) [OF that(1)] by (simp only: option.inject of_nat_eq_1_iff)
  qed
  have next_enabled: "set (enabled ds (ordered @ [?v])) = set (remove1 ?v (enabled ds ordered) @ ?new)"
  proof -
    have en: "distinct (enabled ds ordered)" using dist by (simp add: enabled_def)
    have "pid d \<in> set (enabled ds (ordered @ [?v])) \<longleftrightarrow>
        pid d \<in> set (remove1 ?v (enabled ds ordered) @ ?new)" if d: "d \<in> set ds" for d
    proof (cases "?v \<in> set (deps d)")
      case True
      have "well_formed d" using wf d by (simp add: list_all_iff)
      from well_formed_facts(4) [OF this] True have "pid d \<noteq> ?v" by fastforce
      moreover have "pid d \<notin> set ordered"
        using prior [of "pid d"] True v'(1) dep_of_pid [OF dist d] by auto
      moreover have "pid d \<in> set ?us" using us(2) d True by auto
      ultimately show ?thesis using d True one [OF d True] v'(1) en
        by (auto simp: enabled_def dep_of_pid [OF dist])
    next
      case False
      have "pid d \<notin> set ?us"
      proof
        assume "pid d \<in> set ?us"
        then obtain d' where "d' \<in> set ds" "pid d' = pid d" "?v \<in> set (deps d')" using us(2) by auto
        with pid_unique [OF dist this(1) d] False show False by simp
      qed
      then show ?thesis using d False en by (auto simp: enabled_def dep_of_pid [OF dist])
    qed
    moreover have "set (enabled ds (ordered @ [?v])) \<subseteq> pid ` set ds"
      "set (remove1 ?v (enabled ds ordered) @ ?new) \<subseteq> pid ` set ds"
      using us(2) by (auto simp: enabled_def dest: notin_set_remove1 [THEN contrapos_pp] set_remove1_subset [THEN subsetD])
    ultimately show ?thesis by blast
  qed
  have "mset rest = mset (map ?pair (remove1 ?v (enabled ds ordered)))"
  proof -
    have "add_mset e (mset rest) = add_mset (?pair ?v) (mset (map ?pair (remove1 ?v (enabled ds ordered))))"
    proof -
      have "mset (enabled ds ordered) = add_mset ?v (mset (remove1 ?v (enabled ds ordered)))"
        using v(1) by simp
      then have "image_mset ?pair (mset (enabled ds ordered))
          = add_mset (?pair ?v) (image_mset ?pair (mset (remove1 ?v (enabled ds ordered))))"
        by (simp only: image_mset_add_mset)
      with i(5) show ?thesis by (simp only: mset_map)
    qed
    then show ?thesis by (simp only: v(2) [symmetric] add_mset_add_mset_same_iff)
  qed
  then have "mset ready' = mset (map ?pair (remove1 ?v (enabled ds ordered) @ ?new))"
    using r(3) by simp
  also have "\<dots> = mset (map ?pair (enabled ds (ordered @ [?v])))"
  proof (rule mset_pairs)
    have "set (remove1 ?v (enabled ds ordered)) \<inter> set ?new = {}"
    proof -
      have "False" if "x \<in> set (enabled ds ordered)" "x \<in> set ?new" for x
      proof -
        from that(2) us(2) obtain d where "d \<in> set ds" "x = pid d" "?v \<in> set (deps d)" by auto
        with that(1) v'(1) show False by (auto simp: enabled_def dep_of_pid [OF dist])
      qed
      then show ?thesis by (meson disjoint_iff notin_set_remove1 set_remove1_subset subsetD)
    qed
    then show "distinct (remove1 ?v (enabled ds ordered) @ ?new)"
      using dist us(1) by (simp add: enabled_def)
  qed (use dist next_enabled in \<open>simp_all add: enabled_def\<close>)
  finally have ready: "mset ready' = mset (map ?pair (enabled ds (ordered @ [?v])))" .
  have "set (dep_of ds ((ordered @ [?v]) ! k)) \<subseteq> set (take k (ordered @ [?v]))" if "k < length (ordered @ [?v])" for k
    using that i(7) [of k] v'(2) by (cases "k = length ordered") (auto simp: nth_append)
  with r(1,4) i(1-3) v' count ready show ?thesis by (simp add: kahn_inv_def)
qed

lemma kahn_result:
  "kahn ds ind ready ordered = (out, left) \<Longrightarrow> good_selection ds \<Longrightarrow> kahn_inv ds ind ready ordered \<Longrightarrow>
   kahn_inv ds left [] out"
proof (induction ds ind ready ordered rule: kahn.induct)
  case (2 ds ind e ready ordered)
  obtain ind' ready' where rel: "release (index_of ds) (sort_key (index_of ds) (dependents ds (snd e))) ind ready
      = (ind', ready')" by fastforce
  from 2(1) [OF rel [symmetric] refl] 2(2-) rel kahn_step [OF 2(3,4) rel] show ?case by simp
qed simp

lemma good_finite: "finite (needs ds)"
proof (rule finite_subset)
  show "needs ds \<subseteq> (\<Union>d\<in>set ds. {pid d} \<times> set (deps d))" by (auto simp: needs_def)
qed simp

text \<open>All plugins get ordered if and only if the dependencies have no cycle.\<close>

lemma kahn_complete:
  assumes good: "good_selection ds" and inv: "kahn_inv ds left [] out"
  shows "set out = pid ` set ds \<longleftrightarrow> acyclic (needs ds)"
proof
  from good have dist: "distinct (map pid ds)" by (simp add: good_selection_def)
  assume all: "set out = pid ` set ds"
  define pos where "pos = (\<lambda>i. length (takeWhile (\<lambda>j. j \<noteq> i) out))"
  have topo: "\<And>k. k < length out \<Longrightarrow> set (dep_of ds (out ! k)) \<subseteq> set (take k out)" and od: "distinct out"
    using inv by (auto simp: kahn_inv_def)
  have pos_nth: "pos (out ! k) = k" if "k < length out" for k
    unfolding pos_def using that od
  proof (induction out arbitrary: k)
    case (Cons x xs)
    then show ?case by (cases k) auto
  qed simp
  have "pos j < pos i" if "(i, j) \<in> needs ds" for i j
  proof -
    from that obtain d where d: "d \<in> set ds" "i = pid d" "j \<in> set (deps d)" by (auto simp: needs_def)
    with all obtain k where k: "k < length out" "i = out ! k" by (metis imageI in_set_conv_nth)
    have "j \<in> set (take k out)" using topo [OF k(1)] d dep_of_pid [OF dist d(1)] k(2) by auto
    then obtain m where "m < k" "j = out ! m" using k(1) by (auto simp: in_set_conv_nth)
    with k pos_nth show ?thesis by simp
  qed
  then have "(needs ds)\<inverse> \<subseteq> measure pos" by auto
  then have "wf ((needs ds)\<inverse>)" by (rule wf_subset [OF wf_measure])
  then have "acyclic ((needs ds)\<inverse>)" by (rule wf_acyclic)
  then show "acyclic (needs ds)" by (simp only: acyclic_converse)
next
  from good have dist: "distinct (map pid ds)" by (simp add: good_selection_def)
  assume acyc: "acyclic (needs ds)"
  have wf: "wf ((needs ds)\<inverse>)" using finite_acyclic_wf_converse [OF good_finite acyc] .
  have sub: "set out \<subseteq> pid ` set ds" and none: "enabled ds out = []"
    using inv by (auto simp: kahn_inv_def)
  show "set out = pid ` set ds"
  proof (rule ccontr)
    assume "set out \<noteq> pid ` set ds"
    with sub obtain i where "i \<in> pid ` set ds - set out" by blast
    from wfE_min [OF wf this] obtain i where i: "i \<in> pid ` set ds - set out"
      and min: "\<And>j. (i, j) \<in> needs ds \<Longrightarrow> j \<notin> pid ` set ds - set out" by auto
    from i obtain d where d: "d \<in> set ds" "i = pid d" by blast
    have "set (deps d) \<subseteq> set out"
    proof
      fix j assume j: "j \<in> set (deps d)"
      with d have "(i, j) \<in> needs ds" by (auto simp: needs_def)
      moreover have "j \<in> pid ` set ds" using good d(1) j by (force simp: good_selection_def)
      ultimately show "j \<in> set out" using min by blast
    qed
    with i d dist none show False
      by (auto simp: enabled_def filter_empty_conv dep_of_pid)
  qed
qed

text \<open>Plugins declared after their dependencies keep the order of their declaration.\<close>

definition declared_in_order :: "descriptor list \<Rightarrow> bool" where
  "declared_in_order ds = (\<forall>k<length ds. set (deps (ds ! k)) \<subseteq> pid ` set (take k ds))"

lemma index_nth:
  assumes "distinct (map pid ds)" "k < length ds"
  shows "index_of ds (pid (ds ! k)) = k"
  unfolding index_of_def using assms
proof (induction ds arbitrary: k)
  case (Cons d ds)
  then show ?case by (cases k) auto
qed simp

lemma kahn_stable:
  "kahn ds ind ready ordered = (out, left) \<Longrightarrow> good_selection ds \<Longrightarrow> declared_in_order ds \<Longrightarrow>
   kahn_inv ds ind ready ordered \<Longrightarrow> ordered = take n (map pid ds) \<Longrightarrow> n \<le> length ds \<Longrightarrow>
   \<exists>m. out = take m (map pid ds)"
proof (induction ds ind ready ordered arbitrary: n rule: kahn.induct)
  case (2 ds ind e ready ordered)
  obtain ind' ready' where rel: "release (index_of ds) (sort_key (index_of ds) (dependents ds (snd e))) ind ready
      = (ind', ready')" by fastforce
  from 2(3) have dist: "distinct (map pid ds)" by (simp add: good_selection_def)
  let ?pair = "\<lambda>i. (index_of ds i, i)"
  from 2(5) have "mset (e # ready) = mset (map ?pair (enabled ds ordered))" and ok: "heap_ok (e # ready)"
    unfolding kahn_inv_def by blast+
  from mset_eq_setD [OF this(1)] have en: "set (e # ready) = ?pair ` set (enabled ds ordered)" by simp
  from en have "e \<in> ?pair ` set (enabled ds ordered)" by auto
  then obtain v where v: "v \<in> set (enabled ds ordered)" "e = ?pair v" by blast
  then obtain k where k: "k < length ds" "v = pid (ds ! k)"
    by (auto simp: enabled_def in_set_conv_nth)
  have nk: "n \<le> k"
  proof (rule ccontr)
    assume "\<not> n \<le> k"
    then have "v \<in> set ordered" using k 2(6,7) by (auto simp: in_set_conv_nth intro!: exI [of _ k])
    with v show False by (simp add: enabled_def)
  qed
  with k have n: "n < length ds" by simp
  have "pid (ds ! n) \<in> set (enabled ds ordered)"
  proof -
    have "pid (ds ! n) \<notin> set ordered"
    proof
      assume "pid (ds ! n) \<in> set ordered"
      then obtain i where "i < n" "map pid ds ! i = map pid ds ! n"
        using 2(6) n by (auto simp: in_set_conv_nth)
      with nth_eq_iff_index_eq [OF dist, of i n] n show False by simp
    qed
    moreover have "set (dep_of ds (pid (ds ! n))) \<subseteq> set ordered"
      using 2(4,6) n dep_of_pid [OF dist] by (auto simp: declared_in_order_def take_map)
    ultimately show ?thesis using n by (simp add: enabled_def)
  qed
  then have "?pair (pid (ds ! n)) \<in> set (e # ready)" using en by blast
  then have "index_of ds v \<le> index_of ds (pid (ds ! n))"
    using heapq.least_first [OF ok] v(2) by (cases "?pair (pid (ds ! n)) = e") auto
  with index_nth [OF dist] k n nk have "k = n" by simp
  with k v 2(6) n have "ordered @ [snd e] = take (Suc n) (map pid ds)"
    by (simp add: take_Suc_conv_app_nth)
  with 2(1) [OF rel [symmetric] refl] 2(2-5) rel kahn_step [OF 2(3,5) rel] n show ?case by simp
qed auto

lemma kahn_start:
  assumes "good_selection ds"
  shows "kahn_inv ds (map (\<lambda>d. (pid d, int (length (deps d)))) ds)
    (heapify (map (\<lambda>e. (index_of ds (fst e), fst e))
       (filter (\<lambda>e. snd e = 0) (map (\<lambda>d. (pid d, int (length (deps d)))) ds)))) []"
proof -
  from assms have dist: "distinct (map pid ds)" and wf: "list_all well_formed ds"
    by (auto simp: good_selection_def)
  have card: "card (set (deps d)) = length (deps d)" if "d \<in> set ds" for d
    using well_formed_facts(3) [of d] wf that distinct_card by (auto simp: list_all_iff)
  have "map_of (map (\<lambda>d. (pid d, int (length (deps d)))) ds) (pid d) = Some (int (length (deps d)))"
    if "d \<in> set ds" for d
    by (rule map_of_is_SomeI) (use dist that in \<open>auto simp: comp_def\<close>)
  moreover have en: "enabled ds [] = map fst (filter (\<lambda>e. snd e = 0) (map (\<lambda>d. (pid d, int (length (deps d)))) ds))"
  proof -
    have "deps d = [] \<longleftrightarrow> set (dep_of ds (pid d)) \<subseteq> {}" if "d \<in> set ds" for d
      using dep_of_pid [OF dist that] by simp
    then show ?thesis by (simp add: enabled_def filter_map comp_def cong: filter_cong)
  qed
  then have "map (\<lambda>e. (index_of ds (fst e), fst e))
       (filter (\<lambda>e. snd e = 0) (map (\<lambda>d. (pid d, int (length (deps d)))) ds))
     = map (\<lambda>i. (index_of ds i, i)) (enabled ds [])" (is "?l = ?r")
    by (simp only: en map_map comp_def)
  then have "mset (heapify ?l) = mset ?r" by (simp only: heapify_def mset_sort)
  ultimately show ?thesis using card
    by (simp add: kahn_inv_def comp_def) (simp add: heapify_def heap_ok_def)
qed

lemma map_find_pids:
  "distinct (map pid ds) \<Longrightarrow> set is \<subseteq> pid ` set ds \<Longrightarrow>
   map pid (map (\<lambda>i. the (map_of (map (\<lambda>d. (pid d, d)) ds) i)) is) = is
   \<and> set (map (\<lambda>i. the (map_of (map (\<lambda>d. (pid d, d)) ds) i)) is) \<subseteq> set ds"
  by (induction "is") (auto simp: find_pid)

text \<open>A plan: the selected plugins, each once, after all its dependencies.\<close>

definition dependencies_first :: "descriptor list \<Rightarrow> bool" where
  "dependencies_first plan = (\<forall>k<length plan. set (deps (plan ! k)) \<subseteq> pid ` set (take k plan))"

lemma resolve_cases:
  assumes sel: "select_descriptors s all plugin_ids = Inr ds"
  shows "case resolve_dependencies s all plugin_ids of
     Inr plan \<Rightarrow> acyclic (needs ds) \<and> set plan = set ds \<and> distinct (map pid plan) \<and> dependencies_first plan
       \<and> (declared_in_order ds \<longrightarrow> plan = ds)
   | Inl e \<Rightarrow> \<not> acyclic (needs ds) \<and> (\<exists>is. e = DependencyCycle is)"
proof -
  from select_spec [OF sel] have good: "good_selection ds" by blast
  then have dist: "distinct (map pid ds)" by (simp add: good_selection_def)
  let ?ind = "map (\<lambda>d. (pid d, int (length (deps d)))) ds"
  let ?ready = "heapify (map (\<lambda>e. (index_of ds (fst e), fst e)) (filter (\<lambda>e. snd e = 0) ?ind))"
  let ?find = "\<lambda>i. the (map_of (map (\<lambda>d. (pid d, d)) ds) i)"
  obtain out left where k: "kahn ds ?ind ?ready [] = (out, left)" by fastforce
  note inv = kahn_result [OF k good kahn_start [OF good]]
  then have out: "distinct out" "set out \<subseteq> pid ` set ds"
    and topo: "\<And>k. k < length out \<Longrightarrow> set (dep_of ds (out ! k)) \<subseteq> set (take k out)"
    by (auto simp: kahn_inv_def)
  have res: "resolve_dependencies s all plugin_ids = (if length out \<noteq> length ds
      then Inl (DependencyCycle (map fst (filter (\<lambda>e. 0 < snd e) left))) else Inr (map ?find out))"
    using sel k by (simp add: resolve_dependencies_def Let_def)
  have len: "length out = length ds \<longleftrightarrow> set out = pid ` set ds"
  proof -
    have c: "card (pid ` set ds) = length ds" using distinct_card [OF dist] by simp
    show ?thesis
      using c distinct_card [OF out(1)] out(2) by (metis card_subset_eq finite_imageI finite_set)
  qed
  show ?thesis
  proof (cases "set out = pid ` set ds")
    case False
    with len res kahn_complete [OF good inv] show ?thesis by simp
  next
    case True
    define plan where "plan = map ?find out"
    note fp = map_find_pids [OF dist out(2)]
    have sub: "set plan \<subseteq> set ds" using fp unfolding plan_def by blast
    have pids: "map pid plan = out" using fp unfolding plan_def by blast
    have "set ds \<subseteq> set plan"
    proof
      fix d assume d: "d \<in> set ds"
      with True have "pid d \<in> set out" by auto
      then have "?find (pid d) \<in> set plan" unfolding plan_def by auto
      then show "d \<in> set plan" using find_pid [OF dist d] by simp
    qed
    moreover have "dependencies_first plan"
      unfolding dependencies_first_def
    proof (intro allI impI)
      fix k assume k: "k < length plan"
      then have "plan ! k \<in> set ds" using sub nth_mem by blast
      moreover have "pid (plan ! k) = out ! k" using k by (simp flip: pids)
      ultimately have "dep_of ds (out ! k) = deps (plan ! k)" using dep_of_pid [OF dist, of "plan ! k"] by simp
      moreover have "pid ` set (take k plan) = set (take k out)"
        by (simp add: take_map flip: pids)
      ultimately show "set (deps (plan ! k)) \<subseteq> pid ` set (take k plan)" using topo [of k] k by (simp flip: pids)
    qed
    moreover have "plan = ds" if "declared_in_order ds"
    proof -
      from kahn_stable [OF k good that kahn_start [OF good], of 0] obtain m where "out = take m (map pid ds)" by auto
      moreover have "length out = length ds" using True len by simp
      ultimately have "out = map pid ds" by (simp add: min_def split: if_splits)
      then show ?thesis using find_pid [OF dist] by (simp add: plan_def map_idI)
    qed
    ultimately show ?thesis
      using sub res True len kahn_complete [OF good inv] pids out(1) by (auto simp: plan_def [symmetric])
  qed
qed

subsection \<open>Plans\<close>

text \<open>
  C35. Activation plans. For a selection that passes validation, the selected plugins are exactly
  those reachable from the requested ones (all, when none are named) along declared dependencies, in
  the order of the catalog. If their dependencies have no cycle, the ordering loop ends with a plan
  of these plugins, each once and after all its dependencies, and keeps the catalog's order when
  that already has dependencies first; if there is a cycle, it ends with the cycle error.
\<close>

theorem plugin_plan:
  assumes "select_descriptors s all plugin_ids = Inr ds"
  shows "pid ` set ds = (needs (map the all))\<^sup>* `` required_roots all plugin_ids
    \<and> subseq ds (map the all)
    \<and> (if acyclic (needs ds)
       then \<exists>plan. resolve_dependencies s all plugin_ids = Inr plan \<and> set plan = set ds
              \<and> distinct (map pid plan) \<and> dependencies_first plan \<and> (declared_in_order ds \<longrightarrow> plan = ds)
       else \<exists>is. resolve_dependencies s all plugin_ids = Inl (DependencyCycle is))"
  using select_spec [OF assms] resolve_cases [OF assms]
  by (cases "resolve_dependencies s all plugin_ids") auto

text \<open>A small catalog: \<open>ui\<close> needs \<open>core\<close>, which is declared after it; \<open>extra\<close> is not asked for.\<close>

definition simple_plugin :: "string \<Rightarrow> string list \<Rightarrow> pscope \<Rightarrow> string list \<Rightarrow> descriptor" where
  "simple_plugin i ps s js = \<lparr>d_id = PStr i, d_version = PStr ''1.0.0'', d_capabilities = Some (map Port ps),
     d_factory = Some (Callable ''make''), d_dependencies = Some (map PStr js), d_scope = Some s,
     d_disposer = Some (Callable ''dispose''), d_context_factory = None\<rparr>"

definition small_schema :: schema where
  "small_schema = Schema [Some \<lparr>b_port = Port ''Store'', b_policy = Some REQUIRED_SINGLE\<rparr>,
                          Some \<lparr>b_port = Port ''View'', b_policy = Some MULTI\<rparr>]"

definition small_catalog :: "descriptor option list" where
  "small_catalog = [Some (simple_plugin ''ui'' [''View''] RUN [''core'']),
                    Some (simple_plugin ''extra'' [''View''] RUN []),
                    Some (simple_plugin ''core'' [''Store'', ''View''] SESSION [])]"

lemma small_selected:
  "select_descriptors small_schema small_catalog (Some [PStr ''ui''])
     = Inr [simple_plugin ''ui'' [''View''] RUN [''core''], simple_plugin ''core'' [''Store'', ''View''] SESSION []]"
  by code_simp

lemma plugin_plan_witness:
  "\<exists>ds. select_descriptors small_schema small_catalog (Some [PStr ''ui'']) = Inr ds
     \<and> pid ` set ds = (needs (map the small_catalog))\<^sup>* `` required_roots small_catalog (Some [PStr ''ui''])
     \<and> subseq ds (map the small_catalog)"
  using plugin_plan [OF small_selected] small_selected by blast

end
