(* ===== verification/PluginHostCorrect.thy ===== *)
theory PluginHostCorrect
  imports PluginHost PluginsCorrect
begin

section \<open>Plugin instances are registered by type, shared while alive and disposed once\<close>

text \<open>
  First the registry an activation builds: a plan fills it without a clash. Then what disposal does
  to the store of records, the invariant of the host under every history of operations, and what
  follows for activations and for closing.
\<close>

subsection \<open>Filling the registry\<close>

text \<open>The registry built by registering the Ports of each plugin's instance in turn.\<close>

fun contribute :: "'i registry \<Rightarrow> (descriptor \<times> 'i) list \<Rightarrow> plugin_error + 'i registry" where
  "contribute r [] = Inr r"
| "contribute r ((d, i) # xs) =
     (case register_ports r (ports d) i of Inl e \<Rightarrow> Inl e | Inr r' \<Rightarrow> contribute r' xs)"

lemma contribute_append:
  "contribute r (xs @ ys) = (case contribute r xs of Inl e \<Rightarrow> Inl e | Inr r' \<Rightarrow> contribute r' ys)"
  by (induction r xs rule: contribute.induct) (auto split: sum.split)

definition offers :: "(descriptor \<times> 'i) list \<Rightarrow> string \<Rightarrow> 'i list" where
  "offers xs p = map snd (filter (\<lambda>x. p \<in> set (ports (fst x))) xs)"

text \<open>What a registry holds for a Port: one entry at most, or a list.\<close>

definition held :: "'i registry \<Rightarrow> string \<Rightarrow> 'i list" where
  "held r p = (if map_of (rg_policies r) p = Some MULTI then get_all r p
               else case registry_get r p of None \<Rightarrow> [] | Some i \<Rightarrow> [i])"

lemma map_of_None_keys: "map_of xs k = None \<longleftrightarrow> k \<notin> set (keys xs)"
  by (simp add: map_of_eq_None_iff)

lemma register_held:
  assumes "p \<in> set (keys (rg_policies r))" "map_of (rg_policies r) p \<noteq> Some MULTI \<longrightarrow> held r p = []"
  shows "\<exists>r'. register r p i = Inr r' \<and> rg_policies r' = rg_policies r
    \<and> (\<forall>q. held r' q = held r q @ (if q = p then [i] else []))"
proof -
  from assms(1) obtain pol where pol: "map_of (rg_policies r) p = Some pol"
    by (cases "map_of (rg_policies r) p") (auto simp: map_of_None_keys)
  show ?thesis
  proof (cases "pol = MULTI")
    case True
    with pol show ?thesis
      by (auto simp: register_def held_def get_all_def registry_get_def map_of_update split: option.splits)
  next
    case False
    with pol assms(2) have "map_of (rg_entries r) p = None"
      by (auto simp: held_def registry_get_def split: option.splits)
    moreover from this have "p \<notin> set (keys (rg_entries r))" by (simp only: map_of_None_keys not_False_eq_True)
    ultimately show ?thesis using pol False
      by (cases pol) (simp_all add: register_def held_def get_all_def registry_get_def map_of_update del: map_of_eq_None_iff)
  qed
qed

lemma register_ports_held:
  assumes "distinct ps" "set ps \<subseteq> set (keys (rg_policies r))"
    "\<forall>p\<in>set ps. map_of (rg_policies r) p \<noteq> Some MULTI \<longrightarrow> held r p = []"
  shows "\<exists>r'. register_ports r ps i = Inr r' \<and> rg_policies r' = rg_policies r
    \<and> (\<forall>q. held r' q = held r q @ (if q \<in> set ps then [i] else []))"
  using assms
proof (induction ps arbitrary: r)
  case (Cons p ps)
  have "p \<in> set (keys (rg_policies r))" "map_of (rg_policies r) p \<noteq> Some MULTI \<longrightarrow> held r p = []"
    using Cons.prems by auto
  from register_held [OF this] obtain r1 where r1: "register r p i = Inr r1" "rg_policies r1 = rg_policies r"
      "\<And>q. held r1 q = held r q @ (if q = p then [i] else [])" by blast
  have "distinct ps" "set ps \<subseteq> set (keys (rg_policies r1))"
    "\<forall>p\<in>set ps. map_of (rg_policies r1) p \<noteq> Some MULTI \<longrightarrow> held r1 p = []"
    using Cons.prems r1 by auto
  from Cons.IH [OF this] obtain r2 where "register_ports r1 ps i = Inr r2" "rg_policies r2 = rg_policies r1"
      "\<And>q. held r2 q = held r1 q @ (if q \<in> set ps then [i] else [])" by blast
  with r1 Cons.prems(1) show ?case by auto
qed simp

text \<open>Plugins that together provide no single Port twice never clash.\<close>

definition fits :: "(string \<times> policy) list \<Rightarrow> descriptor list \<Rightarrow> bool" where
  "fits policies ds = (\<forall>p. map_of policies p \<noteq> Some MULTI \<longrightarrow>
     length (filter (\<lambda>d. p \<in> set (ports d)) ds) \<le> 1)"

lemma offers_length: "length (offers xs p) = length (filter (\<lambda>d. p \<in> set (ports d)) (map fst xs))"
  by (simp add: offers_def filter_map comp_def)

lemma contribute_held:
  assumes "\<forall>(d, i)\<in>set xs. distinct (ports d) \<and> set (ports d) \<subseteq> set (keys (rg_policies r))"
    "\<forall>p. map_of (rg_policies r) p \<noteq> Some MULTI \<longrightarrow> length (held r p) + length (offers xs p) \<le> 1"
  shows "\<exists>r'. contribute r xs = Inr r' \<and> rg_policies r' = rg_policies r
    \<and> (\<forall>q. held r' q = held r q @ offers xs q)"
  using assms
proof (induction xs arbitrary: r)
  case (Cons x xs)
  obtain d i where x: "x = (d, i)" by force
  have off: "offers (x # xs) q = (if q \<in> set (ports d) then [i] else []) @ offers xs q" for q
    by (simp add: offers_def x)
  have "\<forall>p\<in>set (ports d). map_of (rg_policies r) p \<noteq> Some MULTI \<longrightarrow> held r p = []"
  proof (intro ballI impI)
    fix p assume p: "p \<in> set (ports d)" "map_of (rg_policies r) p \<noteq> Some MULTI"
    then have "length (held r p) + length (offers (x # xs) p) \<le> 1" using Cons.prems(2) by blast
    with p(1) show "held r p = []" by (simp add: off)
  qed
  moreover have "distinct (ports d)" "set (ports d) \<subseteq> set (keys (rg_policies r))"
    using Cons.prems(1) x by auto
  ultimately obtain r1 where r1: "register_ports r (ports d) i = Inr r1" "rg_policies r1 = rg_policies r"
      "\<And>q. held r1 q = held r q @ (if q \<in> set (ports d) then [i] else [])"
    using register_ports_held [of "ports d" r i] by blast
  have "\<forall>(d, i)\<in>set xs. distinct (ports d) \<and> set (ports d) \<subseteq> set (keys (rg_policies r1))"
    using Cons.prems(1) r1(2) by auto
  moreover have "\<forall>p. map_of (rg_policies r1) p \<noteq> Some MULTI \<longrightarrow> length (held r1 p) + length (offers xs p) \<le> 1"
  proof (intro allI impI)
    fix p assume "map_of (rg_policies r1) p \<noteq> Some MULTI"
    with r1(2) Cons.prems(2) have "length (held r p) + length (offers (x # xs) p) \<le> 1" by simp
    then show "length (held r1 p) + length (offers xs p) \<le> 1" by (simp add: off r1(3))
  qed
  ultimately obtain r2 where "contribute r1 xs = Inr r2" "rg_policies r2 = rg_policies r1"
      "\<And>q. held r2 q = held r1 q @ offers xs q"
    using Cons.IH [of r1] by blast
  with r1 x off show ?case by auto
qed (simp add: offers_def)

lemma held_new [simp]: "held (new_registry policies) p = []"
  by (simp add: held_def new_registry_def get_all_def registry_get_def)

lemma single_fits:
  assumes "single policies ds" "\<forall>d\<in>set ds. set (ports d) \<subseteq> set (keys policies)"
  shows "fits policies ds"
  unfolding fits_def
proof (intro allI impI)
  fix p assume multi: "map_of policies p \<noteq> Some MULTI"
  show "length (filter (\<lambda>d. p \<in> set (ports d)) ds) \<le> 1"
  proof (cases "map_of policies p")
    case None
    then have "filter (\<lambda>d. p \<in> set (ports d)) ds = []"
      using assms(2) by (auto simp: filter_empty_conv map_of_None_keys)
    then show ?thesis by simp
  next
    case (Some q)
    then have "(p, q) \<in> set policies" by (rule map_of_SomeD)
    with assms(1) have "(q = REQUIRED_SINGLE \<longrightarrow> length (filter (\<lambda>d. p \<in> set (ports d)) ds) = 1)
        \<and> (q = OPTIONAL_SINGLE \<longrightarrow> length (filter (\<lambda>d. p \<in> set (ports d)) ds) \<le> 1)"
      by (auto simp: single_def Let_def list_all_iff)
    with multi Some show ?thesis by (cases q) auto
  qed
qed

lemma fits_filter: "fits policies ds \<Longrightarrow> fits policies (filter P ds)"
proof -
  assume "fits policies ds"
  moreover have "length (filter Q (filter P ds)) \<le> length (filter Q ds)" for Q
    by (induction ds) auto
  ultimately show ?thesis unfolding fits_def using le_trans by blast
qed

lemma fits_same_set:
  assumes "fits policies ds" "mset plan = mset ds"
  shows "fits policies plan"
  using assms(1) unfolding fits_def by (metis assms(2) mset_filter size_mset)

subsection \<open>What disposal does to the store\<close>

definition desc :: "host \<Rightarrow> nat \<Rightarrow> descriptor" where
  "desc h n = ir_descriptor (h_records h ! n)"

definition has_disposer :: "host \<Rightarrow> nat \<Rightarrow> bool" where
  "has_disposer h n = (d_disposer (desc h n) \<noteq> None)"

text \<open>Everything but disposed flags, script and log is the same.\<close>

definition same_owners :: "host \<Rightarrow> host \<Rightarrow> bool" where
  "same_owners h h' = (h' = h\<lparr>h_records := h_records h', h_script := h_script h', h_disposals := h_disposals h'\<rparr>
     \<and> length (h_records h') = length (h_records h)
     \<and> (\<forall>n. desc h' n = desc h n \<and> ir_context (h_records h' ! n) = ir_context (h_records h ! n)
          \<and> (disposed h n \<longrightarrow> disposed h' n)))"

lemma same_owners_refl [simp]: "same_owners h h"
  by (simp add: same_owners_def)

lemma same_owners_trans: "same_owners h h' \<Longrightarrow> same_owners h' h'' \<Longrightarrow> same_owners h h''"
  by (cases h; cases h'; cases h'') (simp add: same_owners_def)

lemma mark_disposed_same:
  "same_owners h (mark_disposed n h)"
proof (cases "n < length (h_records h)")
  case True
  then show ?thesis by (simp add: same_owners_def mark_disposed_def desc_def disposed_def nth_list_update)
next
  case False
  then have "(h_records h)[n := r] = h_records h" for r by (simp add: list_update_beyond)
  then show ?thesis by (simp add: same_owners_def mark_disposed_def desc_def disposed_def)
qed

lemma disposed_mark:
  "n < length (h_records h) \<Longrightarrow> disposed (mark_disposed n h) m \<longleftrightarrow> m = n \<or> disposed h m"
  by (auto simp: mark_disposed_def disposed_def nth_list_update)

lemma next_outcome_same: "next_outcome h = (x, h') \<Longrightarrow>
   h' = h\<lparr>h_script := h_script h'\<rparr> \<and> (case h_script h of [] \<Rightarrow> x = Returns \<and> h_script h' = [] | y # ys \<Rightarrow> x = y \<and> h_script h' = ys)"
  by (auto simp: next_outcome_def split: list.splits)

text \<open>One record: the three ways its disposal can go.\<close>

lemma dispose_one_cases:
  assumes "dispose_one n h = ((e, c), h')" "n < length (h_records h)"
  obtains (skipped) "disposed h n" "h' = h" "\<not> c"
  | (no_disposer) "\<not> disposed h n" "\<not> has_disposer h n" "h' = mark_disposed n h" "\<not> c"
  | (called) s where "\<not> disposed h n" "has_disposer h n" "\<not> c" "h_script h = [] \<and> s = [] \<or> (\<exists>x. h_script h = x # s \<and> x \<noteq> Cancels)"
      "h' = mark_disposed n (h\<lparr>h_script := s, h_disposals := h_disposals h @ [(n, False)]\<rparr>)"
  | (cancelled) s where "\<not> disposed h n" "has_disposer h n" "c" "h_script h = Cancels # s"
      "h' = h\<lparr>h_script := s, h_disposals := h_disposals h @ [(n, True)]\<rparr>"
proof (cases "disposed h n")
  case True
  with assms(1) have "h' = h" "\<not> c" by (auto simp: dispose_one_def)
  with True show thesis by (rule that(1))
next
  case live: False
  show thesis
  proof (cases "has_disposer h n")
    case False
    with assms(1) live have "h' = mark_disposed n h" "\<not> c"
      by (auto simp: dispose_one_def has_disposer_def desc_def rec_of_def)
    with live False show thesis by (rule that(2))
  next
    case True
    obtain x h1 where nx: "next_outcome h = (x, h1)" by force
    have run: "dispose_one n h = (let h2 = h1\<lparr>h_disposals := h_disposals h1 @ [(n, x = Cancels)]\<rparr>
            in case x of
                 Cancels \<Rightarrow> ((0, True), h2)
               | Raises \<Rightarrow> ((1, False), mark_disposed n h2)
               | _ \<Rightarrow> ((0, False), mark_disposed n h2))"
      using live True [unfolded has_disposer_def desc_def] nx
      by (simp only: dispose_one_def rec_of_def if_False Let_def prod.case)
    note h1 = next_outcome_same [OF nx]
    show thesis
    proof (cases "x = Cancels")
      case cancels: True
      then have s: "h_script h = Cancels # h_script h1" using h1 by (auto split: list.splits)
      from run cancels assms(1) have "c" "h' = h1\<lparr>h_disposals := h_disposals h1 @ [(n, True)]\<rparr>" by auto
      moreover have "\<dots> = h\<lparr>h_script := h_script h1, h_disposals := h_disposals h @ [(n, True)]\<rparr>"
        using h1 by (cases h; cases h1) simp
      ultimately show thesis using that(4) [OF live True _ s] by simp
    next
      case False
      then have s: "h_script h = [] \<and> h_script h1 = [] \<or> (\<exists>y. h_script h = y # h_script h1 \<and> y \<noteq> Cancels)"
        using h1 by (auto split: list.splits)
      from run False assms(1) have "\<not> c" "h' = mark_disposed n (h1\<lparr>h_disposals := h_disposals h1 @ [(n, False)]\<rparr>)"
        by (auto simp: Let_def split: outcome.splits)
      moreover have "h1\<lparr>h_disposals := h_disposals h1 @ [(n, False)]\<rparr>
          = h\<lparr>h_script := h_script h1, h_disposals := h_disposals h @ [(n, False)]\<rparr>"
        using h1 by (cases h; cases h1) simp
      ultimately show thesis using that(3) [OF live True _ s] by simp
    qed
  qed
qed

lemma dispose_Cons:
  assumes "dispose_records (n # ns) h = ((es, c), h')"
  obtains e1 c1 h1 e2 c2 where "dispose_one n h = ((e1, c1), h1)" "dispose_records ns h1 = ((e2, c2), h')"
    "c = (c1 \<or> c2)"
proof -
  obtain e1 c1 h1 where one: "dispose_one n h = ((e1, c1), h1)" by (metis prod.exhaust)
  moreover obtain e2 c2 h2 where "dispose_records ns h1 = ((e2, c2), h2)" by (metis prod.exhaust)
  ultimately show thesis using assms that by simp
qed

lemma dispose_one_same:
  assumes "dispose_one n h = ((e, c), h')" "n < length (h_records h)"
  shows "same_owners h h' \<and> (\<forall>m. disposed h' m \<longleftrightarrow> disposed h m \<or> m = n \<and> \<not> c)"
proof -
  have script: "same_owners h (h\<lparr>h_script := s, h_disposals := l\<rparr>)" for s l
    by (simp add: same_owners_def desc_def disposed_def)
  show ?thesis
    using assms
  proof (cases rule: dispose_one_cases)
    case no_disposer
    then show ?thesis using disposed_mark [OF assms(2)] by (auto simp: mark_disposed_same)
  next
    case (called s)
    let ?h = "h\<lparr>h_script := s, h_disposals := h_disposals h @ [(n, False)]\<rparr>"
    have "same_owners ?h h'" unfolding called(5) by (rule mark_disposed_same)
    moreover have "disposed h' m \<longleftrightarrow> m = n \<or> disposed ?h m" for m
      unfolding called(5) by (rule disposed_mark) (simp add: assms(2))
    moreover have "disposed ?h m = disposed h m" for m by (simp add: disposed_def)
    ultimately show ?thesis using same_owners_trans [OF script] called(3) by blast
  next
    case (cancelled s)
    then show ?thesis using script by (simp add: disposed_def)
  qed auto
qed

lemma same_owners_length: "same_owners h h' \<Longrightarrow> length (h_records h') = length (h_records h)"
  by (simp add: same_owners_def)

lemma dispose_same:
  "dispose_records ns h = ((es, c), h') \<Longrightarrow> set ns \<subseteq> {..<length (h_records h)} \<Longrightarrow>
   same_owners h h' \<and> (\<forall>m. disposed h' m \<longrightarrow> disposed h m \<or> m \<in> set ns)
   \<and> (\<not> c \<longrightarrow> (\<forall>m\<in>set ns. disposed h' m))"
proof (induction ns arbitrary: h es c)
  case (Cons n ns)
  from Cons.prems(1) obtain e1 c1 h1 e2 c2 where one: "dispose_one n h = ((e1, c1), h1)"
    and rest: "dispose_records ns h1 = ((e2, c2), h')" and c: "c = (c1 \<or> c2)" by (rule dispose_Cons)
  have n: "n < length (h_records h)" using Cons.prems(2) by simp
  note first = dispose_one_same [OF one n]
  have "length (h_records h1) = length (h_records h)" using first same_owners_length by blast
  with Cons.prems(2) have "set ns \<subseteq> {..<length (h_records h1)}" by simp
  note later = Cons.IH [OF rest this]
  have mono: "disposed h' m" if "disposed h1 m" for m using later that by (simp add: same_owners_def)
  show ?case
  proof (intro conjI allI impI ballI)
    show "same_owners h h'" using first later same_owners_trans by blast
    show "disposed h m \<or> m \<in> set (n # ns)" if "disposed h' m" for m
      using that first later by (metis list.set_intros)
    show "disposed h' m" if "\<not> c" "m \<in> set (n # ns)" for m
      using that first later c mono by (cases "m = n") auto
  qed
qed simp

subsection \<open>The log of disposer calls\<close>

text \<open>A disposer that has completed is never called again, and a record with a disposer counts as
  disposed exactly when its disposer completed.\<close>

definition log_good :: "host \<Rightarrow> bool" where
  "log_good h = (sorted_wrt (\<lambda>a b. snd a \<or> fst a \<noteq> fst b) (h_disposals h)
     \<and> (\<forall>(n, c)\<in>set (h_disposals h). n < length (h_records h) \<and> has_disposer h n)
     \<and> (\<forall>n<length (h_records h). has_disposer h n \<longrightarrow> disposed h n = ((n, False) \<in> set (h_disposals h))))"

lemma log_good_one:
  assumes "dispose_one n h = ((e, c), h')" "n < length (h_records h)" "log_good h"
  shows "log_good h'"
proof -
  note same = dispose_one_same [OF assms(1,2)]
  then have len: "length (h_records h') = length (h_records h)" and d: "\<And>m. has_disposer h' m = has_disposer h m"
    by (simp_all add: same_owners_def has_disposer_def)
  have fresh: "(n, False) \<notin> set (h_disposals h)" if "\<not> disposed h n" "has_disposer h n"
    using assms(2,3) that by (auto simp: log_good_def)
  have grow: "log_good h'" if log: "h_disposals h' = h_disposals h @ [(n, c)]" and live: "\<not> disposed h n" "has_disposer h n"
  proof -
    have "snd a \<or> fst a \<noteq> n" if "a \<in> set (h_disposals h)" for a
      using fresh [OF live] that by (cases a) auto
    then show ?thesis using assms(2,3) same len d log live
      by (auto simp: log_good_def sorted_wrt_append)
  qed
  from assms(1,2) show ?thesis
  proof (cases rule: dispose_one_cases)
    case skipped
    with assms(3) show ?thesis by simp
  next
    case no_disposer
    then have "h_disposals h' = h_disposals h" by (simp add: mark_disposed_def)
    with no_disposer assms(3) same len d show ?thesis by (auto simp: log_good_def)
  next
    case (called s)
    then show ?thesis by (intro grow) (simp_all add: mark_disposed_def)
  next
    case (cancelled s)
    then show ?thesis by (intro grow) simp_all
  qed
qed

lemma log_good_records:
  "dispose_records ns h = ((es, c), h') \<Longrightarrow> set ns \<subseteq> {..<length (h_records h)} \<Longrightarrow> log_good h \<Longrightarrow> log_good h'"
proof (induction ns arbitrary: h es c)
  case (Cons n ns)
  from Cons.prems(1) obtain e1 c1 h1 e2 c2 where one: "dispose_one n h = ((e1, c1), h1)"
    and rest: "dispose_records ns h1 = ((e2, c2), h')" by (rule dispose_Cons)
  have n: "n < length (h_records h)" using Cons.prems(2) by simp
  have "length (h_records h1) = length (h_records h)"
    using dispose_one_same [OF one n] same_owners_length by blast
  with Cons.prems(2) have "set ns \<subseteq> {..<length (h_records h1)}" by simp
  then show ?case using Cons.IH [OF rest _ log_good_one [OF one n Cons.prems(3)]] by simp
qed simp

text \<open>How many cancelled calls the script still holds bounds how often disposal can be cut short.\<close>

definition cancels :: "host \<Rightarrow> nat" where
  "cancels h = length (filter (\<lambda>x. x = Cancels) (h_script h))"

lemma cancels_one:
  assumes "dispose_one n h = ((e, c), h')" "n < length (h_records h)"
  shows "cancels h' + (if c then 1 else 0) \<le> cancels h"
  using assms by (cases rule: dispose_one_cases) (auto simp: cancels_def mark_disposed_def)

lemma cancels_records:
  "dispose_records ns h = ((es, c), h') \<Longrightarrow> set ns \<subseteq> {..<length (h_records h)} \<Longrightarrow>
   cancels h' + (if c then 1 else 0) \<le> cancels h"
proof (induction ns arbitrary: h es c)
  case (Cons n ns)
  from Cons.prems(1) obtain e1 c1 h1 e2 c2 where one: "dispose_one n h = ((e1, c1), h1)"
    and rest: "dispose_records ns h1 = ((e2, c2), h')" and c: "c = (c1 \<or> c2)" by (rule dispose_Cons)
  have n: "n < length (h_records h)" using Cons.prems(2) by simp
  have "length (h_records h1) = length (h_records h)"
    using dispose_one_same [OF one n] same_owners_length by blast
  with Cons.prems(2) have "set ns \<subseteq> {..<length (h_records h1)}" by simp
  from Cons.IH [OF rest this] cancels_one [OF one n] c show ?case by (simp split: if_splits)
qed simp

text \<open>With no cancellation to come, the disposers of the undisposed records run once, in order.\<close>

lemma disposal_order:
  "dispose_records ns h = ((es, c), h') \<Longrightarrow> set ns \<subseteq> {..<length (h_records h)} \<Longrightarrow> distinct ns \<Longrightarrow>
   cancels h = 0 \<Longrightarrow>
   h_disposals h' = h_disposals h @ map (\<lambda>n. (n, False)) (filter (\<lambda>n. \<not> disposed h n \<and> has_disposer h n) ns)"
proof (induction ns arbitrary: h es c)
  case (Cons n ns)
  from Cons.prems(1) obtain e1 c1 h1 e2 c2 where one: "dispose_one n h = ((e1, c1), h1)"
    and rest: "dispose_records ns h1 = ((e2, c2), h')" by (rule dispose_Cons)
  have n: "n < length (h_records h)" using Cons.prems(2) by simp
  note same = dispose_one_same [OF one n]
  have "length (h_records h1) = length (h_records h)" using same same_owners_length by blast
  with Cons.prems(2) have sub: "set ns \<subseteq> {..<length (h_records h1)}" by simp
  have none: "cancels h1 = 0" "\<not> c1" using cancels_one [OF one n] Cons.prems(4) by (auto split: if_splits)
  have "filter (\<lambda>m. \<not> disposed h1 m \<and> has_disposer h1 m) ns = filter (\<lambda>m. \<not> disposed h m \<and> has_disposer h m) ns"
  proof (rule filter_cong)
    fix m assume "m \<in> set ns"
    with Cons.prems(3) have "m \<noteq> n" by auto
    with same show "(\<not> disposed h1 m \<and> has_disposer h1 m) = (\<not> disposed h m \<and> has_disposer h m)"
      by (simp add: same_owners_def has_disposer_def)
  qed simp
  moreover have "h_disposals h1 = h_disposals h @ (if \<not> disposed h n \<and> has_disposer h n then [(n, False)] else [])"
    using one n none(2) by (cases rule: dispose_one_cases) (auto simp: mark_disposed_def)
  ultimately show ?case using Cons.IH [OF rest sub _ none(1)] Cons.prems(3) by simp
qed simp

subsection \<open>The invariant of the host\<close>

definition cache_good :: "host \<Rightarrow> pscope \<Rightarrow> (string \<times> nat) list \<Rightarrow> bool" where
  "cache_good h s c = (distinct (keys c) \<and> (\<forall>(i, n)\<in>set c. n < length (h_records h) \<and> \<not> disposed h n
     \<and> scope_of (desc h n) = s \<and> pid (desc h n) = i))"

text \<open>
  The live records are the undisposed ones in creation order; the caches hold live instances of
  their scope under their own plugin, no session one of another session; what a failed activation
  left to a session is run-scoped; every record comes from a declared descriptor.
\<close>

definition host_good :: "host \<Rightarrow> bool" where
  "host_good h = (h_live h = filter (\<lambda>n. \<not> disposed h n) [0..<length (h_records h)]
     \<and> cache_good h PROCESS (h_process h)
     \<and> distinct (keys (h_sessions h))
     \<and> (\<forall>(k, c)\<in>set (h_sessions h). cache_good h SESSION c)
     \<and> (\<forall>(k, c)\<in>set (h_sessions h). \<forall>(k', c')\<in>set (h_sessions h). k \<noteq> k' \<longrightarrow> snd ` set c \<inter> snd ` set c' = {})
     \<and> (\<forall>(k, ns)\<in>set (h_rollbacks h). \<forall>n\<in>set ns. n < length (h_records h) \<and> scope_of (desc h n) = RUN)
     \<and> (\<forall>n<length (h_records h). Some (desc h n) \<in> set (h_descriptors h))
     \<and> log_good h)"

definition sub_dict :: "('k \<times> 'v) list \<Rightarrow> ('k \<times> 'v) list \<Rightarrow> bool" where
  "sub_dict c' c = (set c' \<subseteq> set c \<and> (distinct (keys c) \<longrightarrow> distinct (keys c')))"

definition sub_sessions :: "('k \<times> ('a \<times> 'b) list) list \<Rightarrow> ('k \<times> ('a \<times> 'b) list) list \<Rightarrow> bool" where
  "sub_sessions ss' ss = ((distinct (keys ss) \<longrightarrow> distinct (keys ss'))
     \<and> (\<forall>(k, c')\<in>set ss'. \<exists>c. (k, c) \<in> set ss \<and> sub_dict c' c))"

lemma sub_dict_refl [simp]: "sub_dict c c"
  by (simp add: sub_dict_def)

lemma sub_dict_trans: "sub_dict a b \<Longrightarrow> sub_dict b c \<Longrightarrow> sub_dict a c"
  by (auto simp: sub_dict_def)

lemma sub_dict_delete: "sub_dict (AList.delete i c) c"
  by (auto simp: sub_dict_def AList.delete_eq distinct_map_filter)

lemma sub_dict_filter: "sub_dict (filter P c) c"
  by (auto simp: sub_dict_def distinct_map_filter)

lemma sub_sessions_refl [simp]: "sub_sessions ss ss"
  by (auto simp: sub_sessions_def)

lemma sub_sessions_trans: "sub_sessions a b \<Longrightarrow> sub_sessions b c \<Longrightarrow> sub_sessions a c"
  unfolding sub_sessions_def by (fast intro: sub_dict_trans)

lemma sub_sessions_delete: "sub_sessions (AList.delete k ss) ss"
  by (auto simp: sub_sessions_def AList.delete_eq distinct_map_filter)

lemma update_entries: "(k', v') \<in> set (AList.update k v d) \<Longrightarrow> k' = k \<and> v' = v \<or> (k', v') \<in> set d"
  by (induction d) (auto split: if_splits)

lemma sub_sessions_update:
  assumes "(k, c) \<in> set ss" "sub_dict c' c"
  shows "sub_sessions (AList.update k c' ss) ss"
  unfolding sub_sessions_def
proof (intro conjI impI ballI)
  fix e assume "e \<in> set (AList.update k c' ss)"
  with assms update_entries [of "fst e" "snd e" k c' ss]
  show "case e of (k, c') \<Rightarrow> \<exists>c. (k, c) \<in> set ss \<and> sub_dict c' c" by (cases e) auto
qed (rule distinct_update)

lemma sub_sessions_filter: "sub_sessions (filter P (map (\<lambda>(k, c). (k, filter Q c)) ss)) ss"
proof -
  have keys: "keys (map (\<lambda>(k, c). (k, filter Q c)) ss) = keys ss" by (induction ss) auto
  have "distinct (keys (filter P (map (\<lambda>(k, c). (k, filter Q c)) ss)))" if "distinct (keys ss)"
    using that by (intro distinct_map_filter) (simp only: keys)
  then show ?thesis by (fastforce simp: sub_sessions_def intro: sub_dict_filter)
qed

lemma cache_good_sub:
  assumes "cache_good h s c" "sub_dict c' c" "length (h_records h') = length (h_records h)"
    "\<And>n. desc h' n = desc h n" "\<And>i n. (i, n) \<in> set c' \<Longrightarrow> \<not> disposed h' n"
  shows "cache_good h' s c'"
  using assms by (fastforce simp: cache_good_def sub_dict_def)

text \<open>An operation that only disposes and forgets keeps the invariant.\<close>

lemma host_good_shrink:
  assumes good: "host_good h"
    and store: "length (h_records h') = length (h_records h)" "\<And>n. desc h' n = desc h n"
      "\<And>n. disposed h n \<Longrightarrow> disposed h' n" "h_descriptors h' = h_descriptors h"
    and live: "h_live h' = filter (\<lambda>n. \<not> disposed h' n) (h_live h)"
    and process: "sub_dict (h_process h') (h_process h)" "\<And>i n. (i, n) \<in> set (h_process h') \<Longrightarrow> \<not> disposed h' n"
    and sessions: "sub_sessions (h_sessions h') (h_sessions h)"
      "\<And>k c i n. (k, c) \<in> set (h_sessions h') \<Longrightarrow> (i, n) \<in> set c \<Longrightarrow> \<not> disposed h' n"
    and rollbacks: "\<And>k ns n. (k, ns) \<in> set (h_rollbacks h') \<Longrightarrow> n \<in> set ns \<Longrightarrow>
      n < length (h_records h) \<and> scope_of (desc h n) = RUN"
    and log: "log_good h'"
  shows "host_good h'"
proof -
  from good have g: "h_live h = filter (\<lambda>n. \<not> disposed h n) [0..<length (h_records h)]"
      "cache_good h PROCESS (h_process h)" "distinct (keys (h_sessions h))"
      "\<And>k c. (k, c) \<in> set (h_sessions h) \<Longrightarrow> cache_good h SESSION c"
      "\<And>k c k' c'. (k, c) \<in> set (h_sessions h) \<Longrightarrow> (k', c') \<in> set (h_sessions h) \<Longrightarrow> k \<noteq> k' \<Longrightarrow>
         snd ` set c \<inter> snd ` set c' = {}"
      "\<forall>n<length (h_records h). Some (desc h n) \<in> set (h_descriptors h)"
    unfolding host_good_def by blast+
  have "h_live h' = filter (\<lambda>n. \<not> disposed h' n) [0..<length (h_records h')]"
    unfolding live g(1) filter_filter store(1) using store(3) by (intro filter_cong) auto
  moreover have "cache_good h' PROCESS (h_process h')"
    using cache_good_sub [OF g(2) process(1) store(1,2) process(2)] .
  moreover have "distinct (keys (h_sessions h'))" using sessions(1) g(3) by (simp add: sub_sessions_def)
  moreover have "cache_good h' SESSION c'" if c': "(k, c') \<in> set (h_sessions h')" for k c'
  proof -
    from c' sessions(1) obtain c where "(k, c) \<in> set (h_sessions h)" "sub_dict c' c"
      unfolding sub_sessions_def by blast
    from cache_good_sub [OF g(4) [OF this(1)] this(2) store(1,2) sessions(2) [OF c']] show ?thesis .
  qed
  moreover have "snd ` set c \<inter> snd ` set c' = {}"
    if kc: "(k, c) \<in> set (h_sessions h')" "(k', c') \<in> set (h_sessions h')" "k \<noteq> k'" for k c k' c'
  proof -
    from kc(1) sessions(1) obtain b where b: "(k, b) \<in> set (h_sessions h)" "sub_dict c b"
      unfolding sub_sessions_def by blast
    from kc(2) sessions(1) obtain b' where b': "(k', b') \<in> set (h_sessions h)" "sub_dict c' b'"
      unfolding sub_sessions_def by blast
    have "snd ` set c \<subseteq> snd ` set b" "snd ` set c' \<subseteq> snd ` set b'"
      using b(2) b'(2) by (auto simp: sub_dict_def)
    with g(5) [OF b(1) b'(1) kc(3)] show ?thesis by blast
  qed
  ultimately show ?thesis
    unfolding host_good_def using rollbacks g(6) log unfolding store(1,2,4) by blast
qed

text \<open>The same for an operation whose disposals are those of one call of \<open>dispose_records\<close>.\<close>

lemma live_after:
  assumes "host_good h" "\<And>n. disposed h1 n \<Longrightarrow> disposed h n \<or> n \<in> set ns"
  shows "filter (\<lambda>n. n \<notin> set (completed h1 ns)) (h_live h) = filter (\<lambda>n. \<not> disposed h1 n) (h_live h)"
proof (rule filter_cong)
  fix n assume "n \<in> set (h_live h)"
  with assms(1) have "\<not> disposed h n" by (auto simp: host_good_def)
  with assms(2) [of n] show "(n \<notin> set (completed h1 ns)) = (\<not> disposed h1 n)"
    by (auto simp: completed_def)
qed simp

lemma same_records:
  assumes "h_records h' = h_records h"
  shows "desc h' = desc h" "disposed h' = disposed h"
  using assms by (simp_all add: fun_eq_iff desc_def disposed_def)

lemma same_log:
  assumes "h_records h' = h_records h" "h_disposals h' = h_disposals h"
  shows "log_good h' = log_good h"
  using assms same_records [OF assms(1)] by (simp add: log_good_def has_disposer_def)

lemma cached_alive:
  assumes "host_good h"
  shows "(i, n) \<in> set (h_process h) \<Longrightarrow> n < length (h_records h) \<and> \<not> disposed h n \<and> scope_of (desc h n) = PROCESS"
    "(k, c) \<in> set (h_sessions h) \<Longrightarrow> (i, n) \<in> set c \<Longrightarrow>
       n < length (h_records h) \<and> \<not> disposed h n \<and> scope_of (desc h n) = SESSION"
  using assms by (fastforce simp: host_good_def cache_good_def)+

lemma host_good_after:
  assumes good: "host_good h"
    and run: "dispose_records ns h0 = ((es, c), h1)" "set ns \<subseteq> {..<length (h_records h)}"
      "h_records h0 = h_records h" "h_disposals h0 = h_disposals h"
    and store: "h_records h' = h_records h1" "h_disposals h' = h_disposals h1" "h_descriptors h' = h_descriptors h"
    and live: "h_live h' = filter (\<lambda>n. n \<notin> set (completed h1 ns')) (h_live h)" "set ns' = set ns"
    and process: "sub_dict (h_process h') (h_process h)"
      "\<And>i n. (i, n) \<in> set (h_process h') \<Longrightarrow> n \<in> set ns \<Longrightarrow> disposed h1 n \<Longrightarrow> False"
    and sessions: "sub_sessions (h_sessions h') (h_sessions h)"
      "\<And>k c i n. (k, c) \<in> set (h_sessions h') \<Longrightarrow> (i, n) \<in> set c \<Longrightarrow> n \<in> set ns \<Longrightarrow> disposed h1 n \<Longrightarrow> False"
    and rollbacks: "\<And>k ns n. (k, ns) \<in> set (h_rollbacks h') \<Longrightarrow> n \<in> set ns \<Longrightarrow>
      n < length (h_records h) \<and> scope_of (desc h n) = RUN"
  shows "host_good h'"
proof (rule host_good_shrink [OF good])
  have len: "set ns \<subseteq> {..<length (h_records h0)}" using run(2,3) by simp
  note same = dispose_same [OF run(1) len]
  note view = same_records [OF run(3)] same_records [OF store(1)]
  have only: "disposed h1 n \<Longrightarrow> disposed h n \<or> n \<in> set ns" for n using same view by auto
  show "length (h_records h') = length (h_records h)"
    using same store(1) run(3) by (simp add: same_owners_def)
  show "desc h' n = desc h n" "disposed h n \<Longrightarrow> disposed h' n" for n
    using same view by (auto simp: same_owners_def)
  have "set (completed h1 ns') = set (completed h1 ns)" using live(2) by (simp add: completed_def)
  then show "h_live h' = filter (\<lambda>n. \<not> disposed h' n) (h_live h)"
    unfolding live(1) using live_after [OF good only] view by simp
  have "log_good h" using good by (simp add: host_good_def)
  then have "log_good h0" using same_log [OF run(3,4)] by simp
  from log_good_records [OF run(1) len this] same_log [OF store(1,2)] show "log_good h'" by simp
  show "\<not> disposed h' n" if "(i, n) \<in> set (h_process h')" for i n
  proof
    assume "disposed h' n"
    then have d: "disposed h1 n" using view by simp
    moreover have "\<not> disposed h n"
      using cached_alive(1) [OF good, of i n] process(1) that by (auto simp: sub_dict_def)
    ultimately show False using only [of n] process(2) [OF that] by blast
  qed
  show "\<not> disposed h' n" if kc: "(k, c) \<in> set (h_sessions h')" "(i, n) \<in> set c" for k c i n
  proof
    assume "disposed h' n"
    then have d: "disposed h1 n" using view by simp
    from kc(1) sessions(1) obtain b where "(k, b) \<in> set (h_sessions h)" "sub_dict c b"
      unfolding sub_sessions_def by blast
    then have "\<not> disposed h n" using cached_alive(2) [OF good, of k b i n] kc(2) by (auto simp: sub_dict_def)
    with d show False using only [of n] sessions(2) [OF kc] by blast
  qed
qed (fact store(3) process(1) sessions(1) rollbacks)+

lemma rollbacks_run:
  assumes "host_good h" "(k, ns) \<in> set (h_rollbacks h)" "n \<in> set ns"
  shows "n < length (h_records h) \<and> scope_of (desc h n) = RUN"
  using assms by (fastforce simp: host_good_def)

lemma run_not_cached:
  assumes "host_good h" "scope_of (desc h n) = RUN"
  shows "(i, n) \<notin> set (h_process h)" "(k, c) \<in> set (h_sessions h) \<Longrightarrow> (i, n) \<notin> set c"
  using cached_alive [OF assms(1)] assms(2) by fastforce+

lemma dispose_frame:
  assumes "dispose_records ns h = ((es, c), h1)" "set ns \<subseteq> {..<length (h_records h)}"
  shows "h_live h1 = h_live h" "h_process h1 = h_process h" "h_sessions h1 = h_sessions h"
    "h_rollbacks h1 = h_rollbacks h" "h_closing h1 = h_closing h" "h_descriptors h1 = h_descriptors h"
    "h_schema h1 = h_schema h" "h_closed h1 = h_closed h" "length (h_records h1) = length (h_records h)"
    "desc h1 = desc h"
proof -
  have same: "same_owners h h1" using dispose_same [OF assms] by blast
  then obtain r s l where "h1 = h\<lparr>h_records := r, h_script := s, h_disposals := l\<rparr>"
    unfolding same_owners_def by blast
  then show "h_live h1 = h_live h" "h_process h1 = h_process h" "h_sessions h1 = h_sessions h"
    "h_rollbacks h1 = h_rollbacks h" "h_closing h1 = h_closing h" "h_descriptors h1 = h_descriptors h"
    "h_schema h1 = h_schema h" "h_closed h1 = h_closed h"
    by simp_all
  show "length (h_records h1) = length (h_records h)" "desc h1 = desc h"
    using same by (simp_all add: same_owners_def fun_eq_iff)
qed

subsection \<open>Disposal keeps the invariant\<close>

definition run_records :: "host \<Rightarrow> nat list \<Rightarrow> bool" where
  "run_records h ns = (\<forall>n\<in>set ns. n < length (h_records h) \<and> scope_of (desc h n) = RUN)"

lemma run_records_bound: "run_records h ns \<Longrightarrow> set (rev ns) \<subseteq> {..<length (h_records h)}"
  by (auto simp: run_records_def)

lemma run_records_same:
  "run_records h ns \<Longrightarrow> length (h_records h) \<le> length (h_records h') \<Longrightarrow>
   (\<And>n. n < length (h_records h) \<Longrightarrow> desc h' n = desc h n) \<Longrightarrow> set ms \<subseteq> set ns \<Longrightarrow> run_records h' ms"
  by (fastforce simp: run_records_def)

lemma remove_live_simps [simp]:
  "h_records (remove_live ns h) = h_records h" "h_disposals (remove_live ns h) = h_disposals h"
  "h_descriptors (remove_live ns h) = h_descriptors h" "h_process (remove_live ns h) = h_process h"
  "h_sessions (remove_live ns h) = h_sessions h" "h_rollbacks (remove_live ns h) = h_rollbacks h"
  "h_live (remove_live ns h) = filter (\<lambda>n. n \<notin> set ns) (h_live h)" "h_script (remove_live ns h) = h_script h"
  "h_schema (remove_live ns h) = h_schema h" "h_closed (remove_live ns h) = h_closed h"
  by (simp_all add: remove_live_def)

lemma dispose_activation_good:
  assumes "dispose_activation a h = ((r, a'), h')" "host_good h" "run_records h (a_run a)"
  shows "host_good h' \<and> length (h_records h') = length (h_records h) \<and> desc h' = desc h
    \<and> h_descriptors h' = h_descriptors h \<and> set (a_run a') \<subseteq> set (a_run a)"
proof (cases "a_disposed a")
  case True
  with assms show ?thesis by (simp add: dispose_activation_def)
next
  case False
  obtain es c h1 where run: "dispose_records (rev (a_run a)) h = ((es, c), h1)" by (metis prod.exhaust)
  note bound = run_records_bound [OF assms(3)]
  note frame = dispose_frame [OF run bound]
  from False run assms(1) have h': "h' = remove_live (completed h1 (a_run a)) h1"
    and a': "a_run a' = remaining h1 (a_run a)"
    by (auto simp: dispose_activation_def Let_def)
  have runs: "scope_of (desc h n) = RUN" if "n \<in> set (rev (a_run a))" for n
    using assms(3) that by (auto simp: run_records_def)
  have "host_good h'"
    by (rule host_good_after [OF assms(2) run bound])
      (use frame runs run_not_cached [OF assms(2)] rollbacks_run [OF assms(2)] in \<open>auto simp: h'\<close>)
  then show ?thesis using frame by (simp add: h' a' remaining_def same_records(1) [of "remove_live _ _"])
qed

lemma pending_in: "n \<in> set (pending_of h k) \<Longrightarrow> \<exists>ns. (k, ns) \<in> set (h_rollbacks h) \<and> n \<in> set ns"
  by (cases "map_of (h_rollbacks h) k") (auto simp: pending_of_def dest: map_of_SomeD)

lemma set_session_simps [simp]:
  "h_records (set_session k c h) = h_records h" "h_disposals (set_session k c h) = h_disposals h"
  "h_descriptors (set_session k c h) = h_descriptors h" "h_process (set_session k c h) = h_process h"
  "h_rollbacks (set_session k c h) = h_rollbacks h" "h_live (set_session k c h) = h_live h"
  "h_script (set_session k c h) = h_script h" "h_schema (set_session k c h) = h_schema h"
  "h_closed (set_session k c h) = h_closed h"
  by (simp_all add: set_session_def)

lemma set_session_sub:
  assumes "(k, b) \<in> set (h_sessions h)" "sub_dict c b"
  shows "sub_sessions (h_sessions (set_session k c h)) (h_sessions h)"
  using sub_sessions_update [OF assms] by (simp add: set_session_def sub_sessions_delete)

lemma set_session_entry:
  assumes "(k', c') \<in> set (h_sessions (set_session k c h))" "distinct (keys (h_sessions h))"
  shows "k' = k \<and> c' = c \<or> k' \<noteq> k \<and> (k', c') \<in> set (h_sessions h)"
proof (cases "c = []")
  case True
  with assms show ?thesis by (auto simp: set_session_def AList.delete_eq)
next
  case False
  with assms(1) have "(k', c') \<in> set (AList.update k c (h_sessions h))" by (simp add: set_session_def)
  moreover from this have "map_of (AList.update k c (h_sessions h)) k' = Some c'"
    using map_of_eq_Some_iff [OF distinct_update [OF assms(2)]] by simp
  ultimately show ?thesis using update_entries [of k' c' k c "h_sessions h"] by (auto simp: map_of_update split: if_splits)
qed

lemma delete_member:
  assumes "distinct (keys c)" "(i, n) \<in> set (AList.delete j c)"
  shows "(i, n) \<in> set c \<and> i \<noteq> j"
  using assms(2) by (auto simp: AList.delete_eq)

lemma forget_fold:
  assumes "distinct (keys c)"
  shows "sub_dict (foldl (\<lambda>c n. if D n \<and> map_of c (P n) = Some n then AList.delete (P n) c else c) c ns) c
    \<and> (\<forall>(i, n)\<in>set (foldl (\<lambda>c n. if D n \<and> map_of c (P n) = Some n then AList.delete (P n) c else c) c ns).
         n \<in> set ns \<longrightarrow> D n \<longrightarrow> P n \<noteq> i)"
  using assms
proof (induction ns arbitrary: c)
  case (Cons m ns)
  define c1 where "c1 = (if D m \<and> map_of c (P m) = Some m then AList.delete (P m) c else c)"
  have c1: "sub_dict c1 c" "distinct (keys c1)"
    using sub_dict_delete [of "P m" c] Cons.prems by (auto simp: c1_def sub_dict_def)
  define c2 where "c2 = foldl (\<lambda>c n. if D n \<and> map_of c (P n) = Some n then AList.delete (P n) c else c) c1 ns"
  note later = Cons.IH [OF c1(2), folded c2_def]
  have IH: "sub_dict c2 c1" "\<And>i n. (i, n) \<in> set c2 \<Longrightarrow> n \<in> set ns \<Longrightarrow> D n \<Longrightarrow> P n \<noteq> i"
    using later by (blast, fastforce)
  have first: "P m \<noteq> i" if "(i, m) \<in> set c2" "D m" for i
  proof
    assume i: "P m = i"
    from that(1) IH(1) have mem: "(P m, m) \<in> set c1" by (auto simp: sub_dict_def i)
    then have "(P m, m) \<in> set c" using c1(1) by (auto simp: sub_dict_def)
    then have "map_of c (P m) = Some m" using Cons.prems by simp
    with that(2) have "c1 = AList.delete (P m) c" by (simp add: c1_def)
    with mem delete_member [OF Cons.prems] show False by blast
  qed
  have "foldl (\<lambda>c n. if D n \<and> map_of c (P n) = Some n then AList.delete (P n) c else c) c (m # ns) = c2"
    by (simp add: c1_def c2_def)
  moreover have "\<forall>(i, n)\<in>set c2. n \<in> set (m # ns) \<longrightarrow> D n \<longrightarrow> P n \<noteq> i"
    using first IH(2) by auto
  ultimately show ?case using sub_dict_trans [OF IH(1) c1(1)] by simp
qed simp

lemma add_closing_simps [simp]:
  "h_records (add_closing k h) = h_records h" "h_disposals (add_closing k h) = h_disposals h"
  "h_descriptors (add_closing k h) = h_descriptors h" "h_process (add_closing k h) = h_process h"
  "h_rollbacks (add_closing k h) = h_rollbacks h" "h_live (add_closing k h) = h_live h"
  "h_script (add_closing k h) = h_script h" "h_schema (add_closing k h) = h_schema h"
  "h_sessions (add_closing k h) = h_sessions h" "h_closed (add_closing k h) = h_closed h"
  by (simp_all add: add_closing_def)

text \<open>Releasing what failed activations left to the session.\<close>

lemma dispose_pending_good:
  assumes good: "host_good h" and run: "dispose_records (rev (pending_of h k)) h = ((es, c), h1)"
    and h2: "h2 = remove_live (completed h1 (pending_of h k)) (h1\<lparr>h_rollbacks := rs\<rparr>)"
    and rs: "rs = (if remaining h1 (pending_of h k) = [] then AList.delete k (h_rollbacks h1)
      else AList.update k (remaining h1 (pending_of h k)) (h_rollbacks h1))"
  shows "host_good h2 \<and> length (h_records h2) = length (h_records h) \<and> desc h2 = desc h
    \<and> h_descriptors h2 = h_descriptors h \<and> h_sessions h2 = h_sessions h"
proof -
  have pend: "n < length (h_records h) \<and> scope_of (desc h n) = RUN" if "n \<in> set (pending_of h k)" for n
    using pending_in [OF that] rollbacks_run [OF good] by blast
  then have bound: "set (rev (pending_of h k)) \<subseteq> {..<length (h_records h)}" by auto
  note frame = dispose_frame [OF run bound]
  have rolls: "n < length (h_records h) \<and> scope_of (desc h n) = RUN" if "(k', ns) \<in> set rs" "n \<in> set ns" for k' ns n
  proof -
    have "n \<in> set (pending_of h k) \<or> (k', ns) \<in> set (h_rollbacks h)"
      using that update_entries [of k' ns k "remaining h1 (pending_of h k)" "h_rollbacks h"]
      by (auto simp: rs frame AList.delete_eq remaining_def split: if_splits)
    then show ?thesis using pend rollbacks_run [OF good] that(2) by blast
  qed
  have "host_good h2"
    by (rule host_good_after [OF good run bound])
      (use frame pend run_not_cached [OF good] rolls in \<open>auto simp: h2\<close>)
  then show ?thesis using frame by (simp add: h2 same_records(1) [of "remove_live _ _" h1])
qed

text \<open>Releasing the session's own instances.\<close>

lemma session_cache_entry: "i \<in> set (session_cache h (Some k)) \<Longrightarrow> (k, session_cache h (Some k)) \<in> set (h_sessions h)"
  by (cases "map_of (h_sessions h) k") (auto simp: session_cache_def dest: map_of_SomeD)

lemma forget_session_good:
  assumes good: "host_good h" and h0: "h_records h0 = h_records h" "h_disposals h0 = h_disposals h"
      "h_sessions h0 = h_sessions h" "h_process h0 = h_process h" "h_rollbacks h0 = h_rollbacks h"
      "h_live h0 = h_live h" "h_descriptors h0 = h_descriptors h"
    and owned: "owned = map snd (session_cache h (Some k))"
    and run: "dispose_records (rev owned) h0 = ((es, c), h1)"
    and h': "h_records h' = h_records h1" "h_disposals h' = h_disposals h1" "h_descriptors h' = h_descriptors h1"
      "h_live h' = filter (\<lambda>n. n \<notin> set (completed h1 owned)) (h_live h1)" "h_process h' = h_process h1"
      "h_rollbacks h' = h_rollbacks h1" "h_sessions h' = h_sessions (forget_session k owned h1)"
  shows "host_good h' \<and> length (h_records h') = length (h_records h) \<and> desc h' = desc h
    \<and> h_descriptors h' = h_descriptors h"
proof -
  from good have distinct: "distinct (keys (h_sessions h))" by (simp add: host_good_def)
  define b where "b = session_cache h (Some k)"
  have own: "n < length (h_records h) \<and> scope_of (desc h n) = SESSION \<and> (k, b) \<in> set (h_sessions h)
      \<and> (pid (desc h n), n) \<in> set b" if "n \<in> set owned" for n
  proof -
    from that obtain i where i: "(i, n) \<in> set b" by (auto simp: owned b_def)
    then have kb: "(k, b) \<in> set (h_sessions h)" using session_cache_entry by (simp add: b_def)
    with good have "cache_good h SESSION b" by (auto simp: host_good_def)
    with i kb show ?thesis by (auto simp: cache_good_def)
  qed
  then have bound: "set (rev owned) \<subseteq> {..<length (h_records h0)}" by (auto simp: h0)
  note frame = dispose_frame [OF run bound]
  have desc: "desc h1 = desc h" using frame same_records(1) [OF h0(1)] by simp
  define D where "D = (\<lambda>n. disposed h1 n)"
  define P where "P = (\<lambda>n. pid (desc h n))"
  define b' where "b' = foldl (\<lambda>c n. if D n \<and> map_of c (P n) = Some n then AList.delete (P n) c else c) b owned"
  have forget: "h_sessions (forget_session k owned h1) = h_sessions (if (\<exists>x. map_of (h_sessions h) k = Some x) then set_session k b' h1 else h1)"
  proof (cases "map_of (h_sessions h) k")
    case (Some x)
    then have "x = b" by (simp add: b_def session_cache_def)
    moreover have "pid (ir_descriptor (rec_of h1 n)) = P n" for n
      using desc by (simp add: P_def rec_of_def desc_def fun_eq_iff)
    ultimately show ?thesis using Some
      by (simp add: forget_session_def frame h0 b'_def D_def Let_def)
  qed (simp add: forget_session_def frame h0)
  have "distinct (keys b)"
  proof (cases "b = []")
    case False
    then have "(k, b) \<in> set (h_sessions h)" using session_cache_entry [of "hd b" h k] by (simp add: b_def)
    with good have "cache_good h SESSION b" by (auto simp: host_good_def)
    then show ?thesis by (simp add: cache_good_def)
  qed simp
  note fold = forget_fold [OF this, of D P owned, folded b'_def]
  have sub: "sub_sessions (h_sessions h') (h_sessions h)"
  proof (cases "map_of (h_sessions h) k")
    case (Some x)
    then have "(k, b) \<in> set (h_sessions h)" by (simp add: b_def session_cache_def map_of_SomeD)
    with fold set_session_sub [of k b h1 b'] show ?thesis using Some by (simp add: h' forget frame h0)
  qed (simp add: h' forget frame h0)
  have gone: False if kc: "(k', c') \<in> set (h_sessions h')" "(i, n) \<in> set c'" "n \<in> set (rev owned)" "disposed h1 n"
    for k' c' i n
  proof -
    have n: "n \<in> set owned" using kc(3) by simp
    note o = own [OF n]
    have "\<exists>x. map_of (h_sessions h) k = Some x" using o distinct by auto
    with kc(1) have "(k', c') \<in> set (h_sessions (set_session k b' h1))" by (simp add: h' forget)
    from set_session_entry [OF this] distinct frame h0
    have "k' = k \<and> c' = b' \<or> k' \<noteq> k \<and> (k', c') \<in> set (h_sessions h)" by simp
    then show False
    proof
      assume "k' = k \<and> c' = b'"
      with kc(2) have "(i, n) \<in> set b'" by simp
      moreover from this have "(i, n) \<in> set b" using fold by (auto simp: sub_dict_def)
      then have "P n = i" using good o by (fastforce simp: host_good_def cache_good_def P_def)
      ultimately show False using fold n kc(4) by (auto simp: D_def)
    next
      assume other: "k' \<noteq> k \<and> (k', c') \<in> set (h_sessions h)"
      have "snd ` set b \<inter> snd ` set c' = {}" if "(k, b) \<in> set (h_sessions h)"
        using good other that unfolding host_good_def by blast
      with o kc(2) show False by force
    qed
  qed
  have "host_good h'"
  proof (rule host_good_after [OF good run _ h0(1,2)])
    show "set (rev owned) \<subseteq> {..<length (h_records h)}" using bound h0 by simp
    show "h_live h' = filter (\<lambda>n. n \<notin> set (completed h1 owned)) (h_live h)" by (simp add: h' frame h0)
    show "n \<in> set (rev owned) \<Longrightarrow> (i, n) \<in> set (h_process h') \<Longrightarrow> disposed h1 n \<Longrightarrow> False" for i n
      using own cached_alive(1) [OF good, of i n] by (auto simp: h' frame h0)
    show "(k, ns) \<in> set (h_rollbacks h') \<Longrightarrow> n \<in> set ns \<Longrightarrow>
        n < length (h_records h) \<and> scope_of (desc h n) = RUN" for k ns n
      using rollbacks_run [OF good] by (simp add: h' frame h0)
  qed (use gone sub in \<open>auto simp: h' frame h0\<close>)
  then show ?thesis using frame desc by (simp add: h' h0 same_records(1) [OF h'(1)])
qed

lemma forget_session_simps [simp]:
  "h_records (forget_session k ns h) = h_records h" "h_disposals (forget_session k ns h) = h_disposals h"
  "h_descriptors (forget_session k ns h) = h_descriptors h" "h_process (forget_session k ns h) = h_process h"
  "h_rollbacks (forget_session k ns h) = h_rollbacks h" "h_live (forget_session k ns h) = h_live h"
  by (simp_all add: forget_session_def split: option.split)

definition keeps_store :: "host \<Rightarrow> host \<Rightarrow> bool" where
  "keeps_store h h' = (length (h_records h) \<le> length (h_records h') \<and> h_descriptors h' = h_descriptors h
     \<and> (\<forall>n<length (h_records h). desc h' n = desc h n))"

lemma keeps_store_refl [simp]: "keeps_store h h"
  by (simp add: keeps_store_def)

lemma keeps_store_trans: "keeps_store a b \<Longrightarrow> keeps_store b c \<Longrightarrow> keeps_store a c"
  by (auto simp: keeps_store_def)

lemma dispose_owned_good:
  assumes "dispose_owned k h = ((e, c), h')" "host_good h"
  shows "host_good h' \<and> length (h_records h') = length (h_records h) \<and> desc h' = desc h
    \<and> h_descriptors h' = h_descriptors h"
proof -
  define owned where "owned = map snd (session_cache h (Some k))"
  define h0 where "h0 = (if owned = [] then h else add_closing k h)"
  obtain es cs h1 where run: "dispose_records (rev owned) h0 = ((es, cs), h1)" by (metis prod.exhaust)
  define h2 where "h2 = forget_session k owned h1"
  define h3 where "h3 = (if k \<in> set (keys (h_sessions h2)) then h2 else h2\<lparr>h_closing := remove1 k (h_closing h2)\<rparr>)"
  have h': "h' = remove_live (completed h1 owned) h3"
    using assms(1) unfolding dispose_owned_def Let_def owned_def [symmetric] h0_def [symmetric] run prod.case
      h2_def [symmetric] h3_def [symmetric] by simp
  show ?thesis
    by (rule forget_session_good [OF assms(2) _ _ _ _ _ _ _ owned_def run]) (simp_all add: h0_def h' h3_def h2_def)
qed

lemma dispose_session_good:
  assumes "dispose_session k h = (r, h')" "host_good h"
  shows "host_good h' \<and> keeps_store h h'"
proof -
  obtain e1 c1 h1 where one: "dispose_pending k h = ((e1, c1), h1)" by (metis prod.exhaust)
  then have first: "host_good h1 \<and> length (h_records h1) = length (h_records h) \<and> desc h1 = desc h
      \<and> h_descriptors h1 = h_descriptors h"
  proof -
    obtain es cs h0 where run: "dispose_records (rev (pending_of h k)) h = ((es, cs), h0)" by (metis prod.exhaust)
    then show ?thesis
      using one dispose_pending_good [OF assms(2) run refl refl] by (simp add: dispose_pending_def Let_def)
  qed
  obtain e2 c2 h2 where two: "dispose_owned k h1 = ((e2, c2), h2)" by (metis prod.exhaust)
  have "h' = h1 \<or> h' = h2" using assms(1) one two by (auto simp: dispose_session_def split: if_splits)
  with first dispose_owned_good [OF two] show ?thesis by (auto simp: keeps_store_def)
qed

lemma drop_session_entry:
  "(k, c) \<in> set (filter P (map (\<lambda>(k, c). (k, drop_cached ns c)) ss)) \<Longrightarrow> (i, n) \<in> set c \<Longrightarrow> n \<notin> set ns"
  by (auto simp: drop_cached_def)

lemma drop_all_simps [simp]:
  "h_records (remove_from_all_caches ns h) = h_records h" "h_disposals (remove_from_all_caches ns h) = h_disposals h"
  "h_descriptors (remove_from_all_caches ns h) = h_descriptors h" "h_live (remove_from_all_caches ns h) = h_live h"
  "h_process (remove_from_all_caches ns h) = drop_cached ns (h_process h)"
  "h_sessions (remove_from_all_caches ns h) = (if ns = [] then h_sessions h
     else filter (\<lambda>e. snd e \<noteq> []) (map (\<lambda>(k, c). (k, drop_cached ns c)) (h_sessions h)))"
  "h_rollbacks (remove_from_all_caches ns h) = (if ns = [] then h_rollbacks h else drop_from_rollbacks ns (h_rollbacks h))"
  "h_closed (remove_from_all_caches ns h) = h_closed h"
  by (simp_all add: remove_from_all_caches_def Let_def drop_cached_def)

lemma drop_sessions_sub: "sub_sessions (filter P (map (\<lambda>(k, c). (k, drop_cached ns c)) ss)) ss"
  unfolding drop_cached_def by (rule sub_sessions_filter)

lemma drop_rollback_entry:
  "(k, ms) \<in> set (drop_from_rollbacks ns rs) \<Longrightarrow> n \<in> set ms \<Longrightarrow> \<exists>ms'. (k, ms') \<in> set rs \<and> n \<in> set ms'"
  by (auto simp: drop_from_rollbacks_def)

lemma close_host_good:
  assumes "close_host h = (r, h')" "host_good h"
  shows "host_good h' \<and> keeps_store h h'"
proof (cases "h_closed h \<and> h_live h = []")
  case True
  with assms show ?thesis by (simp add: close_host_def)
next
  case False
  define h0 where "h0 = h\<lparr>h_closed := True\<rparr>"
  obtain es c h1 where run: "dispose_records (rev (h_live h)) h0 = ((es, c), h1)" by (metis prod.exhaust)
  define finished where "finished = completed h1 (h_live h)"
  have h': "h' = remove_live finished (remove_from_all_caches finished h1)"
    using assms(1) False run by (auto simp: close_host_def Let_def h0_def finished_def)
  have live: "h_live h = filter (\<lambda>n. \<not> disposed h n) [0..<length (h_records h)]"
    using assms(2) by (simp add: host_good_def)
  then have bound: "set (rev (h_live h)) \<subseteq> {..<length (h_records h)}" by auto
  then have bound0: "set (rev (h_live h)) \<subseteq> {..<length (h_records h0)}" by (simp add: h0_def)
  note frame = dispose_frame [OF run bound0]
  have finished: "n \<in> set finished" if "n \<in> set (rev (h_live h))" "disposed h1 n" for n
    using that by (simp add: finished_def completed_def)
  define p where "p = h_process h'"
  define ss where "ss = h_sessions h'"
  define rs where "rs = h_rollbacks h'"
  have p: "sub_dict p (h_process h)" "\<And>i n. (i, n) \<in> set p \<Longrightarrow> n \<notin> set finished"
    by (auto simp: p_def h' frame h0_def drop_cached_def sub_dict_filter)
  have ss: "sub_sessions ss (h_sessions h)" "\<And>k c i n. (k, c) \<in> set ss \<Longrightarrow> (i, n) \<in> set c \<Longrightarrow> n \<notin> set finished"
    using drop_session_entry [of _ _ _ finished "h_sessions h"]
    by (auto simp: ss_def h' frame h0_def drop_sessions_sub split: if_splits)
  have rs: "n < length (h_records h) \<and> scope_of (desc h n) = RUN" if "(k, ns) \<in> set rs" "n \<in> set ns" for k ns n
  proof -
    have "\<exists>ms. (k, ms) \<in> set (h_rollbacks h) \<and> n \<in> set ms"
      using that drop_rollback_entry [of k ns finished "h_rollbacks h" n]
      by (auto simp: rs_def h' frame h0_def split: if_splits)
    then show ?thesis using rollbacks_run [OF assms(2)] by blast
  qed
  have store: "h_records h' = h_records h1" "h_disposals h' = h_disposals h1" "h_descriptors h' = h_descriptors h"
    "h_live h' = filter (\<lambda>n. n \<notin> set finished) (h_live h)"
    by (simp_all add: h' frame) (simp_all add: h0_def)
  have "host_good h'"
  proof (rule host_good_after [OF assms(2) run bound _ _ store(1-3)])
    show "h_live h' = filter (\<lambda>n. n \<notin> set (completed h1 (h_live h))) (h_live h)" using store(4) by (simp add: finished_def)
    show "sub_dict (h_process h') (h_process h)" "sub_sessions (h_sessions h') (h_sessions h)"
      using p(1) ss(1) by (simp_all add: p_def ss_def)
    show False if "(i, n) \<in> set (h_process h')" "n \<in> set (rev (h_live h))" "disposed h1 n" for i n
      using p(2) [unfolded p_def, OF that(1)] finished [OF that(2,3)] by blast
    show False if "(k, c) \<in> set (h_sessions h')" "(i, n) \<in> set c" "n \<in> set (rev (h_live h))" "disposed h1 n" for k c i n
      using ss(2) [unfolded ss_def, OF that(1,2)] finished [OF that(3,4)] by blast
    show "n < length (h_records h) \<and> scope_of (desc h n) = RUN" if "(k, ns) \<in> set (h_rollbacks h')" "n \<in> set ns" for k ns n
      using rs [unfolded rs_def, OF that] .
  qed (simp_all add: h0_def)
  moreover have "desc h' = desc h" using frame store(1) same_records(1) [of h' h1] same_records(1) [of h0 h]
    by (simp add: h0_def)
  ultimately show ?thesis using store frame by (simp add: keeps_store_def h0_def)
qed

subsection \<open>Activation keeps the invariant\<close>

text \<open>An operation that only drops cache entries.\<close>

definition forgets :: "host \<Rightarrow> host \<Rightarrow> bool" where
  "forgets h h' = (h' = h\<lparr>h_process := h_process h', h_sessions := h_sessions h'\<rparr>
     \<and> sub_dict (h_process h') (h_process h) \<and> sub_sessions (h_sessions h') (h_sessions h))"

lemma forgets_refl [simp]: "forgets h h"
  by (simp add: forgets_def)

lemma forgets_trans: "forgets a b \<Longrightarrow> forgets b c \<Longrightarrow> forgets a c"
  unfolding forgets_def by (cases a; cases b; cases c) (auto intro: sub_dict_trans sub_sessions_trans)

lemma forgets_fields:
  assumes "forgets h h'"
  shows "h_records h' = h_records h" "h_disposals h' = h_disposals h" "h_descriptors h' = h_descriptors h"
    "h_rollbacks h' = h_rollbacks h" "h_live h' = h_live h" "h_script h' = h_script h" "h_closing h' = h_closing h"
  using assms unfolding forgets_def by (cases h; cases h'; simp)+

definition caches_named :: "host \<Rightarrow> bool" where
  "caches_named h = (distinct (keys (h_process h)) \<and> (\<forall>(i, n)\<in>set (h_process h). pid (desc h n) = i)
     \<and> distinct (keys (h_sessions h))
     \<and> (\<forall>(k, c)\<in>set (h_sessions h). distinct (keys c) \<and> (\<forall>(i, n)\<in>set c. pid (desc h n) = i)))"

lemma host_good_named: "host_good h \<Longrightarrow> caches_named h"
  by (fastforce simp: host_good_def caches_named_def cache_good_def)

lemma forgets_named:
  assumes "forgets h h'" "caches_named h"
  shows "caches_named h'"
proof -
  have desc: "desc h' = desc h" using forgets_fields(1) [OF assms(1)] by (rule same_records(1))
  have sub: "sub_dict (h_process h') (h_process h)" "sub_sessions (h_sessions h') (h_sessions h)"
    using assms(1) by (simp_all add: forgets_def)
  have "distinct (keys c) \<and> (\<forall>(i, n)\<in>set c. pid (desc h n) = i)" if "(k, c) \<in> set (h_sessions h')" for k c
  proof -
    from that sub(2) obtain b where "(k, b) \<in> set (h_sessions h)" "sub_dict c b" unfolding sub_sessions_def by blast
    with assms(2) show ?thesis by (fastforce simp: caches_named_def sub_dict_def)
  qed
  moreover have "distinct (keys (h_process h'))" "\<forall>(i, n)\<in>set (h_process h'). pid (desc h n) = i"
    using sub(1) assms(2) by (auto simp: caches_named_def sub_dict_def)
  moreover have "distinct (keys (h_sessions h'))" using sub(2) assms(2) by (simp add: caches_named_def sub_sessions_def)
  ultimately show ?thesis unfolding caches_named_def desc by blast
qed

text \<open>The record is no longer cached, in the process cache or in the session given.\<close>

definition uncached :: "string option \<Rightarrow> nat \<Rightarrow> host \<Rightarrow> bool" where
  "uncached key n h = ((scope_of (desc h n) = PROCESS \<longrightarrow> n \<notin> snd ` set (h_process h))
     \<and> (scope_of (desc h n) = SESSION \<longrightarrow> (\<forall>k c. key = Some k \<longrightarrow> (k, c) \<in> set (h_sessions h) \<longrightarrow> n \<notin> snd ` set c)))"

lemma forgets_uncached:
  assumes "forgets h h'" "uncached key n h"
  shows "uncached key n h'"
proof -
  have desc: "desc h' = desc h" using forgets_fields(1) [OF assms(1)] by (rule same_records(1))
  have sub: "sub_dict (h_process h') (h_process h)" "sub_sessions (h_sessions h') (h_sessions h)"
    using assms(1) by (simp_all add: forgets_def)
  show ?thesis unfolding uncached_def desc
  proof (intro conjI allI impI)
    assume "scope_of (desc h n) = PROCESS"
    then show "n \<notin> snd ` set (h_process h')" using assms(2) sub(1) by (auto simp: uncached_def sub_dict_def)
  next
    fix k c assume kc: "scope_of (desc h n) = SESSION" "key = Some k" "(k, c) \<in> set (h_sessions h')"
    from kc(3) sub(2) obtain b where "(k, b) \<in> set (h_sessions h)" "sub_dict c b" unfolding sub_sessions_def by blast
    with kc assms(2) show "n \<notin> snd ` set c" by (auto simp: uncached_def sub_dict_def)
  qed
qed

lemma remove_cached_one_forgets:
  "forgets h (remove_cached_one key n h)"
proof -
  have "forgets h (set_session k (AList.delete i c) h)" if "map_of (h_sessions h) k = Some c" for k c i
    using set_session_sub [OF map_of_SomeD [OF that] sub_dict_delete] by (simp add: forgets_def set_session_def)
  then show ?thesis
    by (auto simp: remove_cached_one_def Let_def forgets_def sub_dict_delete split: pscope.split option.split)
qed

lemma entry_unique:
  assumes "\<forall>(i, m)\<in>set c. pid (desc h m) = i" "(i, n) \<in> set c" "distinct (keys c)"
  shows "map_of c (pid (desc h n)) = Some n"
  using assms by auto

lemma remove_cached_one_uncached:
  assumes "caches_named h"
  shows "uncached key n (remove_cached_one key n h)"
proof (cases "scope_of (desc h n)")
  case PROCESS
  let ?i = "pid (desc h n)"
  have p: "h_process (remove_cached_one key n h)
      = (if map_of (h_process h) ?i = Some n then AList.delete ?i (h_process h) else h_process h)"
    using PROCESS by (simp add: remove_cached_one_def scope_at_def desc_def rec_of_def)
  have d: "desc (remove_cached_one key n h) = desc h"
    using forgets_fields(1) [OF remove_cached_one_forgets] by (rule same_records(1))
  have "n \<notin> snd ` set (h_process (remove_cached_one key n h))"
  proof
    assume "n \<in> snd ` set (h_process (remove_cached_one key n h))"
    then obtain i where i: "(i, n) \<in> set (h_process (remove_cached_one key n h))" by force
    then have "(i, n) \<in> set (h_process h)" using p by (auto simp: AList.delete_eq split: if_splits)
    then have "map_of (h_process h) ?i = Some n" "i = ?i"
      using assms entry_unique [of "h_process h" h i n] by (auto simp: caches_named_def)
    with p i show False by (simp add: AList.delete_eq)
  qed
  then show ?thesis using PROCESS by (simp add: uncached_def d)
next
  case SESSION
  have d: "desc (remove_cached_one key n h) = desc h"
    using forgets_fields(1) [OF remove_cached_one_forgets] by (rule same_records(1))
  let ?i = "pid (desc h n)"
  have "n \<notin> snd ` set c'" if key: "key = Some k" and c': "(k, c') \<in> set (h_sessions (remove_cached_one key n h))" for k c'
  proof
    assume "n \<in> snd ` set c'"
    then obtain i where i: "(i, n) \<in> set c'" by force
    have dist: "distinct (keys (h_sessions h))" using assms by (simp add: caches_named_def)
    obtain c where c: "(k, c) \<in> set (h_sessions h)" "sub_dict c' c"
      using remove_cached_one_forgets [of h key n] c' unfolding forgets_def sub_sessions_def by blast
    with assms have "distinct (keys c)" "\<forall>(i, m)\<in>set c. pid (desc h m) = i" by (auto simp: caches_named_def)
    moreover have "(i, n) \<in> set c" using c(2) i by (auto simp: sub_dict_def)
    ultimately have m: "map_of c ?i = Some n" "i = ?i" using entry_unique [of c h i n] by auto
    have "map_of (h_sessions h) k = Some c" using c(1) dist by simp
    then have "remove_cached_one key n h = set_session k (AList.delete ?i c) h"
      using SESSION key m(1) by (simp add: remove_cached_one_def scope_at_def desc_def rec_of_def)
    with c' set_session_entry [OF _ dist, of k c' k "AList.delete ?i c"] have "c' = AList.delete ?i c" by simp
    with i m(2) show False by (simp add: AList.delete_eq)
  qed
  then show ?thesis using SESSION by (simp add: uncached_def d)
next
  case RUN
  have d: "desc (remove_cached_one key n h) = desc h"
    using forgets_fields(1) [OF remove_cached_one_forgets] by (rule same_records(1))
  from RUN show ?thesis by (simp add: uncached_def d)
qed

lemma remove_cached_spec:
  "caches_named h \<Longrightarrow> forgets h (remove_cached key ns h) \<and> (\<forall>n\<in>set ns. uncached key n (remove_cached key ns h))"
proof (induction ns arbitrary: h)
  case (Cons n ns)
  let ?h1 = "remove_cached_one key n h"
  have step: "remove_cached key (n # ns) h = remove_cached key ns ?h1" by (simp add: remove_cached_def)
  have one: "forgets h ?h1" by (rule remove_cached_one_forgets)
  note IH = Cons.IH [OF forgets_named [OF one Cons.prems]]
  show ?case unfolding step using IH forgets_trans [OF one] forgets_uncached [of ?h1 "remove_cached key ns ?h1" key n]
      remove_cached_one_uncached [OF Cons.prems] by auto
qed (simp add: remove_cached_def)

lemma host_good_cong:
  assumes "h_records h' = h_records h" "h_disposals h' = h_disposals h" "h_live h' = h_live h"
    "h_process h' = h_process h" "h_sessions h' = h_sessions h" "h_rollbacks h' = h_rollbacks h"
    "h_descriptors h' = h_descriptors h"
  shows "host_good h' = host_good h"
  using assms same_records [OF assms(1)] same_log [OF assms(1,2)]
  by (simp add: host_good_def cache_good_def)

lemma retain_simps [simp]:
  "h_records (retain_run_rollback key ns h) = h_records h" "h_disposals (retain_run_rollback key ns h) = h_disposals h"
  "h_descriptors (retain_run_rollback key ns h) = h_descriptors h" "h_live (retain_run_rollback key ns h) = h_live h"
  "h_process (retain_run_rollback key ns h) = h_process h" "h_sessions (retain_run_rollback key ns h) = h_sessions h"
  "h_script (retain_run_rollback key ns h) = h_script h"
  by (simp_all add: retain_run_rollback_def Let_def split: option.split)

lemma retain_good:
  assumes "host_good h"
  shows "host_good (retain_run_rollback key ns h)"
proof (rule host_good_shrink [OF assms])
  let ?h = "retain_run_rollback key ns h"
  have same: "desc ?h = desc h" "disposed ?h = disposed h" by (rule same_records, simp)+
  show "h_live ?h = filter (\<lambda>n. \<not> disposed ?h n) (h_live h)"
    using assms same by (simp add: host_good_def)
  show "n < length (h_records h) \<and> scope_of (desc h n) = RUN"
    if r: "(k, ms) \<in> set (h_rollbacks ?h)" "n \<in> set ms" for k ms n
  proof (cases "(k, ms) \<in> set (h_rollbacks h)")
    case True
    then show ?thesis using rollbacks_run [OF assms] r(2) by blast
  next
    case False
    let ?known = "\<lambda>k. pending_of h k @ filter (\<lambda>n. scope_at h n = RUN \<and> \<not> disposed h n) ns"
    from False r(1) obtain k' where
      "(k, ms) \<in> set (AList.update k' (filter (\<lambda>n. n \<in> set (?known k')) (h_live h)) (h_rollbacks h))"
      by (auto simp: retain_run_rollback_def Let_def split: option.splits if_splits)
    then have "ms = filter (\<lambda>n. n \<in> set (?known k')) (h_live h)" using update_entries False by metis
    with r(2) have n: "n \<in> set (h_live h)" "n \<in> set (?known k')" by auto
    from n(1) assms have "n < length (h_records h)" by (auto simp: host_good_def)
    moreover have "scope_of (desc h n) = RUN"
    proof (cases "n \<in> set (pending_of h k')")
      case True
      then show ?thesis using pending_in rollbacks_run [OF assms] by blast
    next
      case False
      with n(2) show ?thesis by (simp add: scope_at_def desc_def)
    qed
    ultimately show ?thesis ..
  qed
  show "\<not> disposed ?h n" if "(i, n) \<in> set (h_process ?h)" for i n
    using that cached_alive(1) [OF assms] same by simp
  show "\<not> disposed ?h n" if "(k, c) \<in> set (h_sessions ?h)" "(i, n) \<in> set c" for k c i n
    using that cached_alive(2) [OF assms] same by simp
  have "log_good h" using assms by (simp add: host_good_def)
  then show "log_good ?h" by (subst same_log [of _ h]) simp_all
qed (simp_all add: desc_def disposed_def)

text \<open>The records an activation created: its session-scoped ones are in its own session only.\<close>

definition created_ok :: "string option \<Rightarrow> nat list \<Rightarrow> host \<Rightarrow> bool" where
  "created_ok key ns h = (\<forall>n\<in>set ns. n < length (h_records h)
     \<and> (\<forall>(k, c)\<in>set (h_sessions h). n \<in> snd ` set c \<longrightarrow> key = Some k))"

lemma roll_back_good:
  assumes "roll_back key created e h = (e', h')" "host_good h" "created_ok key created h"
  shows "host_good h' \<and> keeps_store h h'"
proof -
  define h1 where "h1 = remove_cached key created h"
  obtain es c h2 where run: "dispose_records (rev created) h1 = ((es, c), h2)" by (metis prod.exhaust)
  define h3 where "h3 = remove_live (completed h2 created) h2"
  have h': "h' = retain_run_rollback key created h3"
    using assms(1) run by (simp add: roll_back_def h1_def h3_def Let_def)
  note spec = remove_cached_spec [OF host_good_named [OF assms(2)], of key created, folded h1_def]
  then have forgets: "forgets h h1" and uncached: "\<And>n. n \<in> set created \<Longrightarrow> uncached key n h1" by blast+
  note fields = forgets_fields [OF forgets]
  have bound: "set (rev created) \<subseteq> {..<length (h_records h)}" using assms(3) by (auto simp: created_ok_def)
  then have bound1: "set (rev created) \<subseteq> {..<length (h_records h1)}" by (simp add: fields)
  note frame = dispose_frame [OF run bound1]
  have d: "desc h1 = desc h" by (rule same_records(1) [OF fields(1)])
  have sub: "sub_dict (h_process h1) (h_process h)" "sub_sessions (h_sessions h1) (h_sessions h)"
    using forgets by (simp_all add: forgets_def)
  have "host_good h3"
  proof (rule host_good_after [OF assms(2) run bound fields(1,2)])
    show "sub_dict (h_process h3) (h_process h)" "sub_sessions (h_sessions h3) (h_sessions h)"
      using sub by (simp_all add: h3_def frame)
    show False if n: "(i, n) \<in> set (h_process h3)" "n \<in> set (rev created)" "disposed h2 n" for i n
    proof -
      have p1: "(i, n) \<in> set (h_process h1)" using n(1) by (simp add: h3_def frame)
      with sub(1) have "(i, n) \<in> set (h_process h)" by (auto simp: sub_dict_def)
      then have "scope_of (desc h1 n) = PROCESS" using cached_alive(1) [OF assms(2)] d by simp
      with uncached [of n] n(2) p1 show False by (force simp: uncached_def)
    qed
    show False if n: "(k, b) \<in> set (h_sessions h3)" "(i, n) \<in> set b" "n \<in> set (rev created)" "disposed h2 n" for k b i n
    proof -
      have s1: "(k, b) \<in> set (h_sessions h1)" using n(1) by (simp add: h3_def frame)
      with sub(2) obtain b0 where b0: "(k, b0) \<in> set (h_sessions h)" "sub_dict b b0"
        unfolding sub_sessions_def by blast
      with n(2) have i: "(i, n) \<in> set b0" by (auto simp: sub_dict_def)
      then have "scope_of (desc h1 n) = SESSION" using cached_alive(2) [OF assms(2) b0(1)] d by simp
      moreover have "key = Some k" using assms(3) n(3) b0(1) i by (force simp: created_ok_def)
      ultimately show False using uncached [of n] n(2,3) s1 by (force simp: uncached_def)
    qed
    show "n < length (h_records h) \<and> scope_of (desc h n) = RUN"
      if "(k, ns) \<in> set (h_rollbacks h3)" "n \<in> set ns" for k ns n
      using that rollbacks_run [OF assms(2)] by (simp add: h3_def frame fields)
    show "h_live h3 = filter (\<lambda>n. n \<notin> set (completed h2 created)) (h_live h)"
      by (simp add: h3_def frame fields)
  qed (simp_all add: h3_def frame fields)
  then have "host_good h'" unfolding h' by (rule retain_good)
  moreover have "desc h' = desc h2" by (rule same_records(1)) (simp add: h' h3_def)
  ultimately show ?thesis using frame d by (simp add: keeps_store_def h' h3_def fields)
qed

subsection \<open>Creating instances\<close>

lemma new_record_store:
  "length (h_records (add_record d ctx h)) = Suc (length (h_records h))"
  "n < length (h_records h) \<Longrightarrow> desc (add_record d ctx h) n = desc h n"
  "n < length (h_records h) \<Longrightarrow> disposed (add_record d ctx h) n = disposed h n"
  "desc (add_record d ctx h) (length (h_records h)) = d"
  "\<not> disposed (add_record d ctx h) (length (h_records h))"
  by (simp_all add: add_record_def desc_def disposed_def nth_append)

lemma add_record_simps [simp]:
  "h_disposals (add_record d ctx h) = h_disposals h" "h_descriptors (add_record d ctx h) = h_descriptors h"
  "h_process (add_record d ctx h) = h_process h" "h_sessions (add_record d ctx h) = h_sessions h"
  "h_rollbacks (add_record d ctx h) = h_rollbacks h" "h_script (add_record d ctx h) = h_script h"
  "h_live (add_record d ctx h) = h_live h @ [length (h_records h)]"
  by (simp_all add: add_record_def)

lemma cache_good_grow:
  assumes "cache_good h s c" "length (h_records h) \<le> length (h_records h')"
    "\<And>n. n < length (h_records h) \<Longrightarrow> desc h' n = desc h n \<and> disposed h' n = disposed h n"
  shows "cache_good h' s c"
  using assms by (fastforce simp: cache_good_def)

lemma add_record_log:
  assumes "log_good h"
  shows "log_good (add_record d ctx h)"
proof -
  have fresh: "(length (h_records h), c) \<notin> set (h_disposals h)" for c
    using assms by (fastforce simp: log_good_def)
  have old: "has_disposer (add_record d ctx h) n = has_disposer h n" if "n < length (h_records h)" for n
    using that by (simp add: has_disposer_def new_record_store)
  have "disposed (add_record d ctx h) n = ((n, False) \<in> set (h_disposals h))"
    if "n < Suc (length (h_records h))" "has_disposer (add_record d ctx h) n" for n
    using assms that fresh old new_record_store(3,5)
    by (cases "n = length (h_records h)") (auto simp: log_good_def)
  moreover have "n < Suc (length (h_records h)) \<and> has_disposer (add_record d ctx h) n"
    if "(n, c) \<in> set (h_disposals h)" for n c
    using assms that old by (fastforce simp: log_good_def)
  ultimately show ?thesis using assms by (auto simp: log_good_def new_record_store(1))
qed

text \<open>A new record, cached or not: the caches given extend the old ones by it.\<close>

lemma host_good_new:
  assumes good: "host_good h" and known: "Some d \<in> set (h_descriptors h)"
    and fields: "h_records h' = h_records (add_record d ctx h)" "h_disposals h' = h_disposals h"
      "h_descriptors h' = h_descriptors h" "h_rollbacks h' = h_rollbacks h"
      "h_live h' = h_live h @ [length (h_records h)]"
    and process: "h_process h' = h_process h
      \<or> scope_of d = PROCESS \<and> h_process h' = AList.update (pid d) (length (h_records h)) (h_process h)"
    and sessions: "h_sessions h' = h_sessions h
      \<or> scope_of d = SESSION \<and> h_sessions h' = AList.update k
          (AList.update (pid d) (length (h_records h)) (session_cache h (Some k))) (h_sessions h)"
  shows "host_good h'"
proof -
  let ?n = "length (h_records h)" and ?a = "add_record d ctx h"
  have view: "desc h' = desc ?a" "disposed h' = disposed ?a" by (rule same_records [OF fields(1)])+
  have len: "length (h_records h') = Suc ?n" using fields(1) by (simp add: new_record_store)
  have old: "desc h' m = desc h m \<and> disposed h' m = disposed h m" if "m < ?n" for m
    using that by (simp add: view new_record_store)
  have new: "desc h' ?n = d" "\<not> disposed h' ?n" by (simp_all add: view new_record_store)
  have add: "cache_good h' s (AList.update (pid d) ?n c)" if "cache_good h s c" "scope_of d = s" for s c
  proof -
    have c: "cache_good h' s c" by (rule cache_good_grow [OF that(1)]) (use old len in auto)
    show ?thesis unfolding cache_good_def
    proof (intro conjI ballI)
      show "distinct (keys (AList.update (pid d) ?n c))" using that(1) by (simp add: cache_good_def distinct_update)
      fix e assume "e \<in> set (AList.update (pid d) ?n c)"
      then have "fst e = pid d \<and> snd e = ?n \<or> e \<in> set c"
        using update_entries [of "fst e" "snd e" "pid d" ?n c] by simp
      then show "case e of (i, n) \<Rightarrow> n < length (h_records h') \<and> \<not> disposed h' n \<and> scope_of (desc h' n) = s \<and> pid (desc h' n) = i"
        using c new len that(2) by (cases e) (auto simp: cache_good_def)
    qed
  qed
  have keep: "cache_good h' s c" if "cache_good h s c" for s c
    by (rule cache_good_grow [OF that]) (use old len in auto)
  have g: "cache_good h PROCESS (h_process h)" "distinct (keys (h_sessions h))"
      "\<And>k c. (k, c) \<in> set (h_sessions h) \<Longrightarrow> cache_good h SESSION c"
      "\<And>k c k' c'. (k, c) \<in> set (h_sessions h) \<Longrightarrow> (k', c') \<in> set (h_sessions h) \<Longrightarrow> k \<noteq> k' \<Longrightarrow>
         snd ` set c \<inter> snd ` set c' = {}"
      "h_live h = filter (\<lambda>n. \<not> disposed h n) [0..<?n]"
      "\<forall>n<?n. Some (desc h n) \<in> set (h_descriptors h)" "log_good h"
    using good unfolding host_good_def by blast+
  define b where "b = session_cache h (Some k)"
  have b: "cache_good h SESSION b \<and> (b \<noteq> [] \<longrightarrow> (k, b) \<in> set (h_sessions h))"
  proof (cases "b = []")
    case True
    then show ?thesis by (simp add: cache_good_def)
  next
    case False
    then have "(k, b) \<in> set (h_sessions h)" using session_cache_entry [of "hd b" h k] by (simp add: b_def)
    then show ?thesis using g(3) by blast
  qed
  have entries: "(k', c) \<in> set (h_sessions h) \<or> scope_of d = SESSION \<and> k' = k \<and> c = AList.update (pid d) ?n b"
    if "(k', c) \<in> set (h_sessions h')" for k' c
    using sessions that update_entries [of k' c k _ "h_sessions h"] by (auto simp: b_def)
  have vals: "snd ` set (AList.update (pid d) ?n b) \<subseteq> insert ?n (snd ` set b)"
    using update_entries [of _ _ "pid d" ?n b] by fastforce
  have below: "?n \<notin> snd ` set c" if "(k', c) \<in> set (h_sessions h)" for k' c
    using g(3) [OF that] by (auto simp: cache_good_def)
  have "filter (\<lambda>n. \<not> disposed h n) [0..<?n] = filter (\<lambda>n. \<not> disposed h' n) [0..<?n]"
    by (rule filter_cong) (use old in auto)
  then have "h_live h' = filter (\<lambda>n. \<not> disposed h' n) [0..<length (h_records h')]"
    unfolding fields(5) g(5) len using new(2) by simp
  moreover have "cache_good h' PROCESS (h_process h')" using process keep add g(1) by auto
  moreover have "distinct (keys (h_sessions h'))" using sessions g(2) by (auto simp: distinct_update)
  moreover have "cache_good h' SESSION c" if "(k', c) \<in> set (h_sessions h')" for k' c
    using entries [OF that] keep [OF g(3)] add [of SESSION b] b by blast
  moreover have "snd ` set c \<inter> snd ` set c' = {}"
    if kc: "(k1, c) \<in> set (h_sessions h')" "(k2, c') \<in> set (h_sessions h')" "k1 \<noteq> k2" for k1 c k2 c'
  proof -
    have mixed: "snd ` set (AList.update (pid d) ?n b) \<inter> snd ` set e = {}" if e: "(k', e) \<in> set (h_sessions h)" "k' \<noteq> k" for k' e
    proof -
      have "snd ` set b \<inter> snd ` set e = {}"
      proof (cases "b = []")
        case False
        with b have "(k, b) \<in> set (h_sessions h)" by blast
        from g(4) [OF this e(1)] e(2) show ?thesis by blast
      qed simp
      then have "insert ?n (snd ` set b) \<inter> snd ` set e = {}"
        using below [OF e(1)] by (simp only: Int_insert_left if_False)
      with Int_mono [OF vals subset_refl] show ?thesis by (metis subset_empty)
    qed
    from entries [OF kc(1)] show ?thesis
    proof
      assume old1: "(k1, c) \<in> set (h_sessions h)"
      from entries [OF kc(2)] show ?thesis
      proof
        assume "(k2, c') \<in> set (h_sessions h)"
        from g(4) [OF old1 this kc(3)] show ?thesis .
      next
        assume "scope_of d = SESSION \<and> k2 = k \<and> c' = AList.update (pid d) ?n b"
        with mixed [OF old1] kc(3) show ?thesis by blast
      qed
    next
      assume new1: "scope_of d = SESSION \<and> k1 = k \<and> c = AList.update (pid d) ?n b"
      with entries [OF kc(2)] kc(3) have "(k2, c') \<in> set (h_sessions h)" by blast
      with mixed [of k2 c'] new1 kc(3) show ?thesis by blast
    qed
  qed
  moreover have "log_good h'" using add_record_log [OF g(7), of d ctx] same_log [OF fields(1)] fields(2) by simp
  moreover have "Some (desc h' n) \<in> set (h_descriptors h')" if "n < length (h_records h')" for n
    using that g(6) old new known fields(3) len by (cases "n = ?n") auto
  moreover have "n < length (h_records h') \<and> scope_of (desc h' n) = RUN"
    if "(k', ns) \<in> set (h_rollbacks h')" "n \<in> set ns" for k' ns n
    using rollbacks_run [OF good] that fields(4) old len by (metis less_Suc_eq)
  ultimately show ?thesis unfolding host_good_def by blast
qed

text \<open>What the later steps need of a state: nothing that existed was disposed or forgotten.\<close>

definition extends :: "host \<Rightarrow> host \<Rightarrow> bool" where
  "extends h h' = (keeps_store h h' \<and> h_schema h' = h_schema h
     \<and> (\<forall>n<length (h_records h). disposed h' n = disposed h n))"

lemma extends_refl [simp]: "extends h h"
  by (simp add: extends_def)

lemma extends_trans: "extends a b \<Longrightarrow> extends b c \<Longrightarrow> extends a c"
  by (auto simp: extends_def keeps_store_def)

lemma touch_session_fields [simp]:
  "h_records (touch_session key d h) = h_records h" "h_disposals (touch_session key d h) = h_disposals h"
  "h_descriptors (touch_session key d h) = h_descriptors h" "h_process (touch_session key d h) = h_process h"
  "h_rollbacks (touch_session key d h) = h_rollbacks h" "h_live (touch_session key d h) = h_live h"
  "h_schema (touch_session key d h) = h_schema h" "h_closed (touch_session key d h) = h_closed h"
  by (simp_all add: touch_session_def split: pscope.split option.split)

lemma touch_session_entry:
  "(k, c) \<in> set (h_sessions (touch_session key d h)) \<Longrightarrow> c = [] \<or> (k, c) \<in> set (h_sessions h)"
  by (auto simp: touch_session_def split: pscope.splits option.splits if_splits)

lemma touch_session_good:
  assumes "host_good h"
  shows "host_good (touch_session key d h)"
proof -
  let ?h = "touch_session key d h"
  have view: "desc ?h = desc h" "disposed ?h = disposed h" by (rule same_records, simp)+
  have log: "log_good ?h = log_good h" by (rule same_log) simp_all
  have "distinct (keys (h_sessions ?h))"
    using assms by (auto simp: host_good_def touch_session_def split: pscope.split option.split)
  moreover have "cache_good ?h s c = cache_good h s c" for s c by (simp add: cache_good_def view)
  moreover have "cache_good h SESSION c" if "(k, c) \<in> set (h_sessions ?h)" for k c
    using touch_session_entry [OF that] assms by (auto simp: host_good_def cache_good_def)
  moreover have "snd ` set c \<inter> snd ` set c' = {}"
    if kc: "(k, c) \<in> set (h_sessions ?h)" "(k', c') \<in> set (h_sessions ?h)" "k \<noteq> k'" for k c k' c'
  proof (cases "c = [] \<or> c' = []")
    case False
    with kc touch_session_entry have "(k, c) \<in> set (h_sessions h)" "(k', c') \<in> set (h_sessions h)" by blast+
    with assms kc(3) show ?thesis unfolding host_good_def by blast
  qed auto
  moreover have "h_live ?h = filter (\<lambda>n. \<not> disposed h n) [0..<length (h_records ?h)]"
    "cache_good h PROCESS (h_process ?h)" "\<forall>n<length (h_records ?h). Some (desc h n) \<in> set (h_descriptors ?h)"
    "\<forall>(k, ns)\<in>set (h_rollbacks ?h). \<forall>n\<in>set ns. n < length (h_records ?h) \<and> scope_of (desc h n) = RUN"
    "log_good h"
    using assms by (simp_all add: host_good_def)
  ultimately show ?thesis unfolding host_good_def view log by blast
qed

lemma script_only_good:
  "host_good (h\<lparr>h_script := s\<rparr>) = host_good h"
  by (rule host_good_cong) simp_all

text \<open>The errors that only a wrong plan could cause: a missing dependency, an undeclared Port, or a
  Port registered twice.\<close>

fun wiring_error :: "plugin_error \<Rightarrow> bool" where
  "wiring_error (KeyError _) = True"
| "wiring_error (DuplicateCapability _) = True"
| "wiring_error _ = False"

text \<open>The five ways of \<open>_get_or_create\<close>.\<close>

lemma get_or_create_cases:
  assumes "get_or_create key d ctx created h = ((r, created'), h')"
  obtains (cached) n where "cached key d (touch_session key d h) = Some n" "r = Inr n" "created' = created"
      "h' = touch_session key d h"
  | (failed) e s where "r = Inl e" "\<not> wiring_error e" "created' = created" "h' = (touch_session key d h)\<lparr>h_script := s\<rparr>"
  | (bad) e s es c h4 where "r = Inl e" "\<not> wiring_error e" "created' = created"
      "dispose_records [length (h_records h)] (add_record d ctx ((touch_session key d h)\<lparr>h_script := s\<rparr>)) = ((es, c), h4)"
      "h' = retain_run_rollback key [length (h_records h)]
        (remove_live (completed h4 [length (h_records h)]) h4)"
  | (fresh) s where "r = Inr (length (h_records h))" "created' = created @ [length (h_records h)]"
      "h' = cache_record key d (length (h_records h)) (add_record d ctx ((touch_session key d h)\<lparr>h_script := s\<rparr>))"
      "cached key d (touch_session key d h) = None"
proof -
  let ?h1 = "touch_session key d h" and ?n = "length (h_records h)"
  show thesis
  proof (cases "cached key d ?h1")
    case (Some n)
    with assms show thesis by (intro that(1)) (auto simp: get_or_create_def)
  next
    case None
    obtain x h2 where nx: "next_outcome ?h1 = (x, h2)" by force
    obtain s where h2: "h2 = ?h1\<lparr>h_script := s\<rparr>" using next_outcome_same [OF nx] by blast
    have len: "length (h_records h2) = ?n" by (simp add: h2)
    obtain es c h4 where dis: "dispose_records [?n] (add_record d ctx h2) = ((es, c), h4)" by (metis prod.exhaust)
    have run: "get_or_create key d ctx created h = (case x of
        Raises \<Rightarrow> ((Inl CallbackError, created), h2)
      | Cancels \<Rightarrow> ((Inl Cancelled, created), h2)
      | BadPorts \<Rightarrow> ((Inl (if c then Cancelled else ValidationError ''factory result does not satisfy runtime Port''), created),
          retain_run_rollback key [?n] (remove_live (completed h4 [?n]) h4))
      | Returns \<Rightarrow> ((Inr ?n, created @ [?n]), cache_record key d ?n (add_record d ctx h2)))"
      unfolding get_or_create_def Let_def None option.case nx prod.case len dis ..
    show thesis
    proof (cases x)
      case Raises
      with run assms h2 show thesis by (intro that(2)) auto
    next
      case Cancels
      with run assms h2 show thesis by (intro that(2)) auto
    next
      case BadPorts
      with run assms dis h2 show thesis by (intro that(3)) (auto split: if_splits)
    next
      case Returns
      with run assms h2 None show thesis by (intro that(4)) auto
    qed
  qed
qed

lemma cached_good:
  assumes "host_good h" "cached key d h = Some n"
  shows "n < length (h_records h) \<and> \<not> disposed h n \<and> scope_of (desc h n) = scope_of d \<and> pid (desc h n) = pid d
    \<and> scope_of d \<noteq> RUN"
proof (cases "scope_of d")
  case PROCESS
  then have "(pid d, n) \<in> set (h_process h)" using assms(2) by (simp add: cached_def map_of_SomeD)
  with assms(1) PROCESS show ?thesis by (auto simp: host_good_def cache_good_def)
next
  case SESSION
  then have m: "map_of (session_cache h key) (pid d) = Some n" using assms(2) by (simp add: cached_def)
  then obtain k where "key = Some k" by (cases key) (auto simp: session_cache_def)
  with m have i: "(pid d, n) \<in> set (session_cache h (Some k))" by (simp add: map_of_SomeD)
  then have "(k, session_cache h (Some k)) \<in> set (h_sessions h)" by (rule session_cache_entry)
  then have "cache_good h SESSION (session_cache h (Some k))" using assms(1) by (auto simp: host_good_def)
  with i SESSION show ?thesis by (auto simp: cache_good_def)
next
  case RUN
  with assms(2) show ?thesis by (simp add: cached_def)
qed

lemma cache_record_fields [simp]:
  "h_records (cache_record key d n h) = h_records h" "h_disposals (cache_record key d n h) = h_disposals h"
  "h_descriptors (cache_record key d n h) = h_descriptors h" "h_rollbacks (cache_record key d n h) = h_rollbacks h"
  "h_live (cache_record key d n h) = h_live h" "h_schema (cache_record key d n h) = h_schema h"
  by (simp_all add: cache_record_def split: pscope.split option.split)

lemma cache_record_process:
  "h_process (cache_record key d n h) = h_process h
   \<or> scope_of d = PROCESS \<and> h_process (cache_record key d n h) = AList.update (pid d) n (h_process h)"
  by (simp add: cache_record_def split: pscope.split option.split)

lemma cache_record_sessions:
  "h_sessions (cache_record key d n h) = h_sessions h
   \<or> (\<exists>k. scope_of d = SESSION \<and> key = Some k \<and> h_sessions (cache_record key d n h)
        = AList.update k (AList.update (pid d) n (session_cache h (Some k))) (h_sessions h))"
  by (simp add: cache_record_def split: pscope.split option.split)

lemma retain_schema [simp]: "h_schema (retain_run_rollback key ns h) = h_schema h"
  by (simp add: retain_run_rollback_def Let_def add_closing_def split: option.split)

lemma add_record_extends:
  assumes "h_records h' = h_records (add_record d ctx h)" "h_descriptors h' = h_descriptors h" "h_schema h' = h_schema h"
  shows "extends h h'"
  using assms same_records [OF assms(1)]
  by (auto simp: extends_def keeps_store_def new_record_store)

lemma same_store_extends:
  assumes "h_records h' = h_records h" "h_descriptors h' = h_descriptors h" "h_schema h' = h_schema h"
  shows "extends h h'"
  using assms same_records [OF assms(1)] by (simp add: extends_def keeps_store_def)

lemma fresh_good:
  assumes good: "host_good h" and known: "Some d \<in> set (h_descriptors h)"
    and h': "h' = cache_record key d (length (h_records h)) (add_record d ctx h)"
  shows "host_good h'" "extends h h'"
    "(k, c) \<in> set (h_sessions h') \<Longrightarrow> length (h_records h) \<in> snd ` set c \<Longrightarrow> key = Some k"
proof -
  let ?a = "add_record d ctx h" and ?n = "length (h_records h)"
  have proc: "h_process h' = h_process h
      \<or> scope_of d = PROCESS \<and> h_process h' = AList.update (pid d) ?n (h_process h)"
    using cache_record_process [of key d ?n ?a] by (simp add: h')
  have sess: "h_sessions h' = h_sessions h \<or> (\<exists>k. scope_of d = SESSION \<and> key = Some k \<and>
      h_sessions h' = AList.update k (AList.update (pid d) ?n (session_cache h (Some k))) (h_sessions h))"
    using cache_record_sessions [of key d ?n ?a] by (simp add: h' session_cache_def)
  have sess1: "h_sessions h' = h_sessions h \<or> scope_of d = SESSION \<and>
      h_sessions h' = AList.update (the key) (AList.update (pid d) ?n (session_cache h (Some (the key)))) (h_sessions h)"
    using sess by auto
  show "host_good h'"
    by (rule host_good_new [OF good known _ _ _ _ _ proc sess1]) (simp_all add: h')
  show "extends h h'" by (rule add_record_extends [of _ d ctx]) (simp_all add: h', simp add: add_record_def)
  assume k: "(k, c) \<in> set (h_sessions h')" "?n \<in> snd ` set c"
  have "(k, c) \<notin> set (h_sessions h)"
    using cached_alive(2) [OF good, of k c _ ?n] k(2) by fastforce
  with sess k(1) obtain k' where key: "key = Some k'"
      "(k, c) \<in> set (AList.update k' (AList.update (pid d) ?n (session_cache h (Some k'))) (h_sessions h))" by auto
  from update_entries [OF key(2)] \<open>(k, c) \<notin> set (h_sessions h)\<close> have "k = k'" by blast
  with key(1) show "key = Some k" by simp
qed

lemma bad_good:
  assumes good: "host_good h" and known: "Some d \<in> set (h_descriptors h)"
    and run: "dispose_records [length (h_records h)] (add_record d ctx h) = ((es, c), h4)"
    and h': "h' = retain_run_rollback key [length (h_records h)] (remove_live (completed h4 [length (h_records h)]) h4)"
  shows "host_good h'" "extends h h'" "h_sessions h' = h_sessions h"
proof -
  let ?a = "add_record d ctx h" and ?n = "length (h_records h)"
  have good_a: "host_good ?a"
    by (rule host_good_new [OF good known, where ctx = ctx]) simp_all
  have bound: "set [?n] \<subseteq> {..<length (h_records ?a)}" by (simp add: new_record_store)
  note frame = dispose_frame [OF run bound]
  define h5 where "h5 = remove_live (completed h4 [?n]) h4"
  have out: "(i, ?n) \<notin> set (h_process h)" "(k, b) \<in> set (h_sessions h) \<Longrightarrow> (i, ?n) \<notin> set b" for i k b
    using cached_alive [OF good] by fastforce+
  have "host_good h5"
    by (rule host_good_after [OF good_a run bound])
      (use frame out rollbacks_run [OF good_a] in \<open>auto simp: h5_def\<close>)
  then show "host_good h'" unfolding h' h5_def by (rule retain_good)
  have "disposed h4 m = disposed ?a m" if "m \<noteq> ?n" for m
    using dispose_same [OF run bound] that by (auto simp: same_owners_def)
  moreover have "disposed h' = disposed h4" "desc h' = desc h4" by (rule same_records, simp add: h')+
  ultimately show "extends h h'"
    using frame new_record_store
    by (simp add: extends_def keeps_store_def h') (simp add: add_record_def)
  show "h_sessions h' = h_sessions h" by (simp add: h' frame)
qed

lemma created_ok_entry:
  assumes "created_ok key ns h" "n \<in> set ns" "(k, c) \<in> set (h_sessions h)" "n \<in> snd ` set c"
  shows "key = Some k"
  using assms unfolding created_ok_def by blast

lemma created_okI:
  assumes "\<And>n. n \<in> set ns \<Longrightarrow> n < length (h_records h)"
    "\<And>n k c. n \<in> set ns \<Longrightarrow> (k, c) \<in> set (h_sessions h) \<Longrightarrow> n \<in> snd ` set c \<Longrightarrow> key = Some k"
  shows "created_ok key ns h"
  using assms unfolding created_ok_def by blast

lemma created_ok_mono:
  assumes "created_ok key ns h" "length (h_records h) \<le> length (h_records h')"
    "\<And>k c. (k, c) \<in> set (h_sessions h') \<Longrightarrow> c = [] \<or> (k, c) \<in> set (h_sessions h)"
  shows "created_ok key ns h'"
  unfolding created_ok_def
proof (intro ballI conjI)
  fix n assume n: "n \<in> set ns"
  with assms(1,2) show "n < length (h_records h')" by (auto simp: created_ok_def)
  fix e assume "e \<in> set (h_sessions h')"
  with assms(3) [of "fst e" "snd e"] have "snd e = [] \<or> e \<in> set (h_sessions h)" by simp
  with created_ok_entry [OF assms(1) n, of "fst e" "snd e"]
  show "case e of (k, c) \<Rightarrow> n \<in> snd ` set c \<longrightarrow> key = Some k" by (cases e) auto
qed

text \<open>One plugin: the instance handed out is live, of the plugin's scope and id.\<close>

lemma get_or_create_good:
  assumes run: "get_or_create key d ctx created h = ((r, created'), h')"
    and good: "host_good h" and known: "Some d \<in> set (h_descriptors h)" and ok: "created_ok key created h"
  shows "host_good h' \<and> extends h h' \<and> created_ok key created' h' \<and> set created \<subseteq> set created'
    \<and> (\<forall>e. r = Inl e \<longrightarrow> \<not> wiring_error e)
    \<and> (\<forall>n. r = Inr n \<longrightarrow> n < length (h_records h') \<and> \<not> disposed h' n
         \<and> scope_of (desc h' n) = scope_of d \<and> pid (desc h' n) = pid d \<and> Some (desc h' n) \<in> set (h_descriptors h)
         \<and> (scope_of d = RUN \<longrightarrow> n \<in> set created'))"
proof -
  let ?t = "touch_session key d h"
  have t: "host_good ?t" by (rule touch_session_good [OF good])
  have t_ext: "extends h ?t" by (rule same_store_extends) simp_all
  have t_ok: "created_ok key created ?t"
    by (rule created_ok_mono [OF ok]) (use touch_session_entry in auto)
  have set_script: "host_good (?t\<lparr>h_script := s\<rparr>)" "extends h (?t\<lparr>h_script := s\<rparr>)" for s
    using t extends_trans [OF t_ext, of "?t\<lparr>h_script := s\<rparr>"] same_store_extends [of "?t\<lparr>h_script := s\<rparr>" ?t]
    by (simp_all add: script_only_good)
  have named: "Some (desc h' n) \<in> set (h_descriptors h)" if "host_good h'" "extends h h'" "n < length (h_records h')" for n
    using that by (auto simp: host_good_def extends_def keeps_store_def)
  from run show ?thesis
  proof (cases rule: get_or_create_cases)
    case (cached n)
    have "Some (desc h' n) \<in> set (h_descriptors h)" if "n < length (h_records h')"
      using named [of n] that t t_ext cached(4) by simp
    then show ?thesis using cached t t_ext t_ok cached_good [OF t cached(1)] by simp
  next
    case (failed e s)
    have "host_good h'" "extends h h'" "created_ok key created h'"
      using set_script [of s] t_ok failed(4) by (simp_all add: created_ok_def)
    with failed(1-3) show ?thesis by simp
  next
    case (bad e s es c h4)
    let ?s = "?t\<lparr>h_script := s\<rparr>"
    have s: "host_good ?s" "extends h ?s" "length (h_records ?s) = length (h_records h)" "Some d \<in> set (h_descriptors ?s)"
      using set_script [of s] known by simp_all
    note b = bad_good [OF s(1,4), unfolded s(3), OF bad(4,5)]
    have "length (h_records h) \<le> length (h_records h')" using extends_trans [OF s(2) b(2)]
      by (simp add: extends_def keeps_store_def)
    then have "created_ok key created h'" by (intro created_ok_mono [OF t_ok]) (use b(3) in auto)
    then show ?thesis using b extends_trans [OF s(2) b(2)] bad(1-3) by simp
  next
    case (fresh s)
    let ?s = "?t\<lparr>h_script := s\<rparr>" and ?n = "length (h_records h)"
    have s: "host_good ?s" "extends h ?s" "length (h_records ?s) = length (h_records h)" "Some d \<in> set (h_descriptors ?s)"
      using set_script [of s] known by simp_all
    note f = fresh_good [OF s(1,4), unfolded s(3), OF fresh(3)]
    have ext: "extends h h'" by (rule extends_trans [OF s(2) f(2)])
    have len: "length (h_records h') = Suc ?n" by (simp add: fresh(3) new_record_store)
    have new: "desc h' ?n = d" "\<not> disposed h' ?n"
      using same_records [of h' "add_record d ctx ?s"] new_record_store(4,5) [of d ctx ?s] by (simp_all add: fresh(3))
    have old: "key = Some k" if "n \<in> set created" "(k, c) \<in> set (h_sessions h')" "n \<in> snd ` set c" for n k c
    proof -
      have n: "n < ?n" using ok that(1) by (simp add: created_ok_def)
      have "(k, c) \<in> set (h_sessions ?t) \<or> key = Some k"
        using cache_record_sessions [of key d ?n "add_record d ctx ?s"]
      proof
        assume "h_sessions (cache_record key d ?n (add_record d ctx ?s)) = h_sessions (add_record d ctx ?s)"
        with that(2) show ?thesis unfolding fresh(3) by simp
      next
        assume "\<exists>k. scope_of d = SESSION \<and> key = Some k \<and> h_sessions (cache_record key d ?n (add_record d ctx ?s)) =
          AList.update k (AList.update (pid d) ?n (session_cache (add_record d ctx ?s) (Some k))) (h_sessions (add_record d ctx ?s))"
        then obtain k' b where k': "key = Some k'"
            "h_sessions (cache_record key d ?n (add_record d ctx ?s)) = AList.update k' b (h_sessions (add_record d ctx ?s))"
          by blast
        then have "(k, c) \<in> set (AList.update k' b (h_sessions ?t))" using that(2) unfolding fresh(3) by simp
        from update_entries [OF this] k'(1) show ?thesis by blast
      qed
      with created_ok_entry [OF t_ok that(1) _ that(3)] show ?thesis by blast
    qed
    have "created_ok key (created @ [?n]) h'"
    proof (rule created_okI)
      show "n < length (h_records h')" if "n \<in> set (created @ [?n])" for n
        using that ok len by (auto simp: created_ok_def)
      show "key = Some k" if "n \<in> set (created @ [?n])" "(k, c) \<in> set (h_sessions h')" "n \<in> snd ` set c" for n k c
        using that old [of n k c] f(3) [of k c] by (cases "n = ?n") simp_all
    qed
    then show ?thesis using f(1) ext fresh(1,2) new len known by (simp add: subset_insertI)
  qed
qed

subsection \<open>Activation\<close>

definition usable :: "host \<Rightarrow> descriptor \<times> nat \<Rightarrow> bool" where
  "usable h x = (snd x < length (h_records h) \<and> \<not> disposed h (snd x)
     \<and> scope_of (desc h (snd x)) = scope_of (fst x) \<and> pid (desc h (snd x)) = pid (fst x)
     \<and> Some (desc h (snd x)) \<in> set (h_descriptors h))"

lemma usable_extends: "usable h x \<Longrightarrow> extends h h' \<Longrightarrow> usable h' x"
  by (auto simp: usable_def extends_def keeps_store_def)

definition progress_ok :: "string option \<Rightarrow> (string \<times> policy) list \<Rightarrow> progress \<Rightarrow> host \<Rightarrow> bool" where
  "progress_ok key policies p h = (created_ok key (p_created p) h \<and> list_all (usable h) (p_contributions p)
     \<and> run_records h (p_run p)
     \<and> contribute (new_registry policies) (p_contributions p) = Inr (p_registry p))"

lemma context_of_found:
  "set js \<subseteq> set (keys instances) \<Longrightarrow> \<exists>ctx. context_of instances js = Inr ctx"
  by (induction instances js rule: context_of.induct) (auto simp: map_of_None_keys split: option.split)

text \<open>Each plugin finds its dependencies among those before it or borrowed.\<close>

fun deps_ready :: "string set \<Rightarrow> descriptor list \<Rightarrow> bool" where
  "deps_ready I [] = True"
| "deps_ready I (d # ds) = (set (deps d) \<subseteq> I \<and> deps_ready (insert (pid d) I) ds)"

lemma run_records_extends: "run_records h ns \<Longrightarrow> extends h h' \<Longrightarrow> run_records h' ns"
  by (fastforce simp: run_records_def extends_def keeps_store_def)

lemma activate_each_good:
  assumes "activate_each key ds p h = ((failed, p'), h')" "host_good h" "progress_ok key policies p h"
    "set (map Some ds) \<subseteq> set (h_descriptors h)" "deps_ready (set (keys (p_instances p))) ds"
    "fits policies (map fst (p_contributions p) @ ds)"
    "\<forall>d\<in>set (map fst (p_contributions p) @ ds). distinct (ports d) \<and> set (ports d) \<subseteq> set (keys policies)"
  shows "host_good h' \<and> extends h h' \<and> created_ok key (p_created p') h'
    \<and> (\<forall>e. failed = Some e \<longrightarrow> \<not> wiring_error e)
    \<and> (failed = None \<longrightarrow> progress_ok key policies p' h' \<and> map fst (p_contributions p') = map fst (p_contributions p) @ ds)"
  using assms
proof (induction key ds p h arbitrary: failed p' h' rule: activate_each.induct)
  case (1 key p h)
  then show ?case by (auto simp: progress_ok_def)
next
  case (2 key d ds p h)
  from 2(6) obtain ctx where ctx: "context_of (p_instances p) (deps d) = Inr ctx"
    using context_of_found [of "deps d" "p_instances p"] by auto
  obtain r created h1 where goc: "get_or_create key d ctx (p_created p) h = ((r, created), h1)" by (metis prod.exhaust)
  have known: "Some d \<in> set (h_descriptors h)" using 2(5) by simp
  have ok: "created_ok key (p_created p) h" using 2(4) by (simp add: progress_ok_def)
  note one = get_or_create_good [OF goc 2(3) known ok]
  show ?case
  proof (cases r)
    case (Inl e)
    with 2(2) ctx goc have "failed = Some e" "p' = p\<lparr>p_created := created\<rparr>" "h' = h1" by auto
    with one Inl show ?thesis by simp
  next
    case (Inr n)
    define p1 where "p1 = p\<lparr>p_created := created, p_instances := AList.update (pid d) n (p_instances p),
        p_contributions := p_contributions p @ [(d, n)], p_run := (if scope_of d = RUN then p_run p @ [n] else p_run p)\<rparr>"
    have n: "usable h1 (d, n)" using one Inr by (simp add: usable_def extends_def keeps_store_def)
    obtain r1 where r1: "contribute (new_registry policies) (p_contributions p @ [(d, n)]) = Inr r1"
    proof -
      let ?r = "new_registry policies :: nat registry"
      have "\<exists>r'. contribute ?r (p_contributions p @ [(d, n)]) = Inr r' \<and> rg_policies r' = rg_policies ?r
          \<and> (\<forall>q. held r' q = held ?r q @ offers (p_contributions p @ [(d, n)]) q)"
      proof (rule contribute_held)
        show "\<forall>(e, i)\<in>set (p_contributions p @ [(d, n)]). distinct (ports e) \<and> set (ports e) \<subseteq> set (keys (rg_policies ?r))"
          using 2(8) by (force simp: new_registry_def)
        show "\<forall>q. map_of (rg_policies ?r) q \<noteq> Some MULTI \<longrightarrow>
            length (held ?r q) + length (offers (p_contributions p @ [(d, n)]) q) \<le> 1"
        proof (intro allI impI)
          fix q assume "map_of (rg_policies ?r) q \<noteq> Some MULTI"
          then have "map_of policies q \<noteq> Some MULTI" by (simp add: new_registry_def)
          with 2(7) have "length (filter (\<lambda>e. q \<in> set (ports e)) ((map fst (p_contributions p) @ [d]) @ ds)) \<le> 1"
            unfolding fits_def by simp
          then have "length (filter (\<lambda>e. q \<in> set (ports e)) (map fst (p_contributions p) @ [d])) \<le> 1"
            by (simp only: filter_append length_append)
          then show "length (held ?r q) + length (offers (p_contributions p @ [(d, n)]) q) \<le> 1"
            by (simp only: offers_length held_new map_append list.map fst_conv list.size add_0)
        qed
      qed
      then show thesis using that by blast
    qed
    have reg: "register_ports (p_registry p1) (ports d) n = Inr r1"
    proof -
      have "contribute (new_registry policies) (p_contributions p) = Inr (p_registry p)"
        using 2(4) by (simp add: progress_ok_def)
      with r1 show ?thesis by (auto simp: contribute_append p1_def split: sum.splits)
    qed
    let ?p2 = "p1\<lparr>p_registry := r1\<rparr>"
    have run: "activate_each key ds ?p2 h1 = ((failed, p'), h')"
      using 2(2) reg unfolding activate_each.simps ctx sum.case goc Let_def prod.case Inr p1_def [symmetric] by simp
    have "progress_ok key policies ?p2 h1"
    proof -
      have "list_all (usable h1) (p_contributions p)"
        using 2(4) usable_extends one by (auto simp: progress_ok_def list_all_iff)
      moreover have "run_records h1 (p_run p)" using 2(4) run_records_extends one by (auto simp: progress_ok_def)
      ultimately show ?thesis using n one r1
        by (auto simp: progress_ok_def p1_def run_records_def usable_def)
    qed
    moreover have "set (map Some ds) \<subseteq> set (h_descriptors h1)" using 2(5) one by (simp add: extends_def keeps_store_def)
    moreover have "deps_ready (set (keys (p_instances ?p2))) ds"
    proof -
      have "set (keys (p_instances ?p2)) = insert (pid d) (set (keys (p_instances p)))"
        by (auto simp: p1_def dict_simps)
      then show ?thesis using 2(6) by simp
    qed
    moreover have "map fst (p_contributions ?p2) @ ds = map fst (p_contributions p) @ d # ds" by (simp add: p1_def)
    ultimately have "host_good h' \<and> extends h1 h' \<and> created_ok key (p_created p') h'
        \<and> (\<forall>e. failed = Some e \<longrightarrow> \<not> wiring_error e)
        \<and> (failed = None \<longrightarrow> progress_ok key policies p' h'
             \<and> map fst (p_contributions p') = map fst (p_contributions ?p2) @ ds)"
      using one 2(7,8) by (intro 2(1) [OF ctx goc [symmetric] refl refl Inr p1_def reg run]) simp_all
    then show ?thesis using one extends_trans by (auto simp: p1_def)
  qed
qed

lemma selected_unique:
  assumes "select_descriptors s all plugin_ids = Inr ds"
  shows "set (map Some ds) \<subseteq> set all" "\<And>d e. Some d \<in> set all \<Longrightarrow> Some e \<in> set all \<Longrightarrow> pid d = pid e \<Longrightarrow> d = e"
proof -
  from assms obtain policies ids where cat: "catalog policies [] all = Inr ids" and sub: "set ds \<subseteq> set (vals ids)"
    by (auto simp: select_descriptors_def Let_def split: sum.splits if_splits)
  from catalog_spec [OF cat] have ids: "distinct (keys ids)" "ids = map (\<lambda>x. (pid (the x), the x)) all"
      "list_all (\<lambda>x. \<exists>d. x = Some d) all" by (auto simp: list_all_iff)
  then have "set (vals ids) = the ` set all" by force
  moreover have "Some ` the ` set all = set all" using ids(3) by (force simp: list_all_iff)
  moreover have "Some ` set ds \<subseteq> Some ` set (vals ids)" using sub by (rule image_mono)
  ultimately show "set (map Some ds) \<subseteq> set all" by (simp only: set_map)
  fix d e assume de: "Some d \<in> set all" "Some e \<in> set all" "pid d = pid e"
  from de(1) ids(2) have "(pid d, d) \<in> set ids" by force
  moreover from de(2,3) ids(2) have "(pid d, e) \<in> set ids" by force
  ultimately show "d = e" using ids(1) by (metis eq_key_imp_eq_value)
qed

lemma borrow_cases:
  assumes "borrow key plan active js h instances = res" "set js \<subseteq> set active \<union> pid ` set plan"
  shows "case res of Inl e \<Rightarrow> \<not> wiring_error e
    | Inr out \<Rightarrow> set (keys instances) \<union> (set js - set active) \<subseteq> set (keys out)"
  using assms
proof (induction key plan active js h instances rule: borrow.induct)
  case (2 key plan active j js h instances)
  show ?case
  proof (cases "j \<in> set active")
    case True
    with 2 show ?thesis by (auto split: sum.splits)
  next
    case False
    with 2(4) have "j \<in> set (keys (map (\<lambda>d. (pid d, d)) plan))" by auto
    then obtain d where d: "map_of (map (\<lambda>d. (pid d, d)) plan) j = Some d"
      by (cases "map_of (map (\<lambda>d. (pid d, d)) plan) j") (auto simp: map_of_None_keys)
    show ?thesis
    proof (cases "cached key d h")
      case None
      with False d 2(3) show ?thesis by auto
    next
      case (Some n)
      have "borrow key plan active js h (AList.update j n instances) = res" using 2(3) False d Some by simp
      from 2(2) [OF False d Some this] 2(4) show ?thesis by (auto simp: dict_simps split: sum.splits if_splits)
    qed
  qed
qed auto

lemma dependencies_first_take:
  "dependencies_first (xs @ d # ys) \<Longrightarrow> set (deps d) \<subseteq> pid ` set xs"
  unfolding dependencies_first_def by (metis append_eq_conv_conj length_append_singleton lessI less_add_Suc1
      length_append list.size(4) add_Suc_right nth_append_length take_append)

lemma deps_ready_filter:
  assumes "dependencies_first (xs @ ys)" "pid ` set (filter Q xs) \<subseteq> I"
    "\<And>d j. d \<in> set (filter Q ys) \<Longrightarrow> j \<in> set (deps d) \<Longrightarrow> j \<notin> pid ` set (filter Q (xs @ ys)) \<Longrightarrow> j \<in> I"
    "distinct (map pid (xs @ ys))"
  shows "deps_ready I (filter Q ys)"
  using assms
proof (induction ys arbitrary: xs I)
  case (Cons d ys)
  have split: "xs @ d # ys = (xs @ [d]) @ ys" by simp
  show ?case
  proof (cases "Q d")
    case False
    have "deps_ready I (filter Q ys)"
    proof (rule Cons.IH [of "xs @ [d]"])
      show "j \<in> I" if "e \<in> set (filter Q ys)" "j \<in> set (deps e)" "j \<notin> pid ` set (filter Q ((xs @ [d]) @ ys))" for e j
        using Cons.prems(3) [of e j] that False by simp
    qed (use Cons.prems False in simp_all)
    with False show ?thesis by simp
  next
    case True
    have "set (deps d) \<subseteq> I"
    proof
      fix j assume j: "j \<in> set (deps d)"
      with dependencies_first_take [OF Cons.prems(1)] have in_xs: "j \<in> pid ` set xs" by blast
      show "j \<in> I"
      proof (cases "j \<in> pid ` set (filter Q (xs @ d # ys))")
        case True
        then obtain e where "e \<in> set (filter Q (xs @ d # ys))" and j: "j = pid e" by blast
        then have e: "e \<in> set (xs @ d # ys)" "Q e" "j = pid e" unfolding set_filter by simp_all
        with in_xs Cons.prems(4) have "e \<in> set xs" by fastforce
        with e Cons.prems(2) show ?thesis by auto
      next
        case False
        with Cons.prems(3) [of d j] True j show ?thesis by simp
      qed
    qed
    moreover have "deps_ready (insert (pid d) I) (filter Q ys)"
    proof (rule Cons.IH [of "xs @ [d]"])
      show "j \<in> insert (pid d) I" if "e \<in> set (filter Q ys)" "j \<in> set (deps e)" "j \<notin> pid ` set (filter Q ((xs @ [d]) @ ys))" for e j
        using Cons.prems(3) [of e j] that True by simp
    qed (use Cons.prems True in auto)
    ultimately show ?thesis using True by simp
  qed
qed simp

lemma plan_facts:
  assumes "resolve_dependencies s all plugin_ids = Inr plan"
  obtains policies where "validate_schema s = Inr policies" "dependencies_first plan" "distinct (map pid plan)"
    "set (map Some plan) \<subseteq> set all" "\<forall>d\<in>set plan. distinct (ports d) \<and> set (ports d) \<subseteq> set (keys policies)"
    "\<forall>d\<in>set plan. set (deps d) \<subseteq> pid ` set plan" "fits policies plan"
    "\<forall>p. map_of policies p = Some REQUIRED_SINGLE \<longrightarrow> length (filter (\<lambda>d. p \<in> set (ports d)) plan) = 1"
    "\<And>d e. Some d \<in> set all \<Longrightarrow> Some e \<in> set all \<Longrightarrow> pid d = pid e \<Longrightarrow> d = e"
    "\<forall>d\<in>set plan. \<forall>j\<in>set (deps d). \<exists>e\<in>set plan. pid e = j \<and> scope_of e \<le> scope_of d"
proof -
  from assms obtain ds where sel: "select_descriptors s all plugin_ids = Inr ds"
    by (auto simp: resolve_dependencies_def split: sum.splits)
  from select_spec [OF sel] obtain policies where p: "validate_schema s = Inr policies" "good_selection ds"
      "\<forall>d\<in>set ds. set (ports d) \<subseteq> set (keys policies)" "single policies ds" by blast
  from resolve_cases [OF sel] assms have plan: "set plan = set ds" "distinct (map pid plan)" "dependencies_first plan"
    by auto
  have ds: "distinct ds" "distinct plan" using p(2) plan(2) by (auto simp: good_selection_def intro: distinct_map [THEN iffD1, THEN conjunct1])
  then have same: "mset plan = mset ds" using plan(1) by (simp add: set_eq_iff_mset_eq_distinct)
  note known = selected_unique [OF sel]
  note fits = fits_same_set [OF single_fits [OF p(4,3)] same]
  have req: "\<forall>q. map_of policies q = Some REQUIRED_SINGLE \<longrightarrow> length (filter (\<lambda>d. q \<in> set (ports d)) plan) = 1"
  proof (intro allI impI)
    fix q assume "map_of policies q = Some REQUIRED_SINGLE"
    then have "(q, REQUIRED_SINGLE) \<in> set policies" by (rule map_of_SomeD)
    with p(4) have "length (filter (\<lambda>d. q \<in> set (ports d)) ds) = 1" by (auto simp: single_def Let_def list_all_iff)
    with same show "length (filter (\<lambda>d. q \<in> set (ports d)) plan) = 1" by (metis mset_filter size_mset)
  qed
  show thesis
  proof (rule that [OF p(1) plan(3,2) _ _ _ fits req known(2)])
    show "set (map Some plan) \<subseteq> set all" using known(1) plan(1) by simp
    show "\<forall>d\<in>set plan. distinct (ports d) \<and> set (ports d) \<subseteq> set (keys policies)"
      using p(2,3) plan(1) well_formed_facts(5) by (auto simp: good_selection_def list_all_iff)
    show "\<forall>d\<in>set plan. set (deps d) \<subseteq> pid ` set plan"
      using p(2) plan(1) by (force simp: good_selection_def)
    show "\<forall>d\<in>set plan. \<forall>j\<in>set (deps d). \<exists>e\<in>set plan. pid e = j \<and> scope_of e \<le> scope_of d"
      using p(2) plan(1) by (simp add: good_selection_def)
  qed
qed

definition in_scopes :: "pscope option list option \<Rightarrow> descriptor list \<Rightarrow> descriptor list" where
  "in_scopes scopes plan = filter (\<lambda>d. scope_of d \<in> set (selected_scopes scopes)) plan"

text \<open>What an activation that was handed out is like, for the plan and the policies it was made from.\<close>

definition activation_ok :: "host \<Rightarrow> (string \<times> policy) list \<Rightarrow> descriptor list \<Rightarrow> activation \<Rightarrow> bool" where
  "activation_ok h policies ordered a = (map fst (a_contributions a) = ordered
     \<and> list_all (usable h) (a_contributions a) \<and> run_records h (a_run a)
     \<and> contribute (new_registry policies) (a_contributions a) = Inr (a_registry a))"

lemma run_activation_good:
  assumes run: "run_activation key plan (in_scopes scopes plan) h = (r, h')" and good: "host_good h"
    and res: "resolve_dependencies (h_schema h) (h_descriptors h) plugin_ids = Inr plan"
    and pol: "validate_schema (h_schema h) = Inr policies"
  shows "host_good h' \<and> keeps_store h h' \<and> (case r of Inl e \<Rightarrow> \<not> wiring_error e
    | Inr a \<Rightarrow> extends h h' \<and> activation_ok h' policies (in_scopes scopes plan) a)"
proof -
  let ?Q = "\<lambda>d. scope_of d \<in> set (selected_scopes scopes)"
  define ordered where "ordered = in_scopes scopes plan"
  from plan_facts [OF res] pol have p: "dependencies_first plan" "distinct (map pid plan)"
    "set (map Some plan) \<subseteq> set (h_descriptors h)"
    "\<forall>d\<in>set plan. distinct (ports d) \<and> set (ports d) \<subseteq> set (keys policies)"
    "\<forall>d\<in>set plan. set (deps d) \<subseteq> pid ` set plan" "fits policies plan" by auto
  have sub: "set ordered \<subseteq> set plan" by (auto simp: ordered_def in_scopes_def)
  have all_deps: "set (concat (map deps ordered)) \<subseteq> set (map pid ordered) \<union> pid ` set plan"
    using p(5) sub by auto
  define b where "b = borrow key plan (map pid ordered) (concat (map deps ordered)) h []"
  note borrow = borrow_cases [OF b_def [symmetric] all_deps]
  show ?thesis
  proof (cases b)
    case (Inl e)
    with run pol have "r = Inl e" "h' = h" by (auto simp: run_activation_def b_def ordered_def)
    with borrow Inl good show ?thesis by simp
  next
    case (Inr instances)
    obtain failed q h1 where each: "activate_each key ordered (start_progress policies instances) h = ((failed, q), h1)"
      by (metis prod.exhaust)
    have ready: "deps_ready (set (keys instances)) (filter ?Q plan)"
    proof (rule deps_ready_filter [of "[]", simplified append_Nil])
      fix d j assume d: "d \<in> set (filter ?Q plan)" "j \<in> set (deps d)" "j \<notin> pid ` set (filter ?Q plan)"
      then have "j \<in> set (concat (map deps ordered)) - set (map pid ordered)"
        by (auto simp: ordered_def in_scopes_def)
      with borrow Inr show "j \<in> set (keys instances)" by auto
    qed (use p in simp_all)
    have start: "progress_ok key policies (start_progress policies instances) h"
      by (simp add: progress_ok_def start_progress_def created_ok_def run_records_def)
    have contributions: "p_contributions (start_progress policies instances) = []" by (simp add: start_progress_def)
    have done': "host_good h1 \<and> extends h h1 \<and> created_ok key (p_created q) h1
        \<and> (\<forall>e. failed = Some e \<longrightarrow> \<not> wiring_error e)
        \<and> (failed = None \<longrightarrow> progress_ok key policies q h1
             \<and> map fst (p_contributions q) = map fst (p_contributions (start_progress policies instances)) @ ordered)"
    proof (rule activate_each_good [OF each good start])
      show "set (map Some ordered) \<subseteq> set (h_descriptors h)" using p(3) sub by auto
      show "deps_ready (set (keys (p_instances (start_progress policies instances)))) ordered"
        using ready by (simp add: start_progress_def ordered_def in_scopes_def)
      show "fits policies (map fst (p_contributions (start_progress policies instances)) @ ordered)"
        using fits_filter [OF p(6)] by (simp add: contributions ordered_def in_scopes_def)
      show "\<forall>d\<in>set (map fst (p_contributions (start_progress policies instances)) @ ordered).
          distinct (ports d) \<and> set (ports d) \<subseteq> set (keys policies)"
        using p(4) sub by (auto simp: contributions)
    qed
    show ?thesis
    proof (cases failed)
      case None
      with run pol Inr each have out: "h' = h1" "r = Inr \<lparr>a_registry = p_registry q, a_run = p_run q,
          a_contributions = p_contributions q, a_disposed = False\<rparr>"
        by (auto simp: run_activation_def b_def ordered_def)
      with done' None contributions show ?thesis
        by (simp add: out activation_ok_def progress_ok_def ordered_def) (simp add: extends_def)
    next
      case (Some e)
      obtain e' h2 where rb: "roll_back key (p_created q) e h1 = (e', h2)" by (metis prod.exhaust)
      then have e': "e' = e \<or> e' = Cancelled" by (auto simp: roll_back_def Let_def split: prod.splits)
      from Some run pol Inr each rb have out: "r = Inl e'" "h' = h2"
        by (auto simp: run_activation_def b_def ordered_def)
      have "host_good h2 \<and> keeps_store h1 h2" using roll_back_good [OF rb] done' by blast
      with done' Some e' out keeps_store_trans show ?thesis by (auto simp: extends_def)
    qed
  qed
qed

lemma activate_good:
  assumes "activate key plugin_ids scopes h = (r, h')" "host_good h"
  shows "host_good h' \<and> keeps_store h h' \<and> (case r of
      Inl e \<Rightarrow> wiring_error e \<longrightarrow> (\<exists>e'. resolve_dependencies (h_schema h) (h_descriptors h) plugin_ids = Inl e')
    | Inr a \<Rightarrow> extends h h' \<and> (\<exists>plan policies. resolve_dependencies (h_schema h) (h_descriptors h) plugin_ids = Inr plan
        \<and> validate_schema (h_schema h) = Inr policies \<and> activation_ok h' policies (in_scopes scopes plan) a))"
proof (cases "resolve_dependencies (h_schema h) (h_descriptors h) plugin_ids")
  case (Inl e)
  with assms show ?thesis by (auto simp: activate_def)
next
  case (Inr plan)
  obtain policies where pol: "validate_schema (h_schema h) = Inr policies"
    by (rule plan_facts [OF Inr]) (rule that)
  have act: "(\<exists>e. r = Inl e \<and> \<not> wiring_error e \<and> h' = h) \<or> run_activation key plan (in_scopes scopes plan) h = (r, h')"
    using assms(1) Inr unfolding activate_def in_scopes_def by (auto simp: Let_def split: if_splits)
  then show ?thesis
  proof
    assume "\<exists>e. r = Inl e \<and> \<not> wiring_error e \<and> h' = h"
    then obtain e where "r = Inl e" "\<not> wiring_error e" "h' = h" by blast
    with assms(2) show ?thesis by simp
  next
    assume "run_activation key plan (in_scopes scopes plan) h = (r, h')"
    note good = run_activation_good [OF this assms(2) Inr pol]
    show ?thesis
    proof (cases r)
      case Inl
      with good show ?thesis by simp
    next
      case a: (Inr a)
      with good have "host_good h'" "keeps_store h h'" "extends h h'"
        "activation_ok h' policies (in_scopes scopes plan) a" by simp_all
      with Inr pol a show ?thesis by auto
    qed
  qed
qed

subsection \<open>Histories\<close>

definition world_good :: "world \<Rightarrow> bool" where
  "world_good w = (host_good (fst w) \<and> list_all (\<lambda>a. run_records (fst w) (a_run a)) (snd w))"

definition host_exec :: "world \<Rightarrow> host_event \<Rightarrow> unit \<times> world" where
  "host_exec w e = ((), host_step e w)"

lemma run_records_keeps: "run_records h ns \<Longrightarrow> keeps_store h h' \<Longrightarrow> run_records h' ns"
  by (fastforce simp: run_records_def keeps_store_def)

lemma all_run_records_keeps:
  "list_all (\<lambda>a. run_records h (a_run a)) acts \<Longrightarrow> keeps_store h h' \<Longrightarrow> list_all (\<lambda>a. run_records h' (a_run a)) acts"
  using run_records_keeps by (auto simp: list_all_iff)

lemma host_step_good:
  assumes "world_good w"
  shows "world_good (host_step e w)"
proof -
  obtain h acts where w: "w = (h, acts)" by force
  with assms have good: "host_good h" and runs: "list_all (\<lambda>a. run_records h (a_run a)) acts"
    by (simp_all add: world_good_def)
  show ?thesis
  proof (cases e)
    case (Activate key ids scopes)
    obtain r h' where act: "activate key ids scopes h = (r, h')" by force
    note g = activate_good [OF act good]
    show ?thesis
    proof (cases r)
      case (Inl x)
      with g all_run_records_keeps [OF runs] show ?thesis by (simp add: w Activate act world_good_def)
    next
      case (Inr a)
      then have "run_records h' (a_run a)" using g by (auto simp: activation_ok_def)
      with Inr g all_run_records_keeps [OF runs] show ?thesis by (simp add: w Activate act world_good_def)
    qed
  next
    case (DisposeActivation i)
    show ?thesis
    proof (cases "i < length acts")
      case True
      obtain r a h' where dis: "dispose_activation (acts ! i) h = ((r, a), h')" by (metis prod.exhaust)
      have r: "run_records h (a_run (acts ! i))" using runs True by (simp add: list_all_length)
      note g = dispose_activation_good [OF dis good r]
      have keep: "keeps_store h h'" using g by (simp add: keeps_store_def)
      have "run_records h (a_run a)" using r g by (auto simp: run_records_def)
      then have "run_records h' (a_run a)" using keep by (rule run_records_keeps)
      with all_run_records_keeps [OF runs keep] g True show ?thesis
        by (simp add: w DisposeActivation dis world_good_def list_all_length nth_list_update)
    qed (use assms w DisposeActivation in simp)
  next
    case (DisposeSession k)
    obtain r h' where "dispose_session k h = (r, h')" by force
    with dispose_session_good [OF this good] all_run_records_keeps [OF runs] show ?thesis
      by (simp add: w DisposeSession world_good_def)
  next
    case CloseHost
    obtain r h' where "close_host h = (r, h')" by force
    with close_host_good [OF this good] all_run_records_keeps [OF runs] show ?thesis
      by (simp add: w CloseHost world_good_def)
  qed
qed

interpretation lifecycle: component host_exec world_good
  by unfold_locales (simp add: host_exec_def host_step_good)

lemma lifecycle_run: "lifecycle.run w es = exec_host es w"
  by (induction es arbitrary: w) (simp_all add: exec_host_def host_exec_def)

lemma new_host_good: "host_good (new_host ds s script)"
  by (simp add: host_good_def new_host_def cache_good_def log_good_def)

lemma history_good:
  assumes "exec_host es (new_host ds s script, []) = (h, acts)"
  shows "host_good h"
proof -
  have "world_good (new_host ds s script, [])" by (simp add: world_good_def new_host_good)
  from lifecycle.run_inv [OF this, of es] assms show ?thesis by (simp add: lifecycle_run world_good_def)
qed

subsection \<open>Closing\<close>

lemma close_host_step:
  assumes "close_host h = (r, h')" "host_good h"
  shows "cancels h' + (if h_live h' = [] then 0 else 1) \<le> cancels h" "h_closed h'"
    "cancels h = 0 \<Longrightarrow> \<not> (h_closed h \<and> h_live h = []) \<Longrightarrow>
       h_disposals h' = h_disposals h @ map (\<lambda>n. (n, False)) (rev (filter (has_disposer h) (h_live h)))"
proof -
  define h0 where "h0 = h\<lparr>h_closed := True\<rparr>"
  have good: "h_live h = filter (\<lambda>n. \<not> disposed h n) [0..<length (h_records h)]"
    using assms(2) by (simp add: host_good_def)
  obtain es c h1 where run: "dispose_records (rev (h_live h)) h0 = ((es, c), h1)" by (metis prod.exhaust)
  have bound: "set (rev (h_live h)) \<subseteq> {..<length (h_records h0)}" by (auto simp: good h0_def)
  note frame = dispose_frame [OF run bound] and eff = dispose_same [OF run bound]
    and count = cancels_records [OF run bound]
  have h': "h' = remove_live (completed h1 (h_live h)) (remove_from_all_caches (completed h1 (h_live h)) h1)"
    if "\<not> (h_closed h \<and> h_live h = [])"
    using assms(1) that run by (auto simp: close_host_def Let_def h0_def)
  have same: "h' = h" if "h_closed h \<and> h_live h = []" using assms(1) that by (simp add: close_host_def)
  have script: "h_script (remove_from_all_caches ns x) = h_script x" for ns x
    by (simp add: remove_from_all_caches_def Let_def)
  show "h_closed h'"
  proof (cases "h_closed h \<and> h_live h = []")
    case False
    then show ?thesis by (simp add: h' frame) (simp add: h0_def)
  qed (simp add: same)
  show "cancels h' + (if h_live h' = [] then 0 else 1) \<le> cancels h"
  proof (cases "h_closed h \<and> h_live h = []")
    case False
    have "cancels h' = cancels h1" by (simp add: cancels_def h' [OF False] script)
    moreover have "cancels h0 = cancels h" by (simp add: cancels_def h0_def)
    moreover have "h_live h' = []" if "\<not> c"
    proof -
      have "h_live h' = filter (\<lambda>n. \<not> disposed h1 n) (h_live h)"
        by (simp add: h' [OF False] frame completed_def) (auto simp: h0_def cong: filter_cong)
      also have "\<dots> = []" using eff that by (auto simp: filter_empty_conv)
      finally show ?thesis .
    qed
    ultimately show ?thesis using count by (cases c) auto
  qed (simp add: same)
  assume none: "cancels h = 0" and False: "\<not> (h_closed h \<and> h_live h = [])"
  have view: "disposed h0 = disposed h" "desc h0 = desc h" by (rule same_records, simp add: h0_def)+
  have "h_disposals h1 = h_disposals h0 @ map (\<lambda>n. (n, False))
      (filter (\<lambda>n. \<not> disposed h0 n \<and> has_disposer h0 n) (rev (h_live h)))"
  proof (rule disposal_order [OF run bound])
    show "distinct (rev (h_live h))" by (simp add: good)
    show "cancels h0 = 0" using none by (simp add: cancels_def h0_def)
  qed
  moreover have "filter (\<lambda>n. \<not> disposed h0 n \<and> has_disposer h0 n) (rev (h_live h)) = rev (filter (has_disposer h) (h_live h))"
    by (simp add: view has_disposer_def good rev_filter [symmetric] conj_commute)
  ultimately show "h_disposals h' = h_disposals h @ map (\<lambda>n. (n, False)) (rev (filter (has_disposer h) (h_live h)))"
    by (simp add: h' [OF False]) (simp add: h0_def)
qed

lemma close_closed:
  assumes "h_closed h" "h_live h = []"
  shows "exec_host (replicate m CloseHost) (h, acts) = (h, acts)"
  using assms by (induction m) (simp_all add: exec_host_def close_host_def)

lemma close_until_empty:
  "host_good h \<Longrightarrow> cancels h \<le> m \<Longrightarrow> exec_host (replicate (Suc m) CloseHost) (h, acts) = (h', acts') \<Longrightarrow>
   host_good h' \<and> h_live h' = [] \<and> h_closed h'"
proof (induction m arbitrary: h)
  case 0
  obtain r h1 where close: "close_host h = (r, h1)" by force
  with 0(3) have "h' = h1" by (simp add: exec_host_def)
  with close_host_step(1,2) [OF close 0(1)] close_host_good [OF close 0(1)] 0(2) show ?case
    by (auto split: if_splits)
next
  case (Suc m)
  obtain r h1 where close: "close_host h = (r, h1)" by force
  note step = close_host_step(1,2) [OF close Suc(2)] close_host_good [OF close Suc(2)]
  have rest: "exec_host (replicate (Suc m) CloseHost) (h1, acts) = (h', acts')"
    using Suc(4) close by (simp add: exec_host_def)
  show ?case
  proof (cases "h_live h1 = []")
    case True
    with close_closed [OF step(2) True, of "Suc m" acts] rest step show ?thesis by simp
  next
    case False
    with step(1) Suc(3) have "cancels h1 \<le> m" by simp
    with Suc(1) [OF _ this rest] step show ?thesis by simp
  qed
qed

subsection \<open>Properties\<close>

lemma offers_contributions: "offers (a_contributions a) p = map snd (contributions a p)"
  by (simp add: offers_def contributions_def case_prod_unfold)

lemma activation_registry:
  assumes ok: "activation_ok h' policies ordered a" and fits: "fits policies ordered"
    and ports: "\<forall>d\<in>set ordered. distinct (ports d) \<and> set (ports d) \<subseteq> set (keys policies)"
  shows "rg_policies (a_registry a) = policies \<and> held (a_registry a) p = map snd (contributions a p)"
proof -
  let ?r = "new_registry policies :: nat registry" and ?xs = "a_contributions a"
  from ok have fst: "map fst ?xs = ordered" and con: "contribute ?r ?xs = Inr (a_registry a)"
    by (simp_all add: activation_ok_def)
  have "\<exists>r'. contribute ?r ?xs = Inr r' \<and> rg_policies r' = rg_policies ?r \<and> (\<forall>q. held r' q = held ?r q @ offers ?xs q)"
  proof (rule contribute_held)
    show "\<forall>(d, i)\<in>set ?xs. distinct (ports d) \<and> set (ports d) \<subseteq> set (keys (rg_policies ?r))"
      using ports fst by (force simp: new_registry_def)
    show "\<forall>q. map_of (rg_policies ?r) q \<noteq> Some MULTI \<longrightarrow> length (held ?r q) + length (offers ?xs q) \<le> 1"
      using fits unfolding fits_def held_new offers_length fst by (simp add: new_registry_def)
  qed
  with con have "rg_policies (a_registry a) = rg_policies ?r" "held (a_registry a) p = held ?r p @ offers ?xs p" by auto
  then show ?thesis by (simp add: offers_contributions) (simp add: new_registry_def)
qed

text \<open>
  C36. Activations are well typed. In a host with any history, a plan that resolves never fails for
  a missing dependency, an undeclared Port or a Port registered twice; and an activation that is
  handed out has one live instance of each planned plugin of the chosen scopes, in plan order, made
  from exactly that plugin's descriptor. Its registry answers a MULTI Port with the instances of all
  plugins that declare the Port, in that order, any other Port with the only such instance, and when
  no scope was left out every required Port has one.
\<close>

theorem plugin_activation_typed:
  assumes "exec_host es (new_host ds s script, []) = (h, acts)"
    and "resolve_dependencies (h_schema h) (h_descriptors h) ids = Inr plan"
    and "validate_schema (h_schema h) = Inr policies"
    and "activate key ids scopes h = (r, h')"
  shows "case r of Inl e \<Rightarrow> \<not> wiring_error e
    | Inr a \<Rightarrow> map fst (a_contributions a) = in_scopes scopes plan
      \<and> list_all (\<lambda>(d, n). n \<in> set (h_live h') \<and> desc h' n = d) (a_contributions a)
      \<and> (\<forall>p. if map_of policies p = Some MULTI then get_all (a_registry a) p = map snd (contributions a p)
             else length (contributions a p) \<le> 1
               \<and> registry_get (a_registry a) p = (case contributions a p of [] \<Rightarrow> None | x # _ \<Rightarrow> Some (snd x)))
      \<and> (scopes = None \<longrightarrow> (\<forall>p. map_of policies p = Some REQUIRED_SINGLE \<longrightarrow> (\<exists>n. require (a_registry a) p = Inr n)))"
proof (cases r)
  case (Inl e)
  with activate_good [OF assms(4) history_good [OF assms(1)]] assms(2) show ?thesis by simp
next
  case (Inr a)
  note g = activate_good [OF assms(4) history_good [OF assms(1)]]
  have good: "host_good h'" and desc': "h_descriptors h' = h_descriptors h"
    and ok: "activation_ok h' policies (in_scopes scopes plan) a"
    using g Inr assms(2,3) by (auto simp: keeps_store_def)
  from plan_facts [OF assms(2)] assms(3) have plan: "set (map Some plan) \<subseteq> set (h_descriptors h)"
    "\<forall>d\<in>set plan. distinct (ports d) \<and> set (ports d) \<subseteq> set (keys policies)" "fits policies plan"
    "\<forall>p. map_of policies p = Some REQUIRED_SINGLE \<longrightarrow> length (filter (\<lambda>d. p \<in> set (ports d)) plan) = 1" by auto
  have unique: "d = e" if "Some d \<in> set (h_descriptors h)" "Some e \<in> set (h_descriptors h)" "pid d = pid e" for d e
    using plan_facts [OF assms(2)] that by metis
  have fst: "map fst (a_contributions a) = in_scopes scopes plan" using ok by (simp add: activation_ok_def)
  have typed: "n \<in> set (h_live h') \<and> desc h' n = d" if x: "(d, n) \<in> set (a_contributions a)" for d n
  proof -
    have u: "usable h' (d, n)" using ok x by (auto simp: activation_ok_def list_all_iff)
    have "d \<in> set (map fst (a_contributions a))" using x by force
    then have "Some d \<in> set (h_descriptors h)" using plan(1) by (auto simp: fst in_scopes_def)
    with u unique desc' have "desc h' n = d" by (simp add: usable_def)
    moreover have "n \<in> set (h_live h')" using u good by (simp add: usable_def host_good_def)
    ultimately show ?thesis by blast
  qed
  have fits: "fits policies (in_scopes scopes plan)" using fits_filter [OF plan(3)] by (simp add: in_scopes_def)
  have ports: "\<forall>d\<in>set (in_scopes scopes plan). distinct (ports d) \<and> set (ports d) \<subseteq> set (keys policies)"
    using plan(2) by (simp add: in_scopes_def)
  note reg = activation_registry [OF ok fits ports]
  have one: "length (contributions a p) \<le> 1" if "map_of policies p \<noteq> Some MULTI" for p
  proof -
    have "length (map snd (contributions a p)) = length (filter (\<lambda>d. p \<in> set (ports d)) (in_scopes scopes plan))"
      unfolding offers_contributions [symmetric] offers_length fst ..
    with fits that show ?thesis by (simp add: fits_def)
  qed
  have single: "registry_get (a_registry a) p = (case contributions a p of [] \<Rightarrow> None | x # _ \<Rightarrow> Some (snd x))"
    if "map_of policies p \<noteq> Some MULTI" for p
    using reg [of p] that
    by (cases "registry_get (a_registry a) p"; cases "contributions a p") (auto simp: held_def)
  have required: "\<exists>n. require (a_registry a) p = Inr n" if "scopes = None" "map_of policies p = Some REQUIRED_SINGLE" for p
  proof -
    have "scope_of d \<in> set (selected_scopes scopes)" for d using that(1) by (cases "scope_of d") (simp_all add: selected_scopes_def)
    then have "in_scopes scopes plan = plan" by (simp add: in_scopes_def)
    then have "length (map snd (contributions a p)) = 1"
      using plan(4) that(2) unfolding offers_contributions [symmetric] offers_length fst by simp
    then obtain x xs where "contributions a p = x # xs" by (cases "contributions a p") auto
    with single [of p] that(2) show ?thesis by (simp add: registry_get_def require_def)
  qed
  have multi: "get_all (a_registry a) p = map snd (contributions a p)" if "map_of policies p = Some MULTI" for p
    using reg [of p] that by (auto simp: held_def)
  show ?thesis unfolding Inr sum.case
    using fst typed one single multi required by (auto simp: list_all_iff)
qed

text \<open>
  C37. Instances are disposed once and never shared dead. After any history of activations and
  disposals, whatever factories and disposers do: the live records are exactly the undisposed ones,
  in creation order; whatever a process or session cache holds is live and of that scope, under its
  own plugin's id; a disposer that returned or raised is never called again; and a record whose
  plugin has a disposer counts as disposed exactly when that disposer completed.
\<close>

theorem plugin_disposed_once:
  assumes "exec_host es (new_host ds s script, []) = (h, acts)"
  shows "h_live h = filter (\<lambda>n. \<not> disposed h n) [0..<length (h_records h)]
    \<and> (\<forall>(i, n)\<in>set (h_process h). n \<in> set (h_live h) \<and> scope_at h n = PROCESS \<and> pid (desc h n) = i)
    \<and> (\<forall>(k, c)\<in>set (h_sessions h). \<forall>(i, n)\<in>set c. n \<in> set (h_live h) \<and> scope_at h n = SESSION \<and> pid (desc h n) = i)
    \<and> sorted_wrt (\<lambda>a b. snd a \<or> fst a \<noteq> fst b) (h_disposals h)
    \<and> (\<forall>n<length (h_records h). has_disposer h n \<longrightarrow> disposed h n = ((n, False) \<in> set (h_disposals h)))"
proof -
  from assms have good: "host_good h" by (rule history_good)
  then have live: "n \<in> set (h_live h) \<longleftrightarrow> n < length (h_records h) \<and> \<not> disposed h n" for n
    by (auto simp: host_good_def)
  have scope: "scope_at h n = scope_of (desc h n)" for n by (simp add: scope_at_def desc_def)
  have cache: "\<forall>(i, n)\<in>set c. n \<in> set (h_live h) \<and> scope_at h n = s \<and> pid (desc h n) = i" if "cache_good h s c" for s c
    using that by (auto simp: live scope cache_good_def)
  have "cache_good h PROCESS (h_process h)" "\<forall>(k, c)\<in>set (h_sessions h). cache_good h SESSION c"
    using good by (simp_all add: host_good_def)
  with cache have "\<forall>(i, n)\<in>set (h_process h). n \<in> set (h_live h) \<and> scope_at h n = PROCESS \<and> pid (desc h n) = i"
    "\<forall>(k, c)\<in>set (h_sessions h). \<forall>(i, n)\<in>set c. n \<in> set (h_live h) \<and> scope_at h n = SESSION \<and> pid (desc h n) = i"
    by (blast, blast)
  moreover have "h_live h = filter (\<lambda>n. \<not> disposed h n) [0..<length (h_records h)]" "log_good h"
    using good by (simp_all add: host_good_def)
  ultimately show ?thesis unfolding log_good_def by blast
qed

text \<open>
  C38. Closing releases everything. After any history, let \<open>m\<close> be the number of disposer calls still
  to be cancelled: after \<open>m + 1\<close> calls of \<open>close\<close> every record is disposed, no cache holds an
  instance and no activation succeeds any more; and if none is cancelled, one \<open>close\<close> calls the
  disposers of the live instances in reverse order of their creation.
\<close>

theorem plugin_close_releases:
  assumes "exec_host es (new_host ds s script, []) = (h, acts)"
    and "exec_host (replicate (Suc (cancels h)) CloseHost) (h, acts) = (h', acts')"
  shows "(\<forall>n<length (h_records h'). disposed h' n) \<and> h_live h' = [] \<and> h_process h' = []
    \<and> (\<forall>(k, c)\<in>set (h_sessions h'). c = []) \<and> (\<forall>key ids scopes. \<exists>e. fst (activate key ids scopes h') = Inl e)
    \<and> (cancels h = 0 \<longrightarrow> \<not> h_closed h \<longrightarrow>
         h_disposals h' = h_disposals h @ map (\<lambda>n. (n, False)) (rev (filter (has_disposer h) (h_live h))))"
proof -
  note good = history_good [OF assms(1)]
  from close_until_empty [OF good _ assms(2)]
  have c: "host_good h'" "h_live h' = []" "h_closed h'" by simp_all
  have all: "disposed h' n" if "n < length (h_records h')" for n
    using c(1,2) that by (auto simp: host_good_def filter_empty_conv dest: sym)
  have "h_process h' = []"
  proof (cases "h_process h'")
    case (Cons e p)
    with cached_alive(1) [OF c(1), of "fst e" "snd e"] all show ?thesis by auto
  qed
  moreover have "b = []" if "(k, b) \<in> set (h_sessions h')" for k b
  proof (cases b)
    case (Cons e p)
    with cached_alive(2) [OF c(1) that, of "fst e" "snd e"] all show ?thesis by auto
  qed
  moreover have "\<exists>e. fst (activate key ids scopes h') = Inl e" for key ids scopes
    using c(3) by (auto simp: activate_def Let_def split: sum.split)
  moreover have "h_disposals h' = h_disposals h @ map (\<lambda>n. (n, False)) (rev (filter (has_disposer h) (h_live h)))"
    if none: "cancels h = 0" "\<not> h_closed h"
  proof -
    obtain r h1 where close: "close_host h = (r, h1)" by force
    have "h' = h1" using assms(2) close none(1) by (simp add: exec_host_def)
    with close_host_step(3) [OF close good none(1)] none(2) show ?thesis by simp
  qed
  ultimately show ?thesis using c(2) all by blast
qed

subsection \<open>The properties at work\<close>

text \<open>One activation of \<open>ui\<close> in session \<open>s\<close>: it creates \<open>core\<close> (record 0) and \<open>ui\<close> (record 1).\<close>

definition small_world :: "outcome list \<Rightarrow> host_event list \<Rightarrow> world" where
  "small_world script es = exec_host (Activate (Some ''s'') (Some [PStr ''ui'']) None # es)
     (new_host small_catalog small_schema script, [])"

definition small_activation :: "(plugin_error + activation) \<times> host" where
  "small_activation = activate (Some ''s'') None None (fst (small_world [] []))"

lemma small_world_pair: "exec_host (Activate (Some ''s'') (Some [PStr ''ui'']) None # es)
    (new_host small_catalog small_schema script, []) = (fst (small_world script es), snd (small_world script es))"
  by (simp add: small_world_def)

lemma small_plan_ok: "case resolve_dependencies (h_schema (fst (small_world [] []))) (h_descriptors (fst (small_world [] []))) None
    of Inr plan \<Rightarrow> map pid plan = [''extra'', ''core'', ''ui''] | Inl _ \<Rightarrow> False"
  by code_simp

lemma small_policies_ok: "validate_schema (h_schema (fst (small_world [] []))) = Inr [(''Store'', REQUIRED_SINGLE), (''View'', MULTI)]"
  by code_simp

lemma small_activation_ok: "case fst small_activation of
    Inr a \<Rightarrow> map snd (contributions a ''View'') = [2, 0, 3] \<and> map snd (contributions a ''Store'') = [0] | Inl _ \<Rightarrow> False"
  by code_simp

lemma plugin_activation_typed_witness:
  "\<exists>a. fst small_activation = Inr a \<and> get_all (a_registry a) ''View'' = [2, 0, 3]
     \<and> registry_get (a_registry a) ''Store'' = Some 0 \<and> (\<exists>n. require (a_registry a) ''Store'' = Inr n)"
proof -
  obtain plan where plan: "resolve_dependencies (h_schema (fst (small_world [] []))) (h_descriptors (fst (small_world [] []))) None = Inr plan"
    using small_plan_ok by (auto split: sum.splits)
  obtain a where a: "fst small_activation = Inr a" "map snd (contributions a ''View'') = [2, 0, 3]" "map snd (contributions a ''Store'') = [0]"
    using small_activation_ok by (auto split: sum.splits)
  have act: "activate (Some ''s'') None None (fst (small_world [] [])) = (Inr a, snd small_activation)"
    using a(1) by (simp add: small_activation_def prod_eq_iff)
  from plugin_activation_typed [OF small_world_pair plan small_policies_ok act] a show ?thesis
    by (auto split: list.splits)
qed

lemma small_disposals: "h_disposals (fst (small_world [Returns, Returns, Cancels, Raises] [DisposeActivation 0, DisposeActivation 0, CloseHost]))
    = [(1, True), (1, False), (0, False)]"
  by code_simp

lemma plugin_disposed_once_witness:
  "let h = fst (small_world [Returns, Returns, Cancels, Raises] [DisposeActivation 0, DisposeActivation 0, CloseHost])
   in h_live h = filter (\<lambda>n. \<not> disposed h n) [0..<length (h_records h)]
     \<and> sorted_wrt (\<lambda>a b. snd a \<or> fst a \<noteq> fst b) (h_disposals h)
     \<and> h_disposals h = [(1, True), (1, False), (0, False)]"
  using plugin_disposed_once [OF small_world_pair] small_disposals by (simp add: Let_def)

lemma small_cancels: "cancels (fst (small_world [Returns, Returns, Cancels, Raises] [])) = 1"
  by code_simp

lemma plugin_close_releases_witness:
  "let w = small_world [Returns, Returns, Cancels, Raises] []
   in h_live (fst (exec_host [CloseHost, CloseHost] w)) = []"
proof -
  let ?w = "small_world [Returns, Returns, Cancels, Raises] []"
  have "exec_host (replicate (Suc (cancels (fst ?w))) CloseHost) (fst ?w, snd ?w)
      = (fst (exec_host [CloseHost, CloseHost] ?w), snd (exec_host [CloseHost, CloseHost] ?w))"
    by (simp add: small_cancels numeral_2_eq_2)
  from plugin_close_releases [OF small_world_pair this] show ?thesis by (simp add: Let_def)
qed

end
