(* ===== verification/Retry.thy ===== *)
theory Retry
  imports Complex_Main Prelude
begin

section \<open>Retrying failed calls (box\_agent/retry.py)\<close>

text \<open>
  \<open>RetryConfig\<close> and the wrapper of \<open>async_retry\<close>. The wrapped function and the retry callback are
  parameters that act on a state of the environment; exceptions are opaque values. Delays are exact
  rationals (the rounding of floats is not modelled), but the \<open>OverflowError\<close> of \<open>**\<close> is. The log of
  call outcomes and of delays slept is kept with the state.
\<close>

subsection \<open>Configuration\<close>

record 'e retry_config =
  max_retries :: int
  initial_delay :: rat
  max_delay :: rat
  exponential_base :: rat
  retryable_exceptions :: "'e \<Rightarrow> bool"

definition default_config :: "'e retry_config" where
  "default_config = \<lparr>max_retries = 3, initial_delay = 1, max_delay = 60, exponential_base = 2,
     retryable_exceptions = (\<lambda>_. True)\<rparr>"

text \<open>Raising a float to a power: \<open>None\<close> is \<open>OverflowError\<close>.\<close>

definition float_pow :: "rat \<Rightarrow> nat \<Rightarrow> rat option" where
  "float_pow b n = (if 2 ^ 1024 \<le> \<bar>b ^ n\<bar> then None else Some (b ^ n))"

definition calculate_delay :: "'e retry_config \<Rightarrow> nat \<Rightarrow> rat option" where
  "calculate_delay cfg attempt = (case float_pow (exponential_base cfg) attempt of
     None \<Rightarrow> None | Some p \<Rightarrow> Some (min (initial_delay cfg * p) (max_delay cfg)))"

subsection \<open>The wrapper\<close>

datatype ('e, 'a) retry_result =
    Returned 'a
  | Reraised 'e
  | RetryExhausted 'e nat
  | Overflow
  | UnknownError

record ('s, 'e, 'a) retry_run =
  world :: 's
  outcomes :: "('e + 'a) list"
  slept :: "rat list"

definition accepted :: "'e retry_config \<Rightarrow> ('e \<Rightarrow> bool) option \<Rightarrow> 'e \<Rightarrow> bool" where
  "accepted cfg should_retry e = (retryable_exceptions cfg e
     \<and> (case should_retry of None \<Rightarrow> True | Some p \<Rightarrow> p e))"

fun attempt_loop :: "'e retry_config \<Rightarrow> ('e \<Rightarrow> nat \<Rightarrow> 's \<Rightarrow> 's) option \<Rightarrow> ('e \<Rightarrow> bool) option
    \<Rightarrow> ('s \<Rightarrow> ('e + 'a) \<times> 's) \<Rightarrow> 'e option \<Rightarrow> nat list \<Rightarrow> ('s, 'e, 'a) retry_run
    \<Rightarrow> ('e, 'a) retry_result \<times> ('s, 'e, 'a) retry_run" where
  "attempt_loop cfg on_retry should_retry f last_exception [] r =
     (case last_exception of Some e \<Rightarrow> (Reraised e, r) | None \<Rightarrow> (UnknownError, r))"
| "attempt_loop cfg on_retry should_retry f last_exception (i # is) r =
     (let (x, w) = f (world r); r1 = r\<lparr>world := w, outcomes := outcomes r @ [x]\<rparr>
      in case x of
           Inr a \<Rightarrow> (Returned a, r1)
         | Inl e \<Rightarrow>
             (if \<not> accepted cfg should_retry e then (Reraised e, r1)
              else if max_retries cfg \<le> int i then (RetryExhausted e (i + 1), r1)
              else (case calculate_delay cfg i of
                      None \<Rightarrow> (Overflow, r1)
                    | Some d \<Rightarrow>
                        (let w1 = (case on_retry of None \<Rightarrow> w | Some g \<Rightarrow> g e (i + 1) w)
                         in attempt_loop cfg on_retry should_retry f (Some e) is
                              (r1\<lparr>world := w1, slept := slept r @ [d]\<rparr>)))))"

definition async_retry :: "'e retry_config option \<Rightarrow> ('e \<Rightarrow> nat \<Rightarrow> 's \<Rightarrow> 's) option \<Rightarrow> ('e \<Rightarrow> bool) option
    \<Rightarrow> ('s \<Rightarrow> ('e + 'a) \<times> 's) \<Rightarrow> 's \<Rightarrow> ('e, 'a) retry_result \<times> ('s, 'e, 'a) retry_run" where
  "async_retry config on_retry should_retry f s =
     (let cfg = (case config of None \<Rightarrow> default_config | Some c \<Rightarrow> c)
      in attempt_loop cfg on_retry should_retry f None [0..<nat (max_retries cfg + 1)]
           \<lparr>world = s, outcomes = [], slept = []\<rparr>)"

subsection \<open>Transient stream errors\<close>

definition transient_names :: "string list" where
  "transient_names = [''RemoteProtocolError'', ''ReadTimeout'', ''ConnectTimeout'', ''ConnectError'',
     ''WriteError'', ''ReadError'', ''PoolTimeout'', ''IncompleteRead'', ''ProtocolError'',
     ''ChunkedEncodingError'', ''APIConnectionError'', ''APITimeoutError'']"

definition transient_tokens :: "string list" where
  "transient_tokens = [''peer closed connection'', ''incomplete chunked read'', ''incomplete read'',
     ''connection reset'', ''server disconnected'', ''the model service could not complete this request'']"

fun contains_text :: "string \<Rightarrow> string \<Rightarrow> bool" where
  "contains_text t [] = (t = [])"
| "contains_text t (c # s) = (take (length t) (c # s) = t \<or> contains_text t s)"

text \<open>An exception is given by the names of its classes, whether it is one of the three built-in
  connection errors, and its text.\<close>

definition is_retryable_stream_error :: "string list \<Rightarrow> bool \<Rightarrow> string \<Rightarrow> bool" where
  "is_retryable_stream_error cls_names connection_error message =
     (if list_ex (\<lambda>c. c \<in> set transient_names) cls_names then True
      else if connection_error then True
      else list_ex (\<lambda>t. contains_text t (py_lower message)) transient_tokens)"

subsection \<open>Delays\<close>

lemma calculate_delay_bounded: "calculate_delay cfg i = Some d \<Longrightarrow> d \<le> max_delay cfg"
  by (auto simp: calculate_delay_def split: option.splits)

lemma calculate_delay_mono:
  assumes "1 \<le> exponential_base cfg" "0 \<le> initial_delay cfg" "i \<le> j"
    "calculate_delay cfg i = Some d" "calculate_delay cfg j = Some d'"
  shows "d \<le> d'"
proof -
  have "exponential_base cfg ^ i \<le> exponential_base cfg ^ j"
    using assms(1,3) by (rule power_increasing [rotated])
  then have "initial_delay cfg * exponential_base cfg ^ i \<le> initial_delay cfg * exponential_base cfg ^ j"
    using assms(2) by (rule mult_left_mono)
  with assms(4,5) show ?thesis
    by (auto simp: calculate_delay_def float_pow_def min_def split: if_splits)
qed

text \<open>The delay of a late attempt is not capped but raises: \<open>2.0 ** 1024\<close> overflows.\<close>

lemma calculate_delay_overflows: "calculate_delay default_config 1024 = None"
  by (simp add: calculate_delay_def float_pow_def default_config_def)

subsection \<open>The wrapper ends\<close>

text \<open>What a run of the loop from attempt \<open>i\<close> on adds to the log, and its result.\<close>

definition ends_after :: "'e retry_config \<Rightarrow> ('e \<Rightarrow> bool) option \<Rightarrow> nat \<Rightarrow> nat \<Rightarrow> ('e + 'a) list \<Rightarrow> rat list
    \<Rightarrow> ('e, 'a) retry_result \<Rightarrow> bool" where
  "ends_after cfg sr i n xs ds res = (xs \<noteq> [] \<and> i + length xs \<le> n
     \<and> list_all (\<lambda>x. \<exists>e. x = Inl e \<and> accepted cfg sr e) (butlast xs)
     \<and> map Some ds = map (calculate_delay cfg) [i..<i + length xs - 1]
     \<and> (case last xs of
          Inr a \<Rightarrow> res = Returned a
        | Inl e \<Rightarrow> if \<not> accepted cfg sr e then res = Reraised e
            else if i + length xs = n then res = RetryExhausted e n
            else res = Overflow \<and> calculate_delay cfg (i + length xs - 1) = None))"

lemma ends_now:
  "i < n \<Longrightarrow> (case x of Inr a \<Rightarrow> res = Returned a
     | Inl e \<Rightarrow> if \<not> accepted cfg sr e then res = Reraised e
         else if Suc i = n then res = RetryExhausted e n
         else res = Overflow \<and> calculate_delay cfg i = None) \<Longrightarrow>
   ends_after cfg sr i n [x] [] res"
  by (cases x) (simp_all add: ends_after_def)

lemma ends_later:
  assumes "ends_after cfg sr (Suc i) n xs ds res" "accepted cfg sr e" "calculate_delay cfg i = Some d"
  shows "ends_after cfg sr i n (Inl e # xs) (d # ds) res"
proof -
  from assms(1) have xs: "xs \<noteq> []" "0 < length xs" by (auto simp: ends_after_def)
  then have "[i..<i + length (Inl e # xs) - 1] = i # [Suc i..<Suc i + length xs - 1]"
    by (simp add: upt_conv_Cons)
  with assms xs show ?thesis by (cases "last xs") (auto simp: ends_after_def split: if_splits)
qed

lemma attempt_loop_ends:
  assumes "i < n" "n = nat (max_retries cfg + 1)" "attempt_loop cfg on_retry sr f le [i..<n] r = (res, r')"
  shows "\<exists>xs ds. outcomes r' = outcomes r @ xs \<and> slept r' = slept r @ ds \<and> ends_after cfg sr i n xs ds res"
  using assms
proof (induction "n - i" arbitrary: i r le)
  case (Suc k)
  obtain x w where x: "f (world r) = (x, w)" by force
  define r1 where "r1 = r\<lparr>world := w, outcomes := outcomes r @ [x]\<rparr>"
  have upt: "[i..<n] = i # [Suc i..<n]" using Suc.prems(1) by (rule upt_conv_Cons)
  have last_attempt: "max_retries cfg \<le> int i \<longleftrightarrow> Suc i = n" using Suc.prems(1,2) by linarith
  have now: "?case" if "r' = r1" "ends_after cfg sr i n [x] [] res"
    using that by (auto simp: r1_def intro!: exI [of _ "[x]"] exI [of _ "[]"])
  show ?case
  proof (cases x)
    case (Inr a)
    with Suc.prems(3) x have "res = Returned a" "r' = r1" by (simp_all add: upt r1_def Let_def)
    with Suc.prems(1) Inr show ?thesis by (intro now ends_now) simp_all
  next
    case (Inl e)
    show ?thesis
    proof (cases "accepted cfg sr e \<and> Suc i \<noteq> n")
      case False
      then have "r' = r1" "(if \<not> accepted cfg sr e then res = Reraised e else res = RetryExhausted e n)"
        using Suc.prems(3) x Inl last_attempt by (auto simp: upt r1_def Let_def split: if_splits)
      with Suc.prems(1) Inl False show ?thesis by (intro now ends_now) auto
    next
      case True
      show ?thesis
      proof (cases "calculate_delay cfg i")
        case None
        with Suc.prems(3) x Inl True last_attempt have "r' = r1" "res = Overflow" by (simp_all add: upt r1_def Let_def)
        with Suc.prems(1) Inl True None show ?thesis by (intro now ends_now) simp_all
      next
        case (Some d)
        define r2 where "r2 = r1\<lparr>world := (case on_retry of None \<Rightarrow> w | Some g \<Rightarrow> g e (i + 1) w), slept := slept r @ [d]\<rparr>"
        have "attempt_loop cfg on_retry sr f (Some e) [Suc i..<n] r2 = (res, r')"
          using Suc.prems(3) x Inl True last_attempt Some by (simp add: upt r1_def r2_def Let_def)
        moreover have "k = n - Suc i" "Suc i < n" using Suc.hyps(2) Suc.prems(1) True by linarith+
        ultimately obtain xs ds where "outcomes r' = outcomes r2 @ xs" "slept r' = slept r2 @ ds"
            "ends_after cfg sr (Suc i) n xs ds res"
          using Suc.hyps(1) [of "Suc i" "Some e" r2] Suc.prems(2) by blast
        moreover from this(3) have "ends_after cfg sr i n (Inl e # xs) (d # ds) res"
          using True Some by (intro ends_later) simp_all
        ultimately show ?thesis using Inl
          by (intro exI [of _ "Inl e # xs"] exI [of _ "d # ds"]) (simp add: r2_def r1_def)
      qed
    qed
  qed
qed simp

text \<open>
  C39. A retried call ends. Let the configured number of retries not be negative and no power of the
  base overflow. Then the wrapper returns, after at least one and at most \<open>max_retries + 1\<close> calls,
  whatever the function does: every call but the last failed with an exception that is to be
  retried, before each further call it slept the exponential delay of that attempt, never more than
  \<open>max_delay\<close>; and the result is the value of the last call, its exception as it is when that is not
  to be retried, and \<open>RetryExhaustedError\<close> only when all \<open>max_retries + 1\<close> calls failed.
\<close>

theorem retry_ends:
  assumes "0 \<le> max_retries cfg" "\<forall>i<nat (max_retries cfg). \<bar>exponential_base cfg ^ i\<bar> < 2 ^ 1024"
    and "async_retry (Some cfg) on_retry should_retry f s = (res, r)"
  shows "outcomes r \<noteq> [] \<and> int (length (outcomes r)) \<le> max_retries cfg + 1
    \<and> list_all (\<lambda>x. \<exists>e. x = Inl e \<and> accepted cfg should_retry e) (butlast (outcomes r))
    \<and> slept r = map (\<lambda>i. min (initial_delay cfg * exponential_base cfg ^ i) (max_delay cfg)) [0..<length (outcomes r) - 1]
    \<and> list_all (\<lambda>d. d \<le> max_delay cfg) (slept r)
    \<and> (case last (outcomes r) of
         Inr a \<Rightarrow> res = Returned a
       | Inl e \<Rightarrow> if accepted cfg should_retry e
           then int (length (outcomes r)) = max_retries cfg + 1 \<and> res = RetryExhausted e (length (outcomes r))
           else res = Reraised e)"
proof -
  let ?n = "nat (max_retries cfg + 1)"
  have "0 < ?n" using assms(1) by simp
  moreover from assms(3) have run: "attempt_loop cfg on_retry should_retry f None [0..<?n]
      \<lparr>world = s, outcomes = [], slept = []\<rparr> = (res, r)" by (simp add: async_retry_def)
  ultimately obtain xs ds where out: "outcomes r = xs" "slept r = ds"
      and ends: "ends_after cfg should_retry 0 ?n xs ds res"
    using attempt_loop_ends [OF _ refl run] by auto
  have delay: "calculate_delay cfg i = Some (min (initial_delay cfg * exponential_base cfg ^ i) (max_delay cfg))"
    if "i < nat (max_retries cfg)" for i
    using assms(2) that by (simp add: calculate_delay_def float_pow_def not_le)
  from ends have len: "0 < length xs" "length xs \<le> ?n" by (auto simp: ends_after_def)
  have "map Some ds = map (\<lambda>i. Some (min (initial_delay cfg * exponential_base cfg ^ i) (max_delay cfg))) [0..<length xs - 1]"
    using ends delay len assms(1) by (simp add: ends_after_def)
  then have "map Some ds = map Some (map (\<lambda>i. min (initial_delay cfg * exponential_base cfg ^ i) (max_delay cfg)) [0..<length xs - 1])"
    by simp
  then have ds: "ds = map (\<lambda>i. min (initial_delay cfg * exponential_base cfg ^ i) (max_delay cfg)) [0..<length xs - 1]"
    by (rule map_injective) simp
  have full: "length xs = ?n" if "last xs = Inl e" "accepted cfg should_retry e" for e
  proof (rule ccontr)
    assume "length xs \<noteq> ?n"
    with ends that have "calculate_delay cfg (length xs - 1) = None" by (auto simp: ends_after_def)
    moreover have "length xs - 1 < nat (max_retries cfg)" using len \<open>length xs \<noteq> ?n\<close> assms(1) by linarith
    ultimately show False using delay by simp
  qed
  have result: "case last xs of
         Inr a \<Rightarrow> res = Returned a
       | Inl e \<Rightarrow> if accepted cfg should_retry e
           then int (length xs) = max_retries cfg + 1 \<and> res = RetryExhausted e (length xs)
           else res = Reraised e"
  proof (cases "last xs")
    case (Inl e)
    with ends full [OF Inl] assms(1) show ?thesis by (auto simp: ends_after_def split: if_splits)
  next
    case (Inr a)
    with ends show ?thesis by (simp add: ends_after_def)
  qed
  show ?thesis unfolding out
    using ends len assms(1) ds result by (auto simp: ends_after_def list_all_iff)
qed

text \<open>A call that fails twice and then answers: delays 1 and 2.\<close>

definition flaky :: "nat \<Rightarrow> (string + nat) \<times> nat" where
  "flaky n = (if n < 2 then Inl ''reset'' else Inr n, n + 1)"

definition flaky_config :: "string retry_config" where
  "flaky_config = default_config"

definition flaky_run :: "(string, nat) retry_result \<times> (nat, string, nat) retry_run" where
  "flaky_run = async_retry (Some flaky_config) None None flaky 0"

lemma flaky_outcomes: "outcomes (snd flaky_run) = [Inl ''reset'', Inl ''reset'', Inr 2]"
  by (simp add: flaky_run_def flaky_config_def async_retry_def default_config_def upt_rec flaky_def
      accepted_def calculate_delay_def float_pow_def Let_def)

lemma retry_ends_witness: "fst flaky_run = Returned 2 \<and> slept (snd flaky_run) = [1, 2]"
proof -
  have cfg: "max_retries flaky_config = 3" "exponential_base flaky_config = 2" "initial_delay flaky_config = 1"
    "max_delay flaky_config = 60"
    by (simp_all add: flaky_config_def default_config_def)
  have "\<bar>exponential_base flaky_config ^ i\<bar> < 2 ^ 1024" if "i < 3" for i
  proof -
    have "(2 :: rat) ^ i \<le> 2 ^ 2" using that by (intro power_increasing) simp_all
    then show ?thesis by (simp add: cfg)
  qed
  then have pow: "\<forall>i<nat (max_retries flaky_config). \<bar>exponential_base flaky_config ^ i\<bar> < 2 ^ 1024"
    by (simp add: cfg)
  have run: "async_retry (Some flaky_config) None None flaky 0 = (fst flaky_run, snd flaky_run)"
    by (simp add: flaky_run_def)
  show ?thesis
    using retry_ends [OF _ pow run] by (simp add: cfg flaky_outcomes upt_rec)
qed

end
