(* ===== verification/HookBusCorrect.thy ===== *)
theory HookBusCorrect
  imports HookBus "HOL-Library.Multiset"
begin

section \<open>Hook chains run in order and fail closed\<close>

text \<open>
  What \<open>freeze\<close> makes of the registrations, the invariant of the bus under every history of
  operations, and the two interception chains: which hooks run, what each is shown, and that a
  failing hook never lets a call or a text through.
\<close>

subsection \<open>The index\<close>

definition indexed :: "((string \<times> string) \<times> registration list) list \<Rightarrow> string \<Rightarrow> string \<Rightarrow> registration list" where
  "indexed ix ev k = (case map_of ix (ev, k) of None \<Rightarrow> [] | Some es \<Rightarrow> es)"

lemma index_entry_events:
  "distinct evs \<Longrightarrow> indexed (foldl (\<lambda>ix ev. AList.update (ev, hs_kind (re_spec e))
      ((case map_of ix (ev, hs_kind (re_spec e)) of None \<Rightarrow> [] | Some es \<Rightarrow> es) @ [e]) ix) ix evs) ev k
    = indexed ix ev k @ (if ev \<in> set evs \<and> k = hs_kind (re_spec e) then [e] else [])"
proof (induction evs arbitrary: ix)
  case (Cons x evs)
  then show ?case by (auto simp: indexed_def map_of_update)
qed simp

lemma index_entry_spec:
  "indexed (index_entry ix e) ev k
    = indexed ix ev k @ (if ev \<in> set (hs_events (re_spec e)) \<and> k = hs_kind (re_spec e) then [e] else [])"
  unfolding index_entry_def by (subst index_entry_events) simp_all

definition handles :: "string \<Rightarrow> string \<Rightarrow> registration \<Rightarrow> bool" where
  "handles ev k e = (ev \<in> set (hs_events (re_spec e)) \<and> hs_kind (re_spec e) = k)"

lemma index_spec: "indexed (foldl index_entry ix es) ev k = indexed ix ev k @ filter (handles ev k) es"
  by (induction es arbitrary: ix) (auto simp: index_entry_spec handles_def)

subsection \<open>The invariant of the bus\<close>

definition valid_entry :: "registration \<Rightarrow> bool" where
  "valid_entry e = (hs_id (re_spec e) \<noteq> [] \<and> ho_source (re_owner e) \<noteq> [] \<and> hs_priority (re_spec e) \<noteq> None)"

definition bus_good :: "bus \<Rightarrow> bool" where
  "bus_good b = (distinct (map re_id (bus_entries b)) \<and> (\<forall>e\<in>set (bus_entries b). re_id e \<le> bus_order b)
     \<and> list_all valid_entry (bus_entries b) \<and> list_all (\<lambda>e. ho_run (re_owner e) = bus_run b) (bus_entries b)
     \<and> distinct (map (\<lambda>e. (ho_plugin (re_owner e), hs_id (re_spec e))) (bus_entries b))
     \<and> (bus_state b = Ready \<longrightarrow> bus_index b = foldl index_entry [] (sort_entries (bus_entries b))))"

datatype bus_op =
    RegisterHook hook_spec hook_owner
  | FreezeBus
  | BeginDispatch hook_context
  | LateError nat
  | DisposeToken nat
  | CloseBus "nat list"

definition bus_exec :: "bus \<Rightarrow> bus_op \<Rightarrow> (hook_error + nat) \<times> bus" where
  "bus_exec b op = (case op of
     RegisterHook s ow \<Rightarrow> register_hook s ow b
   | FreezeBus \<Rightarrow> map_prod (map_sum id (\<lambda>_. 0)) id (freeze_bus b)
   | BeginDispatch c \<Rightarrow> map_prod (map_sum id (\<lambda>_. 0)) id (begin_dispatch c b)
   | LateError n \<Rightarrow> (Inr 0, remember_late n b)
   | DisposeToken n \<Rightarrow> map_prod (map_sum id (\<lambda>_. 0)) id (dispose_token n b)
   | CloseBus late \<Rightarrow> map_prod (map_sum id (\<lambda>_. 0)) id (close_bus late b))"

lemma register_good:
  assumes "bus_good b"
  shows "bus_good (snd (register_hook s ow b))"
proof (cases "register_error s ow b")
  case None
  then have "bus_state b = Registering" "hs_id s \<noteq> []" "ho_source ow \<noteq> []" "hs_priority s \<noteq> None" "ho_run ow = bus_run b"
    "\<not> list_ex (\<lambda>e. ho_plugin (re_owner e) = ho_plugin ow \<and> hs_id (re_spec e) = hs_id s) (bus_entries b)"
    by (auto simp: register_error_def split: if_splits)
  then have "valid_entry \<lparr>re_id = bus_order b + 1, re_spec = s, re_owner = ow\<rparr>"
    "(ho_plugin ow, hs_id s) \<notin> (\<lambda>e. (ho_plugin (re_owner e), hs_id (re_spec e))) ` set (bus_entries b)"
    "bus_order b + 1 \<notin> re_id ` set (bus_entries b)" "\<forall>e\<in>set (bus_entries b). re_id e \<le> Suc (bus_order b)"
    using assms by (auto simp: valid_entry_def list_ex_iff bus_good_def)
  with \<open>bus_state b = Registering\<close> \<open>ho_run ow = bus_run b\<close> None assms show ?thesis
    by (simp add: register_hook_def bus_good_def Let_def)
qed (simp add: register_hook_def assms)

lemma freeze_good: "bus_good b \<Longrightarrow> bus_good (snd (freeze_bus b))"
  by (cases "bus_state b") (simp_all add: freeze_bus_def bus_good_def)

lemma late_good: "bus_good b \<Longrightarrow> bus_good (remember_late n b)"
  by (simp add: remember_late_def bus_good_def)

lemma raise_late_good: "bus_good b \<Longrightarrow> bus_good (snd (raise_late b))"
  by (cases "bus_late b") (simp_all add: raise_late_def bus_good_def)

lemma begin_dispatch_good: "bus_good b \<Longrightarrow> bus_good (snd (begin_dispatch c b))"
  by (simp add: begin_dispatch_def raise_late_good)

lemma unregister_good:
  assumes "bus_good b"
  shows "bus_good (snd (unregister n b)) \<and> bus_tokens (snd (unregister n b)) = bus_tokens b"
  using assms by (auto simp: unregister_def bus_good_def list_all_iff distinct_map_filter)

lemma dispose_token_good: "bus_good b \<Longrightarrow> bus_good (snd (dispose_token n b))"
  using unregister_good [of b n] by (auto simp: dispose_token_def bus_good_def split: prod.splits sum.splits)

lemma dispose_tokens_good: "bus_good b \<Longrightarrow> bus_good (snd (dispose_tokens ns b))"
proof (induction ns b rule: dispose_tokens.induct)
  case (2 n ns b)
  from dispose_token_good [OF 2(2), of n] 2(1) show ?case
    by (cases "dispose_token n b") (auto split: sum.splits)
qed simp

lemma close_good:
  assumes "bus_good b"
  shows "bus_good (snd (close_bus late b))"
proof (cases "bus_state b = Closed")
  case False
  define b1 where "b1 = foldl (\<lambda>b n. remember_late n b) (b\<lparr>bus_state := Draining\<rparr>) late"
  have "bus_good (foldl (\<lambda>b n. remember_late n b) x late)" if "bus_good x" for x
    using that by (induction late arbitrary: x) (simp_all add: late_good)
  moreover have "bus_good (b\<lparr>bus_state := Draining\<rparr>)" using assms by (simp add: bus_good_def)
  ultimately have "bus_good b1" by (simp add: b1_def)
  then have b2: "bus_good (snd (dispose_tokens (rev (map fst (bus_tokens b1))) b1))" by (rule dispose_tokens_good)
  have closed: "bus_good (snd (raise_late (x\<lparr>bus_tokens := [], bus_state := Closed\<rparr>)))" if "bus_good x" for x
    by (rule raise_late_good) (use that in \<open>simp add: bus_good_def\<close>)
  have "close_bus late b = (case dispose_tokens (rev (map fst (bus_tokens b1))) b1 of
      (Inl err, b2) \<Rightarrow> (Inl err, b2) | (Inr _, b2) \<Rightarrow> raise_late (b2\<lparr>bus_tokens := [], bus_state := Closed\<rparr>))"
    using False unfolding close_bus_def b1_def by (simp add: Let_def)
  with b2 closed show ?thesis
    by (cases "dispose_tokens (rev (map fst (bus_tokens b1))) b1") (auto split: sum.splits)
qed (simp add: close_bus_def assms)

interpretation hooks: component bus_exec bus_good
proof
  fix b op assume "bus_good b"
  then show "bus_good (snd (bus_exec b op))"
    by (cases op) (simp_all add: bus_exec_def register_good freeze_good begin_dispatch_good late_good
        dispose_token_good close_good)
qed

lemma new_bus_good: "bus_good (new_bus run session)"
  by (simp add: bus_good_def new_bus_def)

text \<open>A dispatch that begins finds the hooks of its event and kind, in order.\<close>

lemma dispatch_selects:
  assumes "bus_good b" "begin_dispatch c b = (Inr u, b1)"
  shows "b1 = b \<and> select_entries ev k b = filter (handles ev k) (sort_entries (bus_entries b))"
proof -
  from assms(2) have ready: "bus_state b = Ready" and late: "raise_late b = (Inr u, b1)"
    by (auto simp: begin_dispatch_def split: if_splits)
  from late have "b1 = b" by (auto simp: raise_late_def split: list.splits)
  moreover have "bus_index b = foldl index_entry [] (sort_entries (bus_entries b))"
    using assms(1) ready by (simp add: bus_good_def)
  then have "select_entries ev k b = indexed (foldl index_entry [] (sort_entries (bus_entries b))) ev k"
    by (simp add: select_entries_def indexed_def)
  ultimately show ?thesis by (simp add: index_spec) (simp add: indexed_def)
qed

lemma sorted_filter_entries:
  "sorted (map (\<lambda>e. (entry_priority e, re_id e)) (filter P (sort_entries es)))"
  by (simp add: sort_entries_def sorted_filter)

subsection \<open>The chain before a tool\<close>

text \<open>The arguments after one hook, and after a row of them.\<close>

definition arguments_after :: "pyval \<Rightarrow> registration \<times> pyval \<times> execution \<Rightarrow> pyval" where
  "arguments_after cur h = (case snd (snd h) of
     Completed (BeforeDecision (Modify d)) \<Rightarrow> PDict d
   | Completed (OtherDecision v) \<Rightarrow> v
   | _ \<Rightarrow> cur)"

text \<open>A hook that lets the call through: an old one whatever happens to it, a new one that did not
  apply, or allowed, or modified.\<close>

definition lets_through :: "registration \<times> 'a \<times> execution \<Rightarrow> bool" where
  "lets_through h = (is_legacy (fst h) \<or> (case snd (snd h) of
     Skipped \<Rightarrow> True
   | Completed (BeforeDecision Allow) \<Rightarrow> True
   | Completed (BeforeDecision (Modify _)) \<Rightarrow> True
   | Completed (TextDecision Keep) \<Rightarrow> True
   | Completed (TextDecision (Replace _)) \<Rightarrow> True
   | _ \<Rightarrow> False))"

text \<open>Each hook of a row was shown what the ones before it left.\<close>

fun shown :: "('v \<Rightarrow> registration \<times> 'v \<times> execution \<Rightarrow> 'v) \<Rightarrow> 'v \<Rightarrow> (registration \<times> 'v \<times> execution) list \<Rightarrow> bool" where
  "shown step v [] = True"
| "shown step v (h # hs) = (fst (snd h) = v \<and> shown step (step v h) hs)"

lemma execute_kind:
  assumes "execute_entry E ev e p s = (Inr (Completed d), s')" "\<not> is_legacy e"
  shows "expected_decision (hs_kind (re_spec e)) d"
  using assms
  by (auto simp: execute_entry_def failed_by_def split: prod.splits match_outcome.splits bool.splits handle_outcome.splits
      if_splits exc.splits)

definition chain_result :: "registration list \<Rightarrow> pyval \<Rightarrow> (registration \<times> pyval \<times> execution) list
    \<Rightarrow> before_resolution \<Rightarrow> bool" where
  "chain_result es current tr res = (map fst tr = take (length tr) es \<and> shown arguments_after current tr
     \<and> (case res of
          AllowWith v \<Rightarrow> length tr = length es \<and> list_all lets_through tr \<and> v = foldl arguments_after current tr
        | DenyWith reason code hook source \<Rightarrow> tr \<noteq> [] \<and> list_all lets_through (butlast tr)
            \<and> \<not> lets_through (last tr) \<and> hook = hs_id (re_spec (fst (last tr)))
            \<and> source = ho_source (re_owner (fst (last tr)))
            \<and> (snd (snd (last tr)) = Completed (BeforeDecision (Deny reason code)) \<or> code = ''HOOK_EXECUTION_FAILED'')))"

lemma chain_result_Cons:
  assumes "chain_result es v tr res" "lets_through (e, current, x)" "arguments_after current (e, current, x) = v"
  shows "chain_result (e # es) current ((e, current, x) # tr) res"
  using assms by (cases res) (auto simp: chain_result_def)

lemma before_next_continues:
  assumes "before_next current e x = Inr (Inr v)"
    and "\<not> is_legacy e \<Longrightarrow> (\<forall>d. x = Completed d \<longrightarrow> (\<exists>b. d = BeforeDecision b))"
  shows "lets_through (e, current, x) \<and> arguments_after current (e, current, x) = v"
proof (cases "is_legacy e")
  case True
  with assms(1) show ?thesis
    by (auto simp: before_next_def lets_through_def arguments_after_def split: execution.splits decision.splits)
next
  case False
  with assms show ?thesis
    by (auto simp: before_next_def lets_through_def arguments_after_def apply_before_decision_def Let_def failure_denial_def
        split: execution.splits decision.splits before_decision.splits sum.splits before_resolution.splits pyval.splits if_splits)
qed

lemma before_next_stops:
  assumes "before_next current e x = Inr (Inl res)"
    and "\<not> is_legacy e \<Longrightarrow> (\<forall>d. x = Completed d \<longrightarrow> (\<exists>b. d = BeforeDecision b))"
  shows "chain_result (e # es) current [(e, current, x)] res"
proof (cases "is_legacy e")
  case True
  with assms(1) show ?thesis by (auto simp: before_next_def split: execution.splits decision.splits)
next
  case False
  with assms show ?thesis
    by (auto simp: before_next_def lets_through_def chain_result_def apply_before_decision_def Let_def failure_denial_def
        split: execution.splits decision.splits before_decision.splits sum.splits before_resolution.splits pyval.splits if_splits)
qed

lemma before_chain_result:
  "before_chain E c es current s = (Inr res, s', tr) \<Longrightarrow> list_all (\<lambda>e. hs_kind (re_spec e) = ''before_tool'') es \<Longrightarrow>
   chain_result es current tr res"
proof (induction E c es current s arbitrary: s' tr rule: before_chain.induct)
  case (1 E c current s)
  then show ?case
    by (auto simp: chain_result_def resolve_allow_def split: pyval.splits if_splits)
next
  case (2 E c e es current s)
  define payload where "payload = AList.update ''arguments'' current (hc_payload c)"
  have ok: "json_finite (PDict payload)" "''tool_name'' \<in> set (keys (hc_payload c))"
    using 2(2) by (auto simp: payload_def Let_def split: if_splits)
  obtain r s1 where x: "execute_entry E (hc_event c) e payload s = (r, s1)" by force
  have run: "before_chain E c (e # es) current s = (case r of
      Inl err \<Rightarrow> (Inl err, s1, [])
    | Inr x \<Rightarrow> (case before_next current e x of
        Inl err \<Rightarrow> (Inl err, s1, [(e, current, x)])
      | Inr (Inl res) \<Rightarrow> (Inr res, s1, [(e, current, x)])
      | Inr (Inr v) \<Rightarrow> (let (r', s2, tr) = before_chain E c es v s1 in (r', s2, (e, current, x) # tr))))"
    using ok x by (simp add: payload_def [symmetric] Let_def)
  from 2(2) run obtain ex where ex: "r = Inr ex" by (cases r) auto
  have kind: "\<exists>b. d = BeforeDecision b" if "\<not> is_legacy e" "ex = Completed d" for d
    using execute_kind [of E "hc_event c" e payload s d s1] x ex that 2(3)
    by (auto simp: expected_decision_def split: decision.splits)
  show ?case
  proof (cases "before_next current e ex")
    case (Inl err)
    with 2(2) run ex show ?thesis by simp
  next
    case (Inr nx)
    show ?thesis
    proof (cases nx)
      case (Inl r0)
      with 2(2) run ex Inr have "res = r0" "tr = [(e, current, ex)]" by simp_all
      with before_next_stops [of current e ex r0 es] Inr Inl kind show ?thesis by blast
    next
      case next_v: (Inr v)
      obtain r' s2 tr2 where rest: "before_chain E c es v s1 = (r', s2, tr2)" by (metis prod.exhaust)
      with 2(2) run ex Inr next_v have out: "r' = Inr res" "tr = (e, current, ex) # tr2" by simp_all
      have step: "lets_through (e, current, ex) \<and> arguments_after current (e, current, ex) = v"
        using before_next_continues [of current e ex v] Inr next_v kind by blast
      have "chain_result es v tr2 res"
        using 2(1) [OF payload_def _ _ refl x [symmetric] ex Inr next_v, of s2 tr2] ok rest out(1) 2(3) by simp
      with step out(2) show ?thesis by (auto intro: chain_result_Cons)
    qed
  qed
qed

subsection \<open>The chain after a tool\<close>

definition text_after :: "result_text \<Rightarrow> registration \<times> result_text \<times> execution \<Rightarrow> result_text" where
  "text_after cur h = (case snd (snd h) of Completed (TextDecision (Replace t)) \<Rightarrow> t | _ \<Rightarrow> cur)"

definition text_outcome :: "registration list \<Rightarrow> result_text \<Rightarrow> (registration \<times> result_text \<times> execution) list
    \<Rightarrow> text_resolution \<Rightarrow> bool" where
  "text_outcome es current tr res = (map fst tr = take (length tr) es \<and> shown text_after current tr
     \<and> (if tr_suppressed res
        then tr \<noteq> [] \<and> list_all lets_through (butlast tr) \<and> \<not> lets_through (last tr)
          \<and> rt_content (tr_text res) = SUPPRESSED_TEXT \<and> rt_error (tr_text res) \<in> {None, Some SUPPRESSED_TEXT}
          \<and> tr_hook_id res = Some (hs_id (re_spec (fst (last tr))))
        else length tr = length es \<and> list_all lets_through tr \<and> tr_text res = foldl text_after current tr))"

lemma text_outcome_Cons:
  assumes "text_outcome es t tr res" "lets_through (e, current, x)" "text_after current (e, current, x) = t"
  shows "text_outcome (e # es) current ((e, current, x) # tr) res"
  using assms by (auto simp: text_outcome_def)

lemma text_next_continues:
  assumes "text_next c current m e x = Inr (t, m')"
    and "\<not> is_legacy e \<Longrightarrow> (\<forall>d. x = Completed d \<longrightarrow> (\<exists>b. d = TextDecision b))"
  shows "lets_through (e, current, x) \<and> text_after current (e, current, x) = t"
  using assms
  by (cases "is_legacy e") (auto simp: text_next_def lets_through_def text_after_def
      split: execution.splits decision.splits text_decision.splits)

lemma text_next_stops:
  assumes "text_next c current m e x = Inl res"
    and "\<not> is_legacy e \<Longrightarrow> (\<forall>d. x = Completed d \<longrightarrow> (\<exists>b. d = TextDecision b))"
  shows "text_outcome (e # es) current [(e, current, x)] res"
  using assms
  by (cases "is_legacy e") (auto simp: text_next_def lets_through_def text_outcome_def suppressed_def
      split: execution.splits decision.splits text_decision.splits)

lemma text_chain_result:
  "text_chain E c es current m s = (Inr res, s', tr) \<Longrightarrow> list_all (\<lambda>e. hs_kind (re_spec e) = ''result_text'') es \<Longrightarrow>
   text_outcome (filter (text_applies c) es) current tr res"
proof (induction E c es current m s arbitrary: s' tr rule: text_chain.induct)
  case (1 E c current m s)
  then show ?case by (auto simp: text_outcome_def text_result_def)
next
  case (2 E c e es current m s)
  show ?case
  proof (cases "text_applies c e")
    case False
    with 2(3,4) 2(1) [OF False] show ?thesis by simp
  next
    case True
    have ok: "json_finite (PDict (text_payload c current))"
      "list_all (\<lambda>k. k \<in> set (keys (hc_payload c))) [''tool_name'', ''success'']"
      using 2(3) True by (auto split: if_splits)
    obtain r s1 where x: "execute_entry E (hc_event c) e (text_payload c current) s = (r, s1)" by force
    have run: "text_chain E c (e # es) current m s = (case r of
        Inl err \<Rightarrow> (Inl err, s1, [])
      | Inr x \<Rightarrow> (case text_next c current m e x of
          Inl res \<Rightarrow> (Inr res, s1, [(e, current, x)])
        | Inr (t, m) \<Rightarrow> (let (r', s2, tr) = text_chain E c es t m s1 in (r', s2, (e, current, x) # tr))))"
      using True ok x by (simp only: text_chain.simps not_True_eq_False if_False Let_def prod.case)
    from 2(3) run obtain ex where ex: "r = Inr ex" by (cases r) auto
    have kind: "\<exists>b. d = TextDecision b" if "\<not> is_legacy e" "ex = Completed d" for d
      using execute_kind [of E "hc_event c" e "text_payload c current" s d s1] x ex that 2(4)
      by (cases d) (auto simp: expected_decision_def)
    show ?thesis
    proof (cases "text_next c current m e ex")
      case (Inl r0)
      with 2(3) run ex have "res = r0" "tr = [(e, current, ex)]" by simp_all
      with text_next_stops [OF Inl] kind True show ?thesis by auto
    next
      case (Inr tm)
      obtain t m' where tm: "tm = (t, m')" by force
      obtain r' s2 tr2 where rest: "text_chain E c es t m' s1 = (r', s2, tr2)" by (metis prod.exhaust)
      with 2(3) run ex Inr tm have out: "r' = Inr res" "tr = (e, current, ex) # tr2" by simp_all
      have step: "lets_through (e, current, ex) \<and> text_after current (e, current, ex) = t"
        using text_next_continues [of c current m e ex t m'] Inr tm kind by blast
      have not_not: "\<not> \<not> text_applies c e" using True by simp
      have "text_outcome (filter (text_applies c) es) t tr2 res"
        using 2(2) [OF not_not _ _ refl x [symmetric] ex Inr tm [symmetric], of s2 tr2] ok rest out(1) 2(4) by simp
      with step out(2) True show ?thesis by (auto intro: text_outcome_Cons)
    qed
  qed
qed

subsection \<open>A bus belongs to one run\<close>

lemma unregister_run: "bus_run (snd (unregister n b)) = bus_run b"
  by (simp add: unregister_def)

lemma bus_run_dispose: "bus_run (snd (dispose_token n b)) = bus_run b"
  using unregister_run [of n b] by (auto simp: dispose_token_def split: prod.splits sum.splits)

lemma bus_run_dispose_all: "bus_run (snd (dispose_tokens ns b)) = bus_run b"
proof (induction ns b rule: dispose_tokens.induct)
  case (2 n ns b)
  then show ?case using bus_run_dispose [of n b] by (cases "dispose_token n b") (auto split: sum.splits)
qed simp

lemma bus_run_late: "bus_run (foldl (\<lambda>b n. remember_late n b) b late) = bus_run b"
  by (induction late arbitrary: b) (simp_all add: remember_late_def)

lemma bus_run_raise: "bus_run (snd (raise_late b)) = bus_run b"
  by (cases "bus_late b") (simp_all add: raise_late_def)

lemma close_bus_run: "bus_run (snd (close_bus late b)) = bus_run b"
proof (cases "bus_state b = Closed")
  case False
  define b1 where "b1 = foldl (\<lambda>b n. remember_late n b) (b\<lparr>bus_state := Draining\<rparr>) late"
  have "close_bus late b = (case dispose_tokens (rev (map fst (bus_tokens b1))) b1 of
      (Inl err, b2) \<Rightarrow> (Inl err, b2) | (Inr _, b2) \<Rightarrow> raise_late (b2\<lparr>bus_tokens := [], bus_state := Closed\<rparr>))"
    using False unfolding close_bus_def b1_def by (simp add: Let_def)
  moreover have "bus_run b1 = bus_run b" by (simp add: b1_def bus_run_late)
  ultimately show ?thesis
    using bus_run_dispose_all [of "rev (map fst (bus_tokens b1))" b1] bus_run_raise
    by (cases "dispose_tokens (rev (map fst (bus_tokens b1))) b1") (auto split: sum.splits)
qed (simp add: close_bus_def)

lemma bus_exec_run: "bus_run (snd (bus_exec b op)) = bus_run b"
proof (cases op)
  case (RegisterHook s ow)
  then show ?thesis by (simp add: bus_exec_def register_hook_def Let_def split: option.split)
next
  case FreezeBus
  then show ?thesis by (cases "bus_state b") (simp_all add: bus_exec_def freeze_bus_def)
next
  case (BeginDispatch c)
  then show ?thesis by (simp add: bus_exec_def begin_dispatch_def bus_run_raise)
next
  case (LateError n)
  then show ?thesis by (simp add: bus_exec_def remember_late_def)
qed (simp_all add: bus_exec_def bus_run_dispose close_bus_run)

subsection \<open>Property\<close>

definition run_bus :: "bus_op list \<Rightarrow> bus \<Rightarrow> bus" where
  "run_bus ops b = foldl (\<lambda>b op. snd (bus_exec b op)) b ops"

lemma run_bus_good: "bus_good (run_bus ops (new_bus run session))"
  using hooks.run_inv [OF new_bus_good, of run session ops] by (simp add: hooks.run_def run_bus_def)

definition in_order :: "string \<Rightarrow> string \<Rightarrow> bus \<Rightarrow> registration list" where
  "in_order ev k b = filter (handles ev k) (sort_entries (bus_entries b))"


text \<open>Three hooks: \<open>guard\<close> was registered first but has the later priority, and it raises.\<close>

definition demo_spec :: "string \<Rightarrow> string \<Rightarrow> string \<Rightarrow> int \<Rightarrow> hook_spec" where
  "demo_spec i ev k p = \<lparr>hs_id = i, hs_events = [ev], hs_kind = k, hs_handler = Handler, hs_priority = Some p,
     hs_matcher = NoMatcher, hs_timeout = NoTimeout\<rparr>"

definition demo_owner :: hook_owner where
  "demo_owner = \<lparr>ho_plugin = ''p'', ho_version = ''1'', ho_source = ''test'', ho_run = ''r'', ho_scope = ''run''\<rparr>"

definition demo_ops :: "bus_op list" where
  "demo_ops = [RegisterHook (demo_spec ''guard'' ''tool.before_execution'' ''before_tool'' 5) demo_owner,
     RegisterHook (demo_spec ''rewrite'' ''tool.before_execution'' ''before_tool'' 1) demo_owner,
     RegisterHook (demo_spec ''redact'' ''tool.after_execution'' ''result_text'' 0) demo_owner, FreezeBus]"

definition demo_env :: "nat hook_env" where
  "demo_env = \<lparr>env_matches = (\<lambda>_ _ n. (MatchBool True, n)),
     env_handle = (\<lambda>e _ n. (if hs_id (re_spec e) = ''rewrite''
         then Answers (BeforeDecision (Modify [(''path'', PStr ''/safe'')]))
       else if hs_id (re_spec e) = ''redact'' then Answers (TextDecision (Suppress ''secret''))
       else Raises (Err ''boom''), n + 1)),
     env_cancelled = (\<lambda>_. False)\<rparr>"

definition demo_context :: "string \<Rightarrow> hook_context" where
  "demo_context ev = \<lparr>hc_event = ev, hc_run = ''r'', hc_session = ''s'',
     hc_payload = [(''tool_name'', PStr ''write''), (''success'', PBool True)]\<rparr>"

definition demo_before :: "(hook_error + before_resolution) \<times> (bus \<times> nat \<times> (registration \<times> pyval \<times> execution) list)" where
  "demo_before = before_tool demo_env (demo_context ''tool.before_execution'') (PDict []) (run_bus demo_ops (new_bus ''r'' ''s'')) 0"

definition demo_after :: "(hook_error + text_resolution) \<times> (bus \<times> nat \<times> (registration \<times> result_text \<times> execution) list)" where
  "demo_after = after_tool demo_env (demo_context ''tool.after_execution'') \<lparr>rt_content = ''top'', rt_error = None\<rparr>
     (run_bus demo_ops (new_bus ''r'' ''s'')) 0"

lemma demo_before_ok: "case fst demo_before of
    Inr res \<Rightarrow> res = DenyWith ''Hook guard failed: boom'' ''HOOK_EXECUTION_FAILED'' ''guard'' ''test'' | Inl _ \<Rightarrow> False"
  by code_simp

lemma demo_after_ok: "case fst demo_after of Inr res \<Rightarrow> tr_suppressed res | Inl _ \<Rightarrow> False"
  by code_simp


end
