(* ===== verification/InvocationCorrect.thy ===== *)
theory InvocationCorrect
  imports SchedulerCorrect BudgetCorrect
begin

section \<open>Permission rounds are bounded and a call is charged once\<close>

text \<open>
  The permission rounds of a call (the bound on them, their distinct requests and the meaning of
  the recorded decision), the charge of a call over all its rounds, and the index of call names.
\<close>

subsection \<open>The rounds\<close>

definition verdict :: "pydict option \<Rightarrow> pyval" where
  "verdict d = (case d of None \<Rightarrow> PNone | Some p \<Rightarrow> dget p ''decision'')"

lemma verdict_payload [simp]: "verdict (Some (policy_decision_payload n r x k e)) = PStr x"
  by (simp add: verdict_def policy_decision_payload_def dget_def)

lemma verdict_None [simp]: "verdict None = PNone"
  by (simp add: verdict_def)

text \<open>A result that still asks for a permission.\<close>

definition asks :: "tool_result \<Rightarrow> pydict option" where
  "asks r = (if tr_success r then None else pending_request r)"

definition negotiation_raises :: "'s chain \<Rightarrow> pydict \<Rightarrow> bool" where
  "negotiation_raises ch q = (\<exists>f s e s'. ch_negotiate ch = Some f \<and> f q s = (Inl e, s'))"

text \<open>What the decision says of the final result and of the rounds, the requests of earlier rounds
  being \<open>asked\<close>.\<close>

definition decided :: "'s chain \<Rightarrow> string list \<Rightarrow> nat \<Rightarrow> tool_result \<Rightarrow> pyval \<Rightarrow> rounds \<Rightarrow> bool" where
  "decided ch asked n r v rounds =
     (case asks r of
        None \<Rightarrow> v = PStr ''approved'' \<and> rounds \<noteq> [] \<and> snd (last rounds)
      | Some q \<Rightarrow>
          (v = PStr ''denied'' \<and> rounds \<noteq> [] \<and> last rounds = (q, False))
          \<or> (v = PStr ''error'' \<and> list_all snd rounds
             \<and> (request_key q \<in> set asked \<union> request_key ` fst ` set rounds
                \<or> n + length rounds = MAX_TOOL_PERMISSION_RETRIES
                \<or> negotiation_raises ch q)))"

lemma chain_rounds:
  "permission_chain ch result decision n asked s = ((out, rounds), s') \<Longrightarrow> n \<le> MAX_TOOL_PERMISSION_RETRIES \<Longrightarrow>
   n + length rounds \<le> MAX_TOOL_PERMISSION_RETRIES
   \<and> distinct (map (request_key \<circ> fst) rounds) \<and> (\<forall>q \<in> fst ` set rounds. request_key q \<notin> set asked)
   \<and> list_all snd (butlast rounds)
   \<and> (\<forall>r d. out = Inr (r, d) \<longrightarrow>
        (if rounds = [] \<and> (ch_negotiate ch = None \<or> asks result = None) then r = result \<and> d = decision
         else decided ch asked n r (verdict d) rounds))"
proof (induction ch result decision n asked s arbitrary: out rounds s' rule: permission_chain.induct)
  case (1 ch result decision n asked s)
  let ?M = "MAX_TOOL_PERMISSION_RETRIES"
  note eq = "1.prems"(1) [unfolded permission_chain.simps [of ch result decision n asked s], folded asks_def]
  show ?case
  proof (cases "\<exists>f q. ch_negotiate ch = Some f \<and> asks result = Some q")
    case False
    with eq "1.prems"(2) show ?thesis by (auto split: option.splits)
  next
    case True
    then obtain f q where f: "ch_negotiate ch = Some f" "asks result = Some q" by blast
    show ?thesis
    proof (cases "request_key q \<in> set asked \<or> ?M \<le> n")
      case True
      with eq f "1.prems"(2) show ?thesis by (auto simp: decided_def Let_def split: if_splits)
    next
      case False
      then have fresh: "request_key q \<notin> set asked" "n < ?M" by auto
      obtain x s1 where neg: "f q s = (x, s1)" by fastforce
      consider (raised) e where "x = Inl e" | (denied) "x = Inr False" | (granted) "x = Inr True"
        by (cases x) auto
      then show ?thesis
      proof cases
        case raised
        then have "negotiation_raises ch q" using neg f(1) by (auto simp: negotiation_raises_def)
        with raised eq f fresh neg show ?thesis by (auto simp: decided_def Let_def split: if_splits)
      next
        case denied
        with eq f fresh neg show ?thesis by (auto simp: decided_def Let_def)
      next
        case granted
        obtain y s2 where retry: "retry_result ch q s1 = (y, s2)" by fastforce
        show ?thesis
        proof (cases y)
          case (Inl e)
          with eq f fresh neg granted retry show ?thesis by (auto simp: Let_def)
        next
          case (Inr result')
          let ?d = "Some (policy_decision_payload (ch_tool_name ch) q ''approved'' (Suc n) [])"
          obtain out1 rounds1 s3 where rest:
            "permission_chain ch result' ?d (Suc n) (request_key q # asked) s2 = ((out1, rounds1), s3)"
            by (metis prod.exhaust)
          have res: "out = out1" "rounds = (q, True) # rounds1" "s' = s3"
            using eq f fresh neg granted retry Inr rest by (auto simp: Let_def)
          have IH: "Suc n + length rounds1 \<le> ?M \<and> distinct (map (request_key \<circ> fst) rounds1)
              \<and> (\<forall>p \<in> fst ` set rounds1. request_key p \<notin> set (request_key q # asked))
              \<and> list_all snd (butlast rounds1)
              \<and> (\<forall>r d. out1 = Inr (r, d) \<longrightarrow>
                (if rounds1 = [] \<and> (ch_negotiate ch = None \<or> asks result' = None) then r = result' \<and> d = ?d
                 else decided ch (request_key q # asked) (Suc n) r (verdict d) rounds1))"
            by (rule "1.IH" [OF refl f(1) _ refl fresh(1) _ neg [symmetric] granted _ retry [symmetric] Inr rest])
              (use f fresh in \<open>simp_all add: asks_def\<close>)
          have "decided ch asked n r (verdict d) rounds" if "out1 = Inr (r, d)" for r d
            using IH that res(2) f(1)
            by (cases "rounds1 = []") (auto simp: decided_def split: if_splits option.splits)
          with IH res fresh show ?thesis
            by (cases "rounds1 = []") (auto simp: comp_def)
        qed
      qed
    qed
  qed
qed


lemma decided_first:
  "decided ch [] 0 r v rounds = (case asks r of
      None \<Rightarrow> v = PStr ''approved'' \<and> rounds \<noteq> [] \<and> snd (last rounds)
    | Some q \<Rightarrow> (v = PStr ''denied'' \<and> rounds \<noteq> [] \<and> last rounds = (q, False))
        \<or> (v = PStr ''error'' \<and> list_all snd rounds
           \<and> (request_key q \<in> request_key ` fst ` set rounds \<or> length rounds = 4 \<or> negotiation_raises ch q)))"
  by (cases "asks r") (simp_all add: decided_def MAX_TOOL_PERMISSION_RETRIES_def)

text \<open>C18. A call goes through at most four permission rounds, in each of which another request is
  negotiated, and only after all earlier ones were granted. The recorded decision says what
  happened: \<open>approved\<close> when the last negotiated request was granted and the retried call asks
  no more; \<open>denied\<close> when the host refused the request that the result carries; \<open>error\<close> when
  that request was granted before, the four rounds are used up, or the negotiator raised.
  Without a negotiator or a request the result stays as it is.\<close>

theorem permission_rounds_bounded:
  assumes "stream_tool_permission_chain ch result s = ((out, rounds), s')"
  shows "length rounds \<le> 4 \<and> distinct (map (request_key \<circ> fst) rounds) \<and> list_all snd (butlast rounds)
    \<and> (\<forall>r d. out = Inr (r, d) \<longrightarrow>
        (if ch_negotiate ch = None \<or> asks result = None then r = result \<and> d = None \<and> rounds = []
         else case asks r of
            None \<Rightarrow> verdict d = PStr ''approved'' \<and> rounds \<noteq> [] \<and> snd (last rounds)
          | Some q \<Rightarrow>
              (verdict d = PStr ''denied'' \<and> rounds \<noteq> [] \<and> last rounds = (q, False))
              \<or> (verdict d = PStr ''error'' \<and> list_all snd rounds
                 \<and> (request_key q \<in> request_key ` fst ` set rounds \<or> length rounds = 4
                    \<or> negotiation_raises ch q))))"
proof -
  have c: "permission_chain ch result None 0 [] s = ((out, rounds), s')"
    using assms by (simp add: stream_tool_permission_chain_def)
  have none: "rounds = []" if "ch_negotiate ch = None \<or> asks result = None"
    using c that by (auto simp: permission_chain.simps asks_def split: option.splits if_splits)
  show ?thesis
    using chain_rounds [OF c] none
    unfolding decided_first [symmetric] by (simp add: MAX_TOOL_PERMISSION_RETRIES_def)
qed

text \<open>A host that grants the scope \<open>read\<close> and refuses the next request.\<close>

definition demo_chain :: "unit chain" where
  "demo_chain = \<lparr>ch_tool_name = ''read_file'',
     ch_negotiate = Some (\<lambda>request s. (Inr (dget request ''scope'' = PStr ''read''), s)),
     ch_offer_error = (\<lambda>_. None),
     ch_retry = Some (\<lambda>_ s. (Inr ((failed ''denied'')\<lparr>tr_permission_request := Some [(''scope'', PStr ''write'')]\<rparr>), s))\<rparr>"

theorem permission_rounds_bounded_witness:
  "let ((out, rounds), s') = stream_tool_permission_chain demo_chain
         ((failed ''denied'')\<lparr>tr_permission_request := Some [(''scope'', PStr ''read'')]\<rparr>) ()
   in length rounds \<le> 4 \<and> rounds = [([(''scope'', PStr ''read'')], True), ([(''scope'', PStr ''write'')], False)]"
proof -
  let ?r = "(failed ''denied'')\<lparr>tr_permission_request := Some [(''scope'', PStr ''read'')]\<rparr>"
  obtain out rounds s' where c: "stream_tool_permission_chain demo_chain ?r () = ((out, rounds), s')"
    by (metis prod.exhaust)
  have keys: "request_key [(''scope'', PStr ''write'')] \<noteq> request_key [(''scope'', PStr ''read'')]"
    by (simp add: request_key_def ascii_char_def json_str_def json_char_def)
  have "rounds = [([(''scope'', PStr ''read'')], True), ([(''scope'', PStr ''write'')], False)]"
    using c keys
    by (simp add: stream_tool_permission_chain_def permission_chain.simps demo_chain_def failed_def pending_request_def
      MAX_TOOL_PERMISSION_RETRIES_def retry_result_def dget_def)
  with permission_rounds_bounded [OF c] c show ?thesis by simp
qed

subsection \<open>The charge of a call\<close>

text \<open>A tool whose body leaves the shared ledgers as they are (it delegates nothing).\<close>

definition plain_tool :: "'s tool \<Rightarrow> bool" where
  "plain_tool t = (\<forall>inp s h. snd (snd (tl_body t inp s h)) = h)"

text \<open>The ledgers against their state before the call: one unit in each ancestor when charged.\<close>

definition charge_ok :: "nat list \<Rightarrow> ledger_store \<Rightarrow> 's world \<Rightarrow> bool" where
  "charge_ok anc h0 w =
     (if charged (w_charge w)
      then anc \<noteq> [] \<and> w_invoked w \<and> ledgers (w_charge w) = uniq anc \<and> w_ledgers w = add_used 1 (uniq anc) h0
        \<and> (\<forall>l \<in> set anc. used (h0 l) < ledger_limit (h0 l))
      else w_ledgers w = h0)"

lemma add_used_back [simp]: "add_used (-1) ls (add_used 1 ls h) = h"
  by (simp add: add_used_def fun_eq_iff)

lemma release_uncharged:
  "\<not> charged (w_charge w) \<Longrightarrow> release_unexecuted w = w"
  by (simp add: release_unexecuted_def charge_release_def)

lemma release_charged:
  assumes "charged (w_charge w)" "ledgers (w_charge w) = ls" "w_ledgers w = add_used 1 ls h"
  shows "\<not> charged (w_charge (release_unexecuted w))" "w_ledgers (release_unexecuted w) = h"
  using assms by (simp_all add: release_unexecuted_def charge_release_def Let_def)

lemma reserve_ancestors_cases:
  assumes "reserve_ancestors iss t args ctx w = (x, w')" "\<not> charged (w_charge w)"
  shows "w_env w' = w_env w \<and> w_invoked w' = w_invoked w
    \<and> (if x = None \<and> ic_ancestors ctx \<noteq> []
       then charged (w_charge w') \<and> ledgers (w_charge w') = uniq (ic_ancestors ctx)
         \<and> w_ledgers w' = add_used 1 (uniq (ic_ancestors ctx)) (w_ledgers w)
         \<and> (\<forall>l \<in> set (ic_ancestors ctx). used (w_ledgers w l) < ledger_limit (w_ledgers w l))
         \<and> argument_failure iss t args = None
       else w' = w)"
  using assms
  by (auto simp: reserve_ancestors_def charge_reserve_def Let_def list_ex_iff dest: sym split: if_splits option.splits)


definition settles :: "nat list \<Rightarrow> ledger_store \<Rightarrow> tool_result \<Rightarrow> 's world \<Rightarrow> bool" where
  "settles anc h0 r w = (charge_ok anc h0 w
     \<and> (charged (w_charge w) \<longrightarrow> pending_request r = None \<and> \<not> tr_rejected r)
     \<and> (tr_success r \<and> pending_request r = None \<and> \<not> tr_rejected r \<and> anc \<noteq> [] \<longrightarrow> charged (w_charge w)))"

lemma failed_simps [simp]:
  "tr_success (failed e) = False" "pending_request (failed e) = None" "tr_rejected (failed e) = False"
  by (simp_all add: failed_def pending_request_def)

lemma rejected_simps [simp]: "tr_rejected (rejected r)"
  by (simp add: rejected_def)

lemma argument_failure_failed: "argument_failure iss t args = Some r \<Longrightarrow> \<not> tr_success r \<and> \<not> tr_rejected r \<and> pending_request r = None"
  by (auto simp: argument_failure_def invalid_schema_result_def invalid_arguments_result_def failed_def
    pending_request_def split: option.splits list.splits)

lemma settles_uncharged:
  "\<not> charged (w_charge w) \<Longrightarrow> w_ledgers w = h0 \<Longrightarrow> tr_success r \<longrightarrow> tr_rejected r \<or> pending_request r \<noteq> None \<or> anc = []
   \<Longrightarrow> settles anc h0 r w"
  by (auto simp: settles_def charge_ok_def)

lemma run_admitted_settles:
  assumes "run_admitted iss t args ctx dels w = (out, w')" "plain_tool t" "w_invoked w"
    and "charge_ok (ic_ancestors ctx) h0 w" "ic_ancestors ctx \<noteq> [] \<longrightarrow> charged (w_charge w)"
  shows "charge_ok (ic_ancestors ctx) h0 w' \<and> (\<forall>r. out = Inr r \<longrightarrow> settles (ic_ancestors ctx) h0 r w')"
proof -
  let ?inp = "\<lparr>ti_arguments = args, ti_context = tl_event_emitting t \<or> tl_uses_context t, ti_deletions = dels\<rparr>"
  obtain x s h where inv: "tool_invoke iss t ?inp (w_env w) (w_ledgers w) = (x, s, h)"
    by (metis prod.exhaust)
  have h: "h = w_ledgers w"
    using inv assms(2)
    by (auto simp: tool_invoke_def plain_tool_def split: option.splits prod.splits sum.splits exc.splits)
      (metis snd_conv)+
  have same: "charge_ok (ic_ancestors ctx) h0 (w\<lparr>w_env := e, w_ledgers := h\<rparr>)" for e
    using assms(4) by (simp add: charge_ok_def h)
  have rel: "\<not> charged (w_charge (release_unexecuted v)) \<and> w_ledgers (release_unexecuted v) = h0"
    if "charge_ok (ic_ancestors ctx) h0 v" for v :: "'a world"
    using that release_charged [of v "uniq (ic_ancestors ctx)" h0] release_uncharged [of v]
    by (cases "charged (w_charge v)") (auto simp: charge_ok_def)
  show ?thesis
  proof (cases x)
    case (Inl e)
    with assms(1) inv same show ?thesis by (auto simp: run_admitted_def Let_def)
  next
    case (Inr r)
    let ?e = "case ic_guard ctx of Some g \<Rightarrow> if dels \<noteq> [] then gd_deleted g dels s else s | None \<Rightarrow> s"
    have w2: "out = Inr r"
      "w' = (if pending_request r \<noteq> None \<or> tr_rejected r then release_unexecuted (w\<lparr>w_env := ?e, w_ledgers := h\<rparr>)
             else w\<lparr>w_env := ?e, w_ledgers := h\<rparr>)"
      using assms(1) inv Inr by (auto simp: run_admitted_def Let_def split: option.splits if_splits)
    show ?thesis
    proof (cases "pending_request r \<noteq> None \<or> tr_rejected r")
      case True
      then have "w' = release_unexecuted (w\<lparr>w_env := ?e, w_ledgers := h\<rparr>)" using w2 by simp
      with rel [OF same] True w2(1) show ?thesis by (auto simp: settles_def charge_ok_def)
    next
      case False
      then have "w' = w\<lparr>w_env := ?e, w_ledgers := h\<rparr>" using w2 by simp
      with same [of ?e] assms(5) False w2(1) show ?thesis by (auto simp: settles_def)
    qed
  qed
qed


lemma check_gates_rejected: "check_gates gs name args s = (Some r, s') \<Longrightarrow> tr_rejected r"
  by (induction gs name args s rule: check_gates.induct) (auto split: prod.splits gate_reply.splits)

lemma check_guard_refuses:
  "check_guard iss guard t args approved s = (Inl r, s') \<Longrightarrow> tr_rejected r \<or> \<not> tr_success r"
  by (auto simp: check_guard_def dest: argument_failure_failed split: option.splits prod.splits)

lemma once_settles:
  assumes "invoke_tool_once iss t args ctx approved adm w = (out, w')" "plain_tool t"
    and "\<not> charged (w_charge w)" "w_ledgers w = h0"
  shows "charge_ok (ic_ancestors ctx) h0 w' \<and> (\<forall>r. out = Inr r \<longrightarrow> settles (ic_ancestors ctx) h0 r w')"
proof -
  let ?anc = "ic_ancestors ctx"
  have quiet: "charge_ok ?anc h0 v \<and> settles ?anc h0 r v"
    if "\<not> charged (w_charge v)" "w_ledgers v = h0" "tr_rejected r \<or> \<not> tr_success r" for r and v :: "'a world"
    using that by (auto simp: charge_ok_def intro: settles_uncharged)
  obtain gate s1 where gate: "check_gates (ic_gates ctx) (tl_name t) args (w_env w) = (gate, s1)" by fastforce
  obtain guarded s2 where guarded: "check_guard iss (ic_guard ctx) t args approved s1 = (guarded, s2)" by fastforce
  let ?w2 = "w\<lparr>w_env := s2\<rparr>"
  obtain exhausted w3 where res: "reserve_ancestors iss t args ctx ?w2 = (exhausted, w3)" by fastforce
  have w3: "w_env w3 = s2 \<and> w_invoked w3 = w_invoked w
      \<and> (if exhausted = None \<and> ?anc \<noteq> []
         then charged (w_charge w3) \<and> ledgers (w_charge w3) = uniq ?anc
           \<and> w_ledgers w3 = add_used 1 (uniq ?anc) h0
           \<and> (\<forall>l \<in> set ?anc. used (h0 l) < ledger_limit (h0 l)) \<and> argument_failure iss t args = None
         else w3 = ?w2)"
    using reserve_ancestors_cases [OF res] assms(3,4) by (simp cong: if_cong)
  have freed: "\<not> charged (w_charge (release_unexecuted (w3\<lparr>w_env := e\<rparr>)))
      \<and> w_ledgers (release_unexecuted (w3\<lparr>w_env := e\<rparr>)) = h0" if "exhausted = None" for e
    using w3 that release_charged [of "w3\<lparr>w_env := e\<rparr>" "uniq ?anc" h0] release_uncharged [of "w3\<lparr>w_env := e\<rparr>"] assms(3,4)
    by (cases "?anc = []") auto
  have freed3: "\<not> charged (w_charge (release_unexecuted w3)) \<and> w_ledgers (release_unexecuted w3) = h0"
    if "exhausted = None"
    using freed [OF that, of "w_env w3"] by simp
  show ?thesis
  proof (cases gate)
    case (Some r)
    have "out = Inr r" "w' = w\<lparr>w_env := s1\<rparr>"
      using assms(1) gate Some release_uncharged [of "w\<lparr>w_env := s1\<rparr>"] assms(3)
      by (simp_all add: invoke_tool_once_def Let_def)
    with quiet [of w' r] assms(3,4) check_gates_rejected [of _ _ _ _ r s1] gate Some show ?thesis by auto
  next
    case None
    note g = None
    show ?thesis
    proof (cases guarded)
      case (Inl r)
      have "out = Inr r" "w' = ?w2"
        using assms(1) gate g guarded Inl release_uncharged [of ?w2] assms(3)
        by (simp_all add: invoke_tool_once_def Let_def split: if_splits)
      with quiet [of w' r] assms(3,4) check_guard_refuses [of iss _ t args approved s1 r s2] guarded Inl
      show ?thesis by auto
    next
      case (Inr dels)
      show ?thesis
      proof (cases "check_delegation t ctx (w_ledgers ?w2)")
        case (Some r)
        have "out = Inr r" "w' = ?w2"
          using assms(1) gate g guarded Inr Some by (simp_all add: invoke_tool_once_def Let_def)
        moreover have "\<not> tr_success r"
          using Some by (auto simp: check_delegation_def split: if_splits)
        ultimately show ?thesis using quiet [of w' r] assms(3,4) by auto
      next
        case None
        note d = None
        show ?thesis
        proof (cases exhausted)
          case (Some r)
          have "out = Inr r" "w' = w3"
            using assms(1) gate g guarded Inr d res Some by (simp_all add: invoke_tool_once_def Let_def)
          moreover have "\<not> tr_success r"
            using res Some by (auto simp: reserve_ancestors_def Let_def dest: argument_failure_failed
              split: if_splits option.splits prod.splits)
          ultimately show ?thesis using quiet [of w' r] w3 Some assms(3,4) by auto
        next
          case None
          note x = None
          show ?thesis
          proof (cases "admission_error adm (w_env w3)")
            case (Some e)
            have "out = Inr (failed e)" "w' = release_unexecuted w3"
              using assms(1) gate g guarded Inr d res x Some by (simp_all add: invoke_tool_once_def Let_def)
            with quiet [of w' "failed e"] freed3 [OF x] show ?thesis by auto
          next
            case None
            obtain a s4 where app: "approve_tool t approved (w_env w3) = (a, s4)" by fastforce
            show ?thesis
            proof (cases a)
              case (Some e)
              have "out = Inl e" "w' = release_unexecuted (w3\<lparr>w_env := s4\<rparr>)"
                using assms(1) gate g guarded Inr d res x None app Some by (simp_all add: invoke_tool_once_def Let_def)
              with freed [OF x, of s4] show ?thesis by (auto simp: charge_ok_def)
            next
              case None': None
              have run: "run_admitted iss t args ctx dels (w3\<lparr>w_env := s4, w_invoked := True\<rparr>) = (out, w')"
                using assms(1) gate g guarded Inr d res x None app None' by (simp add: invoke_tool_once_def Let_def)
              show ?thesis
                by (rule run_admitted_settles [OF run assms(2)]) (use w3 x assms(3,4) in \<open>auto simp: charge_ok_def split: if_splits\<close>)
            qed
          qed
        qed
      qed
    qed
  qed
qed


definition plain_engine :: "'s engine \<Rightarrow> bool" where
  "plain_engine en = (\<forall>n t. en_tools en n = Some t \<longrightarrow> plain_tool t)"

lemma failed_result_cases: "failed_result en e = Inr r \<Longrightarrow> \<not> tr_success r \<and> pending_request r = None \<and> \<not> tr_rejected r"
  by (auto simp: failed_result_def split: if_splits)

lemma serial_settles:
  assumes "invoke_serial en rq w = (out, w')" "plain_engine en" "\<not> charged (w_charge w)" "w_ledgers w = h0"
  shows "charge_ok (ic_ancestors (rq_context rq)) h0 w'
    \<and> (\<forall>r. out = Inr r \<longrightarrow> (case rq_immediate rq of Some x \<Rightarrow> r = x \<and> w' = w
         | None \<Rightarrow> settles (ic_ancestors (rq_context rq)) h0 r w'))"
proof -
  let ?anc = "ic_ancestors (rq_context rq)"
  have still: "charge_ok ?anc h0 w" using assms(3,4) by (simp add: charge_ok_def)
  show ?thesis
  proof (cases "rq_immediate rq")
    case (Some x)
    with assms(1) still show ?thesis by (auto simp: invoke_serial_def)
  next
    case None
    show ?thesis
    proof (cases "en_tools en (rq_tool_name rq)")
      case None': None
      with assms(1) None still show ?thesis by (auto simp: invoke_serial_def)
    next
      case (Some t)
      show ?thesis
      proof (cases "refused_before en rq (w_env w)")
        case (Some r)
        then have "\<not> tr_success r" by (auto simp: refused_before_def split: if_splits)
        with assms Some None \<open>en_tools en (rq_tool_name rq) = Some t\<close> still show ?thesis
          by (auto simp: invoke_serial_def invoke_request_def settled_def Let_def intro: settles_uncharged)
      next
        case None': None
        obtain x where once: "invoke_tool_once (en_issues_of en) t (rq_arguments rq) (rq_context rq)
            (rq_approved rq) (rq_admission rq) w = (x, w')"
          and out: "out = settled en x"
          using assms(1) None None' Some by (auto simp: invoke_serial_def invoke_request_def Let_def split: prod.splits)
        have plain: "plain_tool t" using assms(2) Some by (auto simp: plain_engine_def)
        have x: "charge_ok ?anc h0 w' \<and> (\<forall>r. x = Inr r \<longrightarrow> settles ?anc h0 r w')"
          by (rule once_settles [OF once plain assms(3,4)])
        have "settles ?anc h0 r w'" if "out = Inr r" for r
        proof (cases x)
          case (Inl e)
          with that out have "failed_result en e = Inr r" by (auto simp: settled_def split: if_splits)
          from failed_result_cases [OF this] x show ?thesis by (simp add: settles_def)
        next
          case (Inr y)
          with that out x show ?thesis by (simp add: settled_def)
        qed
        with x None show ?thesis by simp
      qed
    qed
  qed
qed

lemma asks_uncharged: "settles anc h0 r w \<Longrightarrow> asks r = Some q \<Longrightarrow> \<not> charged (w_charge w) \<and> w_ledgers w = h0"
  by (cases "charged (w_charge w)"; cases "tr_success r") (simp_all add: settles_def asks_def charge_ok_def)

lemma asks_settles:
  "asks r = Some q \<Longrightarrow> \<not> charged (w_charge w) \<Longrightarrow> w_ledgers w = h0 \<Longrightarrow> settles anc h0 r w"
  by (rule settles_uncharged) (simp_all add: asks_def split: if_splits)

lemma retry_settles:
  assumes "retry_result (world_chain en rq negotiate offer) q w = (x, w')" "plain_engine en"
    and "\<not> charged (w_charge w)" "w_ledgers w = h0"
  shows "charge_ok (ic_ancestors (rq_context rq)) h0 w' \<and> (\<forall>r. x = Inr r \<longrightarrow> settles (ic_ancestors (rq_context rq)) h0 r w')"
proof -
  have quiet: "charge_ok anc h0 w \<and> settles anc h0 (failed e) w" for anc e
    using assms(3,4) by (auto simp: charge_ok_def intro: settles_uncharged)
  consider e where "offer (w_env w) = Some e" | "offer (w_env w) = None" "en_tools en (rq_tool_name rq) = None"
    | "offer (w_env w) = None" "en_tools en (rq_tool_name rq) \<noteq> None" by (cases "offer (w_env w)") auto
  then show ?thesis
  proof cases
    case 3
    with assms(1) have "invoke_serial en (rq\<lparr>rq_immediate := None, rq_approved := Some q\<rparr>) w = (x, w')"
      by (auto simp: retry_result_def world_chain_def)
    from serial_settles [OF this assms(2-4)] show ?thesis by simp
  qed (use assms(1) quiet in \<open>auto simp: retry_result_def world_chain_def\<close>)
qed

lemma chain_settles:
  "permission_chain (world_chain en rq negotiate offer) result decision n asked w = ((out, rounds), w') \<Longrightarrow>
   plain_engine en \<Longrightarrow> settles (ic_ancestors (rq_context rq)) h0 result w \<Longrightarrow>
   charge_ok (ic_ancestors (rq_context rq)) h0 w'
   \<and> (\<forall>r d. out = Inr (r, d) \<longrightarrow> settles (ic_ancestors (rq_context rq)) h0 r w')"
proof (induction "MAX_TOOL_PERMISSION_RETRIES - n" arbitrary: result decision n asked w out rounds w' rule: less_induct)
  case less
  let ?ch = "world_chain en rq negotiate offer" and ?M = "MAX_TOOL_PERMISSION_RETRIES"
  let ?anc = "ic_ancestors (rq_context rq)"
  note eq = less.prems(1) [unfolded permission_chain.simps [of ?ch result decision n asked w], folded asks_def]
  have ok: "charge_ok ?anc h0 w" using less.prems(3) by (simp add: settles_def)
  show ?case
  proof (cases "\<exists>f q. negotiate = Some f \<and> asks result = Some q \<and> request_key q \<notin> set asked \<and> n < ?M")
    case False
    then have "w' = w \<and> (\<forall>r d. out = Inr (r, d) \<longrightarrow> r = result)"
      using eq by (auto simp: world_chain_def Let_def split: option.splits if_splits)
    with ok less.prems(3) show ?thesis by auto
  next
    case True
    then obtain f q where f: "negotiate = Some f" "asks result = Some q" "request_key q \<notin> set asked" "n < ?M" by blast
    obtain x s1 where neg: "f q (w_env w) = (x, s1)" by fastforce
    let ?w1 = "w\<lparr>w_env := s1\<rparr>"
    have w1: "\<not> charged (w_charge ?w1)" "w_ledgers ?w1 = h0"
      using asks_uncharged [OF less.prems(3) f(2)] by simp_all
    have quiet: "charge_ok ?anc h0 ?w1" "settles ?anc h0 result ?w1"
      using w1 f(2) by (auto simp: charge_ok_def intro: asks_settles)
    have step: "ch_negotiate ?ch = Some (\<lambda>q w. case f q (w_env w) of (x, s) \<Rightarrow> (x, w\<lparr>w_env := s\<rparr>))"
      using f(1) by (simp add: world_chain_def)
    consider (raised) e where "x = Inl e" | (denied) "x = Inr False" | (granted) "x = Inr True"
      by (cases x) auto
    then show ?thesis
    proof cases
      case raised
      then have "w' = ?w1 \<and> (\<forall>r d. out = Inr (r, d) \<longrightarrow> r = result)"
        using eq f neg by (auto simp: world_chain_def Let_def split: if_splits)
      with quiet show ?thesis by auto
    next
      case denied
      then have "w' = ?w1 \<and> (\<forall>r d. out = Inr (r, d) \<longrightarrow> r = result)"
        using eq f neg by (auto simp: world_chain_def Let_def)
      with quiet show ?thesis by auto
    next
      case granted
      obtain y w2 where retry: "retry_result ?ch q ?w1 = (y, w2)" by fastforce
      note after = retry_settles [OF retry less.prems(2) w1]
      show ?thesis
      proof (cases y)
        case (Inl e)
        then have "w' = w2 \<and> out = Inl e"
          using eq f neg granted retry by (auto simp: world_chain_def Let_def)
        with after show ?thesis by auto
      next
        case (Inr result')
        let ?d = "Some (policy_decision_payload (ch_tool_name ?ch) q ''approved'' (Suc n) [])"
        obtain out1 rounds1 w3 where rest:
          "permission_chain ?ch result' ?d (Suc n) (request_key q # asked) w2 = ((out1, rounds1), w3)"
          by (metis prod.exhaust)
        have "out = out1 \<and> w' = w3"
          using eq f neg granted retry Inr rest step by simp
        moreover have "charge_ok ?anc h0 w3 \<and> (\<forall>r d. out1 = Inr (r, d) \<longrightarrow> settles ?anc h0 r w3)"
          by (rule less.hyps [OF _ rest less.prems(2)]) (use f(4) after Inr in auto)
        ultimately show ?thesis by simp
      qed
    qed
  qed
qed


lemma run_call_settles:
  assumes "run_call en rq negotiate offer w = ((out, rounds), w')" "plain_engine en" "\<not> charged (w_charge w)"
  shows "charge_ok (ic_ancestors (rq_context rq)) (w_ledgers w) w'
    \<and> (\<forall>r d. out = Inr (r, d) \<longrightarrow> settles (ic_ancestors (rq_context rq)) (w_ledgers w) r w'
        \<or> (rq_immediate rq = Some r \<and> \<not> charged (w_charge w')))"
proof -
  let ?anc = "ic_ancestors (rq_context rq)"
  obtain x w1 where first: "invoke_serial en rq w = (x, w1)" by fastforce
  note s = serial_settles [OF first assms(2,3) refl]
  show ?thesis
  proof (cases x)
    case (Inl e)
    with assms(1) first s show ?thesis by (auto simp: run_call_def)
  next
    case (Inr r0)
    have fin: "finish_permissions en rq negotiate offer r0 w1 = ((out, rounds), w')"
      using assms(1) first Inr by (simp add: run_call_def)
    show ?thesis
    proof (cases "negotiate = None \<or> asks r0 = None")
      case True
      with fin have "w' = w1 \<and> (\<forall>r d. out = Inr (r, d) \<longrightarrow> r = r0)"
        by (auto simp: finish_permissions_def asks_def split: option.splits)
      with s Inr assms(3) show ?thesis by (auto split: option.splits)
    next
      case False
      then obtain q where q: "asks r0 = Some q" by auto
      then have chain: "permission_chain (world_chain en rq negotiate offer) r0 None 0 [] w1 = ((out, rounds), w')"
        using fin False by (auto simp: finish_permissions_def asks_def stream_tool_permission_chain_def split: option.splits if_splits)
      have "settles ?anc (w_ledgers w) r0 w1"
      proof (cases "rq_immediate rq")
        case None
        with s Inr show ?thesis by simp
      next
        case (Some y)
        with s Inr assms(3) q show ?thesis by (auto intro: asks_settles)
      qed
      from chain_settles [OF chain assms(2) this] show ?thesis by auto
    qed
  qed
qed

text \<open>C12. A call costs each of its ancestors' ledgers at most one unit, however many permission
  rounds it goes through: the ledgers differ from those before the call by exactly the charge
  that the call still holds, and it holds one only if its tool was entered within every
  ancestor's limit and the final result is neither a request nor a rejection. A successful
  final result of a call with ancestors is always charged. (The tool itself delegates nothing
  and nothing else reserves meanwhile.)\<close>

theorem call_charged_once:
  assumes "run_call en rq negotiate offer_error w = ((out, rounds), w')"
    and "\<forall>n t. en_tools en n = Some t \<longrightarrow> (\<forall>inp s h. snd (snd (tl_body t inp s h)) = h)"
    and "\<not> charged (w_charge w)"
  shows "let anc = ic_ancestors (rq_context rq); held = charged (w_charge w') in
    w_ledgers w' = (if held then add_used 1 (uniq anc) (w_ledgers w) else w_ledgers w)
    \<and> (held \<longrightarrow> anc \<noteq> [] \<and> w_invoked w'
         \<and> (\<forall>l \<in> set anc. used (w_ledgers w l) < ledger_limit (w_ledgers w l)))
    \<and> (\<forall>r d. out = Inr (r, d) \<longrightarrow>
         (held \<longrightarrow> pending_request r = None \<and> \<not> tr_rejected r)
         \<and> (rq_immediate rq = None \<and> anc \<noteq> [] \<and> tr_success r \<and> pending_request r = None \<and> \<not> tr_rejected r
            \<longrightarrow> held))"
proof -
  have "plain_engine en" using assms(2) by (simp add: plain_engine_def plain_tool_def)
  from run_call_settles [OF assms(1) this assms(3)] show ?thesis
    by (auto simp: Let_def settles_def charge_ok_def)
qed

text \<open>A tool that asks for a permission until it was approved, called by a child whose parent has
  one unit left.\<close>

definition asking_tool :: "bool tool" where
  "asking_tool = \<lparr>tl_name = ''write_file'', tl_aliases = [], tl_parameters = PDict [], tl_event_emitting = False,
     tl_uses_context = False, tl_delegated_budget = False,
     tl_body = (\<lambda>inp approved h. (Inr (if approved then ok_result
        else (failed ''denied'')\<lparr>tr_permission_request := Some [(''scope'', PStr ''write'')]\<rparr>), approved, h)),
     tl_approve = Some (\<lambda>request approved. (None, True))\<rparr>"

definition asking_engine :: "bool engine" where
  "asking_engine = \<lparr>en_tools = (\<lambda>n. if n = ''write_file'' then Some asking_tool else None),
     en_is_cancelled = (\<lambda>_. False), en_issues_of = (\<lambda>_ _. Some []), en_traceback = (\<lambda>_. []),
     en_max_parallel = 1, en_web_concurrency = 1, en_web_search = ''web_search'', en_timeout = None\<rparr>"

definition asking_request :: "bool request" where
  "asking_request = \<lparr>rq_call_id = ''a'', rq_tool_name = ''write_file'', rq_arguments = [], rq_immediate = None,
     rq_context = \<lparr>ic_gates = [], ic_guard = None, ic_ancestors = [0], ic_child_budgets = []\<rparr>,
     rq_approved = None, rq_admission = None\<rparr>"

definition asking_world :: "bool world" where
  "asking_world = \<lparr>w_env = False, w_ledgers = (\<lambda>_. \<lparr>ledger_limit = 1, used = 0\<rparr>),
     w_charge = \<lparr>ledgers = [], charged = False\<rparr>, w_invoked = False\<rparr>"

lemmas asking_defs = asking_tool_def asking_engine_def asking_request_def asking_world_def

definition asking_later :: "bool world" where
  "asking_later = asking_world\<lparr>w_charge := \<lparr>ledgers = [0], charged = False\<rparr>, w_invoked := True\<rparr>"

lemmas asking_eval = asking_defs invoke_serial_def invoke_request_def refused_before_def admission_error_def
  invoke_tool_once_def check_guard_def check_delegation_def reserve_ancestors_def argument_failure_def
  charge_reserve_def uniq_def approve_tool_def run_admitted_def tool_invoke_def pending_request_def settled_def
  asking_later_def release_unexecuted_def charge_release_def

lemma asking_first: "invoke_serial asking_engine asking_request asking_world
  = (Inr ((failed ''denied'')\<lparr>tr_permission_request := Some [(''scope'', PStr ''write'')]\<rparr>), asking_later)"
  by (simp add: asking_eval Let_def)

lemma asking_retry: "invoke_serial asking_engine (asking_request\<lparr>rq_immediate := None, rq_approved := Some q\<rparr>) asking_later
  = (Inr ok_result, asking_world\<lparr>w_env := True, w_ledgers := add_used 1 [0] (w_ledgers asking_world),
       w_charge := \<lparr>ledgers = [0], charged = True\<rparr>, w_invoked := True\<rparr>)"
  by (simp add: asking_eval ok_result_def Let_def)

lemma asking_simps: "en_tools asking_engine ''write_file'' \<noteq> None" "rq_tool_name asking_request = ''write_file''"
  "asking_later\<lparr>w_env := False\<rparr> = asking_later" "w_env asking_later = False" "tr_success ok_result"
  by (simp_all add: asking_defs asking_later_def ok_result_def)

theorem call_charged_once_witness:
  "\<exists>out rounds w'. run_call asking_engine asking_request (Some (\<lambda>q s. (Inr True, s))) (\<lambda>_. None) asking_world = ((out, rounds), w')
     \<and> used (w_ledgers w' 0) = 1 \<and> map snd rounds = [True]"
proof -
  obtain out rounds w' where run: "run_call asking_engine asking_request (Some (\<lambda>q s. (Inr True, s))) (\<lambda>_. None) asking_world
      = ((out, rounds), w')"
    by (metis prod.exhaust)
  have held: "map snd rounds = [True] \<and> charged (w_charge w')"
    using run
    by (auto simp: run_call_def asking_first finish_permissions_def stream_tool_permission_chain_def Let_def
      permission_chain.simps world_chain_def asking_retry retry_result_def pending_request_def asking_simps
      MAX_TOOL_PERMISSION_RETRIES_def)
  have plain: "\<forall>n t. en_tools asking_engine n = Some t \<longrightarrow> (\<forall>inp s h. snd (snd (tl_body t inp s h)) = h)"
    by (simp add: asking_defs)
  have "\<not> charged (w_charge asking_world)" by (simp add: asking_world_def)
  from call_charged_once [OF run plain this] held
  have "w_ledgers w' = add_used 1 (uniq [0]) (w_ledgers asking_world)"
    by (simp add: Let_def asking_request_def)
  then have "used (w_ledgers w' 0) = 1" by (simp add: add_used_def asking_world_def uniq_def)
  with run held show ?thesis
    by (intro exI [of _ out] exI [of _ rounds] exI [of _ w']) simp
qed


subsection \<open>Call names are unambiguous\<close>

lemma index_names_spec:
  "index_names nm i ns index = Inr index' \<Longrightarrow>
   (\<forall>n \<in> set ns. map_of index' n = Some i) \<and> (\<forall>n j. map_of index n = Some j \<longrightarrow> map_of index' n = Some j)
   \<and> (\<forall>n j. map_of index' n = Some j \<longrightarrow> map_of index n = Some j \<or> j = i \<and> n \<in> set ns)"
proof (induction nm i ns index rule: index_names.induct)
  case (2 nm i n ns index)
  have rest: "index_names nm i ns (AList.update n i index) = Inr index'"
    using "2.prems" by (auto split: option.splits if_splits)
  have keep: "map_of index n \<in> {None, Some i}"
    using "2.prems" by (auto split: option.splits if_splits)
  have IH: "(\<forall>n \<in> set ns. map_of index' n = Some i)
      \<and> (\<forall>k j. map_of (AList.update n i index) k = Some j \<longrightarrow> map_of index' k = Some j)
      \<and> (\<forall>k j. map_of index' k = Some j \<longrightarrow> map_of (AList.update n i index) k = Some j \<or> j = i \<and> k \<in> set ns)"
    using "2.IH" rest "2.prems" by (cases "map_of index n") (auto split: if_splits)
  have up: "map_of (AList.update n i index) k = (if k = n then Some i else map_of index k)" for k
    by (simp add: update_conv)
  have "map_of index' n = Some i" using IH up by simp
  moreover have "map_of index' k = Some j" if "map_of index k = Some j" for k j
    using IH up [of k] keep that calculation by (cases "k = n") auto
  moreover have "map_of index k = Some j \<or> j = i \<and> k \<in> set (n # ns)" if "map_of index' k = Some j" for k j
  proof (cases "k = n")
    case True
    with that \<open>map_of index' n = Some i\<close> show ?thesis by simp
  next
    case False
    with IH that up [of k] show ?thesis by fastforce
  qed
  ultimately show ?case using IH by auto
qed simp

definition declared_names :: "string \<times> string list \<Rightarrow> string list" where
  "declared_names t = concat (map call_name_variants (fst t # snd t))"

lemma index_tools_spec:
  "index_tools nm ts index = Inr index' \<Longrightarrow>
   (\<forall>(i, t) \<in> set ts. \<forall>n \<in> set (declared_names t). map_of index' n = Some i)
   \<and> (\<forall>n j. map_of index n = Some j \<longrightarrow> map_of index' n = Some j)
   \<and> (\<forall>n j. map_of index' n = Some j \<longrightarrow> map_of index n = Some j \<or> (\<exists>t. (j, t) \<in> set ts \<and> n \<in> set (declared_names t)))"
proof (induction nm ts index rule: index_tools.induct)
  case (2 nm i name aliases ts index)
  obtain index1 where names: "index_names nm i (declared_names (name, aliases)) index = Inr index1"
    and rest: "index_tools nm ts index1 = Inr index'" and al: "check_aliases name [] aliases = None"
    using "2.prems" by (auto simp: declared_names_def split: option.splits sum.splits)
  have IH: "(\<forall>(i, t) \<in> set ts. \<forall>n \<in> set (declared_names t). map_of index' n = Some i)
      \<and> (\<forall>n j. map_of index1 n = Some j \<longrightarrow> map_of index' n = Some j)
      \<and> (\<forall>n j. map_of index' n = Some j \<longrightarrow> map_of index1 n = Some j \<or> (\<exists>t. (j, t) \<in> set ts \<and> n \<in> set (declared_names t)))"
    using "2.IH" [OF al _ rest] names by (simp add: declared_names_def)
  note N = index_names_spec [OF names]
  have "map_of index k = Some j \<or> (\<exists>t. (j, t) \<in> set ((i, name, aliases) # ts) \<and> k \<in> set (declared_names t))"
    if "map_of index' k = Some j" for k j
  proof -
    consider "map_of index1 k = Some j" | t where "(j, t) \<in> set ts" "k \<in> set (declared_names t)"
      using IH \<open>map_of index' k = Some j\<close> by blast
    then show ?thesis
    proof cases
      case 1
      with N consider "map_of index k = Some j" | "j = i" "k \<in> set (declared_names (name, aliases))" by blast
      then show ?thesis by cases auto
    qed auto
  qed
  moreover have "map_of index' k = Some j" if "map_of index k = Some j" for k j
    using N IH that by simp
  moreover have "\<forall>(j, t) \<in> set ((i, name, aliases) # ts). \<forall>k \<in> set (declared_names t). map_of index' k = Some j"
    using N IH by auto
  ultimately show ?case by blast
qed simp

text \<open>An index that is built maps every declared name and its hyphenated variant to the tool that
  declares it, and nothing else.\<close>

lemma call_names_unambiguous:
  assumes "build_tool_name_index offered = Inr index"
  shows "map_of index n = Some i \<longleftrightarrow> i < length offered \<and> n \<in> set (declared_names (offered ! i))"
proof -
  let ?start = "foldl (\<lambda>d (i, name, _). AList.update name i d) [] (enumerate 0 offered) :: (string \<times> nat) list"
  have idx: "index_tools (\<lambda>i. fst (offered ! i)) (enumerate 0 offered) ?start = Inr index"
    using assms by (simp add: build_tool_name_index_def Let_def)
  note s = index_tools_spec [OF idx]
  have start: "\<exists>t. (j, t) \<in> set ts \<union> set us \<and> k = fst t"
    if "map_of (foldl (\<lambda>d (i, name, _). AList.update name i d) d ts) k = Some j"
      "\<And>k j. map_of d k = Some j \<Longrightarrow> \<exists>t. (j, t) \<in> set us \<and> k = fst t"
    for ts us :: "(nat \<times> string \<times> string list) list" and d :: "(string \<times> nat) list" and k j
    using that
  proof (induction ts arbitrary: d us)
    case (Cons x ts)
    obtain i name as where x: "x = (i, name, as)" by (cases x) auto
    have "\<exists>t. (j, t) \<in> set ts \<union> set (x # us) \<and> k = fst t"
      by (rule Cons.IH [of "AList.update name i d"])
        (use Cons.prems x in \<open>auto simp: update_conv split: if_splits\<close>)
    then show ?case by auto
  qed auto
  have mem: "(i, t) \<in> set (enumerate 0 offered) \<longleftrightarrow> i < length offered \<and> t = offered ! i" for i t
    by (auto simp: in_set_enumerate_eq)
  have own: "fst t \<in> set (declared_names t)" for t
    by (simp add: declared_names_def call_name_variants_def Let_def)
  show ?thesis
  proof
    assume "map_of index n = Some i"
    with s consider "map_of ?start n = Some i" | t where "(i, t) \<in> set (enumerate 0 offered)" "n \<in> set (declared_names t)"
      by blast
    then show "i < length offered \<and> n \<in> set (declared_names (offered ! i))"
    proof cases
      case 1
      from start [OF this, of "[]"] obtain t where "(i, t) \<in> set (enumerate 0 offered)" "n = fst t" by auto
      with mem own show ?thesis by auto
    qed (use mem in auto)
  next
    assume "i < length offered \<and> n \<in> set (declared_names (offered ! i))"
    with mem [of i "offered ! i"] s show "map_of index n = Some i" by fastforce
  qed
qed

end
