(* ===== verification/Spec2Isabelle.thy ===== *)
theory Spec2Isabelle
  imports DispatchCorrect ContextResourcesCorrect Recovery Continuation StagedWriteCorrect TodoCorrect ThinkTags BudgetCorrect PermissionsCorrect
    RunControlCorrect InjectionsCorrect ToolMessages PluginHostCorrect Retry HookBusCorrect InvocationCorrect Prepared
begin

text \<open>
  \<^bold>\<open>Box-Agent: the verified core.\<close> Box-Agent (\<open>src/box_agent\<close>) is an agent host: a kernel loop sends a
  conversation to a language model, executes the tool calls of the answer and appends their
  results, under permissions, budgets, user control and a durable session log, with plugins and
  hooks around it. This development models the parts that decide what happens: which calls are
  admitted and executed, what the conversation and the log contain, what may be written where, and
  what runs when. It follows the Python text function by function; definitions have the code's names.

  \<^bold>\<open>Conventions\<close> (theory \<open>Prelude\<close>). A Python string is a HOL string over the 256 code points of
  \<open>char\<close>; values of unknown type are \<open>pyval\<close>; a dictionary is an association list in insertion
  order; an exception is \<open>Inl\<close> and a normal result \<open>Inr\<close>; a method that changes its object returns
  the changed record. Python's integers are \<open>int\<close>; nothing in the modelled code wraps around.
  Callbacks, services of the host and library code are parameters; where a property needs their
  behaviour it is a named hypothesis, and every hypothesis has a concrete instance in the witness
  that follows the property. The locales \<open>component\<close> and \<open>atomic_component\<close> (every operation keeps an
  invariant; a failed one changes nothing visible) and \<open>one_shot\<close> (a notice is handed out once) are
  interpreted by the stateful components, so that their lemmas about histories are proved once.

  \<^bold>\<open>One model step.\<close> The parts meet in the handling of one model answer, in this order:

    \<^item> The stream of the answer is cut into text and thinking (\<open>ThinkTags\<close>,
      \<open>llm/think_tag_splitter.py\<close>); broken requests are repeated (\<open>Retry\<close>, \<open>retry.py\<close>); an answer that
      announces work without doing it is continued (\<open>Continuation\<close>, \<open>turn_continuation.py\<close> and the
      recoveries of \<open>kernel/stream_controller.py\<close>).
    \<^item> \<open>Dispatch\<close> (\<open>tools/engine/engine.py\<close>, \<open>call_contracts.py\<close>) takes the calls of the answer through
      \<open>execute_calls\<close>: resolution against the offered tools (\<open>Prepared\<close>, \<open>tools/engine/contracts.py\<close>),
      deduplication, admission by the gates in their order, hooks (\<open>HookBus\<close>, \<open>hook_bus.py\<close>,
      \<open>kernel/hook_types.py\<close>, \<open>plugins/hooks.py\<close>), execution, permission rounds, accounting, and the
      committed result. The fields of \<open>services\<close> are the callbacks of \<open>ToolRunContext\<close>.
    \<^item> \<open>Budget\<close> (\<open>tools/engine/budget.py\<close>, \<open>loop_guards.py\<close>, \<open>tools/web_search_policy.py\<close>,
      \<open>tools/delegated_budget.py\<close>) admits a call or rejects it; \<open>Recovery\<close> (\<open>tools/file_result_adapter.py\<close>)
      refuses calls whose arguments are placeholders of the history.
    \<^item> \<open>Invocation\<close> (\<open>tools/engine/execution.py\<close>, \<open>tools/base.py\<close>) runs one call: guard, capability gates,
      argument validation, the ancestors' ledgers, the approval of a permission, and the rounds of a
      call that asks for permissions. \<open>Scheduler\<close> (\<open>tools/engine/scheduler.py\<close>) runs a call alone or in a
      parallel batch; a batch is a step relation, since tasks, the polling loop, the deadline and
      cancellation interleave freely.
    \<^item> \<open>Permissions\<close> (\<open>tools/permissions.py\<close>, \<open>tools/safety.py\<close>) decides what a tool may touch; \<open>RunControl\<close>
      (\<open>run_control.py\<close>) pauses, resumes and cancels a run and brokers its permission requests.
    \<^item> The results enter the history: \<open>ToolMessages\<close> (\<open>kernel/tool_messages.py\<close>) records calls before they
      run and repairs cut-off histories, \<open>SessionLog\<close> (\<open>session_log.py\<close>, \<open>session_history.py\<close>, over the
      messages of \<open>Messages\<close>, \<open>schema/schema.py\<close>) is the append-only log with replay, recovery and edits,
      \<open>ContextResources\<close> (\<open>context_resources.py\<close>, \<open>tools/file_result_adapter.py\<close>) replaces repeated file
      reads by receipts, and \<open>Injections\<close> (\<open>injections.py\<close>) brings queued user messages in.
    \<^item> One tool is modelled with its effects on the disk: \<open>StagedWrite\<close> (\<open>tools/staged_file_write_tool.py\<close>)
      collects the chunks of a file and publishes it at the commit.
    \<^item> Around the step: \<open>Todo\<close> (\<open>tools/todo_tool.py\<close>) keeps the task list, \<open>Plugins\<close> and \<open>PluginHost\<close>
      (\<open>plugins/descriptors.py\<close>, \<open>registries.py\<close>, \<open>host.py\<close>) plan, activate and dispose plugins.

  Each component \<open>X\<close> with long proofs has a theory \<open>XCorrect\<close>; in the others the proofs follow the
  definitions.

  \<^bold>\<open>What is shown.\<close>

    \<^item> \<open>TodoCorrect\<close>: the list is well formed with at most one active item after any history, the
      effect of a transition, atomic failure, and the round trip through the file, legacy files
      included.
    \<^item> \<open>ThinkTags\<close>: the streaming splitter refines the split of the whole text for every cutting into
      chunks (locale \<open>chunk_feeder\<close>), holds back a bounded tail, and agrees with the non-streaming one
      where the visible text spells no tag.
    \<^item> \<open>BudgetCorrect\<close>: no run admits more than its caps, rejections happen only at a cap, notices are
      given once, executed searches are no near-duplicates, ledgers equal their outstanding charges
      (locale \<open>quota\<close>).
    \<^item> \<open>InvocationCorrect\<close>, \<open>SchedulerCorrect\<close>, \<open>DispatchCorrect\<close>: bounded permission rounds and what the
      recorded decision means; a call is charged at most once over all its rounds; the permits and
      outcomes of a batch, its end without help from the tools; a step answers every call of the
      model exactly once, executes no more than was admitted, nothing that is not permitted, and
      nothing after a call that ends the turn. The last rests on \<open>scheduled\<close>: the batches are runs of the
      scheduler's relation.
    \<^item> \<open>ContextResourcesCorrect\<close>, \<open>Recovery\<close>, \<open>Continuation\<close>: a receipt is given exactly when standing
      messages hold every line; a recovery closes only by a mutation of its file; continuations are
      bounded and never dropped silently.
    \<^item> \<open>StagedWriteCorrect\<close>: the tool refines a store of transactions, and files outside the staging
      directory change only by commits of all declared chunks in order. It rests on \<open>sound_history\<close> (fresh ids, no
      append that fails halfway) and \<open>staging_apart\<close> (calls do not name part files).
    \<^item> \<open>PermissionsCorrect\<close>: allowed writes land inside the authorised roots (for paths without
      \<open>..\<close>, under \<open>fs_ok\<close>, the documented laws of \<open>Path.resolve\<close>), approvals unlock what was asked and
      expire with the prompt.
    \<^item> \<open>RunControlCorrect\<close>: the gate of the run, the broker after cancellation, and grants only from
      accepted approvals (locale \<open>grant_service\<close>).
    \<^item> \<open>InjectionsCorrect\<close>, \<open>SessionLogCorrect\<close>, \<open>ToolMessages\<close>: a message is applied once, cancellation is
      final; after any history of operations, failed writes and crashes the log reopens to a prefix
      that contains all flushed events, its replay is the conversation, repair answers every open
      call (locale \<open>event_fold\<close> for its readers).
    \<^item> \<open>PluginsCorrect\<close>, \<open>PluginHostCorrect\<close>: the plan is the dependency closure in dependency order
      (locale \<open>ready_heap\<close>), activation is typed, no instance is disposed twice and closing releases all.
    \<^item> \<open>HookBusCorrect\<close>, \<open>Retry\<close>: hooks run in order and fail closed; a retried call ends.

  Some lemmas show where the code departs from its comments or intentions:
  \<open>think_paths_diverge\<close>, \<open>perm_dotdot_escapes\<close>, \<open>perm_dangling_link_escapes\<close>, \<open>perm_elevation_can_revoke\<close>,
  \<open>cleanup_counts_any_message\<close>, \<open>calculate_delay_overflows\<close>, \<open>repaired_code_refused\<close>,
  \<open>list_action_raises\<close>, \<open>torn_append_published\<close>, \<open>abort_twice_discards_other\<close>.

  \<^bold>\<open>Fuel and termination.\<close> Every function is total. Loops of the code are structural recursions or
  recursions with a measure; the two that are not bounded by their data carry their bound in the
  code: the permission chain stops at \<open>MAX_TOOL_PERMISSION_RETRIES\<close> and the retry loop at \<open>max_retries\<close>,
  and the theorems state that they return. The step relation of a batch has no fuel: that it ends is
  the theorem \<open>batch_always_ends\<close>.

  \<^bold>\<open>Not modelled.\<close>

    \<^item> The kernel loop itself (\<open>kernel/loop.py\<close>, \<open>agent.py\<close>, \<open>core.py\<close>), the context engine and its
      compaction: they compose the parts above with model requests and texts; their decisions that are
      modelled are those of the parts.
    \<^item> In \<open>Dispatch\<close>: path preparation of browser captures, artifact detection, traces, follow-up
      blocks and the observers of finished calls; \<open>process_tool_result\<close> is the service \<open>sv_process\<close>.
    \<^item> Extraction of paths from shell commands, the other tools (shell, Jupyter, files, ripgrep,
      images, browser), model clients, MCP transport and catalogues, memory, skills, the ACP host, the
      command line, configuration and the desktop adapters: input and output, subprocesses, networks
      and text, with little state of their own that other parts rely on.
    \<^item> Time is an order of steps, digests and JSON parsing are parameters, logging has no effect.
\<close>

end
